(* ===== verification/Prelude.thy ===== *)
theory Prelude
  imports Main "HOL-Library.Word" "HOL-Library.Monad_Syntax"
begin

text \<open>
  Shared vocabulary of the development: the machine-integer types of the Rust sources, the
  outcome of a fallible Rust function, shifts with the release-profile rule for the shift
  amount, little-endian byte strings and their word views, slice updates that panic out of
  range, and the binary searches of the Rust slice library.

  Arithmetic follows the release profile of the workspace (no overflow checks): \<open>+\<close>, \<open>-\<close>,
  \<open>*\<close> on words wrap, a shift uses its amount modulo the width, and a \<open>debug_assert!\<close> is a
  precondition and not a check. Out-of-range slice accesses panic in every profile and are
  modelled as \<open>None\<close> (a function that can only return or panic) or as \<open>Panicked\<close>.
\<close>

unbundle bit_operations_syntax

section \<open>Types\<close>

type_synonym u8 = "8 word"
type_synonym u16 = "16 word"
type_synonym u32 = "32 word"
type_synonym u64 = "64 word"
type_synonym bytes = "8 word list"

text \<open>The outcome of a Rust function returning \<open>Result<T>\<close> that may also panic.\<close>

datatype ('e, 'a) outcome = Ok 'a | Error 'e | Panicked

primrec bind_outcome :: "('e, 'a) outcome \<Rightarrow> ('a \<Rightarrow> ('e, 'b) outcome) \<Rightarrow> ('e, 'b) outcome" where
  "bind_outcome (Ok a) f = f a"
| "bind_outcome (Error e) f = Error e"
| "bind_outcome Panicked f = Panicked"

definition of_panic :: "'a option \<Rightarrow> ('e, 'a) outcome" where
  "of_panic m = (case m of None \<Rightarrow> Panicked | Some a \<Rightarrow> Ok a)"

definition ensure :: "bool \<Rightarrow> 'e \<Rightarrow> ('e, unit) outcome" where
  "ensure c e = (if c then Ok () else Error e)"

named_theorems outcome_simps \<open>inversion of outcomes\<close>
named_theorems byte_simps \<open>byte strings and their word views\<close>

lemma bind_outcome_Ok [outcome_simps]:
  "bind_outcome m f = Ok b \<longleftrightarrow> (\<exists>a. m = Ok a \<and> f a = Ok b)"
  by (cases m) auto

lemma bind_outcome_Error [outcome_simps]:
  "bind_outcome m f = Error e \<longleftrightarrow> m = Error e \<or> (\<exists>a. m = Ok a \<and> f a = Error e)"
  by (cases m) auto

lemma of_panic_Ok [outcome_simps]: "of_panic m = Ok a \<longleftrightarrow> m = Some a"
  by (cases m) (auto simp: of_panic_def)

lemma of_panic_Some [simp]: "of_panic (Some a) = Ok a"
  by (simp add: of_panic_def)

lemma of_panic_None [simp]: "of_panic None = Panicked"
  by (simp add: of_panic_def)

lemma ensure_Ok [outcome_simps]: "ensure c e = Ok u \<longleftrightarrow> c"
  by (auto simp: ensure_def)

lemma ensure_Error [outcome_simps]: "ensure c e = Error e' \<longleftrightarrow> \<not> c \<and> e' = e"
  by (auto simp: ensure_def)

lemma ensure_True [simp]: "ensure True e = Ok ()"
  by (simp add: ensure_def)

lemma ensure_False [simp]: "ensure False e = Error e"
  by (simp add: ensure_def)

section \<open>Shifts\<close>

text \<open>\<open>x << n\<close> and \<open>x >> n\<close>: the amount is taken modulo the width.\<close>

definition shl :: "'a::len word \<Rightarrow> nat \<Rightarrow> 'a word" where
  "shl x n = push_bit (n mod LENGTH('a)) x"

definition shr :: "'a::len word \<Rightarrow> nat \<Rightarrow> 'a word" where
  "shr x n = drop_bit (n mod LENGTH('a)) x"

text \<open>\<open>x >> n\<close> at a signed type.\<close>

definition sar :: "'a::len word \<Rightarrow> nat \<Rightarrow> 'a word" where
  "sar x n = signed_drop_bit (n mod LENGTH('a)) x"

lemma bit_shl [bit_simps]:
  "bit (shl (x :: 'a::len word) n) k \<longleftrightarrow>
     n mod LENGTH('a) \<le> k \<and> k < LENGTH('a) \<and> bit x (k - n mod LENGTH('a))"
  by (simp add: shl_def bit_simps)

lemma bit_shr [bit_simps]:
  "bit (shr (x :: 'a::len word) n) k \<longleftrightarrow> bit x (n mod LENGTH('a) + k)"
  by (simp add: shr_def bit_simps)

text \<open>The two's complement value of an integer at 64 bits (\<open>as i64\<close>, wrapping \<open>i64\<close> arithmetic).\<close>

definition wrap_i64 :: "int \<Rightarrow> int" where
  "wrap_i64 x = signed_take_bit 63 x"

lemma wrap_i64_id: "- (2 ^ 63) \<le> x \<Longrightarrow> x < 2 ^ 63 \<Longrightarrow> wrap_i64 x = x"
  by (simp add: wrap_i64_def signed_take_bit_int_eq_self)

lemma wrap_i64_range: "- (2 ^ 63) \<le> wrap_i64 x \<and> wrap_i64 x < 2 ^ 63"
  using signed_take_bit_int_greater_eq_minus_exp [of 63 x] signed_take_bit_int_less_exp [of 63 x]
  by (simp add: wrap_i64_def)

section \<open>Little-endian byte strings\<close>

definition to_le :: "nat \<Rightarrow> 'a::len word \<Rightarrow> bytes" where
  "to_le n w = map (\<lambda>i. ucast (drop_bit (8 * i) w)) [0..<n]"

primrec from_le :: "bytes \<Rightarrow> 'a::len word" where
  "from_le [] = 0"
| "from_le (b # bs) = ucast b OR push_bit 8 (from_le bs)"

lemma length_to_le [simp]: "length (to_le n w) = n"
  by (simp add: to_le_def)

lemma nth_to_le: "i < n \<Longrightarrow> to_le n w ! i = ucast (drop_bit (8 * i) w)"
  by (simp add: to_le_def)

lemma take_to_le: "m \<le> n \<Longrightarrow> take m (to_le n w) = to_le m w"
  by (simp add: to_le_def take_map)

lemma byte_bit_bound: "bit (b :: u8) k \<Longrightarrow> k < 8"
  by (drule bit_imp_le_length) simp

lemma bit_from_le:
  "bit (from_le bs :: 'a::len word) k \<longleftrightarrow>
     k < LENGTH('a) \<and> k div 8 < length bs \<and> bit (bs ! (k div 8)) (k mod 8)"
proof (induction bs arbitrary: k)
  case Nil
  then show ?case by simp
next
  case (Cons b bs)
  show ?case
  proof (cases "k < 8")
    case True
    then show ?thesis by (auto simp: bit_simps)
  next
    case False
    then obtain j where k: "k = 8 + j"
      by (metis le_add_diff_inverse not_less)
    have "\<not> bit b k" using False by (auto dest: byte_bit_bound)
    moreover have "k div 8 = Suc (j div 8)" "k mod 8 = j mod 8" using k by auto
    ultimately show ?thesis using k Cons.IH [of j] by (auto simp: bit_simps)
  qed
qed

lemma bit_to_le_nth:
  "i < n \<Longrightarrow> bit (to_le n (w :: 'a::len word) ! i) k \<longleftrightarrow> k < 8 \<and> bit w (8 * i + k)"
  by (auto simp: nth_to_le bit_simps dest: byte_bit_bound)

lemma from_le_to_le:
  assumes "LENGTH('a) \<le> 8 * n"
  shows "from_le (to_le n (w :: 'a::len word)) = w"
  using assms by (intro bit_word_eqI) (auto simp: bit_from_le bit_to_le_nth)

lemma to_le_from_le:
  assumes "LENGTH('a) = 8 * length bs"
  shows "to_le (length bs) (from_le bs :: 'a::len word) = bs"
proof (rule nth_equalityI)
  fix i assume "i < length (to_le (length bs) (from_le bs :: 'a word))"
  then have i: "i < length bs" by simp
  show "to_le (length bs) (from_le bs :: 'a word) ! i = bs ! i"
    by (rule bit_word_eqI) (use i assms in \<open>auto simp: bit_from_le bit_to_le_nth\<close>)
qed simp

section \<open>Reading and writing a word at the front of a byte string\<close>

definition getw :: "nat \<Rightarrow> bytes \<Rightarrow> 'a::len word" where
  "getw n bs = from_le (take n bs)"

definition putw :: "nat \<Rightarrow> 'a::len word \<Rightarrow> bytes \<Rightarrow> bytes" where
  "putw n w bs = to_le n w @ drop n bs"

lemma length_putw [byte_simps]: "n \<le> length bs \<Longrightarrow> length (putw n w bs) = length bs"
  by (simp add: putw_def)

lemma drop_putw [byte_simps]: "drop n (putw n w bs) = drop n bs"
  by (simp add: putw_def)

lemma getw_putw [byte_simps]:
  "LENGTH('a) \<le> 8 * n \<Longrightarrow> getw n (putw n (w :: 'a::len word) bs) = w"
  by (simp add: getw_def putw_def from_le_to_le)

lemma putw_putw [byte_simps]: "putw n v (putw n w bs) = putw n v bs"
  by (simp add: putw_def)

lemma putw_getw:
  assumes "LENGTH('a) = 8 * n" "n \<le> length bs"
  shows "putw n (getw n bs :: 'a::len word) bs = bs"
proof -
  have "to_le (length (take n bs)) (from_le (take n bs) :: 'a word) = take n bs"
    using assms by (intro to_le_from_le) simp
  with assms show ?thesis by (simp add: putw_def getw_def)
qed

lemma bit_getw:
  "bit (getw n bs :: 'a::len word) k \<longleftrightarrow>
     k < LENGTH('a) \<and> k div 8 < n \<and> k div 8 < length bs \<and> bit (bs ! (k div 8)) (k mod 8)"
  by (auto simp: getw_def bit_from_le)

section \<open>Slices\<close>

text \<open>\<open>&xs[a..b]\<close>: panics unless \<open>a \<le> b \<le> len\<close>.\<close>

definition slice :: "nat \<Rightarrow> nat \<Rightarrow> 'a list \<Rightarrow> 'a list option" where
  "slice a b xs = (if a \<le> b \<and> b \<le> length xs then Some (take (b - a) (drop a xs)) else None)"

text \<open>\<open>xs[a..a + ys.len()].copy_from_slice(ys)\<close>.\<close>

definition splice :: "nat \<Rightarrow> 'a list \<Rightarrow> 'a list \<Rightarrow> 'a list option" where
  "splice a ys xs =
     (if a + length ys \<le> length xs then Some (take a xs @ ys @ drop (a + length ys) xs) else None)"

text \<open>\<open>xs[i]\<close> and \<open>xs[i] = v\<close>.\<close>

definition index :: "'a list \<Rightarrow> nat \<Rightarrow> 'a option" where
  "index xs i = (if i < length xs then Some (xs ! i) else None)"

definition store :: "'a list \<Rightarrow> nat \<Rightarrow> 'a \<Rightarrow> 'a list option" where
  "store xs i v = (if i < length xs then Some (xs[i := v]) else None)"

lemma splice_length: "splice a ys xs = Some zs \<Longrightarrow> length zs = length xs"
  by (auto simp: splice_def split: if_splits)

lemma splice_outside:
  "splice a ys xs = Some zs \<Longrightarrow> i < a \<or> a + length ys \<le> i \<Longrightarrow> i < length xs \<Longrightarrow> zs ! i = xs ! i"
  by (auto simp: splice_def nth_append split: if_splits)

lemma splice_inside:
  "splice a ys xs = Some zs \<Longrightarrow> a \<le> i \<Longrightarrow> i < a + length ys \<Longrightarrow> zs ! i = ys ! (i - a)"
  by (auto simp: splice_def nth_append split: if_splits)

lemma store_length: "store xs i v = Some zs \<Longrightarrow> length zs = length xs"
  by (auto simp: store_def split: if_splits)

lemma store_outside: "store xs i v = Some zs \<Longrightarrow> j \<noteq> i \<Longrightarrow> zs ! j = xs ! j"
  by (auto simp: store_def split: if_splits)

section \<open>Binary search over slices\<close>

text \<open>
  \<open>[T]::partition_point\<close>: the bisection between \<open>lo\<close> and \<open>hi\<close>. On a slice that the predicate
  partitions it returns the length of the prefix where it holds.
\<close>

function bisect :: "('a \<Rightarrow> bool) \<Rightarrow> 'a list \<Rightarrow> nat \<Rightarrow> nat \<Rightarrow> nat" where
  "bisect P xs lo hi =
     (if lo < hi then
        let mid = (lo + hi) div 2
        in if P (xs ! mid) then bisect P xs (mid + 1) hi else bisect P xs lo mid
      else lo)"
  by pat_completeness auto
termination
  by (relation "measure (\<lambda>(P, xs, lo, hi). hi - lo)") auto

declare bisect.simps [simp del]

definition partition_point :: "('a \<Rightarrow> bool) \<Rightarrow> 'a list \<Rightarrow> nat" where
  "partition_point P xs = bisect P xs 0 (length xs)"

definition partitioned :: "('a \<Rightarrow> bool) \<Rightarrow> 'a list \<Rightarrow> bool" where
  "partitioned P xs = sorted_wrt (\<lambda>x y. P y \<longrightarrow> P x) xs"

lemma bisect_spec:
  assumes "partitioned P xs" "lo \<le> hi" "hi \<le> length xs"
    and "\<forall>i < lo. P (xs ! i)" and "\<forall>i. hi \<le> i \<and> i < length xs \<longrightarrow> \<not> P (xs ! i)"
  shows "bisect P xs lo hi \<le> length xs \<and> (\<forall>i < length xs. P (xs ! i) \<longleftrightarrow> i < bisect P xs lo hi)"
  using assms
proof (induction P xs lo hi rule: bisect.induct)
  case (1 P xs lo hi)
  show ?case
  proof (cases "lo < hi")
    case False
    then have "bisect P xs lo hi = lo" by (simp add: bisect.simps [of P xs lo hi])
    moreover have "lo = hi" using False "1.prems"(2) by simp
    ultimately show ?thesis using "1.prems"(3-5) by (metis not_less)
  next
    case True
    define mid where "mid = (lo + hi) div 2"
    have mid: "lo \<le> mid" "mid < hi" "mid < length xs"
      using True "1.prems"(3) by (auto simp: mid_def)
    have mono: "P (xs ! j) \<Longrightarrow> i \<le> j \<Longrightarrow> j < length xs \<Longrightarrow> P (xs ! i)" for i j
      using "1.prems"(1) unfolding partitioned_def
      by (metis le_neq_implies_less sorted_wrt_nth_less)
    show ?thesis
    proof (cases "P (xs ! mid)")
      case P: True
      then have "\<forall>i < mid + 1. P (xs ! i)"
        using mono mid by (auto simp: less_Suc_eq_le)
      with "1.IH"(1) [OF True mid_def P] "1.prems" mid P True show ?thesis
        by (simp add: bisect.simps [of P xs lo hi] Let_def mid_def [symmetric])
    next
      case nP: False
      then have "\<forall>i. mid \<le> i \<and> i < length xs \<longrightarrow> \<not> P (xs ! i)"
        using mono by blast
      with "1.IH"(2) [OF True mid_def nP] "1.prems" mid nP True show ?thesis
        by (simp add: bisect.simps [of P xs lo hi] Let_def mid_def [symmetric])
    qed
  qed
qed

lemma partition_point_spec:
  assumes "partitioned P xs"
  shows "partition_point P xs \<le> length xs"
    and "i < length xs \<Longrightarrow> P (xs ! i) \<longleftrightarrow> i < partition_point P xs"
proof -
  have "\<forall>i. length xs \<le> i \<and> i < length xs \<longrightarrow> \<not> P (xs ! i)" by auto
  from bisect_spec [OF assms _ _ _ this, of 0]
  show "partition_point P xs \<le> length xs"
    and "i < length xs \<Longrightarrow> P (xs ! i) \<longleftrightarrow> i < partition_point P xs"
    by (auto simp: partition_point_def)
qed

lemma partition_point_eq_takeWhile:
  assumes "partitioned P xs"
  shows "partition_point P xs = length (takeWhile P xs)"
proof -
  let ?p = "partition_point P xs"
  have "takeWhile P xs = take ?p xs"
  proof (rule takeWhile_eq_take_P_nth)
    show "P (xs ! i)" if "i < ?p" "i < length xs" for i
      using partition_point_spec(2) [OF assms that(2)] that(1) by simp
    show "\<not> P (xs ! ?p)" if "?p < length xs"
      using partition_point_spec(2) [OF assms that] by simp
  qed
  with partition_point_spec(1) [OF assms] show ?thesis by simp
qed

text \<open>\<open>[T]::binary_search_by_key\<close>: the index of a matching element, or nothing.\<close>

definition binary_search_by_key :: "'k::linorder \<Rightarrow> ('a \<Rightarrow> 'k) \<Rightarrow> 'a list \<Rightarrow> nat option" where
  "binary_search_by_key k key xs =
     (let i = partition_point (\<lambda>x. key x < k) xs
      in if i < length xs \<and> key (xs ! i) = k then Some i else None)"

abbreviation strictly_sorted :: "'k::linorder list \<Rightarrow> bool" where
  "strictly_sorted \<equiv> sorted_wrt (<)"

lemma partitioned_key_less:
  "sorted_wrt (\<lambda>x y. key x \<le> (key y :: 'k::linorder)) xs \<Longrightarrow> partitioned (\<lambda>x. key x < k) xs"
  unfolding partitioned_def by (rule sorted_wrt_mono_rel) auto

lemma strictly_sorted_weaken:
  "strictly_sorted (map key xs) \<Longrightarrow> sorted_wrt (\<lambda>x y. key x \<le> (key y :: 'k::linorder)) xs"
  unfolding sorted_wrt_map by (erule sorted_wrt_mono_rel [rotated]) simp

lemma binary_search_by_key_Some:
  "binary_search_by_key k key xs = Some i \<Longrightarrow> i < length xs \<and> key (xs ! i) = k"
  by (auto simp: binary_search_by_key_def Let_def split: if_splits)

lemma binary_search_by_key_None:
  assumes "strictly_sorted (map key xs)" "binary_search_by_key k key xs = None" "x \<in> set xs"
  shows "key x \<noteq> (k :: 'k::linorder)"
proof
  assume kx: "key x = k"
  obtain j where j: "j < length xs" "xs ! j = x"
    using assms(3) by (auto simp: in_set_conv_nth)
  define i where "i = partition_point (\<lambda>x. key x < k) xs"
  note part = partition_point_spec [OF partitioned_key_less [OF strictly_sorted_weaken [OF assms(1)]]]
  have "i \<le> j" using part(2) [of j k] j kx by (auto simp: i_def)
  have "\<not> i < j"
  proof
    assume ij: "i < j"
    then have "key (xs ! i) < key (xs ! j)"
      using assms(1) j by (auto simp: sorted_wrt_map sorted_wrt_iff_nth_less)
    with part(2) [of i k] ij j kx show False by (auto simp: i_def)
  qed
  with \<open>i \<le> j\<close> have "i = j" by simp
  with assms(2) j kx show False
    by (auto simp: binary_search_by_key_def Let_def i_def split: if_splits)
qed

end
