(* ===== verification/Bit_Misc.thy ===== *)
theory Bit_Misc
  imports Prelude
begin

text \<open>
  Bit extraction on 64-bit values (\<open>linker-utils/src/bit_misc.rs\<close>) and the byte-slice helpers
  (\<open>linker-utils/src/utils.rs\<close>): the operations that every instruction encoder is built from.
  The lemmas give the bits of each extraction, the agreement of \<open>sign_extend\<close> with two's
  complement, and the word-level reading of the in-place \<open>and\<close>/\<open>or\<close> updates.
\<close>

section \<open>Bit extraction\<close>

record BitRange =
  range_start :: nat
  range_end :: nat

text \<open>\<open>range.len()\<close> of a \<open>Range<u32>\<close> is 0 when the end precedes the start, as \<open>nat\<close> subtraction is.\<close>

definition extract_bit_range :: "u64 \<Rightarrow> nat \<Rightarrow> nat \<Rightarrow> u64" where
  "extract_bit_range x s e =
     (if s = 0 \<and> e = 64 then x else shr x s AND (shl 1 (e - s) - 1))"

definition extract_bit :: "u64 \<Rightarrow> nat \<Rightarrow> u64" where
  "extract_bit x p = extract_bit_range x p (p + 1)"

definition low_bits :: "u64 \<Rightarrow> nat \<Rightarrow> u64" where
  "low_bits x n = x AND (shl 1 n - 1)"

definition sign_extend :: "u64 \<Rightarrow> nat \<Rightarrow> u64" where
  "sign_extend x b = (if x AND shl 1 b \<noteq> 0 then x OR NOT (shl 2 b - 1) else x)"

definition low_bits_signed :: "u64 \<Rightarrow> nat \<Rightarrow> u64" where
  "low_bits_signed x n = sign_extend (low_bits x n) (n - 1)"

lemma mask_word_eq: "2 ^ n - 1 = (mask n :: 'a::len word)"
  by (simp add: mask_eq_exp_minus_1)

lemma bit_extract_bit_range:
  assumes "s < e" "e \<le> 64"
  shows "bit (extract_bit_range x s e) k \<longleftrightarrow> k < e - s \<and> bit x (s + k)"
proof (cases "s = 0 \<and> e = 64")
  case True
  then show ?thesis
    by (auto simp: extract_bit_range_def dest: bit_imp_le_length)
next
  case False
  with assms have "e - s < 64" "s < 64" by auto
  with False show ?thesis
    by (auto simp: extract_bit_range_def shl_def shr_def mask_word_eq bit_simps)
qed

lemma bit_extract_bit: "p < 64 \<Longrightarrow> bit (extract_bit x p) k \<longleftrightarrow> k = 0 \<and> bit x p"
  by (auto simp: extract_bit_def bit_extract_bit_range)

lemma extract_bit_range_eq:
  assumes "s < e" "e \<le> 64"
  shows "extract_bit_range x s e = take_bit (e - s) (drop_bit s x)"
  using assms by (intro bit_word_eqI) (auto simp: bit_extract_bit_range bit_simps)

lemma bit_low_bits: "n < 64 \<Longrightarrow> bit (low_bits x n) k \<longleftrightarrow> k < n \<and> bit x k"
  by (auto simp: low_bits_def shl_def mask_word_eq bit_simps dest: bit_imp_le_length)

lemma low_bits_eq: "n < 64 \<Longrightarrow> low_bits x n = take_bit n x"
  by (intro bit_word_eqI) (auto simp: bit_low_bits bit_simps)

lemma sign_bit_test: "b < 64 \<Longrightarrow> (x AND 2 ^ b = 0) \<longleftrightarrow> \<not> bit (x :: u64) b"
proof
  assume b: "b < 64" and "x AND 2 ^ b = 0"
  then have "\<not> bit (x AND 2 ^ b) b" by simp
  with b show "\<not> bit x b" by (simp add: bit_simps)
next
  assume "b < 64" "\<not> bit x b"
  then show "x AND 2 ^ b = 0"
    by (intro bit_word_eqI) (auto simp: bit_simps)
qed

lemma bit_sign_extend:
  assumes "b < 63"
  shows "bit (sign_extend x b) k \<longleftrightarrow> k < 64 \<and> (if b < k then bit x b \<or> bit x k else bit x k)"
proof -
  have "push_bit b 2 - 1 = (mask (b + 1) :: u64)"
    by (simp add: mask_eq_exp_minus_1 push_bit_eq_mult)
  with assms show ?thesis
    by (auto simp: sign_extend_def shl_def sign_bit_test bit_simps dest: bit_imp_le_length)
qed

lemma bit_low_bits_signed:
  assumes "0 < n" "n < 64"
  shows "bit (low_bits_signed x n) k \<longleftrightarrow> k < 64 \<and> bit x (min k (n - 1))"
  using assms by (auto simp: low_bits_signed_def bit_sign_extend bit_low_bits min_def)

lemma low_bits_signed_eq:
  assumes "0 < n" "n < 64"
  shows "low_bits_signed x n = signed_take_bit (n - 1) x"
  using assms
  by (intro bit_word_eqI) (auto simp: bit_low_bits_signed bit_signed_take_bit_iff min.commute)

section \<open>Byte slices\<close>

definition u32_from_slice :: "bytes \<Rightarrow> u32 option" where
  "u32_from_slice data = (if 4 \<le> length data then Some (from_le (take 4 data)) else None)"

definition u64_from_slice :: "bytes \<Rightarrow> u64 option" where
  "u64_from_slice data = (if 8 \<le> length data then Some (from_le (take 8 data)) else None)"

text \<open>\<open>u16::from_le_bytes([b[0], b[1]])\<close>, as the compressed RISC-V encodings read it.\<close>

definition u16_from_slice :: "bytes \<Rightarrow> u16 option" where
  "u16_from_slice data = (if 2 \<le> length data then Some (from_le (take 2 data)) else None)"

text \<open>The loops \<open>dest[i] |= v\<close> and \<open>dest[i] &= v\<close> over the bytes of the mask.\<close>

fun or_from_slice :: "bytes \<Rightarrow> bytes \<Rightarrow> bytes option" where
  "or_from_slice dest [] = Some dest"
| "or_from_slice [] (v # vs) = None"
| "or_from_slice (d # ds) (v # vs) = map_option ((#) (d OR v)) (or_from_slice ds vs)"

fun and_from_slice :: "bytes \<Rightarrow> bytes \<Rightarrow> bytes option" where
  "and_from_slice dest [] = Some dest"
| "and_from_slice [] (v # vs) = None"
| "and_from_slice (d # ds) (v # vs) = map_option ((#) (d AND v)) (and_from_slice ds vs)"

datatype read_error = NotEnoughBytes | NoNulTerminator

definition read_u32 :: "bytes \<Rightarrow> (read_error, u32 \<times> bytes) outcome" where
  "read_u32 content =
     (if 4 \<le> length content then Ok (from_le (take 4 content), drop 4 content)
      else Error NotEnoughBytes)"

text \<open>\<open>read_string\<close> before its lossy conversion to text: the bytes up to the NUL, and the rest.\<close>

definition read_string :: "bytes \<Rightarrow> (read_error, bytes \<times> bytes) outcome" where
  "read_string content =
     (let s = takeWhile (\<lambda>b. b \<noteq> 0) content
      in if length s < length content then Ok (s, drop (length s + 1) content)
         else Error NoNulTerminator)"

lemma or_from_slice_eq:
  "or_from_slice dest msk =
     (if length msk \<le> length dest
      then Some (map2 (OR) (take (length msk) dest) msk @ drop (length msk) dest) else None)"
  by (induction dest msk rule: or_from_slice.induct) auto

lemma and_from_slice_eq:
  "and_from_slice dest msk =
     (if length msk \<le> length dest
      then Some (map2 (AND) (take (length msk) dest) msk @ drop (length msk) dest) else None)"
  by (induction dest msk rule: and_from_slice.induct) auto

lemma or_from_slice_panics: "or_from_slice dest msk = None \<longleftrightarrow> length dest < length msk"
  by (auto simp: or_from_slice_eq)

lemma and_from_slice_panics: "and_from_slice dest msk = None \<longleftrightarrow> length dest < length msk"
  by (auto simp: and_from_slice_eq)

lemma map2_to_le:
  assumes "LENGTH('a) = 8 * n" "length bs = n"
    and bitwise: "\<And>a b k. bit (f a b :: u8) k \<longleftrightarrow> F (bit a k) (bit b k)"
    and wordwise: "\<And>a b k. bit (g (a :: 'a word) (b :: 'a word) :: 'a word) k \<longleftrightarrow> F (bit a k) (bit b k)"
  shows "map2 f bs (to_le n (m :: 'a::len word)) = to_le n (g (from_le bs) m)"
proof (rule nth_equalityI)
  fix i assume "i < length (map2 f bs (to_le n m))"
  then have i: "i < n" using assms(2) by simp
  then have k: "k < 8 \<Longrightarrow> 8 * i + k < LENGTH('a)" for k using assms(1) by simp
  have beyond: "\<not> F False False" using bitwise [of 0 0 0] byte_bit_bound [of "f 0 0" 8]
      bitwise [of 0 0 8] by auto
  show "map2 f bs (to_le n m) ! i = to_le n (g (from_le bs) m) ! i"
    by (rule bit_word_eqI)
      (use i assms(1,2) k beyond in
        \<open>auto simp: bitwise wordwise bit_to_le_nth bit_from_le\<close>)
qed (use assms(2) in simp)

lemma or_from_slice_putw [byte_simps]:
  assumes "LENGTH('a) = 8 * n" "n \<le> length dest"
  shows "or_from_slice dest (to_le n (m :: 'a::len word)) = Some (putw n (getw n dest OR m) dest)"
proof -
  have "map2 (OR) (take n dest) (to_le n m) = to_le n (from_le (take n dest) OR m)"
    using assms by (intro map2_to_le [where F = "(\<or>)"]) (auto simp: bit_or_iff)
  with assms show ?thesis
    by (simp add: or_from_slice_eq putw_def getw_def)
qed

lemma and_from_slice_putw [byte_simps]:
  assumes "LENGTH('a) = 8 * n" "n \<le> length dest"
  shows "and_from_slice dest (to_le n (m :: 'a::len word)) = Some (putw n (getw n dest AND m) dest)"
proof -
  have "map2 (AND) (take n dest) (to_le n m) = to_le n (from_le (take n dest) AND m)"
    using assms by (intro map2_to_le [where F = "(\<and>)"]) (auto simp: bit_and_iff)
  with assms show ?thesis
    by (simp add: and_from_slice_eq putw_def getw_def)
qed

lemma u32_from_slice_getw [byte_simps]:
  "4 \<le> length bs \<Longrightarrow> u32_from_slice bs = Some (getw 4 bs)"
  by (simp add: u32_from_slice_def getw_def)

lemma u64_from_slice_getw [byte_simps]:
  "8 \<le> length bs \<Longrightarrow> u64_from_slice bs = Some (getw 8 bs)"
  by (simp add: u64_from_slice_def getw_def)

lemma u16_from_slice_getw [byte_simps]:
  "2 \<le> length bs \<Longrightarrow> u16_from_slice bs = Some (getw 2 bs)"
  by (simp add: u16_from_slice_def getw_def)

lemma read_u32_consumes:
  "read_u32 content = Ok (v, rest) \<Longrightarrow> content = to_le 4 v @ rest"
proof -
  assume "read_u32 content = Ok (v, rest)"
  then have len: "4 \<le> length content" and v: "v = from_le (take 4 content)"
    and rest: "rest = drop 4 content"
    by (auto simp: read_u32_def split: if_splits)
  have "to_le (length (take 4 content)) (from_le (take 4 content) :: u32) = take 4 content"
    using len by (intro to_le_from_le) simp
  then have "to_le 4 v = take 4 content" using len v by simp
  then show ?thesis by (simp add: rest)
qed

lemma read_string_consumes:
  "read_string content = Ok (s, rest) \<longleftrightarrow> content = s @ 0 # rest \<and> 0 \<notin> set s"
proof
  assume "read_string content = Ok (s, rest)"
  then have s: "s = takeWhile (\<lambda>b. b \<noteq> 0) content" and len: "length s < length content"
    and rest: "rest = drop (length s + 1) content"
    by (auto simp: read_string_def Let_def split: if_splits)
  have "content ! length s = 0" using nth_length_takeWhile [of "\<lambda>b. b \<noteq> 0" content] s len by simp
  moreover have "take (length s) content = s" by (simp add: s takeWhile_eq_take [symmetric])
  ultimately have "content = s @ 0 # rest"
    using id_take_nth_drop [OF len] rest by simp
  moreover have "0 \<notin> set s" using s set_takeWhileD by fastforce
  ultimately show "content = s @ 0 # rest \<and> 0 \<notin> set s" ..
next
  assume "content = s @ 0 # rest \<and> 0 \<notin> set s"
  then show "read_string content = Ok (s, rest)"
    by (auto simp: read_string_def Let_def takeWhile_append)
qed

end
