(* ===== verification/Alignment.thy ===== *)
theory Alignment
  imports Bit_Misc
begin

text \<open>
  Power-of-two alignments (\<open>libjdxld/src/alignment.rs\<close>). An \<open>Alignment\<close> is its exponent; its
  invariant is that the exponent is at most \<open>MAX_ALIGNMENT_EXPONENT\<close>. The lemmas give what the
  constructor accepts, the arithmetic meaning of rounding up and down, and the contract of
  \<open>align_modulo\<close>: the least offset at or above the aligned one with a given residue.
\<close>

section \<open>Model\<close>

record Alignment =
  exponent :: u8

definition MAX_ALIGNMENT_EXPONENT :: nat where
  "MAX_ALIGNMENT_EXPONENT = 21"

definition NUM_ALIGNMENTS :: nat where
  "NUM_ALIGNMENTS = MAX_ALIGNMENT_EXPONENT + 1"

datatype alignment_error = InvalidAlignment u64 | UnsupportedAlignment u64

text \<open>
  \<open>u64::is_power_of_two\<close> (one set bit), \<open>u64::trailing_zeros\<close> and \<open>u64::next_multiple_of\<close>.
\<close>

definition is_power_of_two :: "u64 \<Rightarrow> bool" where
  "is_power_of_two x = (length (filter (bit x) [0..<64]) = 1)"

definition trailing_zeros :: "u64 \<Rightarrow> nat" where
  "trailing_zeros x = length (takeWhile (\<lambda>i. \<not> bit x i) [0..<64])"

definition next_multiple_of :: "u64 \<Rightarrow> u64 \<Rightarrow> u64" where
  "next_multiple_of x m = (let r = x mod m in if r = 0 then x else x + (m - r))"

definition alignment_new :: "u64 \<Rightarrow> (alignment_error, Alignment) outcome" where
  "alignment_new raw =
     (if \<not> is_power_of_two raw then Error (InvalidAlignment raw)
      else if MAX_ALIGNMENT_EXPONENT < trailing_zeros raw then Error (UnsupportedAlignment raw)
      else Ok \<lparr>exponent = word_of_nat (trailing_zeros raw)\<rparr>)"

definition from_exponent :: "u32 \<Rightarrow> (alignment_error, Alignment) outcome" where
  "from_exponent e =
     (if MAX_ALIGNMENT_EXPONENT < unat e then Error (UnsupportedAlignment (ucast e))
      else Ok \<lparr>exponent = ucast e\<rparr>)"

definition alignment_value :: "Alignment \<Rightarrow> u64" where
  "alignment_value a = shl 1 (unat (exponent a))"

definition alignment_mask :: "Alignment \<Rightarrow> u64" where
  "alignment_mask a = alignment_value a - 1"

definition align_up :: "Alignment \<Rightarrow> u64 \<Rightarrow> u64" where
  "align_up a v = next_multiple_of v (alignment_value a)"

definition align_down :: "Alignment \<Rightarrow> u64 \<Rightarrow> u64" where
  "align_down a v = v AND NOT (alignment_mask a)"

definition align_modulo :: "Alignment \<Rightarrow> u64 \<Rightarrow> u64 \<Rightarrow> u64" where
  "align_modulo a ref_offset offset0 =
     (let m = alignment_mask a;
          offset = align_up a offset0
      in if offset AND m = ref_offset AND m then offset
         else
           let adjustment = (ref_offset AND m) + alignment_value a - (offset AND m);
               adjustment' =
                 (if alignment_value a < adjustment then adjustment - alignment_value a
                  else adjustment)
           in offset + adjustment')"

definition valid_alignment :: "Alignment \<Rightarrow> bool" where
  "valid_alignment a = (unat (exponent a) \<le> MAX_ALIGNMENT_EXPONENT)"

section \<open>The constructor\<close>

lemma trailing_zeros_exp: "e < 64 \<Longrightarrow> trailing_zeros (2 ^ e) = e"
proof -
  assume e: "e < 64"
  have "takeWhile (\<lambda>i. \<not> bit (2 ^ e :: u64) i) [0..<64] = take e [0..<64]"
    using e by (intro takeWhile_eq_take_P_nth) (auto simp: bit_simps)
  with e show ?thesis by (simp add: trailing_zeros_def)
qed

lemma is_power_of_two_iff: "is_power_of_two x \<longleftrightarrow> (\<exists>e < 64. x = 2 ^ e)"
proof
  assume "is_power_of_two x"
  then obtain t where t: "filter (bit x) [0..<64] = [t]"
    by (auto simp: is_power_of_two_def length_Suc_conv)
  have bits: "i < 64 \<Longrightarrow> bit x i \<longleftrightarrow> i = t" for i
    using arg_cong [OF t, of set] by (auto simp: set_eq_iff)
  have t64: "t < 64"
    using arg_cong [OF t, of set] by auto
  have "x = 2 ^ t"
    by (rule bit_word_eqI) (use bits t64 in \<open>auto simp: bit_simps\<close>)
  with t64 show "\<exists>e < 64. x = 2 ^ e" by blast
next
  assume "\<exists>e < 64. x = 2 ^ e"
  then obtain e where e: "e < 64" "x = 2 ^ e" by blast
  have "filter (bit x) [0..<64] = filter (\<lambda>i. i = e) [0..<64]"
    by (rule filter_cong) (use e in \<open>auto simp: bit_simps\<close>)
  also have "length \<dots> = card {i \<in> set [0..<64]. i = e}"
    by (metis distinct_card distinct_filter distinct_upt set_filter)
  also have "{i \<in> set [0..<64]. i = e} = {e}" using e by auto
  finally show "is_power_of_two x" by (simp add: is_power_of_two_def)
qed

lemma alignment_new_Ok:
  "alignment_new raw = Ok a \<longleftrightarrow> (valid_alignment a \<and> raw = 2 ^ unat (exponent a))"
proof
  assume "alignment_new raw = Ok a"
  then have p: "is_power_of_two raw" and le: "trailing_zeros raw \<le> 21"
    and a: "a = \<lparr>exponent = word_of_nat (trailing_zeros raw)\<rparr>"
    by (auto simp: alignment_new_def MAX_ALIGNMENT_EXPONENT_def split: if_splits)
  from p obtain e where e: "e < 64" "raw = 2 ^ e" by (auto simp: is_power_of_two_iff)
  with le have "e \<le> 21" by (simp add: trailing_zeros_exp)
  then have "unat (word_of_nat e :: u8) = e" by (simp add: unsigned_of_nat take_bit_nat_eq_self)
  with e a \<open>e \<le> 21\<close> show "valid_alignment a \<and> raw = 2 ^ unat (exponent a)"
    by (simp add: valid_alignment_def trailing_zeros_exp MAX_ALIGNMENT_EXPONENT_def)
next
  assume a: "valid_alignment a \<and> raw = 2 ^ unat (exponent a)"
  then have "unat (exponent a) < 64"
    by (simp add: valid_alignment_def MAX_ALIGNMENT_EXPONENT_def)
  with a show "alignment_new raw = Ok a"
    by (auto simp: alignment_new_def is_power_of_two_iff trailing_zeros_exp valid_alignment_def)
qed

section \<open>Arithmetic reading of the operations\<close>

lemma valid_alignment_exp:
  "valid_alignment a \<Longrightarrow> alignment_value a = 2 ^ unat (exponent a) \<and> unat (exponent a) < 64"
  by (auto simp: valid_alignment_def MAX_ALIGNMENT_EXPONENT_def alignment_value_def shl_def)

lemma unat_exp: "n < LENGTH('a) \<Longrightarrow> unat (2 ^ n :: 'a::len word) = 2 ^ n"
  by transfer simp

lemma unat_alignment_value:
  "valid_alignment a \<Longrightarrow> unat (alignment_value a) = 2 ^ unat (exponent a)"
  using valid_alignment_exp [of a] by (simp add: unat_exp)

lemma unat_and_mask:
  "valid_alignment a \<Longrightarrow> unat (v AND alignment_mask a) = unat v mod 2 ^ unat (exponent a)"
proof -
  assume "valid_alignment a"
  then have a: "alignment_value a = 2 ^ unat (exponent a)" "unat (exponent a) < 64"
    using valid_alignment_exp by blast+
  have "v AND alignment_mask a = take_bit (unat (exponent a)) v"
    by (simp add: alignment_mask_def a mask_word_eq take_bit_eq_mask)
  then show ?thesis by (simp only: unsigned_take_bit_eq) (simp add: take_bit_eq_mod)
qed

lemma unat_align_up:
  assumes "valid_alignment a" "unat v + 2 ^ unat (exponent a) \<le> 2 ^ 64"
  defines "m \<equiv> 2 ^ unat (exponent a)"
  shows "unat (align_up a v) = (unat v + (m - 1)) div m * m"
proof -
  have m: "unat (alignment_value a) = m" "0 < m"
    using assms by (simp_all add: unat_alignment_value)
  define r where "r = unat v mod m"
  have r: "unat (v mod alignment_value a) = r" "r < m"
    using m by (simp_all add: unat_mod_distrib r_def)
  have split: "unat v = unat v div m * m + r" by (simp add: r_def)
  show ?thesis
  proof (cases "r = 0")
    case True
    then have "v mod alignment_value a = 0" using r by (simp add: unat_eq_0)
    then have "align_up a v = v" by (simp add: align_up_def next_multiple_of_def)
    moreover have "(unat v + (m - 1)) div m = unat v div m"
    proof -
      have "unat v + (m - 1) = (unat v div m) * m + (m - 1)" using True split by simp
      also have "\<dots> div m = unat v div m + (m - 1) div m" using m(2) by (intro div_mult_self3) simp
      finally show ?thesis using m(2) by simp
    qed
    ultimately show ?thesis using True split by simp
  next
    case False
    then have "v mod alignment_value a \<noteq> 0" using r by (metis unat_0)
    then have "align_up a v = v + (alignment_value a - v mod alignment_value a)"
      by (simp add: align_up_def next_multiple_of_def Let_def)
    moreover have "unat (alignment_value a - v mod alignment_value a) = m - r"
      using m r by (metis unat_sub word_less_nat_alt less_or_eq_imp_le word_le_nat_alt)
    moreover have "unat v + (m - r) < 2 ^ 64"
      using assms(2) False r(2) by (auto simp: m_def)
    ultimately have "unat (align_up a v) = unat v + (m - r)"
      by (simp add: unat_word_ariths)
    moreover have "(unat v + (m - 1)) div m = unat v div m + 1"
    proof -
      have "unat v + (m - 1) = (unat v div m + 1) * m + (r - 1)"
        using split False r(2) by (simp add: algebra_simps)
      also have "\<dots> div m = unat v div m + 1 + (r - 1) div m"
        using m(2) by (intro div_mult_self3) simp
      finally show ?thesis using r(2) by simp
    qed
    ultimately show ?thesis using split r(2) by simp
  qed
qed

lemma unat_align_down:
  assumes "valid_alignment a"
  defines "m \<equiv> 2 ^ unat (exponent a)"
  shows "unat (align_down a v) = unat v div m * m"
proof -
  have "v = align_down a v OR (v AND alignment_mask a)"
    and "align_down a v AND (v AND alignment_mask a) = 0"
    by (rule bit_word_eqI; auto simp: align_down_def bit_simps)+
  then have "v = align_down a v + (v AND alignment_mask a)"
    by (metis disjunctive_add_eq_or)
  then have "align_down a v = v - (v AND alignment_mask a)" by (metis add_diff_cancel_right')
  moreover have "v AND alignment_mask a \<le> v" by (rule word_and_le2)
  ultimately have "unat (align_down a v) = unat v - unat v mod m"
    using assms by (simp add: unat_sub unat_and_mask)
  then show ?thesis by (simp add: minus_mod_eq_div_mult)
qed

lemma round_up_least:
  fixes n m k :: nat
  assumes "0 < m" "m dvd k" "n \<le> k"
  shows "(n + (m - 1)) div m * m \<le> k"
proof -
  obtain q where q: "k = m * q" using assms(2) by blast
  have "(n + (m - 1)) div m \<le> (m * q + (m - 1)) div m"
    using assms(3) q by (intro div_le_mono) simp
  also have "\<dots> = q + (m - 1) div m" using assms(1) by (intro div_mult_self4) simp
  also have "\<dots> = q" using assms(1) by simp
  finally have "(n + (m - 1)) div m * m \<le> q * m" by (rule mult_le_mono1)
  then show ?thesis using q by (simp only: mult.commute)
qed

lemma round_up_ge: "0 < (m :: nat) \<Longrightarrow> n \<le> (n + (m - 1)) div m * m"
proof -
  assume "0 < m"
  then have "n + (m - 1) < (n + (m - 1)) div m * m + m"
    by (metis add.commute dividend_less_div_times)
  with \<open>0 < m\<close> show ?thesis by simp
qed

text \<open>
  The offset \<open>align_modulo\<close> returns, over the naturals: the aligned offset moved up to the
  residue of the reference.
\<close>

lemma unat_align_modulo_fits:
  assumes "valid_alignment a" "unat offset + 2 ^ unat (exponent a) \<le> 2 ^ 64"
    and room: "unat (align_up a offset) + unat ref_offset mod 2 ^ unat (exponent a) < 2 ^ 64"
  defines "m \<equiv> 2 ^ unat (exponent a)"
  shows "unat (align_modulo a ref_offset offset) = unat (align_up a offset) + unat ref_offset mod m"
proof -
  define up where "up = align_up a offset"
  define r where "r = unat ref_offset mod m"
  have m: "0 < m" "unat (alignment_value a) = m" and rm: "r < m"
    using assms(1) by (simp_all add: m_def r_def unat_alignment_value)
  have up: "unat up = (unat offset + (m - 1)) div m * m"
    using assms by (simp add: up_def m_def unat_align_up)
  have room: "unat up + r < 2 ^ 64" using assms(3) by (simp add: up_def r_def m_def)
  have "unat (exponent a) \<le> 21" using assms(1) by (simp add: valid_alignment_def MAX_ALIGNMENT_EXPONENT_def)
  then have m63: "m \<le> 2 ^ 21" unfolding m_def by (intro power_increasing) simp_all
  have upm: "up AND alignment_mask a = 0"
    using unat_and_mask [OF assms(1), of up] up by (simp add: m_def flip: unat_eq_0)
  have ref: "unat (ref_offset AND alignment_mask a) = r"
    using assms(1) by (simp add: unat_and_mask r_def m_def)
  show ?thesis
  proof (cases "r = 0")
    case True
    then have "ref_offset AND alignment_mask a = 0" using ref by (simp add: unat_eq_0)
    with upm True show ?thesis by (simp add: align_modulo_def Let_def up_def r_def)
  next
    case False
    have rne: "ref_offset AND alignment_mask a \<noteq> 0" using False ref by (metis unat_0)
    let ?adj = "(ref_offset AND alignment_mask a) + alignment_value a"
    have "r + m < 2 ^ 64" using rm m63 by simp
    then have adj: "unat ?adj = r + m"
      using ref m by (simp add: unat_word_ariths)
    then have gt: "alignment_value a < ?adj"
      using False m by (simp add: word_less_nat_alt)
    have "align_modulo a ref_offset offset = up + (ref_offset AND alignment_mask a)"
      using rne upm gt by (simp add: align_modulo_def Let_def up_def)
    with ref rm room show ?thesis by (simp add: unat_word_ariths up_def r_def)
  qed
qed

lemma unat_align_up_less: "valid_alignment a \<Longrightarrow> unat v + 2 ^ unat (exponent a) \<le> 2 ^ 64 \<Longrightarrow>
    unat (align_up a v) < unat v + 2 ^ unat (exponent a)"
proof -
  assume a: "valid_alignment a" "unat v + 2 ^ unat (exponent a) \<le> 2 ^ 64"
  have "unat (align_up a v) \<le> unat v + (2 ^ unat (exponent a) - 1)"
    unfolding unat_align_up [OF a] by (rule div_times_less_eq_dividend)
  moreover have "(0 :: nat) < 2 ^ unat (exponent a)" by simp
  ultimately show ?thesis by linarith
qed

lemma unat_align_modulo:
  assumes "valid_alignment a" "unat offset + 2 * 2 ^ unat (exponent a) \<le> 2 ^ 64"
  shows "unat (align_modulo a ref_offset offset) = unat (align_up a offset) + unat ref_offset mod 2 ^ unat (exponent a)"
proof (rule unat_align_modulo_fits [OF assms(1)])
  show fits: "unat offset + 2 ^ unat (exponent a) \<le> 2 ^ 64" using assms(2) by simp
  have "unat ref_offset mod 2 ^ unat (exponent a) < 2 ^ unat (exponent a)" by simp
  then show "unat (align_up a offset) + unat ref_offset mod 2 ^ unat (exponent a) < 2 ^ 64"
    using unat_align_up_less [OF assms(1) fits] assms(2) by linarith
qed

text \<open>A multiple of the alignment below \<open>2^64\<close> leaves room for another one.\<close>

lemma multiple_room:
  assumes "valid_alignment a" "2 ^ unat (exponent a) dvd k" "unat (v :: u64) \<le> k" "k < 2 ^ 64"
  shows "unat v + 2 ^ unat (exponent a) \<le> 2 ^ 64"
proof -
  define m :: nat where "m = 2 ^ unat (exponent a)"
  have "unat (exponent a) \<le> 64" using assms(1) by (simp add: valid_alignment_def MAX_ALIGNMENT_EXPONENT_def)
  then have "m dvd 2 ^ 64" unfolding m_def by (rule le_imp_power_dvd)
  then have "m dvd 2 ^ 64 - k" using assms(2) unfolding m_def by (rule dvd_diff_nat)
  then have "m \<le> 2 ^ 64 - k" using assms(4) by (intro dvd_imp_le) simp_all
  then show ?thesis using assms(3,4) unfolding m_def by linarith
qed

section \<open>Properties\<close>

text \<open>
  C1. \<open>Alignment::new\<close> returns an alignment exactly for the powers of two up to \<open>2^21\<close>, and the
  value of that alignment is the number it was made from; every other input is an error (not a
  power of two, or a power of two that is too large), never a panic.
\<close>

theorem alignment_new_correct:
  "(case alignment_new raw of
      Ok a \<Rightarrow> valid_alignment a \<and> alignment_value a = raw
    | Error (InvalidAlignment r) \<Rightarrow> r = raw \<and> (\<forall>e. raw = 2 ^ e \<longrightarrow> 64 \<le> e)
    | Error (UnsupportedAlignment r) \<Rightarrow> r = raw \<and> (\<exists>e. 21 < e \<and> e < 64 \<and> raw = 2 ^ e)
    | Panicked \<Rightarrow> False)"
proof (cases "is_power_of_two raw")
  case False
  then have "alignment_new raw = Error (InvalidAlignment raw)" by (simp add: alignment_new_def)
  moreover have "\<forall>e. raw = 2 ^ e \<longrightarrow> 64 \<le> e"
    using False by (auto simp: is_power_of_two_iff not_less)
  ultimately show ?thesis by simp
next
  case True
  then obtain e where e: "e < 64" "raw = 2 ^ e" by (auto simp: is_power_of_two_iff)
  show ?thesis
  proof (cases "e \<le> 21")
    case False
    then have "\<exists>e. 21 < e \<and> e < 64 \<and> raw = 2 ^ e" using e by (intro exI [of _ e]) simp
    moreover have "alignment_new raw = Error (UnsupportedAlignment raw)"
      using True e False
      by (simp add: alignment_new_def trailing_zeros_exp MAX_ALIGNMENT_EXPONENT_def)
    ultimately show ?thesis by simp
  next
    case le: True
    with True e obtain a where a: "alignment_new raw = Ok a"
      by (simp add: alignment_new_def trailing_zeros_exp MAX_ALIGNMENT_EXPONENT_def)
    then have "valid_alignment a" "raw = 2 ^ unat (exponent a)" by (simp_all add: alignment_new_Ok)
    with a show ?thesis by (simp add: valid_alignment_exp)
  qed
qed

theorem alignment_new_correct_witness:
  "alignment_new 16 = Ok \<lparr>exponent = 4\<rparr> \<and> alignment_value \<lparr>exponent = 4\<rparr> = 16 \<and>
   alignment_new 0x800000 = Error (UnsupportedAlignment 0x800000) \<and> (\<exists>e > 21. e < 64 \<and> (0x800000 :: u64) = 2 ^ e)"
proof -
  have "alignment_new 16 = Ok \<lparr>exponent = 4\<rparr>" "alignment_new 0x800000 = Error (UnsupportedAlignment 0x800000)"
    by code_simp+
  then show ?thesis
    using alignment_new_correct [of 16] alignment_new_correct [of "0x800000"] by auto
qed

text \<open>
  C2. \<open>align_modulo\<close> returns the least offset that is at least \<open>align_up(offset)\<close> and has the same
  residue as the reference offset modulo the alignment, whenever that offset fits in 64 bits: when in
  some aligned block at or above the offset the residue is still below \<open>2^64\<close>.
\<close>

theorem align_modulo_least:
  assumes "valid_alignment a" "unat offset \<le> q * unat (alignment_value a)"
    and "q * unat (alignment_value a) + unat ref_offset mod unat (alignment_value a) < 2 ^ 64"
  shows "unat offset \<le> unat (align_up a offset) \<and>
    unat (align_up a offset) \<le> unat (align_modulo a ref_offset offset) \<and>
    unat (align_modulo a ref_offset offset) mod unat (alignment_value a)
      = unat ref_offset mod unat (alignment_value a) \<and>
    (\<forall>k. unat (align_up a offset) \<le> k \<and>
         k mod unat (alignment_value a) = unat ref_offset mod unat (alignment_value a) \<longrightarrow>
         unat (align_modulo a ref_offset offset) \<le> k)"
proof -
  define m where "m = unat (alignment_value a)"
  have m: "m = 2 ^ unat (exponent a)" using assms(1) by (simp add: m_def unat_alignment_value)
  have mpos: "0 < m" by (simp add: m)
  define up where "up = unat (align_up a offset)"
  have q: "q * m < 2 ^ 64" "unat offset \<le> q * m" using assms(2,3) by (simp_all add: m_def)
  have fits: "unat offset + 2 ^ unat (exponent a) \<le> 2 ^ 64"
    by (rule multiple_room [OF assms(1) _ q(2,1)]) (simp add: m)
  have up: "up = (unat offset + (m - 1)) div m * m"
    using unat_align_up [OF assms(1) fits] by (simp add: up_def m)
  then have dvd: "m dvd up" by simp
  have "up \<le> q * m" unfolding up by (rule round_up_least [OF mpos _ q(2)]) simp
  then have room: "up + unat ref_offset mod m < 2 ^ 64" using assms(3) by (simp add: m_def)
  have res: "unat (align_modulo a ref_offset offset) = up + unat ref_offset mod m"
    using unat_align_modulo_fits [OF assms(1) fits, of ref_offset] room by (simp add: up_def m)
  have "up + unat ref_offset mod m \<le> k" if "up \<le> k" "k mod m = unat ref_offset mod m" for k
  proof -
    have "up div m \<le> k div m" using that(1) by (rule div_le_mono)
    then have "up div m * m + k mod m \<le> k div m * m + k mod m"
      by (intro add_right_mono mult_le_mono1)
    then have "up div m * m + k mod m \<le> k" by (simp only: div_mult_mod_eq)
    with dvd that(2) show ?thesis by simp
  qed
  moreover have "(up + unat ref_offset mod m) mod m = unat ref_offset mod m"
    using dvd by (auto elim!: dvdE)
  moreover have "unat offset \<le> up" unfolding up by (rule round_up_ge [OF mpos])
  ultimately show ?thesis using res by (simp add: up_def m_def)
qed

theorem align_modulo_least_witness:
  "align_modulo \<lparr>exponent = 12\<rparr> 0x123456 0xffffffffffffe456 = 0xfffffffffffff456 \<and>
   unat (align_up \<lparr>exponent = 12\<rparr> 0xffffffffffffe456) \<le> unat (align_modulo \<lparr>exponent = 12\<rparr> 0x123456 0xffffffffffffe456)"
proof -
  have v: "valid_alignment \<lparr>exponent = 12\<rparr>" by code_simp
  have r: "unat (0xffffffffffffe456 :: u64) \<le> 0xfffffffffffff * unat (alignment_value \<lparr>exponent = 12\<rparr>)"
    "0xfffffffffffff * unat (alignment_value \<lparr>exponent = 12\<rparr>) +
       unat (0x123456 :: u64) mod unat (alignment_value \<lparr>exponent = 12\<rparr>) < 2 ^ 64"
    by (simp_all add: alignment_value_def shl_def)
  have c: "align_modulo \<lparr>exponent = 12\<rparr> 0x123456 0xffffffffffffe456 = 0xfffffffffffff456" by code_simp
  from align_modulo_least [OF v r] c show ?thesis by blast
qed

text \<open>
  C3. \<open>align_up\<close> and \<open>align_down\<close> return the nearest multiples of the alignment: whenever some multiple
  at or above the value fits in 64 bits, \<open>align_up\<close> is the least of them; \<open>align_down\<close> is the greatest
  multiple at or below the value, for every value.
\<close>

theorem align_nearest:
  assumes "valid_alignment a"
  shows "(\<forall>k < 2 ^ 64. unat (alignment_value a) dvd k \<and> unat v \<le> k \<longrightarrow>
       unat (alignment_value a) dvd unat (align_up a v) \<and> unat v \<le> unat (align_up a v) \<and> unat (align_up a v) \<le> k) \<and>
    unat (alignment_value a) dvd unat (align_down a v) \<and> unat (align_down a v) \<le> unat v \<and>
    (\<forall>k. unat (alignment_value a) dvd k \<and> k \<le> unat v \<longrightarrow> k \<le> unat (align_down a v))"
proof -
  define m where "m = unat (alignment_value a)"
  have m: "m = 2 ^ unat (exponent a)" using assms by (simp add: m_def unat_alignment_value)
  have mpos: "0 < m" by (simp add: m)
  have "m dvd unat (align_up a v) \<and> unat v \<le> unat (align_up a v) \<and> unat (align_up a v) \<le> k"
    if k: "k < 2 ^ 64" "m dvd k" "unat v \<le> k" for k
  proof -
    have "unat (align_up a v) = (unat v + (m - 1)) div m * m"
      using unat_align_up [OF assms multiple_room [OF assms _ k(3,1)]] k(2) by (simp add: m)
    then show ?thesis using round_up_least [OF mpos k(2,3)] round_up_ge [OF mpos, of "unat v"] by simp
  qed
  moreover have down: "unat (align_down a v) = unat v div m * m"
    using assms by (simp add: unat_align_down m)
  moreover have "k \<le> unat v div m * m" if "m dvd k" "k \<le> unat v" for k
    using that by (metis div_le_mono dvd_div_mult_self mult_le_mono1)
  ultimately show ?thesis by (simp add: m_def [symmetric])
qed

theorem align_nearest_witness:
  "align_up \<lparr>exponent = 4\<rparr> 31 = 32 \<and> unat (31 :: u64) \<le> unat (align_up \<lparr>exponent = 4\<rparr> 31) \<and>
   align_down \<lparr>exponent = 4\<rparr> 31 = 16 \<and> unat (align_down \<lparr>exponent = 4\<rparr> 31) \<le> unat (31 :: u64)"
proof -
  have v: "valid_alignment \<lparr>exponent = 4\<rparr>" by code_simp
  have r: "(32 :: nat) < 2 ^ 64" "unat (alignment_value \<lparr>exponent = 4\<rparr>) dvd 32 \<and> unat (31 :: u64) \<le> 32"
    by (simp_all add: alignment_value_def shl_def)
  have c: "align_up \<lparr>exponent = 4\<rparr> 31 = 32" "align_down \<lparr>exponent = 4\<rparr> 31 = 16" by code_simp+
  from align_nearest [OF v, of 31] r c show ?thesis by blast
qed

end
