(* ===== verification/Reloc_Types.thy ===== *)
theory Reloc_Types
  imports Bit_Misc
begin

text \<open>
  The shared relocation vocabulary of \<open>linker-utils/src/elf.rs\<close>: relocation kinds, instruction
  encodings, sizes, page masks and allowed ranges, and the checks that \<open>RelocationKindInfo\<close> makes
  on a computed value.

  A relocation type (\<open>object::elf::RelocationType\<close>) is named by the identifier of its constant,
  since the numbers live in the \<open>object\<close> crate; distinct constants are distinct types.
  An \<open>i64\<close> is an \<open>int\<close> in its range, and arithmetic that can leave the range wraps by \<open>wrap_i64\<close>.
\<close>

section \<open>Enumerations\<close>

type_synonym rtype = string

datatype Sign = Signed | Unsigned

datatype RelocationKind =
    Absolute
  | AbsoluteSet
  | AbsoluteSetWord6
  | AbsoluteAddition
  | AbsoluteAdditionWord6
  | AbsoluteSubtraction
  | AbsoluteSubtractionWord6
  | AbsoluteLowPart
  | PairSubtractionULEB128 rtype
  | Relative
  | RelativeLoongArchHigh
  | RelativeRiscVLow12
  | SymRelGotBase
  | GotRelGotBase
  | Got
  | PltRelGotBase
  | PltRelative
  | GotRelative
  | GotRelativeLoongArch64
  | TlsGd
  | TlsGdGot
  | TlsGdGotBase
  | TlsLd
  | TlsLdGot
  | TlsLdGotBase
  | DtpOff
  | GotTpOff
  | GotTpOffLoongArch64
  | GotTpOffGot
  | GotTpOffGotBase
  | TpOff
  | TlsDesc
  | TlsDescLoongArch64
  | TlsDescGot
  | TlsDescGotBase
  | TlsDescCall
  | NoRelocation
  | AlignmentReloc

definition is_tls :: "RelocationKind \<Rightarrow> bool" where
  "is_tls k = (k \<in> {DtpOff, GotTpOff, GotTpOffGotBase, TlsDesc, TlsDescCall, TlsDescGot, TlsDescGotBase,
     TlsGd, TlsGdGot, TlsGdGotBase, TlsLd, TlsLdGot, TlsLdGotBase, TpOff})"

datatype AArch64Instruction =
    Adr | Movkz | Movnz | Ldr | LdrRegister | Add | LdSt | TstBr | Bcond | JumpCall | MachOLow12

datatype RiscVInstruction =
    UiType | UType | IType | SType | BType | JType | CbType | CjType | CluiType

datatype LoongArch64Instruction = Shift5 | Shift10 | Branch21 | Branch26 | Call30 | Call36

datatype Ppc64Instruction = PpcD | PpcDs | Branch14 | Branch24

datatype RelocationInstruction =
    AArch64 AArch64Instruction
  | RiscV RiscVInstruction
  | LoongArch64 LoongArch64Instruction
  | Ppc64 Ppc64Instruction

record BitMask =
  bm_instruction :: RelocationInstruction
  bm_range :: BitRange

definition bit_mask_new :: "RelocationInstruction \<Rightarrow> nat \<Rightarrow> nat \<Rightarrow> BitMask" where
  "bit_mask_new insn s e =
     \<lparr>bm_instruction = insn, bm_range = \<lparr>range_start = s, range_end = e\<rparr>\<rparr>"

datatype RelocationSize = ByteSize nat | BitMasking BitMask

definition bit_mask_aarch64 :: "nat \<Rightarrow> nat \<Rightarrow> AArch64Instruction \<Rightarrow> RelocationSize" where
  "bit_mask_aarch64 s e insn = BitMasking (bit_mask_new (AArch64 insn) s e)"

definition bit_mask_riscv :: "nat \<Rightarrow> nat \<Rightarrow> RiscVInstruction \<Rightarrow> RelocationSize" where
  "bit_mask_riscv s e insn = BitMasking (bit_mask_new (RiscV insn) s e)"

definition bit_mask_loongarch64 :: "nat \<Rightarrow> nat \<Rightarrow> LoongArch64Instruction \<Rightarrow> RelocationSize" where
  "bit_mask_loongarch64 s e insn = BitMasking (bit_mask_new (LoongArch64 insn) s e)"

definition bit_mask_ppc64 :: "nat \<Rightarrow> nat \<Rightarrow> Ppc64Instruction \<Rightarrow> RelocationSize" where
  "bit_mask_ppc64 s e insn = BitMasking (bit_mask_new (Ppc64 insn) s e)"

definition is_ppc64_branch :: "RelocationSize \<Rightarrow> bool" where
  "is_ppc64_branch sz =
     (case sz of
        ByteSize _ \<Rightarrow> False
      | BitMasking bm \<Rightarrow> bm_instruction bm \<in> {Ppc64 Branch14, Ppc64 Branch24})"

definition SIZE_2KB :: u64 where "SIZE_2KB = 2 ^ 11"
definition SIZE_4KB :: u64 where "SIZE_4KB = 2 ^ 12"
definition SIZE_2GB :: u64 where "SIZE_2GB = 2 ^ 31"
definition SIZE_4GB :: u64 where "SIZE_4GB = 2 ^ 32"
definition PAGE_MASK_4KB :: u64 where "PAGE_MASK_4KB = SIZE_4KB - 1"
definition PAGE_MASK_4GB :: u64 where "PAGE_MASK_4GB = SIZE_4GB - 1"

datatype PageMask =
    SymbolPlusAddendAndPosition u64
  | GotEntryAndPosition u64
  | GotBase u64
  | Position u64

section \<open>Allowed ranges\<close>

record AllowedRange =
  range_min :: int
  range_max :: int

definition range_new :: "int \<Rightarrow> int \<Rightarrow> AllowedRange" where
  "range_new lo hi = \<lparr>range_min = lo, range_max = hi\<rparr>"

definition no_check :: AllowedRange where
  "no_check = range_new (- (2 ^ 63)) (2 ^ 63 - 1)"

definition from_bit_size :: "nat \<Rightarrow> Sign \<Rightarrow> AllowedRange option" where
  "from_bit_size n_bits sign =
     (if n_bits = 0 \<or> n_bits = 64 then Some no_check
      else if n_bits = 63 \<and> sign = Unsigned then None
      else if n_bits < 64 then
        (case sign of
           Unsigned \<Rightarrow> Some (range_new 0 (2 ^ n_bits))
         | Signed \<Rightarrow> Some (range_new (- (2 ^ (n_bits - 1))) (2 ^ (n_bits - 1))))
      else None)"

definition from_byte_size :: "nat \<Rightarrow> Sign \<Rightarrow> AllowedRange option" where
  "from_byte_size n_bytes sign = from_bit_size (8 * n_bytes) sign"

text \<open>The relocation tables are constants, so a panic of these constructors is a compile error.\<close>

definition bits_range :: "nat \<Rightarrow> Sign \<Rightarrow> AllowedRange" where
  "bits_range n sign = the (from_bit_size n sign)"

definition bytes_range :: "nat \<Rightarrow> Sign \<Rightarrow> AllowedRange" where
  "bytes_range n sign = the (from_byte_size n sign)"

definition range_contains :: "AllowedRange \<Rightarrow> int \<Rightarrow> bool" where
  "range_contains r v = (range_min r \<le> v \<and> v < range_max r)"

definition range_overrun :: "AllowedRange \<Rightarrow> int \<Rightarrow> int" where
  "range_overrun r v =
     (if v < range_min r then wrap_i64 (v - range_min r)
      else if range_max r < v then wrap_i64 (v - range_max r)
      else 0)"

section \<open>Relocation information\<close>

record RelocationKindInfo =
  ri_kind :: RelocationKind
  ri_size :: RelocationSize
  ri_mask :: "PageMask option"
  ri_range :: AllowedRange
  ri_alignment :: nat
  ri_bias :: u64
  ri_thunkable :: bool

text \<open>
  A row of a relocation table: kind, size, page mask, allowed range and alignment; with the bias
  where the architecture has one.
\<close>

type_synonym reloc_row = "RelocationKind \<times> RelocationSize \<times> PageMask option \<times> AllowedRange \<times> nat"
type_synonym reloc_bias_row =
  "RelocationKind \<times> RelocationSize \<times> PageMask option \<times> AllowedRange \<times> nat \<times> u64"
type_synonym ppc64_row = "RelocationKind \<times> RelocationSize \<times> AllowedRange \<times> nat \<times> u64"

datatype reloc_error =
    NotAligned int nat
  | OutOfBounds int AllowedRange
  | UlebTooLong nat
  | OutsideSection
  | UnexpectedSize
  | UnexpectedRelocation

text \<open>\<open>usize::is_multiple_of\<close>: only zero is a multiple of zero.\<close>

definition is_multiple_of :: "u64 \<Rightarrow> nat \<Rightarrow> bool" where
  "is_multiple_of v n = (if n = 0 then v = 0 else unat v mod n = 0)"

definition verify :: "RelocationKindInfo \<Rightarrow> u64 \<Rightarrow> (reloc_error, unit) outcome" where
  "verify ri v =
     bind_outcome (ensure (is_multiple_of v (ri_alignment ri)) (NotAligned (sint v) (ri_alignment ri)))
       (\<lambda>_. ensure (range_contains (ri_range ri) (sint v)) (OutOfBounds (sint v) (ri_range ri)))"

definition LOW6_MASK :: u64 where "LOW6_MASK = 0x3f"

definition adjust_value_based_on_content ::
    "RelocationKindInfo \<Rightarrow> u64 \<Rightarrow> bytes \<Rightarrow> nat \<Rightarrow> (reloc_error, u64) outcome" where
  "adjust_value_based_on_content ri value content offset =
     (case ri_size ri of
        BitMasking _ \<Rightarrow> Error UnexpectedSize
      | ByteSize rel_size \<Rightarrow>
          if 8 < rel_size then Panicked
          else
            (case slice offset (offset + rel_size) content of
               None \<Rightarrow> Panicked
             | Some bs \<Rightarrow>
                 let current = from_le (bs @ replicate (8 - rel_size) 0) :: u64
                 in case ri_kind ri of
                      AbsoluteSetWord6 \<Rightarrow>
                        Ok ((value AND LOW6_MASK) OR (current AND NOT LOW6_MASK))
                    | AbsoluteAddition \<Rightarrow> Ok (current + value)
                    | AbsoluteAdditionWord6 \<Rightarrow>
                        Ok ((((current AND LOW6_MASK) + (value AND LOW6_MASK)) AND LOW6_MASK)
                            OR (current AND NOT LOW6_MASK))
                    | AbsoluteSubtraction \<Rightarrow> Ok (current - value)
                    | AbsoluteSubtractionWord6 \<Rightarrow>
                        Ok ((((current AND LOW6_MASK) - (value AND LOW6_MASK)) AND LOW6_MASK)
                            OR (current AND NOT LOW6_MASK))
                    | _ \<Rightarrow> Error UnexpectedRelocation))"

section \<open>Lemmas\<close>

lemmas size_defs = bit_mask_aarch64_def bit_mask_riscv_def bit_mask_loongarch64_def
  bit_mask_ppc64_def bit_mask_new_def

lemma verify_Ok [outcome_simps]:
  "verify ri v = Ok u \<longleftrightarrow>
     is_multiple_of v (ri_alignment ri) \<and> range_contains (ri_range ri) (sint v)"
  by (auto simp: verify_def outcome_simps)

lemma verify_not_panicked: "verify ri v \<noteq> Panicked"
  by (simp add: verify_def ensure_def)

lemma sint_u64_range: "- (2 ^ 63) \<le> sint (v :: u64) \<and> sint v < 2 ^ 63"
  using sint_ge [of v] sint_lt [of v] by simp

end
