(* ===== verification/Relax_Frame.thy ===== *)
theory Relax_Frame
  imports Reloc_Types
begin

text \<open>
  The contract that the instruction relaxations of every architecture share
  (\<open>RelaxationKind::apply\<close> of \<open>linker-utils/src/<arch>.rs\<close>). A relaxation rewrites the bytes of a
  section in place around an offset and may move the offset and reset the addend. The locale
  \<open>relaxation\<close> states the interface: the section keeps its length, and only bytes inside the
  window of the relaxation change. The lemmas proved in it are about a whole sequence of
  relaxations, as the relocation loop of the writer applies them.
\<close>

datatype RelocationModifier = Normal | SkipNextRelocation

text \<open>\<open>offset - k\<close> as an index: below zero the subtraction wraps and the access panics.\<close>

definition before :: "nat \<Rightarrow> nat \<Rightarrow> nat option" where
  "before off k = (if k \<le> off then Some (off - k) else None)"

type_synonym relax_state = "bytes \<times> nat \<times> int"

text \<open>Applying relaxations one after the other, each at its own offset with its own addend.\<close>

fun apply_seq :: "('k \<Rightarrow> relax_state \<Rightarrow> relax_state option) \<Rightarrow> ('k \<times> nat \<times> int) list \<Rightarrow> bytes \<Rightarrow> bytes option" where
  "apply_seq ap [] bs = Some bs"
| "apply_seq ap ((k, off, ad) # rs) bs =
     do { (bs', _, _) \<leftarrow> ap k (bs, off, ad); apply_seq ap rs bs' }"

text \<open>Whether position \<open>i\<close> lies in the window \<open>[off - w\<^sub>1, off + w\<^sub>2)\<close>.\<close>

definition in_window :: "nat \<times> nat \<Rightarrow> nat \<Rightarrow> nat \<Rightarrow> bool" where
  "in_window w off i = (off \<le> i + fst w \<and> i < off + snd w)"

locale relaxation =
  fixes ap :: "'k \<Rightarrow> relax_state \<Rightarrow> relax_state option"
    and win :: "'k \<Rightarrow> nat \<times> nat"
  assumes apply_length: "ap k (bs, off, ad) = Some (bs', off', ad') \<Longrightarrow> length bs' = length bs"
    and apply_frame: "ap k (bs, off, ad) = Some (bs', off', ad') \<Longrightarrow> i < length bs \<Longrightarrow>
          \<not> in_window (win k) off i \<Longrightarrow> bs' ! i = bs ! i"
begin

lemma seq_length: "apply_seq ap rs bs = Some bs' \<Longrightarrow> length bs' = length bs"
proof (induction rs arbitrary: bs)
  case Nil
  then show ?case by simp
next
  case (Cons r rs)
  then show ?case
    by (cases r) (auto dest: apply_length split: bind_splits)
qed

lemma seq_frame:
  "apply_seq ap rs bs = Some bs' \<Longrightarrow> i < length bs \<Longrightarrow>
     (\<forall>(k, off, ad) \<in> set rs. \<not> in_window (win k) off i) \<Longrightarrow> bs' ! i = bs ! i"
proof (induction rs arbitrary: bs)
  case Nil
  then show ?case by simp
next
  case (Cons r rs)
  obtain k off ad where r: "r = (k, off, ad)" by (cases r)
  from Cons.prems(1) r obtain bs1 o1 a1 where
    s1: "ap k (bs, off, ad) = Some (bs1, o1, a1)" and s2: "apply_seq ap rs bs1 = Some bs'"
    by (auto split: bind_splits)
  have "bs' ! i = bs1 ! i"
    using Cons.IH [OF s2] Cons.prems(2,3) apply_length [OF s1] by auto
  also have "\<dots> = bs ! i"
    using apply_frame [OF s1] Cons.prems(2,3) r by auto
  finally show ?case .
qed

end

text \<open>Window lemmas for the two in-place primitives, shared by the interpretations.\<close>

lemma splice_window:
  "splice (off - a) ys bs = Some bs' \<Longrightarrow> a \<le> off \<Longrightarrow> a \<le> w1 \<Longrightarrow> length ys \<le> w2 + a \<Longrightarrow> i < length bs \<Longrightarrow>
     \<not> in_window (w1, w2) off i \<Longrightarrow> bs' ! i = bs ! i"
  by (rule splice_outside) (auto simp: in_window_def)

lemma store_window:
  "store bs (off - a) v = Some bs' \<Longrightarrow> a \<le> off \<Longrightarrow> a \<le> w1 \<Longrightarrow> 0 < w2 + a \<Longrightarrow>
     \<not> in_window (w1, w2) off i \<Longrightarrow> bs' ! i = bs ! i"
  by (rule store_outside) (auto simp: in_window_def)

end
