(* ===== verification/Insn_Fields.thy ===== *)
theory Insn_Fields
  imports Relax_Frame
begin

text \<open>
  The contract of the instruction encoders (\<open>write_to_value\<close> and \<open>read_value\<close> of
  \<open>linker-utils/src/<arch>.rs\<close>). An instruction form is described by the segments of its
  immediate: which bits of the (biased) value go to which bits of the instruction. The locale
  \<open>field_writer\<close> states that a writer puts exactly these bits there and leaves the rest of the
  section alone; \<open>field_codec\<close> adds a reader. What clients use - a write never panics, opcode and
  register bits survive, a second write replaces the first, reading gives the value back - is
  proved once inside the locales and holds for every architecture that interprets them.
\<close>

section \<open>Bits of a byte string\<close>

definition byte_bit :: "bytes \<Rightarrow> nat \<Rightarrow> bool" where
  "byte_bit bs k = (k div 8 < length bs \<and> bit (bs ! (k div 8)) (k mod 8))"

lemma bit_getw_byte_bit [byte_simps]:
  "bit (getw n bs :: 'a::len word) k \<longleftrightarrow> k < LENGTH('a) \<and> k < 8 * n \<and> byte_bit bs k"
  by (auto simp: bit_getw byte_bit_def)

lemma byte_bit_putw [byte_simps]:
  assumes "LENGTH('a) = 8 * n" "n \<le> length bs"
  shows "byte_bit (putw n (w :: 'a::len word) bs) k \<longleftrightarrow> (if k < 8 * n then bit w k else byte_bit bs k)"
proof (cases "k < 8 * n")
  case True
  then have "k div 8 < n" by auto
  with True assms show ?thesis
    by (auto simp: byte_bit_def putw_def nth_append bit_to_le_nth)
next
  case False
  then have "n \<le> k div 8" by auto
  with False assms show ?thesis
    by (auto simp: byte_bit_def putw_def nth_append)
qed

lemma bytes_eqI:
  assumes "length bs = length cs" and "\<And>k. k < 8 * length bs \<Longrightarrow> byte_bit bs k \<longleftrightarrow> byte_bit cs k"
  shows "bs = cs"
proof (rule nth_equalityI [OF assms(1)])
  fix i assume i: "i < length bs"
  show "bs ! i = cs ! i"
  proof (rule bit_word_eqI)
    fix j assume "j < LENGTH(8)"
    then have "(8 * i + j) div 8 = i" "(8 * i + j) mod 8 = j" "8 * i + j < 8 * length bs"
      using i by auto
    with assms(2) [of "8 * i + j"] i assms(1) show "bit (bs ! i) j = bit (cs ! i) j"
      by (auto simp: byte_bit_def)
  qed
qed

lemma byte_bit_append:
  "byte_bit (a @ b) k \<longleftrightarrow> (if k < 8 * length a then byte_bit a k else byte_bit b (k - 8 * length a))"
proof (cases "k < 8 * length a")
  case True
  then have "k div 8 < length a" by auto
  with True show ?thesis by (auto simp: byte_bit_def nth_append)
next
  case False
  then obtain j where "k = 8 * length a + j" using le_Suc_ex not_less by blast
  then show ?thesis by (auto simp: byte_bit_def nth_append)
qed

lemma byte_bit_take: "n \<le> length bs \<Longrightarrow> byte_bit (take n bs) k \<longleftrightarrow> k < 8 * n \<and> byte_bit bs k"
  by (auto simp: byte_bit_def)

lemma byte_bit_drop: "n \<le> length bs \<Longrightarrow> byte_bit (drop n bs) k \<longleftrightarrow> byte_bit bs (8 * n + k)"
  by (auto simp: byte_bit_def)

section \<open>Segments\<close>

text \<open>
  A segment \<open>(b, s, d, n)\<close>: bits \<open>s ..< s + n\<close> of the value plus \<open>b\<close> are bits \<open>d ..< d + n\<close> of
  the instruction.
\<close>

type_synonym segment = "u64 \<times> nat \<times> nat \<times> nat"

definition seg_covers :: "segment \<Rightarrow> nat \<Rightarrow> bool" where
  "seg_covers g k = (case g of (b, s, d, n) \<Rightarrow> d \<le> k \<and> k < d + n)"

definition seg_bit :: "segment \<Rightarrow> u64 \<Rightarrow> nat \<Rightarrow> bool" where
  "seg_bit g v k = (case g of (b, s, d, n) \<Rightarrow> bit (v + b) (k + s - d))"

definition in_field :: "segment list \<Rightarrow> nat \<Rightarrow> bool" where
  "in_field segs k = list_ex (\<lambda>g. seg_covers g k) segs"

text \<open>The instruction holds the value; and it is the old instruction with the value put in.\<close>

definition holds :: "segment list \<Rightarrow> u64 \<Rightarrow> bytes \<Rightarrow> bool" where
  "holds segs v bs = (\<forall>g \<in> set segs. \<forall>k. seg_covers g k \<longrightarrow> (byte_bit bs k \<longleftrightarrow> seg_bit g v k))"

definition encoded :: "segment list \<Rightarrow> u64 \<Rightarrow> bytes \<Rightarrow> bytes \<Rightarrow> bool" where
  "encoded segs v bs bs' =
     (length bs' = length bs \<and> holds segs v bs' \<and>
      (\<forall>k. \<not> in_field segs k \<longrightarrow> (byte_bit bs' k \<longleftrightarrow> byte_bit bs k)))"

definition field_clear :: "segment list \<Rightarrow> bytes \<Rightarrow> bool" where
  "field_clear segs bs = (\<forall>(b, s, d, n) \<in> set segs. \<forall>k \<in> set [d..<d + n]. \<not> byte_bit bs k)"

lemma holds_Nil [simp]: "holds [] v bs"
  by (simp add: holds_def)

lemma holds_Cons [simp]:
  "holds ((b, s, d, n) # segs) v bs \<longleftrightarrow>
     (\<forall>k. d \<le> k \<and> k < d + n \<longrightarrow> (byte_bit bs k \<longleftrightarrow> bit (v + b) (k + s - d))) \<and> holds segs v bs"
  by (auto simp: holds_def seg_covers_def seg_bit_def)

lemma in_field_Nil [simp]: "\<not> in_field [] k"
  by (simp add: in_field_def)

lemma in_field_Cons [simp]:
  "in_field ((b, s, d, n) # segs) k \<longleftrightarrow> (d \<le> k \<and> k < d + n) \<or> in_field segs k"
  by (simp add: in_field_def seg_covers_def)

lemma field_clear_iff: "field_clear segs bs \<longleftrightarrow> (\<forall>k. in_field segs k \<longrightarrow> \<not> byte_bit bs k)"
  by (fastforce simp: field_clear_def in_field_def list_ex_iff seg_covers_def)

lemma encoded_unique:
  assumes "encoded segs v bs b1" "encoded segs v bs b2"
  shows "b1 = b2"
proof (rule bytes_eqI)
  show "length b1 = length b2" using assms by (simp add: encoded_def)
  fix k
  show "byte_bit b1 k \<longleftrightarrow> byte_bit b2 k"
  proof (cases "in_field segs k")
    case True
    then obtain g where "g \<in> set segs" "seg_covers g k" by (auto simp: in_field_def list_ex_iff)
    with assms show ?thesis by (auto simp: encoded_def holds_def)
  next
    case False
    with assms show ?thesis by (simp add: encoded_def)
  qed
qed

lemma encoded_trans:
  assumes "encoded segs v bs b1" "encoded segs v' b1 b2"
  shows "encoded segs v' bs b2"
  using assms by (auto simp: encoded_def)

lemma encoded_putwI:
  assumes "LENGTH('a) = 8 * n" "n \<le> length bs"
    and "\<And>b s d m k. (b, s, d, m) \<in> set segs \<Longrightarrow> d \<le> k \<Longrightarrow> k < d + m \<Longrightarrow>
           k < 8 * n \<and> (bit w k \<longleftrightarrow> bit (v + b) (k + s - d))"
    and "\<And>k. k < 8 * n \<Longrightarrow> \<not> in_field segs k \<Longrightarrow> bit w k \<longleftrightarrow> byte_bit bs k"
  shows "encoded segs v bs (putw n (w :: 'a::len word) bs)"
  using assms by (auto simp: encoded_def holds_def seg_covers_def seg_bit_def byte_simps)

section \<open>The interfaces\<close>

locale field_writer =
  fixes wr :: "'i \<Rightarrow> u64 \<Rightarrow> bool \<Rightarrow> bytes \<Rightarrow> bytes option"
    and segs :: "'i \<Rightarrow> segment list"
    and pre :: "'i \<Rightarrow> u64 \<Rightarrow> bytes \<Rightarrow> bool"
  assumes wr_encodes: "pre i v bs \<Longrightarrow> \<exists>bs'. wr i v neg bs = Some bs' \<and> encoded (segs i) v bs bs'"
begin

lemma wr_Some: "pre i v bs \<Longrightarrow> wr i v neg bs = Some bs' \<Longrightarrow> encoded (segs i) v bs bs'"
  by (metis wr_encodes option.inject)

lemma wr_total: "pre i v bs \<Longrightarrow> wr i v neg bs \<noteq> None"
  using wr_encodes by force

lemma wr_length: "pre i v bs \<Longrightarrow> wr i v neg bs = Some bs' \<Longrightarrow> length bs' = length bs"
  using wr_Some by (simp add: encoded_def)

lemma wr_frame:
  "pre i v bs \<Longrightarrow> wr i v neg bs = Some bs' \<Longrightarrow> \<not> in_field (segs i) k \<Longrightarrow>
     byte_bit bs' k \<longleftrightarrow> byte_bit bs k"
  using wr_Some by (simp add: encoded_def)

lemma wr_overwrite:
  assumes "pre i v bs" "wr i v neg bs = Some b1" "pre i v' b1" "pre i v' bs"
  shows "wr i v' neg' b1 = wr i v' neg'' bs"
proof -
  obtain b2 b3 where b2: "wr i v' neg' b1 = Some b2" and b3: "wr i v' neg'' bs = Some b3"
    using assms wr_encodes by meson
  have "encoded (segs i) v' bs b2"
    using encoded_trans wr_Some assms b2 by blast
  with encoded_unique wr_Some [OF assms(4) b3] have "b2 = b3" by blast
  with b2 b3 show ?thesis by simp
qed

end

locale field_codec = field_writer wr segs pre
  for wr :: "'i \<Rightarrow> u64 \<Rightarrow> bool \<Rightarrow> bytes \<Rightarrow> bytes option" and segs pre +
  fixes rd :: "'i \<Rightarrow> bytes \<Rightarrow> (u64 \<times> bool) option"
    and canon :: "'i \<Rightarrow> u64 \<Rightarrow> u64 \<times> bool"
  assumes rd_holds: "pre i v bs \<Longrightarrow> length bs' = length bs \<Longrightarrow> holds (segs i) v bs' \<Longrightarrow> rd i bs' = Some (canon i v)"
begin

lemma rd_wr: "pre i v bs \<Longrightarrow> wr i v neg bs = Some bs' \<Longrightarrow> rd i bs' = Some (canon i v)"
  using wr_Some rd_holds by (simp add: encoded_def)

end

section \<open>Values that fit a field\<close>

lemma bit_of_bounded: "v < 2 ^ n \<Longrightarrow> bit (v :: u64) k \<Longrightarrow> k < n"
proof -
  assume v: "v < 2 ^ n" and k: "bit v k"
  show "k < n"
  proof (cases "n < 64")
    case True
    from v have "take_bit n v = v"
      using True by (metis less_mask_eq take_bit_eq_mask and.commute)
    with k show ?thesis by (metis bit_take_bit_iff)
  next
    case False
    with bit_imp_le_length [OF k] show ?thesis by simp
  qed
qed

lemma bit_above_bounded: "v < 2 ^ n \<Longrightarrow> n \<le> k \<Longrightarrow> \<not> bit (v :: u64) k"
  using bit_of_bounded not_less by blast

lemma extract_bit_range_fits:
  assumes "s < e" "e \<le> 64" "e - s < 64"
  shows "extract_bit_range v s e < 2 ^ (e - s)"
  using assms by (simp add: extract_bit_range_eq take_bit_eq_mask and_mask_less_size word_size)

lemma bit_sar [bit_simps]:
  "n < LENGTH('a) \<Longrightarrow> bit (sar (x :: 'a::len word) n) k \<longleftrightarrow>
     k < LENGTH('a) \<and> bit x (if LENGTH('a) - n \<le> k then LENGTH('a) - 1 else n + k)"
  by (auto simp: sar_def bit_simps dest: bit_imp_le_length)

text \<open>Where a shifted piece of the value lands.\<close>

named_theorems place_simps \<open>bits of shifted pieces of a value\<close>

lemma bit_place_range [place_simps]:
  assumes "s < e" "e \<le> 64" "d < LENGTH('a)"
  shows "bit (shl (ucast (extract_bit_range v s e)) d :: 'a::len word) k \<longleftrightarrow>
           d \<le> k \<and> k < d + (e - s) \<and> k < LENGTH('a) \<and> bit v (k + s - d)"
proof (cases "d \<le> k")
  case True
  then obtain j where k: "k = d + j" using le_Suc_ex by blast
  then have "k + s - d = s + j" by simp
  with assms k show ?thesis
    by (auto simp: bit_simps bit_extract_bit_range add.commute)
qed (use assms in \<open>auto simp: bit_simps\<close>)

lemma bit_place_range64 [place_simps]:
  assumes "s < e" "e \<le> 64" "d < 64"
  shows "bit (shl (extract_bit_range v s e) d) k \<longleftrightarrow>
           d \<le> k \<and> k < d + (e - s) \<and> k < 64 \<and> bit v (k + s - d)"
  using bit_place_range [where 'a = 64 and v = v] assms by simp

lemma bit_place_bit [place_simps]:
  assumes "p < 64" "d < 64"
  shows "bit (shl (extract_bit v p) d) k \<longleftrightarrow> k = d \<and> bit v p"
  using assms by (auto simp: extract_bit_def bit_place_range64 less_Suc_eq)

section \<open>Clearing a field and filling it\<close>

text \<open>The two in-place updates that every form makes: clear the immediate, put the bits in.\<close>

definition masked_update :: "bytes \<Rightarrow> bytes \<Rightarrow> bytes \<Rightarrow> bytes option" where
  "masked_update dest c m = do { dest' \<leftarrow> and_from_slice dest c; or_from_slice dest' m }"

lemma masked_update_word [byte_simps]:
  assumes "LENGTH('a) = 8 * n" "n \<le> length bs"
  shows "masked_update bs (to_le n (c :: 'a::len word)) (to_le n (m :: 'a word)) =
           Some (putw n ((getw n bs AND c) OR m) bs)"
  using assms by (simp add: masked_update_def byte_simps)

text \<open>
  When the kept bits are those outside the segments, and the new bits are those of the value,
  the update encodes the value. The first condition is a finite check on the constants.
\<close>

definition mask_fits :: "'a::len word \<Rightarrow> segment list \<Rightarrow> bool" where
  "mask_fits c segs = list_all (\<lambda>k. bit c k \<noteq> in_field segs k) [0..<LENGTH('a)]"

definition bits_placed :: "segment list \<Rightarrow> u64 \<Rightarrow> 'a::len word \<Rightarrow> bool" where
  "bits_placed segs v m =
     (list_all (\<lambda>(b, s, d, l). d + l \<le> LENGTH('a)) segs \<and>
      list_all (\<lambda>k. list_all (\<lambda>g. seg_covers g k \<longrightarrow> (bit m k \<longleftrightarrow> seg_bit g v k)) segs \<and>
                    (bit m k \<longrightarrow> in_field segs k)) [0..<LENGTH('a)])"

lemma masked_update_encodes:
  assumes len: "LENGTH('a) = 8 * n" "n \<le> length bs" and c: "mask_fits (c :: 'a::len word) segs"
    and m: "bits_placed segs v (m :: 'a word)"
  shows "\<exists>bs'. masked_update bs (to_le n c) (to_le n m) = Some bs' \<and> encoded segs v bs bs'"
proof -
  have c': "k < 8 * n \<Longrightarrow> bit c k \<longleftrightarrow> \<not> in_field segs k" for k
    using len c by (auto simp: mask_fits_def list_all_iff)
  have "encoded segs v bs (putw n ((getw n bs AND c) OR m) bs)"
  proof (rule encoded_putwI [OF len])
    fix b s d l k assume g: "(b, s, d, l) \<in> set segs" "d \<le> k" "k < d + l"
    then have f: "in_field segs k" by (force simp: in_field_def list_ex_iff seg_covers_def)
    from g m len have k: "k < 8 * n" by (fastforce simp: bits_placed_def list_all_iff)
    then have "bit m k \<longleftrightarrow> bit (v + b) (k + s - d)"
      using g m len by (force simp: bits_placed_def list_all_iff seg_covers_def seg_bit_def)
    with f k c' [of k]
    show "k < 8 * n \<and> bit (getw n bs AND c OR m) k = bit (v + b) (k + s - d)"
      by (simp add: bit_simps)
  next
    fix k assume k: "k < 8 * n" "\<not> in_field segs k"
    then have "\<not> bit m k" using m len by (auto simp: bits_placed_def list_all_iff)
    with k c' [of k] len show "bit (getw n bs AND c OR m) k = byte_bit bs k"
      by (auto simp: bit_simps byte_simps)
  qed
  with len show ?thesis by (simp add: masked_update_word)
qed

lemma upt_numerals:
  "[0..<16] = ([0, 1, 2, 3, 4, 5, 6, 7, 8, 9, 10, 11, 12, 13, 14, 15] :: nat list)"
  "[0..<32] = ([0, 1, 2, 3, 4, 5, 6, 7, 8, 9, 10, 11, 12, 13, 14, 15, 16, 17, 18, 19, 20, 21, 22, 23, 24,
     25, 26, 27, 28, 29, 30, 31] :: nat list)"
  "[0..<64] = ([0, 1, 2, 3, 4, 5, 6, 7, 8, 9, 10, 11, 12, 13, 14, 15, 16, 17, 18, 19, 20, 21, 22, 23, 24,
     25, 26, 27, 28, 29, 30, 31, 32, 33, 34, 35, 36, 37, 38, 39, 40, 41, 42, 43, 44, 45, 46,
     47, 48, 49, 50, 51, 52, 53, 54, 55, 56, 57, 58, 59, 60, 61, 62, 63] :: nat list)"
  by code_simp+

lemmas placed_simps = bits_placed_def seg_covers_def seg_bit_def upt_numerals bit_unsigned_iff
  bit_or_iff bit_and_iff place_simps

lemma take_to_le_ucast: "2 \<le> n \<Longrightarrow> take 2 (to_le n (m :: u64)) = to_le 2 (ucast m :: u16)"
  by (rule nth_equalityI) (auto simp: nth_to_le intro!: bit_word_eqI simp: bit_simps)

text \<open>Sign extension by a pair of shifts.\<close>

definition sext_i32 :: "u32 \<Rightarrow> nat \<Rightarrow> u32" where
  "sext_i32 imm n = sar (shl imm n) n"

definition with_sign :: "u32 \<Rightarrow> u64 \<times> bool" where
  "with_sign x = (scast x, sint x < 0)"

lemma bit_sext_i32:
  "n < 32 \<Longrightarrow> bit (sext_i32 imm n) k \<longleftrightarrow> k < 32 \<and> bit imm (min k (31 - n))"
  by (auto simp: sext_i32_def bit_simps min_def not_le)

lemma with_sign_sext:
  assumes "n < 32" and "\<And>k. k < 32 - n \<Longrightarrow> bit imm k \<longleftrightarrow> bit v k"
  shows "with_sign (sext_i32 imm n) = (signed_take_bit (31 - n) (v :: u64), bit v (31 - n))"
proof -
  have "scast (sext_i32 imm n) = signed_take_bit (31 - n) v"
  proof (rule bit_word_eqI)
    fix k assume k: "k < LENGTH(64)"
    then have "bit (scast (sext_i32 imm n) :: u64) k \<longleftrightarrow> bit (sext_i32 imm n) (min k 31)"
      by (auto simp: bit_simps min_def not_le)
    also have "\<dots> \<longleftrightarrow> bit imm (min k (31 - n))"
      using assms(1) by (simp add: bit_sext_i32 min.assoc min_less_iff_disj)
    also have "\<dots> \<longleftrightarrow> bit (signed_take_bit (31 - n) v) k"
      using assms k by (simp add: bit_signed_take_bit_iff min.commute)
    finally show "bit (scast (sext_i32 imm n) :: u64) k \<longleftrightarrow> bit (signed_take_bit (31 - n) v) k" .
  qed
  moreover have "sint (sext_i32 imm n) < 0 \<longleftrightarrow> bit (sext_i32 imm n) 31"
    using bit_last_iff [of "sext_i32 imm n"] by simp
  moreover have "\<dots> \<longleftrightarrow> bit v (31 - n)"
    using assms by (auto simp: bit_sext_i32)
  ultimately show ?thesis by (simp add: with_sign_def)
qed

text \<open>The same with the agreement of the bits as a finite check.\<close>

lemma with_sign_sext_bits:
  assumes "n < 32" "list_all (\<lambda>k. bit imm k \<longleftrightarrow> bit v k) [0..<32 - n]"
  shows "with_sign (sext_i32 imm n) = (signed_take_bit (31 - n) (v :: u64), bit v (31 - n))"
  using assms by (intro with_sign_sext) (auto simp: list_all_iff)

lemma upt_imm_numerals:
  "[0..<6] = ([0, 1, 2, 3, 4, 5] :: nat list)"
  "[0..<9] = ([0, 1, 2, 3, 4, 5, 6, 7, 8] :: nat list)"
  "[0..<12] = ([0, 1, 2, 3, 4, 5, 6, 7, 8, 9, 10, 11] :: nat list)"
  "[0..<13] = ([0, 1, 2, 3, 4, 5, 6, 7, 8, 9, 10, 11, 12] :: nat list)"
  "[0..<16] = ([0, 1, 2, 3, 4, 5, 6, 7, 8, 9, 10, 11, 12, 13, 14, 15] :: nat list)"
  "[0..<20] = ([0, 1, 2, 3, 4, 5, 6, 7, 8, 9, 10, 11, 12, 13, 14, 15, 16, 17, 18, 19] :: nat list)"
  "[0..<21] = ([0, 1, 2, 3, 4, 5, 6, 7, 8, 9, 10, 11, 12, 13, 14, 15, 16, 17, 18, 19, 20] :: nat list)"
  "[0..<26] = ([0, 1, 2, 3, 4, 5, 6, 7, 8, 9, 10, 11, 12, 13, 14, 15, 16, 17, 18, 19, 20, 21, 22, 23, 24,
     25] :: nat list)"
  by code_simp+

text \<open>The bits of a field of an instruction that is taken apart.\<close>

lemmas piece_simps = upt_imm_numerals bit_or_iff bit_and_iff bit_shl bit_shr bit_getw_byte_bit
  bit_unsigned_iff bit_not_iff

text \<open>An unsigned run of instruction bits that holds a value.\<close>

lemma unsigned_piece:
  assumes "holds [(0, 0, d, n)] v bs" "v < 2 ^ n" "d + n \<le> 32" "4 \<le> length bs" "0 < n"
  shows "ucast (shr (getw 4 bs :: u32) d AND mask n) = v"
proof (rule bit_word_eqI)
  fix k assume "k < LENGTH(64)"
  show "bit (ucast (shr (getw 4 bs :: u32) d AND mask n) :: u64) k \<longleftrightarrow> bit v k"
  proof (cases "k < n")
    case True
    with assms show ?thesis by (simp add: bit_unsigned_iff bit_and_iff bit_shr bit_mask_iff byte_simps)
  next
    case False
    with bit_above_bounded [OF assms(2), of k] show ?thesis
      by (simp add: bit_unsigned_iff bit_and_iff bit_mask_iff)
  qed
qed

section \<open>Values split into a high and a signed low part\<close>

lemma signed_take_bit_sint:
  "n < 63 \<Longrightarrow> signed_take_bit n (v :: u64) = word_of_int (signed_take_bit n (sint v))"
  by (rule bit_word_eqI) (auto simp: bit_simps bit_signed_take_bit_iff min_def)

lemma signed_take_bit_id:
  "n < 63 \<Longrightarrow> - (2 ^ n) \<le> sint v \<Longrightarrow> sint v < 2 ^ n \<Longrightarrow> signed_take_bit n v = (v :: u64)"
  by (simp add: signed_take_bit_sint signed_take_bit_int_eq_self)

lemma signed_low_part:
  assumes "n < 63"
  shows "signed_take_bit n (v :: u64) = take_bit (n + 1) (v + 2 ^ n) - 2 ^ n"
proof -
  have v: "v + 2 ^ n = word_of_int (sint v + 2 ^ n)" by simp
  have "take_bit (n + 1) (v + 2 ^ n) = word_of_int (take_bit (n + 1) (sint v + 2 ^ n))"
    unfolding v by (simp only: take_bit_of_int)
  moreover have "signed_take_bit n (sint v) = take_bit (n + 1) (sint v + 2 ^ n) - 2 ^ n"
    by (simp add: signed_take_bit_eq_take_bit_shift)
  ultimately show ?thesis using assms by (simp add: signed_take_bit_sint)
qed

lemma and_not_mask_eq: "x AND NOT (mask n) = x - take_bit n (x :: 'a::len word)"
proof -
  have "(x AND NOT (mask n)) + take_bit n x = (x AND NOT (mask n)) OR take_bit n x"
    by (rule disjunctive_add_eq_or, rule bit_word_eqI) (auto simp: bit_simps)
  also have "\<dots> = x"
    by (rule bit_word_eqI) (auto simp: bit_simps)
  finally show ?thesis by (simp add: eq_diff_eq)
qed

text \<open>Rounding up by half a unit before cutting the low part off compensates its sign.\<close>

lemma hi_lo_sum:
  "n < 63 \<Longrightarrow> ((v + 2 ^ n) AND NOT (mask (n + 1))) + signed_take_bit n v = (v :: u64)"
  by (simp add: and_not_mask_eq signed_low_part)

lemma sint_add_small:
  assumes "- (2 ^ 62) \<le> sint (v :: u64)" "sint v < 2 ^ 62" "0 \<le> c" "c < 2 ^ 62"
  shows "sint (v + word_of_int c) = sint v + c"
proof -
  have "v + word_of_int c = word_of_int (sint v + c)" by simp
  also have "sint \<dots> = signed_take_bit 63 (sint v + c)"
    by (simp add: signed_of_int del: of_int_add)
  finally have "sint (v + word_of_int c) = signed_take_bit 63 (sint v + c)" .
  with assms show ?thesis by (simp add: signed_take_bit_int_eq_self)
qed

lemma take_bit_add_word: "take_bit n (take_bit n a + b) = take_bit n (a + b :: u64)"
proof -
  have int: "take_bit n (take_bit n i + j) = take_bit n (i + j)" for i j :: int
    by (simp add: take_bit_eq_mod mod_add_left_eq)
  have "take_bit n (take_bit n (word_of_int i) + word_of_int j) = take_bit n (word_of_int i + word_of_int j :: u64)"
    for i j
    unfolding take_bit_of_int of_int_add [symmetric] int ..
  from this [of "uint a" "uint b"] show ?thesis by simp
qed

end
