(* ===== verification/Arch_RiscV64.thy ===== *)
theory Arch_RiscV64
  imports Insn_Fields
begin

text \<open>
  RISC-V 64 (\<open>linker-utils/src/riscv64.rs\<close>): the relaxations, the tests that decide them, and the
  instruction encoder and decoder. The lemmas describe every immediate by its segments, relate
  the tests to the immediates of \<open>jal\<close>, \<open>lui\<close> and \<open>c.lui\<close>, and show that the pair \<open>lui\<close>/\<open>addi\<close>
  rebuilds the value that was split.
\<close>

section \<open>Relaxations\<close>

datatype RiscV64Relaxation =
    RvNoOp
  | RvReplaceWithNop
  | CallToJal
  | Hi20ToCLui
  | Hi20Delete
  | Lo12Rs1ToZero

definition RS1_MASK :: u32 where "RS1_MASK = shl 0x1f 15"

definition JAL_RANGE :: "int \<times> int" where "JAL_RANGE = (- (2 ^ 20), 2 ^ 20 - 1)"

definition distance_fits_jal :: "int \<Rightarrow> bool" where
  "distance_fits_jal d = (fst JAL_RANGE \<le> d \<and> d \<le> snd JAL_RANGE)"

fun riscv_apply :: "RiscV64Relaxation \<Rightarrow> relax_state \<Rightarrow> relax_state option" where
  "riscv_apply RvNoOp (bs, off, ad) = Some (bs, off, ad)"
| "riscv_apply RvReplaceWithNop (bs, off, ad) =
     do { bs' \<leftarrow> splice off [0x01, 0x0, 0x01, 0x0] bs; Some (bs', off, ad) }"
| "riscv_apply CallToJal (bs, off, ad) =
     do { w \<leftarrow> slice off (length bs) bs;
          auipc_word \<leftarrow> u32_from_slice w;
          let rd = (shr auipc_word 7 AND 0x1f);
          let jal_base = (0x6f OR shl rd 7);
          bs' \<leftarrow> splice off (to_le 4 jal_base) bs;
          Some (bs', off, ad) }"
| "riscv_apply Hi20ToCLui (bs, off, ad) =
     do { b0 \<leftarrow> index bs off;
          b1 \<leftarrow> index bs (off + 1);
          let lui_lo = (from_le [b0, b1] :: u16);
          let rd = (shr lui_lo 7 AND 0x1f);
          let clui_base = (0x6001 OR shl rd 7);
          bs' \<leftarrow> splice off (to_le 2 clui_base) bs;
          Some (bs', off, ad) }"
| "riscv_apply Hi20Delete (bs, off, ad) = Some (bs, off, ad)"
| "riscv_apply Lo12Rs1ToZero (bs, off, ad) =
     do { w \<leftarrow> slice off (length bs) bs;
          word \<leftarrow> u32_from_slice w;
          bs' \<leftarrow> splice off (to_le 4 (word AND NOT RS1_MASK)) bs;
          Some (bs', off, ad) }"

definition riscv_next_modifier :: "RiscV64Relaxation \<Rightarrow> RelocationModifier" where
  "riscv_next_modifier k = (if k \<in> {CallToJal, Hi20Delete} then SkipNextRelocation else Normal)"

definition hi20_is_zero :: "u64 \<Rightarrow> bool" where
  "hi20_is_zero value = (let hi20 = shr (value + 0x800) 12 in hi20 AND 0xfffff = 0)"

text \<open>\<open>(hi20_signed as i8) << 2 >> 2\<close> and its comparison at \<open>i64\<close>.\<close>

definition hi20_fits_clui :: "u64 \<Rightarrow> bool" where
  "hi20_fits_clui value =
     (let hi20 = shr (value + 0x800) 12;
          as_6bit = sar (shl (ucast hi20 :: u8) 2) 2
      in (scast as_6bit :: u64) = hi20 \<and> hi20 \<noteq> 0)"

definition rd_valid_for_clui :: "u32 \<Rightarrow> bool" where
  "rd_valid_for_clui rd = (rd \<noteq> 0 \<and> rd \<noteq> 2)"

definition clui_rel_info :: RelocationKindInfo where
  "clui_rel_info =
     \<lparr>ri_kind = Absolute, ri_size = bit_mask_riscv 0 32 CluiType, ri_mask = None,
      ri_range = range_new (- (2 ^ 31)) (2 ^ 32), ri_alignment = 1, ri_bias = 0,
      ri_thunkable = False\<rparr>"

section \<open>Instruction encoding\<close>

definition UTYPE_IMMEDIATE_MASK :: u32 where "UTYPE_IMMEDIATE_MASK = 0x00000fff"
definition ITYPE_IMMEDIATE_MASK :: u32 where "ITYPE_IMMEDIATE_MASK = 0x000fffff"
definition STYPE_IMMEDIATE_MASK :: u32 where "STYPE_IMMEDIATE_MASK = 0x01fff07f"
definition BTYPE_IMMEDIATE_MASK :: u32 where "BTYPE_IMMEDIATE_MASK = 0x01fff07f"
definition JTYPE_IMMEDIATE_MASK :: u32 where "JTYPE_IMMEDIATE_MASK = 0x00000fff"
definition CBTYPE_IMMEDIATE_MASK :: u16 where "CBTYPE_IMMEDIATE_MASK = 0xe383"
definition CJTYPE_IMMEDIATE_MASK :: u16 where "CJTYPE_IMMEDIATE_MASK = 0xe003"
definition CLUITYPE_IMMEDIATE_MASK :: u16 where "CLUITYPE_IMMEDIATE_MASK = 0xef83"

definition riscv_write_u :: "u64 \<Rightarrow> bytes \<Rightarrow> bytes option" where
  "riscv_write_u v dest =
     masked_update dest (to_le 4 UTYPE_IMMEDIATE_MASK)
       (to_le 4 (shl (ucast (extract_bit_range (v + 0x800) 12 32)) 12 :: u32))"

definition riscv_write_i :: "u64 \<Rightarrow> bytes \<Rightarrow> bytes option" where
  "riscv_write_i v dest =
     masked_update dest (to_le 4 ITYPE_IMMEDIATE_MASK) (to_le 4 (ucast (shl v 20) :: u32))"

fun riscv_write_to_value :: "RiscVInstruction \<Rightarrow> u64 \<Rightarrow> bool \<Rightarrow> bytes \<Rightarrow> bytes option" where
  "riscv_write_to_value UiType v negative dest =
     do { d1 \<leftarrow> slice 0 4 dest;
          d1' \<leftarrow> riscv_write_u v d1;
          d2' \<leftarrow> riscv_write_i v (drop 4 dest);
          Some (d1' @ d2') }"
| "riscv_write_to_value UType v negative dest = riscv_write_u v dest"
| "riscv_write_to_value IType v negative dest = riscv_write_i v dest"
| "riscv_write_to_value SType v negative dest =
     (let m = shl (extract_bit_range v 0 5) 7 OR shl (extract_bit_range v 5 12) 25
      in masked_update dest (to_le 4 STYPE_IMMEDIATE_MASK) (to_le 4 (ucast m :: u32)))"
| "riscv_write_to_value BType v negative dest =
     (let m = shl (extract_bit v 11) 7 OR shl (extract_bit_range v 1 5) 8 OR
              shl (extract_bit_range v 5 11) 25 OR shl (extract_bit v 12) 31
      in masked_update dest (to_le 4 BTYPE_IMMEDIATE_MASK) (to_le 4 (ucast m :: u32)))"
| "riscv_write_to_value JType v negative dest =
     (let m = shl (extract_bit_range v 12 20) 12 OR shl (extract_bit v 11) 20 OR
              shl (extract_bit_range v 1 11) 21 OR shl (extract_bit v 20) 31
      in masked_update dest (to_le 4 JTYPE_IMMEDIATE_MASK) (to_le 4 (ucast m :: u32)))"
| "riscv_write_to_value CbType v negative dest =
     (let m = shl (extract_bit v 5) 2 OR shl (extract_bit_range v 1 3) 3 OR
              shl (extract_bit_range v 6 8) 5 OR shl (extract_bit_range v 3 5) 10 OR
              shl (extract_bit v 8) 12
      in masked_update dest (to_le 2 CBTYPE_IMMEDIATE_MASK) (take 2 (to_le 8 m)))"
| "riscv_write_to_value CjType v negative dest =
     (let m = shl (extract_bit v 5) 2 OR shl (extract_bit_range v 1 4) 3 OR
              shl (extract_bit v 7) 6 OR shl (extract_bit v 6) 7 OR shl (extract_bit v 10) 8 OR
              shl (extract_bit_range v 8 10) 9 OR shl (extract_bit v 4) 11 OR
              shl (extract_bit v 11) 12
      in masked_update dest (to_le 2 CJTYPE_IMMEDIATE_MASK) (take 2 (to_le 8 m)))"
| "riscv_write_to_value CluiType v negative dest =
     (let hi20 = shr (v + 0x800) 12;
          m = shl (hi20 AND 0x1f) 2 OR shl (shr hi20 5 AND 1) 12
      in masked_update dest (to_le 2 CLUITYPE_IMMEDIATE_MASK) (to_le 2 (ucast m :: u16)))"

definition riscv_read_u :: "bytes \<Rightarrow> (u64 \<times> bool) option" where
  "riscv_read_u bs =
     do { value \<leftarrow> u32_from_slice bs;
          let imm = (shr value 12 AND 0xfffff);
          let adjusted = sext_i32 imm 12;
          Some (scast adjusted - 0x800, False) }"

definition riscv_read_i :: "bytes \<Rightarrow> (u64 \<times> bool) option" where
  "riscv_read_i bs =
     do { value \<leftarrow> u32_from_slice bs;
          let imm = (shr value 20 AND 0xfff);
          Some (with_sign (sext_i32 imm 20)) }"

fun riscv_read_value :: "RiscVInstruction \<Rightarrow> bytes \<Rightarrow> (u64 \<times> bool) option" where
  "riscv_read_value UiType bs =
     do { b1 \<leftarrow> slice 0 4 bs;
          (hi, _) \<leftarrow> riscv_read_u b1;
          (lo, _) \<leftarrow> riscv_read_i (drop 4 bs);
          Some (shl hi 12 OR lo, False) }"
| "riscv_read_value UType bs = riscv_read_u bs"
| "riscv_read_value IType bs = riscv_read_i bs"
| "riscv_read_value SType bs =
     do { value \<leftarrow> u32_from_slice bs;
          let imm_low = (shr value 7 AND 0x1f);
          let imm_high = (shr value 25 AND 0x7f);
          let imm = (shl imm_high 5 OR imm_low);
          Some (with_sign (sext_i32 imm 20)) }"
| "riscv_read_value BType bs =
     do { value \<leftarrow> u32_from_slice bs;
          let imm11 = (shr value 7 AND 0x1);
          let imm1_4 = (shr value 8 AND 0xf);
          let imm5_10 = (shr value 25 AND 0x3f);
          let imm12 = (shr value 31 AND 0x1);
          let imm = (shl imm12 12 OR shl imm11 11 OR shl imm5_10 5 OR shl imm1_4 1);
          Some (with_sign (sext_i32 imm 19)) }"
| "riscv_read_value JType bs =
     do { value \<leftarrow> u32_from_slice bs;
          let imm12_19 = (shr value 12 AND 0xff);
          let imm11 = (shr value 20 AND 0x1);
          let imm1_10 = (shr value 21 AND 0x3ff);
          let imm20 = (shr value 31 AND 0x1);
          let imm = (shl imm20 20 OR shl imm12_19 12 OR shl imm11 11 OR shl imm1_10 1);
          Some (with_sign (sext_i32 imm 11)) }"
| "riscv_read_value CbType bs =
     do { value \<leftarrow> u16_from_slice bs;
          let imm5 = (shr value 2 AND 0x1);
          let imm1_2 = (shr value 3 AND 0x3);
          let imm6_7 = (shr value 5 AND 0x3);
          let imm3_4 = (shr value 10 AND 0x3);
          let imm8 = (shr value 12 AND 0x1);
          let imm = (shl imm8 8 OR shl imm6_7 6 OR shl imm5 5 OR shl imm3_4 3 OR shl imm1_2 1);
          Some (with_sign (sext_i32 (ucast imm) 23)) }"
| "riscv_read_value CjType bs =
     do { value \<leftarrow> u16_from_slice bs;
          let imm5 = (shr value 2 AND 0x1);
          let imm1_3 = (shr value 3 AND 0x7);
          let imm7 = (shr value 6 AND 0x1);
          let imm6 = (shr value 7 AND 0x1);
          let imm10 = (shr value 8 AND 0x1);
          let imm8_9 = (shr value 9 AND 0x3);
          let imm4 = (shr value 11 AND 0x1);
          let imm11 = (shr value 12 AND 0x1);
          let imm = (shl imm11 11 OR shl imm10 10 OR shl imm8_9 8 OR shl imm7 7 OR shl imm6 6 OR
                     shl imm5 5 OR shl imm4 4 OR shl imm1_3 1);
          Some (with_sign (sext_i32 (ucast imm) 20)) }"
| "riscv_read_value CluiType bs =
     do { value \<leftarrow> u16_from_slice bs;
          let nzimm4_0 = (shr value 2 AND 0x1f);
          let nzimm5 = (shr value 12 AND 0x1);
          let nzimm = (shl nzimm5 5 OR nzimm4_0);
          let hi20 = (scast (sext_i32 (ucast nzimm) 26) :: u64);
          let extracted = (shl hi20 12 - 0x800);
          Some (extracted, sint hi20 < 0) }"

section \<open>Relaxations stay inside their window\<close>

definition riscv_window :: "RiscV64Relaxation \<Rightarrow> nat \<times> nat" where
  "riscv_window k = (if k = Hi20ToCLui then (0, 2) else if k \<in> {RvNoOp, Hi20Delete} then (0, 0) else (0, 4))"

interpretation riscv_relax: relaxation riscv_apply riscv_window
proof
  fix k bs off ad bs' off' ad'
  assume a: "riscv_apply k (bs, off, ad) = Some (bs', off', ad')"
  then show "length bs' = length bs"
    by (cases k) (auto simp: Let_def dest!: splice_length split: bind_splits)
  fix i assume "i < length bs" "\<not> in_window (riscv_window k) off i"
  with a show "bs' ! i = bs ! i"
    by (cases k) (auto simp: Let_def riscv_window_def in_window_def not_less
        dest: splice_outside [where i = i] split: bind_splits)
qed

section \<open>Encoding as segments\<close>

fun riscv_segs :: "RiscVInstruction \<Rightarrow> segment list" where
  "riscv_segs UiType = [(0x800, 12, 12, 20), (0, 0, 52, 12)]"
| "riscv_segs UType = [(0x800, 12, 12, 20)]"
| "riscv_segs IType = [(0, 0, 20, 12)]"
| "riscv_segs SType = [(0, 0, 7, 5), (0, 5, 25, 7)]"
| "riscv_segs BType = [(0, 11, 7, 1), (0, 1, 8, 4), (0, 5, 25, 6), (0, 12, 31, 1)]"
| "riscv_segs JType = [(0, 12, 12, 8), (0, 11, 20, 1), (0, 1, 21, 10), (0, 20, 31, 1)]"
| "riscv_segs CbType = [(0, 5, 2, 1), (0, 1, 3, 2), (0, 6, 5, 2), (0, 3, 10, 2), (0, 8, 12, 1)]"
| "riscv_segs CjType = [(0, 5, 2, 1), (0, 1, 3, 3), (0, 7, 6, 1), (0, 6, 7, 1), (0, 10, 8, 1),
     (0, 8, 9, 2), (0, 4, 11, 1), (0, 11, 12, 1)]"
| "riscv_segs CluiType = [(0x800, 12, 2, 5), (0x800, 17, 12, 1)]"

definition riscv_bytes :: "RiscVInstruction \<Rightarrow> nat" where
  "riscv_bytes i = (if i = UiType then 8 else if i \<in> {CbType, CjType, CluiType} then 2 else 4)"

definition riscv_pre :: "RiscVInstruction \<Rightarrow> u64 \<Rightarrow> bytes \<Rightarrow> bool" where
  "riscv_pre i v bs = (riscv_bytes i \<le> length bs)"

lemma riscv_masks_fit:
  "mask_fits UTYPE_IMMEDIATE_MASK (riscv_segs UType)"
  "mask_fits ITYPE_IMMEDIATE_MASK (riscv_segs IType)"
  "mask_fits STYPE_IMMEDIATE_MASK (riscv_segs SType)"
  "mask_fits BTYPE_IMMEDIATE_MASK (riscv_segs BType)"
  "mask_fits JTYPE_IMMEDIATE_MASK (riscv_segs JType)"
  "mask_fits CBTYPE_IMMEDIATE_MASK (riscv_segs CbType)"
  "mask_fits CJTYPE_IMMEDIATE_MASK (riscv_segs CjType)"
  "mask_fits CLUITYPE_IMMEDIATE_MASK (riscv_segs CluiType)"
  by code_simp+

lemma riscv_write_u_encodes:
  assumes "4 \<le> length bs"
  shows "\<exists>bs'. riscv_write_u v bs = Some bs' \<and> encoded (riscv_segs UType) v bs bs'"
  unfolding riscv_write_u_def
  by (rule masked_update_encodes [OF _ assms riscv_masks_fit(1)]) (simp_all add: placed_simps)

lemma riscv_write_i_encodes:
  assumes "4 \<le> length bs"
  shows "\<exists>bs'. riscv_write_i v bs = Some bs' \<and> encoded (riscv_segs IType) v bs bs'"
  unfolding riscv_write_i_def
  by (rule masked_update_encodes [OF _ assms riscv_masks_fit(2)]) (simp_all add: placed_simps bit_shl)

lemma riscv_write_s_encodes:
  assumes "4 \<le> length bs"
  shows "\<exists>bs'. riscv_write_to_value SType v neg bs = Some bs' \<and> encoded (riscv_segs SType) v bs bs'"
  unfolding riscv_write_to_value.simps Let_def
  by (rule masked_update_encodes [OF _ assms riscv_masks_fit(3)])
    (simp_all add: placed_simps)

lemma riscv_write_b_encodes:
  assumes "4 \<le> length bs"
  shows "\<exists>bs'. riscv_write_to_value BType v neg bs = Some bs' \<and> encoded (riscv_segs BType) v bs bs'"
  unfolding riscv_write_to_value.simps Let_def
  by (rule masked_update_encodes [OF _ assms riscv_masks_fit(4)])
    (simp_all add: placed_simps)

lemma riscv_write_j_encodes:
  assumes "4 \<le> length bs"
  shows "\<exists>bs'. riscv_write_to_value JType v neg bs = Some bs' \<and> encoded (riscv_segs JType) v bs bs'"
  unfolding riscv_write_to_value.simps Let_def
  by (rule masked_update_encodes [OF _ assms riscv_masks_fit(5)])
    (simp_all add: placed_simps)

lemma riscv_write_cb_encodes:
  assumes "2 \<le> length bs"
  shows "\<exists>bs'. riscv_write_to_value CbType v neg bs = Some bs' \<and> encoded (riscv_segs CbType) v bs bs'"
  unfolding riscv_write_to_value.simps Let_def
  by (subst take_to_le_ucast, simp, rule masked_update_encodes [OF _ assms riscv_masks_fit(6)])
    (simp_all add: placed_simps)

lemma riscv_write_cj_encodes:
  assumes "2 \<le> length bs"
  shows "\<exists>bs'. riscv_write_to_value CjType v neg bs = Some bs' \<and> encoded (riscv_segs CjType) v bs bs'"
  unfolding riscv_write_to_value.simps Let_def
  by (subst take_to_le_ucast, simp, rule masked_update_encodes [OF _ assms riscv_masks_fit(7)])
    (simp_all add: placed_simps)

lemma riscv_write_clui_encodes:
  assumes "2 \<le> length bs"
  shows "\<exists>bs'. riscv_write_to_value CluiType v neg bs = Some bs' \<and> encoded (riscv_segs CluiType) v bs bs'"
proof -
  define m where "m = shl (shr (v + 0x800) 12 AND 0x1f) 2 OR shl (shr (shr (v + 0x800) 12) 5 AND 1) 12"
  have masks: "(0x1f :: u64) = mask 5" "(1 :: u64) = mask 1" by (simp_all add: mask_eq_exp_minus_1)
  have m: "bit m k \<longleftrightarrow> (2 \<le> k \<and> k < 7 \<and> bit (v + 0x800) (k + 12 - 2)) \<or> (k = 12 \<and> bit (v + 0x800) 17)" for k
  proof -
    have "bit m k \<longleftrightarrow> (2 \<le> k \<and> k < 64 \<and> bit (v + 0x800) (12 + (k - 2)) \<and> k - 2 < 5) \<or>
        (12 \<le> k \<and> k < 64 \<and> bit (v + 0x800) (12 + (5 + (k - 12))) \<and> k - 12 < 1)"
      unfolding m_def masks bit_or_iff bit_shl bit_and_iff bit_shr bit_mask_iff by auto
    moreover have "2 \<le> k \<Longrightarrow> 12 + (k - 2) = k + 12 - 2" by simp
    moreover have "12 \<le> k \<and> k - 12 < 1 \<longleftrightarrow> k = 12" by linarith
    ultimately show ?thesis by auto
  qed
  have "bits_placed (riscv_segs CluiType) v (ucast m :: u16)"
    by (simp add: bits_placed_def seg_covers_def seg_bit_def upt_numerals bit_unsigned_iff m)
  with masked_update_encodes [OF _ assms riscv_masks_fit(8)] show ?thesis
    by (simp add: Let_def m_def)
qed

lemma riscv_write_ui_encodes:
  assumes "8 \<le> length bs"
  shows "\<exists>bs'. riscv_write_to_value UiType v neg bs = Some bs' \<and> encoded (riscv_segs UiType) v bs bs'"
proof -
  obtain d1 d2 where d1: "riscv_write_u v (take 4 bs) = Some d1" "encoded (riscv_segs UType) v (take 4 bs) d1"
    and d2: "riscv_write_i v (drop 4 bs) = Some d2" "encoded (riscv_segs IType) v (drop 4 bs) d2"
  proof -
    have "4 \<le> length (take 4 bs)" "4 \<le> length (drop 4 bs)" using assms by simp_all
    then show ?thesis
      using that riscv_write_u_encodes [of "take 4 bs" v] riscv_write_i_encodes [of "drop 4 bs" v]
      by blast
  qed
  have len: "length d1 = 4" "length d2 = length bs - 4" using d1 d2 assms by (auto simp: encoded_def)
  have h1: "12 \<le> k \<Longrightarrow> k < 32 \<Longrightarrow> byte_bit d1 k \<longleftrightarrow> bit (v + 0x800) k"
    and f1: "k < 12 \<or> 32 \<le> k \<Longrightarrow> byte_bit d1 k \<longleftrightarrow> byte_bit (take 4 bs) k" for k
    using d1(2) by (auto simp: encoded_def)
  have h2': "20 \<le> j \<Longrightarrow> j < 32 \<Longrightarrow> byte_bit d2 j \<longleftrightarrow> bit v (j - 20)"
    and f2: "j < 20 \<or> 32 \<le> j \<Longrightarrow> byte_bit d2 j \<longleftrightarrow> byte_bit (drop 4 bs) j" for j
    using d2(2) by (auto simp: encoded_def)
  have h2: "52 \<le> k \<Longrightarrow> k < 64 \<Longrightarrow> byte_bit d2 (k - 32) \<longleftrightarrow> bit v (k - 52)" for k
    using h2' [of "k - 32"] by simp
  have join: "byte_bit (d1 @ d2) k \<longleftrightarrow> (if k < 32 then byte_bit d1 k else byte_bit d2 (k - 32))"
    "byte_bit bs k \<longleftrightarrow> (if k < 32 then byte_bit (take 4 bs) k else byte_bit (drop 4 bs) (k - 32))" for k
    using len assms by (simp_all add: byte_bit_append byte_bit_take byte_bit_drop)
  have "holds (riscv_segs UiType) v (d1 @ d2)"
    using h1 h2 by (simp add: join(1))
  moreover have "byte_bit (d1 @ d2) k \<longleftrightarrow> byte_bit bs k" if k: "\<not> in_field (riscv_segs UiType) k" for k
  proof (cases "k < 32")
    case True
    with k f1 [of k] assms show ?thesis by (simp add: join)
  next
    case False
    with k have "k - 32 < 20 \<or> 32 \<le> k - 32" by auto
    with False f2 [of "k - 32"] assms show ?thesis by (simp add: join)
  qed
  ultimately have "encoded (riscv_segs UiType) v bs (d1 @ d2)"
    using len assms by (simp del: riscv_segs.simps add: encoded_def)
  with d1 d2 assms show ?thesis by (simp add: slice_def)
qed

lemma riscv_wr_encodes:
  "riscv_pre i v bs \<Longrightarrow> \<exists>bs'. riscv_write_to_value i v neg bs = Some bs' \<and> encoded (riscv_segs i) v bs bs'"
  using riscv_write_u_encodes [of bs v] riscv_write_i_encodes [of bs v] riscv_write_s_encodes [of bs v neg]
    riscv_write_b_encodes [of bs v neg] riscv_write_j_encodes [of bs v neg] riscv_write_cb_encodes [of bs v neg]
    riscv_write_cj_encodes [of bs v neg] riscv_write_clui_encodes [of bs v neg] riscv_write_ui_encodes [of bs v neg]
  by (cases i) (simp_all del: riscv_segs.simps add: riscv_pre_def riscv_bytes_def)

section \<open>Decoding\<close>

text \<open>What a read returns after a write, per form.\<close>

fun riscv_canon :: "RiscVInstruction \<Rightarrow> u64 \<Rightarrow> u64 \<times> bool" where
  "riscv_canon UType v = (signed_take_bit 19 (drop_bit 12 (v + 0x800)) - 0x800, False)"
| "riscv_canon IType v = (signed_take_bit 11 v, bit v 11)"
| "riscv_canon SType v = (signed_take_bit 11 v, bit v 11)"
| "riscv_canon BType v = (signed_take_bit 12 (v AND NOT 1), bit v 12)"
| "riscv_canon JType v = (signed_take_bit 20 (v AND NOT 1), bit v 20)"
| "riscv_canon CbType v = (signed_take_bit 8 (v AND NOT 1), bit v 8)"
| "riscv_canon CjType v = (signed_take_bit 11 (v AND NOT 1), bit v 11)"
| "riscv_canon CluiType v =
     (push_bit 12 (signed_take_bit 5 (drop_bit 12 (v + 0x800))) - 0x800, bit (v + 0x800) 17)"
| "riscv_canon UiType v =
     (push_bit 12 (signed_take_bit 19 (drop_bit 12 (v + 0x800)) - 0x800) OR signed_take_bit 11 v, False)"

lemma riscv_rd_i:
  assumes "holds (riscv_segs IType) v bs" "4 \<le> length bs"
  shows "riscv_read_i bs = Some (riscv_canon IType v)"
  using assms by (simp add: riscv_read_i_def byte_simps with_sign_sext_bits [where v = v] piece_simps)

lemma riscv_rd_u:
  assumes "holds (riscv_segs UType) v bs" "4 \<le> length bs"
  shows "riscv_read_u bs = Some (riscv_canon UType v)"
proof -
  have "with_sign (sext_i32 (shr (getw 4 bs) 12 AND 0xfffff) 12) =
      (signed_take_bit (31 - 12) (drop_bit 12 (v + 0x800)), bit (drop_bit 12 (v + 0x800)) (31 - 12))"
    using assms by (intro with_sign_sext_bits) (simp_all add: piece_simps bit_drop_bit_eq)
  with assms(2) show ?thesis by (simp add: riscv_read_u_def byte_simps with_sign_def)
qed

lemma riscv_rd_s:
  assumes "holds (riscv_segs SType) v bs" "4 \<le> length bs"
  shows "riscv_read_value SType bs = Some (riscv_canon SType v)"
  using assms by (simp add: byte_simps Let_def with_sign_sext_bits [where v = v] piece_simps)

lemma riscv_rd_b:
  assumes "holds (riscv_segs BType) v bs" "4 \<le> length bs"
  shows "riscv_read_value BType bs = Some (riscv_canon BType v)"
  using assms by (simp add: byte_simps Let_def with_sign_sext_bits [where v = "v AND NOT 1"] piece_simps)

lemma riscv_rd_j:
  assumes "holds (riscv_segs JType) v bs" "4 \<le> length bs"
  shows "riscv_read_value JType bs = Some (riscv_canon JType v)"
  using assms by (simp add: byte_simps Let_def with_sign_sext_bits [where v = "v AND NOT 1"] piece_simps)

lemma riscv_rd_cb:
  assumes "holds (riscv_segs CbType) v bs" "2 \<le> length bs"
  shows "riscv_read_value CbType bs = Some (riscv_canon CbType v)"
  using assms by (simp add: byte_simps Let_def with_sign_sext_bits [where v = "v AND NOT 1"] piece_simps)

lemma riscv_rd_cj:
  assumes "holds (riscv_segs CjType) v bs" "2 \<le> length bs"
  shows "riscv_read_value CjType bs = Some (riscv_canon CjType v)"
  using assms by (simp add: byte_simps Let_def with_sign_sext_bits [where v = "v AND NOT 1"] piece_simps)

lemma riscv_rd_clui:
  assumes "holds (riscv_segs CluiType) v bs" "2 \<le> length bs"
  shows "riscv_read_value CluiType bs = Some (riscv_canon CluiType v)"
proof -
  let ?x = "drop_bit 12 (v + 0x800)"
  let ?imm = "ucast (shl (shr (getw 2 bs :: u16) 12 AND 0x1) 5 OR (shr (getw 2 bs) 2 AND 0x1f)) :: u32"
  have "with_sign (sext_i32 ?imm 26) = (signed_take_bit (31 - 26) ?x, bit ?x (31 - 26))"
    using assms by (intro with_sign_sext_bits) (simp_all add: piece_simps bit_drop_bit_eq)
  then have imm: "scast (sext_i32 ?imm 26) = signed_take_bit 5 ?x" by (simp add: with_sign_def)
  have "sint (signed_take_bit 5 ?x) < 0 \<longleftrightarrow> bit (v + 0x800) 17"
    using bit_last_iff [of "signed_take_bit 5 ?x"] by (simp add: bit_signed_take_bit_iff bit_drop_bit_eq)
  with assms(2) imm show ?thesis by (simp add: byte_simps Let_def shl_def)
qed

lemma riscv_rd_ui:
  assumes "holds (riscv_segs UiType) v bs" "8 \<le> length bs"
  shows "riscv_read_value UiType bs = Some (riscv_canon UiType v)"
proof -
  have "riscv_read_u (take 4 bs) = Some (riscv_canon UType v)"
    using assms by (intro riscv_rd_u) (auto simp: byte_bit_take)
  moreover have "riscv_read_i (drop 4 bs) = Some (riscv_canon IType v)"
    using assms by (intro riscv_rd_i) (auto simp: byte_bit_drop)
  ultimately show ?thesis using assms(2) by (simp add: slice_def shl_def)
qed

lemma riscv_rd_holds:
  "riscv_pre i v bs \<Longrightarrow> length bs' = length bs \<Longrightarrow> holds (riscv_segs i) v bs' \<Longrightarrow>
     riscv_read_value i bs' = Some (riscv_canon i v)"
  using riscv_rd_u [of v bs'] riscv_rd_i [of v bs'] riscv_rd_s [of v bs'] riscv_rd_b [of v bs']
    riscv_rd_j [of v bs'] riscv_rd_cb [of v bs'] riscv_rd_cj [of v bs'] riscv_rd_clui [of v bs']
    riscv_rd_ui [of v bs']
  by (cases i) (simp_all del: riscv_segs.simps add: riscv_pre_def riscv_bytes_def)

interpretation riscv_field: field_codec riscv_write_to_value riscv_segs riscv_pre riscv_read_value riscv_canon
  by unfold_locales (rule riscv_wr_encodes, assumption, rule riscv_rd_holds)

text \<open>The width of the immediate that a form holds, and whether its lowest bit is implicitly zero.\<close>

fun riscv_imm_width :: "RiscVInstruction \<Rightarrow> nat" where
  "riscv_imm_width IType = 12"
| "riscv_imm_width SType = 12"
| "riscv_imm_width BType = 13"
| "riscv_imm_width JType = 21"
| "riscv_imm_width CbType = 9"
| "riscv_imm_width CjType = 12"
| "riscv_imm_width _ = 32"

definition riscv_immediate :: "RiscVInstruction \<Rightarrow> u64 \<Rightarrow> u64" where
  "riscv_immediate i v = signed_take_bit (riscv_imm_width i - 1) (if i \<in> {IType, SType} then v else v AND NOT 1)"

lemma riscv_canon_immediate:
  "i \<notin> {UType, UiType, CluiType} \<Longrightarrow> riscv_canon i v = (riscv_immediate i v, bit v (riscv_imm_width i - 1))"
  by (cases i) (simp_all add: riscv_immediate_def)

text \<open>What is read from a \<open>c.lui\<close> has the same upper part as what was written.\<close>

lemma riscv_clui_read_write:
  assumes "2 \<le> length bs" "riscv_write_to_value CluiType v neg bs = Some bs'"
  shows "riscv_write_to_value CluiType (fst (riscv_canon CluiType v)) neg' bs' = Some bs'"
proof -
  define r where "r = fst (riscv_canon CluiType v)"
  have pre: "riscv_pre CluiType x bs" for x using assms(1) by (simp add: riscv_pre_def riscv_bytes_def)
  have e: "encoded (riscv_segs CluiType) v bs bs'" using riscv_field.wr_Some [OF pre assms(2)] .
  then have pre': "riscv_pre CluiType r bs'" using assms(1) by (simp add: riscv_pre_def riscv_bytes_def encoded_def)
  obtain c where c: "riscv_write_to_value CluiType r neg' bs' = Some c" "encoded (riscv_segs CluiType) r bs' c"
    using riscv_field.wr_encodes [OF pre'] by blast
  have "r + 0x800 = push_bit 12 (signed_take_bit 5 (drop_bit 12 (v + 0x800)))" by (simp add: r_def)
  then have bits: "bit (r + 0x800) (12 + k) \<longleftrightarrow> bit (v + 0x800) (12 + k)" if "k < 6" for k
  proof -
    have "k < 5 \<or> k = 5" using that by linarith
    with that show ?thesis by (auto simp: \<open>r + 0x800 = _\<close> bit_push_bit_iff bit_signed_take_bit_iff bit_drop_bit_eq min_def)
  qed
  have lo: "bit (r + 0x800) (k + 12 - 2) \<longleftrightarrow> bit (v + 0x800) (k + 12 - 2)" if "2 \<le> k" "k < 2 + 5" for k
    using bits [of "k - 2"] that by simp
  have hi: "bit (r + 0x800) (k + 17 - 12) \<longleftrightarrow> bit (v + 0x800) (k + 17 - 12)" if "12 \<le> k" "k < 12 + 1" for k
    using bits [of "k - 7"] that by simp
  have "holds (riscv_segs CluiType) r c" using c(2) by (simp add: encoded_def)
  then have "holds (riscv_segs CluiType) v c"
    using lo hi by (simp del: Nat.add_diff_assoc Nat.add_diff_assoc2)
  then have "encoded (riscv_segs CluiType) v bs' c" using c(2) by (simp add: encoded_def)
  then have "encoded (riscv_segs CluiType) v bs c" using encoded_trans [OF e] by blast
  then show ?thesis using encoded_unique [OF e] c(1) r_def by simp
qed

text \<open>
  C5. Writing any value into any RISC-V instruction form, whatever its immediate held before,
  succeeds on enough bytes; opcode and register bits survive, and a later write replaces an earlier
  one completely. For loads, stores, branches and jumps, compressed ones included, reading gives the
  low bits of the value as the sign-extended immediate (for branches and jumps without bit 0) and its
  sign. What is read from a \<open>c.lui\<close>, which holds only an upper part, writes the same instruction
  again. Nothing is claimed of reading \<open>UType\<close> and \<open>UiType\<close>, for which \<open>read_value\<close> is not the inverse.
\<close>

theorem riscv_write_read:
  assumes "riscv_bytes i \<le> length bs"
  shows "\<exists>bs'. riscv_write_to_value i v neg bs = Some bs' \<and> length bs' = length bs \<and>
           (\<forall>k. \<not> in_field (riscv_segs i) k \<longrightarrow> (byte_bit bs' k \<longleftrightarrow> byte_bit bs k)) \<and>
           riscv_write_to_value i v' neg' bs' = riscv_write_to_value i v' neg' bs \<and>
           (i \<notin> {UType, UiType, CluiType} \<longrightarrow>
              riscv_read_value i bs' = Some (riscv_immediate i v, bit v (riscv_imm_width i - 1))) \<and>
           (i = CluiType \<longrightarrow> (\<exists>r s. riscv_read_value i bs' = Some (r, s) \<and> riscv_write_to_value i r neg' bs' = Some bs'))"
proof -
  have pre: "riscv_pre i v bs" "riscv_pre i v' bs" using assms by (simp_all add: riscv_pre_def)
  obtain bs' where bs': "riscv_write_to_value i v neg bs = Some bs'"
    using riscv_field.wr_encodes [OF pre(1)] by blast
  have len: "length bs' = length bs" using riscv_field.wr_length [OF pre(1) bs'] .
  then have pre': "riscv_pre i v' bs'" using assms by (simp add: riscv_pre_def)
  have rd: "riscv_read_value i bs' = Some (riscv_canon i v)" using riscv_field.rd_wr [OF pre(1) bs'] .
  have "riscv_read_value i bs' = Some (riscv_immediate i v, bit v (riscv_imm_width i - 1))"
    if "i \<notin> {UType, UiType, CluiType}"
    using rd riscv_canon_immediate [OF that, of v] by simp
  moreover have "\<exists>r s. riscv_read_value i bs' = Some (r, s) \<and> riscv_write_to_value i r neg' bs' = Some bs'" if "i = CluiType"
    using rd riscv_clui_read_write [of bs v neg bs' neg'] bs' assms that
    by (intro exI [of _ "fst (riscv_canon i v)"] exI [of _ "snd (riscv_canon i v)"]) (simp add: riscv_bytes_def del: riscv_canon.simps)
  ultimately show ?thesis
    using bs' len riscv_field.wr_overwrite [OF pre(1) bs' pre' pre(2)] riscv_field.wr_frame [OF pre(1) bs'] by blast
qed

theorem riscv_write_read_witness:
  "riscv_bytes BType \<le> length [0xff, 0x8f, 0xff, 0xff :: u8] \<and>
   (\<exists>bs'. riscv_write_to_value BType (- 4) True [0xff, 0x8f, 0xff, 0xff] = Some bs' \<and>
      riscv_read_value BType bs' = Some (- 4, True))"
proof -
  have len: "riscv_bytes BType \<le> length [0xff, 0x8f, 0xff, 0xff :: u8]" by (simp add: riscv_bytes_def)
  have "riscv_immediate BType (- 4) = - 4" "bit (- 4 :: u64) (riscv_imm_width BType - 1)" by code_simp+
  with len riscv_write_read [OF len, of "- 4" True 0 False] show ?thesis by auto
qed

text \<open>The reader of U-type instructions returns neither the value nor its upper part.\<close>

lemma riscv_utype_read_differs:
  "riscv_write_to_value UType 0x1000 False [0x37, 0, 0, 0] = Some [0x37, 0x10, 0, 0]"
  "riscv_read_value UType [0x37, 0x10, 0, 0] = Some (1 - 0x800, False)"
  by code_simp+

end
