(* ===== verification/RiscV64_Exec.thy ===== *)
theory RiscV64_Exec
  imports Arch_RiscV64
begin

text \<open>
  What relocated RISC-V code computes: the value that a \<open>lui\<close>/\<open>addi\<close> (or \<open>auipc\<close>/\<open>jalr\<close>) pair
  rebuilds from its two immediates, the effect of replacing \<open>lui\<close> by \<open>c.lui\<close>, and the reach of
  \<open>jal\<close>, on the encoder and the relaxations of \<open>linker-utils/src/riscv64.rs\<close>.
\<close>

section \<open>Splitting a value into its high and low part\<close>

text \<open>
  What the machine computes from the immediates: \<open>lui\<close> and \<open>auipc\<close> contribute the sign-extended
  upper 20 bits, \<open>addi\<close>, loads and \<open>jalr\<close> the sign-extended top 12 bits, \<open>c.lui\<close> six bits.
\<close>

definition lui_exec :: "u32 \<Rightarrow> u64" where
  "lui_exec w = scast (w AND NOT (mask 12))"

definition addi_imm :: "u32 \<Rightarrow> u64" where
  "addi_imm w = scast (signed_drop_bit 20 w)"

definition clui_exec :: "u16 \<Rightarrow> u64" where
  "clui_exec w = push_bit 12 (signed_take_bit 5
     (take_bit 5 (drop_bit 2 (ucast w)) OR push_bit 5 (take_bit 1 (drop_bit 12 (ucast w)))))"

lemma lui_exec_holds:
  assumes "holds (riscv_segs UType) v bs" "4 \<le> length bs"
  shows "lui_exec (getw 4 bs) = signed_take_bit 31 (v + 0x800) AND NOT (mask 12)"
  using assms by (intro bit_word_eqI)
    (auto simp: lui_exec_def bit_simps byte_simps bit_signed_take_bit_iff min_def)

lemma addi_imm_holds:
  assumes "holds (riscv_segs IType) v bs" "4 \<le> length bs"
  shows "addi_imm (getw 4 bs) = signed_take_bit 11 v"
proof (rule bit_word_eqI)
  fix k assume "k < LENGTH(64)"
  then have "bit (addi_imm (getw 4 bs)) k \<longleftrightarrow> byte_bit bs (20 + min k 11)"
    by (auto simp: addi_imm_def bit_simps byte_simps min_def)
  then show "bit (addi_imm (getw 4 bs)) k \<longleftrightarrow> bit (signed_take_bit 11 v) k"
    using assms(1) \<open>k < LENGTH(64)\<close> by (simp add: bit_signed_take_bit_iff min.commute)
qed

text \<open>
  C7. A value in \<open>[-2^31, 2^31 - 2^11)\<close> written as \<open>%hi\<close> into a U-type instruction and as \<open>%lo\<close>
  into an I-type one is rebuilt exactly by adding what the two instructions contribute.
\<close>

theorem riscv_hi_lo_pair:
  assumes "- (2 ^ 31) \<le> sint v" "sint v < 2 ^ 31 - 2 ^ 11" "4 \<le> length b1" "4 \<le> length b2"
    and "riscv_write_to_value UType v neg b1 = Some b1'"
    and "riscv_write_to_value IType v neg b2 = Some b2'"
  shows "lui_exec (getw 4 b1') + addi_imm (getw 4 b2') = v"
proof -
  have pre: "riscv_pre UType v b1" "riscv_pre IType v b2"
    using assms(3,4) by (simp_all add: riscv_pre_def riscv_bytes_def)
  from riscv_field.wr_Some [OF pre(1) assms(5)] riscv_field.wr_Some [OF pre(2) assms(6)] assms(3,4)
  have "holds (riscv_segs UType) v b1'" "4 \<le> length b1'" "holds (riscv_segs IType) v b2'" "4 \<le> length b2'"
    by (simp_all only: encoded_def)
  note h = lui_exec_holds [OF this(1,2)] addi_imm_holds [OF this(3,4)]
  have "sint (v + word_of_int 0x800) = sint v + 0x800"
    using assms(1,2) by (intro sint_add_small) auto
  then have "signed_take_bit 31 (v + 0x800) = v + 0x800"
    using assms(1,2) by (intro signed_take_bit_id) auto
  with h hi_lo_sum [of 11 v] show ?thesis by simp
qed

lemma bit_sext6:
  "bit (scast (sar (shl (ucast h :: u8) 2) 2) :: u64) k \<longleftrightarrow> k < 64 \<and> bit (h :: u64) (min k 5)"
proof -
  have "bit (sar (shl (ucast h :: u8) 2) 2) j \<longleftrightarrow> j < 8 \<and> bit h (min j 5)" for j
    by (auto simp: bit_sar bit_shl bit_unsigned_iff min_def)
  moreover have "bit (scast x :: u64) k \<longleftrightarrow> k < 64 \<and> bit x (min k 7)" for x :: u8
    by (auto simp: bit_signed_iff min_def not_le)
  ultimately show ?thesis by (simp add: min.assoc min_less_iff_disj)
qed

lemma sext6_id_iff:
  assumes "\<not> bit (h :: u64) 63"
  shows "(scast (sar (shl (ucast h :: u8) 2) 2) :: u64) = h \<longleftrightarrow> h < 2 ^ 5"
proof -
  note sx = bit_sext6 [of h]
  show ?thesis
  proof
    assume eq: "scast (sar (shl (ucast h :: u8) 2) 2) = h"
    have b: "bit h k \<longleftrightarrow> k < 64 \<and> bit h (min k 5)" for k using sx [of k] unfolding eq .
    from b [of 63] assms have "\<not> bit h 5" by simp
    then have "\<not> bit h k" if "5 \<le> k" for k using b [of k] that by (simp add: min_absorb2)
    then have "bit h k \<Longrightarrow> k < 5" for k using not_le by blast
    then have "take_bit 5 h = h" by (intro bit_word_eqI) (auto simp: bit_take_bit_iff)
    then have "h = h AND mask 5" by (simp add: take_bit_eq_mask)
    then show "h < 2 ^ 5" using and_mask_less_size [of 5 h] by (simp add: word_size)
  next
    assume "h < 2 ^ 5"
    then have lt: "bit h k \<Longrightarrow> k < 5" for k by (rule bit_of_bounded)
    show "scast (sar (shl (ucast h :: u8) 2) 2) = h"
    proof (rule bit_word_eqI)
      fix k assume "k < LENGTH(64)"
      with lt [of k] lt [of "min k 5"] show "bit (scast (sar (shl (ucast h :: u8) 2) 2) :: u64) k \<longleftrightarrow> bit h k"
        unfolding sx by (cases "k < 5") (auto simp: min_def)
    qed
  qed
qed

theorem riscv_hi_lo_pair_witness:
  "\<exists>b1 b2. riscv_write_to_value UType (- 10) True [0x37, 0, 0, 0] = Some b1 \<and>
     riscv_write_to_value IType (- 10) True [0x13, 0, 0, 0] = Some b2 \<and>
     lui_exec (getw 4 b1) + addi_imm (getw 4 b2) = - 10"
proof -
  have w: "riscv_write_to_value UType (- 10) True [0x37, 0, 0, 0] = Some [0x37, 0, 0, 0]"
    "riscv_write_to_value IType (- 10) True [0x13, 0, 0, 0] = Some [0x13, 0, 0x60, 0xff]"
    by code_simp+
  have "lui_exec (getw 4 [0x37, 0, 0, 0]) + addi_imm (getw 4 [0x13, 0, 0x60, 0xff]) = - 10"
    by (rule riscv_hi_lo_pair [OF _ _ _ _ w]) simp_all
  with w show ?thesis by blast
qed

text \<open>The test admits exactly the non-zero five-bit high parts.\<close>

lemma hi20_fits_clui_iff:
  "hi20_fits_clui v \<longleftrightarrow> 1 \<le> drop_bit 12 (v + 0x800) \<and> drop_bit 12 (v + 0x800) \<le> 31"
proof -
  define h where "h = drop_bit 12 (v + 0x800)"
  have "\<not> bit h 63" by (auto simp: h_def bit_drop_bit_eq dest: bit_imp_le_length)
  moreover have "h < 2 ^ 5 \<longleftrightarrow> h \<le> 31" "h \<noteq> 0 \<longleftrightarrow> 1 \<le> h"
    by (simp_all add: word_less_nat_alt word_le_nat_alt unat_eq_0 [symmetric]) linarith+
  ultimately show ?thesis
    by (auto simp: hi20_fits_clui_def Let_def shr_def h_def [symmetric] sext6_id_iff)
qed

lemma splice_word:
  "off + n \<le> length bs \<Longrightarrow>
     \<exists>bs'. splice off (to_le n w) bs = Some bs' \<and> drop off bs' = putw n w (drop off bs)"
  by (simp add: splice_def putw_def add.commute)

lemma clui_exec_holds:
  assumes "holds (riscv_segs CluiType) v bs" "2 \<le> length bs"
  shows "clui_exec (getw 2 bs) = push_bit 12 (signed_take_bit 5 (drop_bit 12 (v + 0x800)))"
proof -
  let ?w = "ucast (getw 2 bs :: u16) :: u64"
  have w: "bit ?w k \<longleftrightarrow> k < 16 \<and> byte_bit bs k" for k by (auto simp: bit_simps byte_simps)
  have "bit (take_bit 5 (drop_bit 2 ?w) OR push_bit 5 (take_bit 1 (drop_bit 12 ?w))) k \<longleftrightarrow>
      k < 6 \<and> bit (v + 0x800) (12 + k)" for k
  proof -
    have "k < 5 \<or> k = 5 \<or> 5 < k" by linarith
    then show ?thesis
      using assms(1) by (elim disjE) (simp_all add: bit_iff_odd_drop_bit [symmetric] bit_or_iff bit_take_bit_iff bit_drop_bit_eq bit_push_bit_iff w add.commute)
  qed
  then have "take_bit 5 (drop_bit 2 ?w) OR push_bit 5 (take_bit 1 (drop_bit 12 ?w)) =
      take_bit 6 (drop_bit 12 (v + 0x800))"
    by (intro bit_word_eqI) (auto simp: bit_take_bit_iff bit_drop_bit_eq)
  then show ?thesis by (simp add: clui_exec_def signed_take_bit_take_bit)
qed

lemma fits_clui_values:
  assumes "hi20_fits_clui v"
  shows "push_bit 12 (signed_take_bit 5 (drop_bit 12 (v + 0x800))) =
           signed_take_bit 31 (v + 0x800) AND NOT (mask 12)"
    and "push_bit 12 (signed_take_bit 5 (drop_bit 12 (v + 0x800))) \<noteq> 0"
proof -
  define h where "h = drop_bit 12 (v + 0x800)"
  have h: "1 \<le> h" "h < 2 ^ 5"
    using assms by (auto simp: hi20_fits_clui_iff h_def word_le_nat_alt word_less_nat_alt)
  have lt: "bit h k \<Longrightarrow> k < 5" for k using bit_of_bounded [OF h(2)] .
  have v: "bit (v + 0x800) k \<longleftrightarrow> 12 \<le> k \<and> bit h (k - 12)" if "12 \<le> k" for k
    using that by (simp add: h_def bit_drop_bit_eq)
  have s: "signed_take_bit 5 h = h"
    by (rule bit_word_eqI) (auto simp: bit_signed_take_bit_iff min_def dest: lt)
  show "push_bit 12 (signed_take_bit 5 (drop_bit 12 (v + 0x800))) =
           signed_take_bit 31 (v + 0x800) AND NOT (mask 12)"
    unfolding h_def [symmetric] s
    by (rule bit_word_eqI)
      (auto simp: bit_push_bit_iff bit_and_iff bit_not_iff bit_mask_iff bit_signed_take_bit_iff v min_def dest: lt)
  obtain k where k: "bit h k" using h(1) by (metis bit_eq_iff bit_0_eq bot_apply bot_bool_def word_le_0_iff zero_neq_one)
  then have "bit (push_bit 12 h) (12 + k)" using lt [OF k] by (simp add: bit_push_bit_iff)
  then show "push_bit 12 (signed_take_bit 5 (drop_bit 12 (v + 0x800))) \<noteq> 0"
    unfolding h_def [symmetric] s by force
qed

definition clui_base :: "u16 \<Rightarrow> u16" where
  "clui_base lui_lo = 0x6001 OR shl (shr lui_lo 7 AND 0x1f) 7"

lemma clui_base_bits:
  "clui_base w AND 0xe003 = 0x6001" "take_bit 5 (drop_bit 7 (clui_base w)) = take_bit 5 (drop_bit 7 w)"
proof -
  have b: "bit (clui_base w) k \<longleftrightarrow> bit (0x6001 :: u16) k \<or> (7 \<le> k \<and> k < 12 \<and> bit w k)" for k
  proof -
    have m: "(0x1f :: u16) = mask 5" by (simp add: mask_eq_exp_minus_1)
    show ?thesis unfolding clui_base_def m
      by (auto simp: bit_or_iff bit_shl bit_shr bit_and_iff bit_mask_iff dest: bit_imp_le_length)
  qed
  show "clui_base w AND 0xe003 = 0x6001"
  proof (rule bit_word_eqI)
    fix k assume "k < LENGTH(16)"
    then have "k \<in> set [0..<16]" by simp
    then show "bit (clui_base w AND 0xe003) k \<longleftrightarrow> bit (0x6001 :: u16) k"
      unfolding upt_numerals bit_and_iff b by auto
  qed
  show "take_bit 5 (drop_bit 7 (clui_base w)) = take_bit 5 (drop_bit 7 w)"
  proof (rule bit_word_eqI)
    fix k :: nat
    have "k = 0 \<or> k = 1 \<or> k = 2 \<or> k = 3 \<or> k = 4 \<or> 5 \<le> k" by linarith
    then show "bit (take_bit 5 (drop_bit 7 (clui_base w))) k \<longleftrightarrow> bit (take_bit 5 (drop_bit 7 w)) k"
      by (elim disjE) (simp_all add: bit_take_bit_iff bit_drop_bit_eq b)
  qed
qed

lemma clui_keeps_opcode:
  assumes "encoded (riscv_segs CluiType) v bs c" "2 \<le> length bs" "length c = length bs"
  shows "(getw 2 c :: u16) AND 0xe003 = getw 2 bs AND 0xe003"
    and "take_bit 5 (drop_bit 7 (getw 2 c :: u16)) = take_bit 5 (drop_bit 7 (getw 2 bs))"
proof -
  have f: "byte_bit c k \<longleftrightarrow> byte_bit bs k" if "k < 2 \<or> (7 \<le> k \<and> k < 12) \<or> 13 \<le> k" for k
    using assms(1) that by (auto simp: encoded_def)
  show "(getw 2 c :: u16) AND 0xe003 = getw 2 bs AND 0xe003"
  proof (rule bit_word_eqI)
    fix k assume "k < LENGTH(16)"
    then have "k \<in> set [0..<16]" by simp
    then show "bit ((getw 2 c :: u16) AND 0xe003) k \<longleftrightarrow> bit ((getw 2 bs :: u16) AND 0xe003) k"
      unfolding upt_numerals bit_and_iff bit_getw_byte_bit using f by auto
  qed
  show "take_bit 5 (drop_bit 7 (getw 2 c :: u16)) = take_bit 5 (drop_bit 7 (getw 2 bs))"
    by (rule bit_word_eqI) (auto simp: bit_take_bit_iff bit_drop_bit_eq byte_simps f)
qed

lemma clui_apply:
  assumes "off + 2 \<le> length bs"
  shows "\<exists>bs'. riscv_apply Hi20ToCLui (bs, off, ad) = Some (bs', off, ad) \<and>
           drop off bs' = putw 2 (clui_base (getw 2 (drop off bs))) (drop off bs)"
proof -
  have two: "take 2 (drop off bs) = [bs ! off, bs ! (off + 1)]"
    using assms by (simp add: numeral_2_eq_2 take_Suc_conv_app_nth)
  then have "(from_le [bs ! off, bs ! (off + 1)] :: u16) = getw 2 (drop off bs)"
    by (simp add: getw_def)
  with splice_word [OF assms, of "clui_base (getw 2 (drop off bs))"] assms show ?thesis
    by (auto simp: index_def Let_def clui_base_def)
qed

text \<open>The destination registers of \<open>lui\<close> and of \<open>c.lui\<close>.\<close>

definition lui_rd :: "u32 \<Rightarrow> u32" where
  "lui_rd w = take_bit 5 (drop_bit 7 w)"

definition clui_rd :: "u16 \<Rightarrow> u32" where
  "clui_rd w = take_bit 5 (drop_bit 7 (ucast w))"

lemma rd_bits:
  "bit (lui_rd (getw 4 bs)) k \<longleftrightarrow> k < 5 \<and> byte_bit bs (7 + k)"
  "bit (clui_rd (getw 2 bs)) k \<longleftrightarrow> k < 5 \<and> byte_bit bs (7 + k)"
  by (auto simp: lui_rd_def clui_rd_def bit_take_bit_iff bit_drop_bit_eq bit_unsigned_iff byte_simps)

lemma lui_rd_code: "shr w 7 AND 0x1f = lui_rd w"
proof -
  have "(0x1f :: u32) = mask 5" by (simp add: mask_eq_exp_minus_1)
  then show ?thesis by (simp add: lui_rd_def take_bit_eq_mask shr_def)
qed

lemma clui_rd_ucast: "clui_rd w = ucast (take_bit 5 (drop_bit 7 w))"
  by (rule bit_word_eqI) (auto simp: clui_rd_def bit_take_bit_iff bit_drop_bit_eq bit_unsigned_iff dest: bit_imp_le_length)

lemma utype_keeps_rd:
  "encoded (riscv_segs UType) v bs u \<Longrightarrow> lui_rd (getw 4 u) = lui_rd (getw 4 bs)"
  by (rule bit_word_eqI) (auto simp: rd_bits encoded_def)

text \<open>
  C6. Relaxing \<open>lui rd, %hi(v)\<close> to \<open>c.lui\<close> when \<open>hi20_fits_clui\<close> and \<open>rd_valid_for_clui\<close> allow it, as the
  scan checks before it chooses the relaxation: the two bytes become a valid \<open>c.lui\<close> with the same
  destination register (neither x0 nor x2, which would make it a hint or \<open>c.addi16sp\<close>) and a non-zero
  immediate, and executing it gives the register the value that the relocated \<open>lui\<close> would have given
  it.
\<close>

theorem riscv_clui_relaxation:
  assumes "hi20_fits_clui v" "off + 4 \<le> length bs"
    and "rd_valid_for_clui (shr (getw 4 (drop off bs)) 7 AND 0x1f)"
  shows "\<exists>bs1 c u. riscv_apply Hi20ToCLui (bs, off, ad) = Some (bs1, off, ad) \<and>
      riscv_write_to_value CluiType v neg (drop off bs1) = Some c \<and>
      riscv_write_to_value UType v neg (drop off bs) = Some u \<and>
      clui_exec (getw 2 c) = lui_exec (getw 4 u) \<and> clui_exec (getw 2 c) \<noteq> 0 \<and>
      (getw 2 c :: u16) AND 0xe003 = 0x6001 \<and>
      clui_rd (getw 2 c) = lui_rd (getw 4 u) \<and> clui_rd (getw 2 c) \<noteq> 0 \<and> clui_rd (getw 2 c) \<noteq> 2"
proof -
  obtain bs1 where bs1: "riscv_apply Hi20ToCLui (bs, off, ad) = Some (bs1, off, ad)"
    and d: "drop off bs1 = putw 2 (clui_base (getw 2 (drop off bs))) (drop off bs)"
    using clui_apply [of off bs] assms(2) by auto
  have len: "2 \<le> length (drop off bs1)" "4 \<le> length (drop off bs)"
    using assms(2) by (auto simp: d byte_simps)
  then have pre: "riscv_pre CluiType v (drop off bs1)" "riscv_pre UType v (drop off bs)"
    by (simp_all add: riscv_pre_def riscv_bytes_def)
  obtain c u where c: "riscv_write_to_value CluiType v neg (drop off bs1) = Some c"
      "encoded (riscv_segs CluiType) v (drop off bs1) c"
    and u: "riscv_write_to_value UType v neg (drop off bs) = Some u"
      "encoded (riscv_segs UType) v (drop off bs) u"
    using riscv_field.wr_encodes [OF pre(1)] riscv_field.wr_encodes [OF pre(2)] by blast
  have cl: "length c = length (drop off bs1)" "2 \<le> length c" "4 \<le> length u"
    using c(2) u(2) len by (simp_all only: encoded_def)
  have "holds (riscv_segs CluiType) v c" "holds (riscv_segs UType) v u"
    using c(2) u(2) by (simp_all only: encoded_def)
  note vals = clui_exec_holds [OF this(1) cl(2)] lui_exec_holds [OF this(2) cl(3)]
  have base: "(getw 2 (drop off bs1) :: u16) = clui_base (getw 2 (drop off bs))"
    by (simp add: d byte_simps)
  have "clui_rd (getw 2 c) = clui_rd (getw 2 (drop off bs))"
    using clui_keeps_opcode(2) [OF c(2) len(1) cl(1)] by (simp add: clui_rd_ucast base clui_base_bits)
  moreover have "clui_rd (getw 2 (drop off bs)) = lui_rd (getw 4 (drop off bs))"
    by (rule bit_word_eqI) (simp add: rd_bits)
  ultimately have rd: "clui_rd (getw 2 c) = lui_rd (getw 4 u)" "lui_rd (getw 4 u) \<noteq> 0" "lui_rd (getw 4 u) \<noteq> 2"
    using utype_keeps_rd [OF u(2)] assms(3) by (simp_all add: lui_rd_code rd_valid_for_clui_def)
  from clui_keeps_opcode(1) [OF c(2) len(1) cl(1)] bs1 c(1) u(1) vals fits_clui_values [OF assms(1)] rd
  show ?thesis by (simp add: base clui_base_bits)
qed

theorem riscv_clui_relaxation_witness:
  "hi20_fits_clui 0x1F234 \<and> (\<exists>bs1 c u.
      riscv_apply Hi20ToCLui ([0xb7, 0x05, 0, 0], 0, 0) = Some (bs1, 0, 0) \<and>
      riscv_write_to_value CluiType 0x1F234 False bs1 = Some c \<and>
      riscv_write_to_value UType 0x1F234 False [0xb7, 0x05, 0, 0] = Some u \<and>
      clui_exec (getw 2 c) = lui_exec (getw 4 u))"
proof -
  have f: "hi20_fits_clui 0x1F234" "rd_valid_for_clui (shr (getw 4 [0xb7, 0x05, 0, 0]) 7 AND 0x1f)" by code_simp+
  from riscv_clui_relaxation [OF f(1), of 0 "[0xb7, 0x05, 0, 0]" 0 False] f show ?thesis by auto
qed

section \<open>The reach of \<open>jal\<close>\<close>

lemma jal_canon:
  assumes "distance_fits_jal (sint v)" "\<not> bit v 0"
  shows "riscv_canon JType v = (v, sint v < 0)"
proof -
  have even: "v AND NOT 1 = v"
    by (rule bit_word_eqI) (use assms(2) in \<open>auto simp: bit_and_iff bit_not_iff bit_1_iff intro!: gr0I\<close>)
  have "signed_take_bit 20 v = v"
    using assms(1) by (simp add: distance_fits_jal_def JAL_RANGE_def signed_take_bit_sint
        signed_take_bit_int_eq_self)
  moreover from this have "bit v 20 \<longleftrightarrow> bit v 63"
    using bit_signed_take_bit_iff [of 20 v 63] by simp
  moreover have "bit v 63 \<longleftrightarrow> sint v < 0" using bit_last_iff [of v] by simp
  ultimately show ?thesis unfolding riscv_canon.simps even by simp
qed

text \<open>
  C8. A call relaxed to \<open>jal\<close>: when \<open>distance_fits_jal\<close> holds of the even distance, the rewritten
  instruction at the call site is a \<open>jal\<close> with the link register of the \<open>auipc\<close>, and decoding its
  immediate gives the distance exactly.
\<close>

theorem riscv_call_to_jal:
  assumes "distance_fits_jal (sint v)" "\<not> bit v 0" "off + 4 \<le> length bs"
  shows "\<exists>bs1 j. riscv_apply CallToJal (bs, off, ad) = Some (bs1, off, ad) \<and>
      riscv_write_to_value JType v neg (drop off bs1) = Some j \<and>
      riscv_read_value JType j = Some (v, sint v < 0) \<and>
      take_bit 12 (getw 4 j :: u32) = 0x6f OR (getw 4 (drop off bs) AND 0xf80)"
proof -
  let ?w = "getw 4 (drop off bs) :: u32"
  define jal where "jal = 0x6f OR shl (shr ?w 7 AND 0x1f) 7"
  obtain bs1 where bs1: "riscv_apply CallToJal (bs, off, ad) = Some (bs1, off, ad)"
    and d: "drop off bs1 = putw 4 jal (drop off bs)"
    using splice_word [OF assms(3), of jal] assms(3)
    by (auto simp: slice_def byte_simps jal_def)
  have len: "4 \<le> length (drop off bs1)" using assms(3) by (auto simp: d byte_simps)
  then have pre: "riscv_pre JType v (drop off bs1)" by (simp add: riscv_pre_def riscv_bytes_def)
  obtain j where j: "riscv_write_to_value JType v neg (drop off bs1) = Some j"
      "encoded (riscv_segs JType) v (drop off bs1) j"
    using riscv_field.wr_encodes [OF pre] by blast
  have "take_bit 12 (getw 4 j :: u32) = take_bit 12 jal"
  proof (rule bit_word_eqI)
    fix k
    have "k < 12 \<Longrightarrow> byte_bit j k \<longleftrightarrow> bit jal k"
      using j(2) assms(3) by (simp add: encoded_def d byte_simps)
    then show "bit (take_bit 12 (getw 4 j :: u32)) k \<longleftrightarrow> bit (take_bit 12 jal) k"
      by (auto simp: bit_take_bit_iff byte_simps)
  qed
  also have "\<dots> = 0x6f OR (?w AND 0xf80)"
  proof (rule bit_word_eqI)
    fix k assume "k < LENGTH(32)"
    then have "k \<in> set [0..<32]" by simp
    then show "bit (take_bit 12 jal) k \<longleftrightarrow> bit (0x6f OR (?w AND 0xf80)) k"
      unfolding upt_numerals jal_def bit_take_bit_iff bit_or_iff bit_and_iff bit_shl bit_shr
      by auto
  qed
  finally show ?thesis
    using bs1 j riscv_field.rd_wr [OF pre j(1)] jal_canon [OF assms(1,2)]
    by (simp del: riscv_canon.simps)
qed

theorem riscv_call_to_jal_witness:
  "distance_fits_jal (sint (- 2048 :: u64)) \<and> (\<exists>bs1 j.
      riscv_apply CallToJal ([0x97, 0, 0, 0, 0xe7, 0x80, 0, 0], 0, 0) = Some (bs1, 0, 0) \<and>
      riscv_write_to_value JType (- 2048) True bs1 = Some j \<and>
      riscv_read_value JType j = Some (- 2048, True))"
proof -
  have f: "distance_fits_jal (sint (- 2048 :: u64))" by (simp add: distance_fits_jal_def JAL_RANGE_def)
  have e: "\<not> bit (- 2048 :: u64) 0" by simp
  from riscv_call_to_jal [OF f e, of 0 "[0x97, 0, 0, 0, 0xe7, 0x80, 0, 0]" 0 True] f show ?thesis
    by auto
qed

end
