(* ===== verification/Relax_Deltas.thy ===== *)
theory Relax_Deltas
  imports Prelude "HOL-Library.Multiset"
begin

text \<open>
  Byte deletions caused by relaxation (\<open>linker-utils/src/relaxation.rs\<close>): the sorted table of
  deletions of a section with its two offset translations, the cursor that translates a rising
  sequence of offsets, and the sparse map from section index to table. The specification counts
  the bytes deleted before an offset; the lemmas show that every operation agrees with it, that
  the translations are inverse and monotone on surviving offsets, and that the sparse map is a
  finite map.
\<close>

section \<open>Model\<close>

record RelaxDelta =
  input_offset :: u64
  cumulative_deleted :: u64
  bytes_deleted :: u32

record SectionRelaxDeltas =
  deltas :: "RelaxDelta list"

text \<open>The loop of \<open>SectionRelaxDeltas::new\<close> with its running total.\<close>

fun push_deltas :: "u64 \<Rightarrow> (u64 \<times> u32) list \<Rightarrow> RelaxDelta list" where
  "push_deltas running [] = []"
| "push_deltas running ((off, n) # raw) =
     (let running' = running + ucast n
      in \<lparr>input_offset = off, cumulative_deleted = running', bytes_deleted = n\<rparr> # push_deltas running' raw)"

definition deltas_new :: "(u64 \<times> u32) list \<Rightarrow> SectionRelaxDeltas" where
  "deltas_new raw = \<lparr>deltas = push_deltas 0 raw\<rparr>"

definition deltas_is_empty :: "SectionRelaxDeltas \<Rightarrow> bool" where
  "deltas_is_empty s = (deltas s = [])"

definition total_deleted :: "SectionRelaxDeltas \<Rightarrow> u64" where
  "total_deleted s = (if deltas s = [] then 0 else cumulative_deleted (last (deltas s)))"

definition merge_additional :: "SectionRelaxDeltas \<Rightarrow> (u64 \<times> u32) list \<Rightarrow> SectionRelaxDeltas" where
  "merge_additional s additional =
     (if additional = [] then s
      else deltas_new (sort_key fst (map (\<lambda>d. (input_offset d, bytes_deleted d)) (deltas s) @ additional)))"

definition has_delta_at :: "SectionRelaxDeltas \<Rightarrow> u64 \<Rightarrow> bool" where
  "has_delta_at s off = (binary_search_by_key off input_offset (deltas s) \<noteq> None)"

definition delta_bytes_at :: "SectionRelaxDeltas \<Rightarrow> u64 \<Rightarrow> u32" where
  "delta_bytes_at s off =
     (case binary_search_by_key off input_offset (deltas s) of
        None \<Rightarrow> 0
      | Some i \<Rightarrow> bytes_deleted (deltas s ! i))"

definition input_to_output_offset :: "SectionRelaxDeltas \<Rightarrow> u64 \<Rightarrow> u64" where
  "input_to_output_offset s x =
     (if deltas s = [] then x
      else
        let idx = partition_point (\<lambda>d. input_offset d < x) (deltas s)
        in if idx = 0 then x else x - cumulative_deleted (deltas s ! (idx - 1)))"

definition output_to_input_offset :: "SectionRelaxDeltas \<Rightarrow> u64 \<Rightarrow> u64" where
  "output_to_input_offset s y =
     (if deltas s = [] then y
      else
        let lo = partition_point
                   (\<lambda>d. input_offset d + ucast (bytes_deleted d) - cumulative_deleted d \<le> y) (deltas s)
        in if lo = 0 then y else y + cumulative_deleted (deltas s ! (lo - 1)))"

record RelaxCursor =
  cursor_deltas :: "RelaxDelta list"
  cursor_index :: nat
  current_cumulative :: u64

definition deltas_cursor :: "SectionRelaxDeltas \<Rightarrow> RelaxCursor" where
  "deltas_cursor s = \<lparr>cursor_deltas = deltas s, cursor_index = 0, current_cumulative = 0\<rparr>"

function cursor_advance :: "u64 \<Rightarrow> RelaxCursor \<Rightarrow> RelaxCursor" where
  "cursor_advance x c =
     (if cursor_index c < length (cursor_deltas c) \<and> input_offset (cursor_deltas c ! cursor_index c) < x
      then cursor_advance x
             (c\<lparr>current_cumulative := cumulative_deleted (cursor_deltas c ! cursor_index c),
                cursor_index := cursor_index c + 1\<rparr>)
      else c)"
  by pat_completeness auto
termination
  by (relation "measure (\<lambda>(x, c). length (cursor_deltas c) - cursor_index c)") auto

declare cursor_advance.simps [simp del]

definition translate :: "RelaxCursor \<Rightarrow> u64 \<Rightarrow> RelaxCursor \<times> u64" where
  "translate c x = (let c' = cursor_advance x c in (c', x - current_cumulative c'))"

definition opt_input_to_output :: "SectionRelaxDeltas option \<Rightarrow> u64 \<Rightarrow> u64" where
  "opt_input_to_output d x = (case d of Some s \<Rightarrow> input_to_output_offset s x | None \<Rightarrow> x)"

text \<open>A client that translates a sequence of offsets through one cursor.\<close>

primrec translate_all :: "RelaxCursor \<Rightarrow> u64 list \<Rightarrow> u64 list" where
  "translate_all c [] = []"
| "translate_all c (x # xs) = (let (c', y) = translate c x in y # translate_all c' xs)"

record RelaxDeltaMap =
  entries :: "(nat \<times> SectionRelaxDeltas) list"

definition delta_map_new :: RelaxDeltaMap where
  "delta_map_new = \<lparr>entries = []\<rparr>"

definition delta_map_insert :: "nat \<Rightarrow> SectionRelaxDeltas \<Rightarrow> RelaxDeltaMap \<Rightarrow> RelaxDeltaMap" where
  "delta_map_insert i s m = m\<lparr>entries := entries m @ [(i, s)]\<rparr>"

definition delta_map_get :: "RelaxDeltaMap \<Rightarrow> nat \<Rightarrow> SectionRelaxDeltas option" where
  "delta_map_get m i = map_option (\<lambda>j. snd (entries m ! j)) (binary_search_by_key i fst (entries m))"

text \<open>Updating an entry through the reference that \<open>get_mut\<close> returns.\<close>

definition delta_map_get_mut ::
    "RelaxDeltaMap \<Rightarrow> nat \<Rightarrow> (SectionRelaxDeltas \<Rightarrow> SectionRelaxDeltas) \<Rightarrow> RelaxDeltaMap" where
  "delta_map_get_mut m i f =
     (case binary_search_by_key i fst (entries m) of
        None \<Rightarrow> m
      | Some j \<Rightarrow> m\<lparr>entries := (entries m)[j := (fst (entries m ! j), f (snd (entries m ! j)))]\<rparr>)"

definition delta_map_insert_sorted :: "nat \<Rightarrow> SectionRelaxDeltas \<Rightarrow> RelaxDeltaMap \<Rightarrow> RelaxDeltaMap" where
  "delta_map_insert_sorted i s m =
     (let pos = partition_point (\<lambda>e. fst e < i) (entries m)
      in m\<lparr>entries := take pos (entries m) @ (i, s) # drop pos (entries m)\<rparr>)"

definition delta_map_is_empty :: "RelaxDeltaMap \<Rightarrow> bool" where
  "delta_map_is_empty m = (entries m = [])"

section \<open>The specification: bytes deleted before an offset\<close>

definition deleted_before :: "(u64 \<times> u32) list \<Rightarrow> u64 \<Rightarrow> u64" where
  "deleted_before raw x = sum_list (map (\<lambda>(off, n). ucast n) (filter (\<lambda>(off, n). off < x) raw))"

lemma map_push_deltas: "map (\<lambda>d. (input_offset d, bytes_deleted d)) (push_deltas c raw) = raw"
  by (induction c raw rule: push_deltas.induct) (auto simp: Let_def)

lemma offsets_push_deltas: "map input_offset (push_deltas c raw) = map fst raw"
  by (induction c raw rule: push_deltas.induct) (auto simp: Let_def)

lemma deleted_before_above:
  "(\<And>e. e \<in> set raw \<Longrightarrow> x \<le> fst e) \<Longrightarrow> deleted_before raw x = 0"
  by (induction raw) (fastforce simp: deleted_before_def)+

lemma deleted_before_Cons:
  "deleted_before ((off, n) # raw) x = (if off < x then ucast n else 0) + deleted_before raw x"
  by (simp add: deleted_before_def)

text \<open>The cumulative count at the end of the deltas before \<open>x\<close>.\<close>

lemma cumulative_push_deltas:
  assumes "strictly_sorted (map fst raw)"
  shows "(let tw = takeWhile (\<lambda>d. input_offset d < x) (push_deltas c raw)
          in if tw = [] then c else cumulative_deleted (last tw)) = c + deleted_before raw x"
  using assms
proof (induction c raw rule: push_deltas.induct)
  case (1 c)
  then show ?case by (simp add: deleted_before_def)
next
  case (2 c off n raw)
  show ?case
  proof (cases "off < x")
    case True
    with 2 show ?thesis by (auto simp: Let_def deleted_before_Cons add.assoc split: if_splits)
  next
    case False
    then have "deleted_before ((off, n) # raw) x = 0"
      using "2.prems" by (intro deleted_before_above) fastforce
    with False show ?thesis by (simp add: Let_def)
  qed
qed

lemma last_takeWhile_nth:
  "takeWhile P xs \<noteq> [] \<Longrightarrow> last (takeWhile P xs) = xs ! (length (takeWhile P xs) - 1)"
  by (metis last_conv_nth takeWhile_nth diff_less length_greater_0_conv zero_less_one)

lemma partitioned_offsets:
  "strictly_sorted (map fst raw) \<Longrightarrow> partitioned (\<lambda>d. input_offset d < x) (push_deltas c raw)"
  by (rule partitioned_key_less, rule strictly_sorted_weaken) (simp add: offsets_push_deltas)

lemma input_to_output_spec:
  assumes "strictly_sorted (map fst raw)"
  shows "input_to_output_offset (deltas_new raw) x = x - deleted_before raw x"
proof -
  let ?tw = "takeWhile (\<lambda>d. input_offset d < x) (push_deltas 0 raw)"
  have pp: "partition_point (\<lambda>d. input_offset d < x) (push_deltas 0 raw) = length ?tw"
    by (rule partition_point_eq_takeWhile) (rule partitioned_offsets [OF assms])
  have "deleted_before raw x = (if ?tw = [] then 0 else cumulative_deleted (last ?tw))"
    using cumulative_push_deltas [OF assms, of x 0] by (simp add: Let_def)
  with pp last_takeWhile_nth [of "\<lambda>d. input_offset d < x" "push_deltas 0 raw"] show ?thesis
    by (auto simp: input_to_output_offset_def deltas_new_def Let_def)
qed

section \<open>The cursor\<close>

text \<open>A cursor stands after deltas that are all before \<open>x\<close> and knows the total of the last one.\<close>

definition cursor_at :: "RelaxDelta list \<Rightarrow> u64 \<Rightarrow> RelaxCursor \<Rightarrow> bool" where
  "cursor_at ds x c =
     (cursor_deltas c = ds \<and> cursor_index c \<le> length ds \<and>
      (\<forall>d \<in> set (take (cursor_index c) ds). input_offset d < x) \<and>
      current_cumulative c = (if cursor_index c = 0 then 0 else cumulative_deleted (ds ! (cursor_index c - 1))))"

lemma cursor_at_mono: "cursor_at ds x c \<Longrightarrow> x \<le> y \<Longrightarrow> cursor_at ds y c"
  by (fastforce simp: cursor_at_def)

lemma cursor_advance_spec:
  assumes "cursor_at ds x c"
  shows "cursor_at ds x (cursor_advance x c) \<and>
         cursor_index (cursor_advance x c) = length (takeWhile (\<lambda>d. input_offset d < x) ds)"
  using assms
proof (induction x c rule: cursor_advance.induct)
  case (1 x c)
  let ?i = "cursor_index c"
  show ?case
  proof (cases "?i < length ds \<and> input_offset (ds ! ?i) < x")
    case True
    let ?c = "c\<lparr>current_cumulative := cumulative_deleted (ds ! ?i), cursor_index := ?i + 1\<rparr>"
    have ds: "cursor_deltas c = ds" using "1.prems" by (simp add: cursor_at_def)
    have at: "cursor_at ds x ?c"
      using "1.prems" True by (auto simp: cursor_at_def take_Suc_conv_app_nth)
    have step: "cursor_advance x c = cursor_advance x ?c"
      using True by (subst cursor_advance.simps) (simp add: ds)
    show ?thesis
      unfolding step using "1.IH" [unfolded ds, OF True at] .
  next
    case False
    then have stop: "cursor_advance x c = c"
      using "1.prems" by (subst cursor_advance.simps) (auto simp: cursor_at_def)
    have "takeWhile (\<lambda>d. input_offset d < x) ds = take ?i ds"
    proof (rule takeWhile_eq_take_P_nth)
      show "input_offset (ds ! j) < x" if "j < ?i" "j < length ds" for j
      proof -
        have "ds ! j = take ?i ds ! j" "j < length (take ?i ds)" using that by simp_all
        then have "ds ! j \<in> set (take ?i ds)" by (metis nth_mem)
        then show ?thesis using "1.prems" by (simp add: cursor_at_def)
      qed
      show "\<not> input_offset (ds ! ?i) < x" if "?i < length ds" using False that by simp
    qed
    with stop "1.prems" show ?thesis by (simp add: cursor_at_def)
  qed
qed

lemma translate_spec:
  assumes "strictly_sorted (map fst raw)" "cursor_at (push_deltas 0 raw) x c"
  shows "snd (translate c x) = x - deleted_before raw x \<and> cursor_at (push_deltas 0 raw) x (fst (translate c x))"
proof -
  let ?P = "\<lambda>d. input_offset d < x" and ?ds = "push_deltas 0 raw"
  have c: "cursor_at ?ds x (cursor_advance x c)" "cursor_index (cursor_advance x c) = length (takeWhile ?P ?ds)"
    using cursor_advance_spec [OF assms(2)] by auto
  have "deleted_before raw x = (if takeWhile ?P ?ds = [] then 0 else cumulative_deleted (last (takeWhile ?P ?ds)))"
    using cumulative_push_deltas [OF assms(1), of x 0] by (simp add: Let_def)
  moreover have "current_cumulative (cursor_advance x c) =
      (if length (takeWhile ?P ?ds) = 0 then 0 else cumulative_deleted (?ds ! (length (takeWhile ?P ?ds) - 1)))"
    using c unfolding cursor_at_def by (simp only:)
  ultimately have "current_cumulative (cursor_advance x c) = deleted_before raw x"
    using last_takeWhile_nth [of ?P ?ds] by simp
  with c(1) show ?thesis by (simp add: translate_def Let_def)
qed

lemma translate_all_from:
  assumes "strictly_sorted (map fst raw)" "cursor_at (push_deltas 0 raw) x c" "sorted (x # xs)"
  shows "translate_all c xs = map (\<lambda>y. y - deleted_before raw y) xs"
  using assms(2,3)
proof (induction xs arbitrary: x c)
  case Nil
  then show ?case by simp
next
  case (Cons y ys)
  then have "cursor_at (push_deltas 0 raw) y c" by (auto intro: cursor_at_mono)
  from translate_spec [OF assms(1) this] Cons.IH [of y "fst (translate c y)"] Cons.prems(2)
  show ?case by (simp add: split_beta Let_def)
qed

text \<open>
  C14. Translating a non-decreasing sequence of offsets through one cursor, in a single pass over
  the deltas, gives for every offset the result of the binary search of \<open>input_to_output_offset\<close>.
\<close>

theorem cursor_matches_lookup:
  assumes "strictly_sorted (map fst raw)" "sorted xs"
  shows "translate_all (deltas_cursor (deltas_new raw)) xs = map (input_to_output_offset (deltas_new raw)) xs"
proof -
  have "cursor_at (push_deltas 0 raw) 0 (deltas_cursor (deltas_new raw))"
    by (simp add: cursor_at_def deltas_cursor_def deltas_new_def)
  moreover have "sorted (0 # xs)" using assms(2) by simp
  ultimately show ?thesis
    using translate_all_from [OF assms(1)] input_to_output_spec [OF assms(1)] by simp
qed

theorem cursor_matches_lookup_witness:
  "translate_all (deltas_cursor (deltas_new [(4, 4), (16, 2)])) [0, 4, 8, 16, 18, 40] = [0, 4, 4, 12, 12, 34]"
proof -
  have "translate_all (deltas_cursor (deltas_new [(4, 4), (16, 2)])) [0, 4, 8, 16, 18, 40] =
      map (input_to_output_offset (deltas_new [(4, 4), (16, 2)])) [0, 4, 8, 16, 18, 40]"
    by (rule cursor_matches_lookup) simp_all
  then show ?thesis by (simp add: input_to_output_spec deleted_before_def)
qed

section \<open>Inverse translations\<close>

text \<open>
  Well-formed deletions: positive, in order, not overlapping, inside the address space. The
  counts below are natural numbers; nothing wraps.
\<close>

fun raw_ok_from :: "nat \<Rightarrow> (u64 \<times> u32) list \<Rightarrow> bool" where
  "raw_ok_from lo [] = True"
| "raw_ok_from lo ((off, n) # raw) =
     (lo \<le> unat off \<and> 0 < n \<and> unat off + unat n < 2 ^ 64 \<and> raw_ok_from (unat off + unat n) raw)"

definition raw_ok :: "(u64 \<times> u32) list \<Rightarrow> bool" where
  "raw_ok raw = raw_ok_from 0 raw"

fun del_nat :: "(u64 \<times> u32) list \<Rightarrow> nat \<Rightarrow> nat" where
  "del_nat [] x = 0"
| "del_nat ((off, n) # raw) x = (if unat off < x then unat n else 0) + del_nat raw x"

text \<open>Offsets not inside a deletion, and offsets of bytes that are kept.\<close>

definition boundary :: "(u64 \<times> u32) list \<Rightarrow> nat \<Rightarrow> bool" where
  "boundary raw x = list_all (\<lambda>(off, n). \<not> (unat off < x \<and> x < unat off + unat n)) raw"

definition survives :: "(u64 \<times> u32) list \<Rightarrow> nat \<Rightarrow> bool" where
  "survives raw x = list_all (\<lambda>(off, n). \<not> (unat off \<le> x \<and> x < unat off + unat n)) raw"

lemma survives_boundary: "survives raw x \<Longrightarrow> boundary raw x"
  by (auto simp: survives_def boundary_def list_all_iff)

lemma raw_ok_above:
  "raw_ok_from lo raw \<Longrightarrow> (off, n) \<in> set raw \<Longrightarrow>
     lo \<le> unat off \<and> 0 < n \<and> unat off + unat n < 2 ^ 64"
  by (induction lo raw rule: raw_ok_from.induct) fastforce+

lemma raw_ok_sorted: "raw_ok_from lo raw \<Longrightarrow> strictly_sorted (map fst raw)"
proof (induction lo raw rule: raw_ok_from.induct)
  case (2 lo off n raw)
  have "off < off'" if "(off', n') \<in> set raw" for off' n'
  proof -
    have "unat off + unat n \<le> unat off'" using raw_ok_above 2 that by fastforce
    moreover have "0 < unat n" using 2 by (simp add: unat_gt_0 word_gt_0)
    ultimately show ?thesis by (simp add: word_less_nat_alt)
  qed
  with 2 show ?case by auto
qed simp

lemma del_nat_zero: "raw_ok_from lo raw \<Longrightarrow> x \<le> lo \<Longrightarrow> del_nat raw x = 0"
proof (induction lo raw rule: raw_ok_from.induct)
  case (2 lo off n raw)
  then show ?case by simp
qed simp

text \<open>Between two offsets, the second not inside a deletion, at most their distance is deleted.\<close>

lemma del_nat_step:
  assumes "raw_ok_from lo raw" "boundary raw y" "max lo x \<le> y"
  shows "del_nat raw y + max lo x \<le> del_nat raw x + y"
  using assms
proof (induction lo raw rule: raw_ok_from.induct)
  case (1 lo)
  then show ?case by simp
next
  case (2 lo off n raw)
  have b: "boundary raw y" "\<not> (unat off < y \<and> y < unat off + unat n)"
    using "2.prems"(2) by (auto simp: boundary_def)
  show ?case
  proof (cases "unat off < y")
    case True
    then have "max (unat off + unat n) x \<le> y" using b(2) "2.prems"(3) by auto
    with 2 b(1) have "del_nat raw y + max (unat off + unat n) x \<le> del_nat raw x + y" by simp
    with True "2.prems"(1) show ?thesis by auto
  next
    case False
    then have "del_nat raw y = 0" using "2.prems"(1) by (intro del_nat_zero) auto
    with False "2.prems"(3) show ?thesis by simp
  qed
qed

lemma del_nat_mono:
  "raw_ok raw \<Longrightarrow> boundary raw y \<Longrightarrow> x \<le> y \<Longrightarrow> del_nat raw y + x \<le> del_nat raw x + y"
  using del_nat_step [of 0 raw y x] by (simp add: raw_ok_def)

lemma del_nat_bound: "raw_ok raw \<Longrightarrow> boundary raw y \<Longrightarrow> del_nat raw y \<le> y"
proof -
  assume a: "raw_ok raw" "boundary raw y"
  have "del_nat raw 0 = 0" using a(1) by (intro del_nat_zero [of 0]) (simp_all add: raw_ok_def)
  with del_nat_mono [OF a, of 0] show ?thesis by simp
qed

lemma deleted_before_nat: "deleted_before raw x = word_of_nat (del_nat raw (unat x))"
proof (induction raw)
  case Nil
  then show ?case by (simp add: deleted_before_def)
next
  case (Cons e raw)
  obtain off n where e: "e = (off, n)" by (cases e)
  have "ucast n = (word_of_nat (unat n) :: u64)" by simp
  with Cons e show ?case by (simp add: deleted_before_Cons word_less_nat_alt)
qed

lemma raw_ok_disjoint:
  assumes "raw_ok_from lo raw" "(o1, n1) \<in> set raw" "(o2, n2) \<in> set raw"
  shows "(o1, n1) = (o2, n2) \<or> unat o1 + unat n1 \<le> unat o2 \<or> unat o2 + unat n2 \<le> unat o1"
  using assms
proof (induction lo raw rule: raw_ok_from.induct)
  case (2 lo off n raw)
  then show ?case using raw_ok_above [of "unat off + unat n" raw] by fastforce
qed simp

lemma del_nat_end:
  assumes "raw_ok_from lo raw" "(off, n) \<in> set raw"
  shows "del_nat raw (unat off + unat n) = del_nat raw (unat off) + unat n"
  using assms
proof (induction lo raw rule: raw_ok_from.induct)
  case (2 lo o' n' raw)
  have n': "0 < unat n'" using "2.prems"(1) by (simp add: unat_gt_0 word_gt_0)
  show ?case
  proof (cases "(off, n) = (o', n')")
    case True
    with 2 n' del_nat_zero [of "unat o' + unat n'" raw] show ?thesis by simp
  next
    case False
    then have m: "(off, n) \<in> set raw" using "2.prems"(2) by auto
    then have "unat o' + unat n' \<le> unat off" using raw_ok_above "2.prems"(1) by fastforce
    with 2 m n' show ?thesis by simp
  qed
qed simp

lemma raw_ok_start:
  assumes "raw_ok raw" "(off, n) \<in> set raw"
  shows "boundary raw (unat off)" "boundary raw (unat off + unat n)" "0 < unat n"
    "unat off + unat n < 2 ^ 64"
    "del_nat raw (unat off + unat n) = del_nat raw (unat off) + unat n"
proof -
  have ok: "raw_ok_from 0 raw" using assms(1) by (simp add: raw_ok_def)
  show n: "0 < unat n" and "unat off + unat n < 2 ^ 64"
    using raw_ok_above [OF ok assms(2)] by (simp_all add: unat_gt_0 word_gt_0)
  show "boundary raw (unat off)" "boundary raw (unat off + unat n)"
    using raw_ok_disjoint [OF ok assms(2)] n unfolding boundary_def list_all_iff by fastforce+
  show "del_nat raw (unat off + unat n) = del_nat raw (unat off) + unat n"
    using del_nat_end [OF ok assms(2)] .
qed

lemma unat_minus_nat: "k \<le> unat x \<Longrightarrow> unat (x - word_of_nat k :: u64) = unat x - k"
proof -
  assume k: "k \<le> unat x"
  have "unat x < 2 ^ 64" using unsigned_less [of x] by simp
  with k have "unat (word_of_nat k :: u64) = k"
    by (simp add: unsigned_of_nat take_bit_nat_eq_self)
  with k show ?thesis by (simp add: unat_sub word_le_nat_alt)
qed

text \<open>What the deltas of a well-formed table hold.\<close>

lemma push_deltas_entry:
  assumes "raw_ok_from lo raw" "d \<in> set (push_deltas c raw)"
  shows "(input_offset d, bytes_deleted d) \<in> set raw \<and>
         cumulative_deleted d = c + word_of_nat (del_nat raw (unat (input_offset d))) + ucast (bytes_deleted d)"
  using assms
proof (induction lo raw arbitrary: c rule: raw_ok_from.induct)
  case (2 lo off n raw)
  show ?case
  proof (cases "d \<in> set (push_deltas (c + ucast n) raw)")
    case True
    then have "(input_offset d, bytes_deleted d) \<in> set raw \<and>
        cumulative_deleted d = c + ucast n + word_of_nat (del_nat raw (unat (input_offset d))) + ucast (bytes_deleted d)"
      using 2 by simp
    note d = this
    then have "unat off + unat n \<le> unat (input_offset d)"
      using raw_ok_above "2.prems"(1) by fastforce
    moreover have "0 < unat n" using "2.prems"(1) by (simp add: unat_gt_0 word_gt_0)
    ultimately have "del_nat ((off, n) # raw) (unat (input_offset d)) = unat n + del_nat raw (unat (input_offset d))"
      by simp
    then have "word_of_nat (del_nat ((off, n) # raw) (unat (input_offset d))) =
        (ucast n :: u64) + word_of_nat (del_nat raw (unat (input_offset d)))"
      by (simp del: del_nat.simps)
    with d show ?thesis by (simp del: del_nat.simps add: add.assoc)
  next
    case False
    then have "d = \<lparr>input_offset = off, cumulative_deleted = c + ucast n, bytes_deleted = n\<rparr>"
      using "2.prems"(2) by (auto simp: Let_def)
    moreover have "del_nat raw (unat off) = 0" using "2.prems"(1) by (intro del_nat_zero) auto
    ultimately show ?thesis by simp
  qed
qed simp

text \<open>The output position of the start of a deletion, as \<open>output_to_input_offset\<close> computes it.\<close>

definition delta_key :: "RelaxDelta \<Rightarrow> u64" where
  "delta_key d = input_offset d + ucast (bytes_deleted d) - cumulative_deleted d"

lemma delta_key_nat:
  assumes "raw_ok raw" "d \<in> set (push_deltas 0 raw)"
  shows "unat (delta_key d) = unat (input_offset d) - del_nat raw (unat (input_offset d))"
proof -
  let ?o = "unat (input_offset d)"
  have d: "(input_offset d, bytes_deleted d) \<in> set raw"
    "cumulative_deleted d = word_of_nat (del_nat raw ?o) + ucast (bytes_deleted d)"
    using push_deltas_entry [of 0 raw d 0] assms by (auto simp: raw_ok_def)
  have "delta_key d = input_offset d - word_of_nat (del_nat raw ?o)" by (simp add: delta_key_def d(2))
  moreover have "del_nat raw ?o \<le> ?o"
    using del_nat_bound raw_ok_start(1) assms(1) d(1) by blast
  ultimately show ?thesis using unat_minus_nat by simp
qed

lemma partitioned_keys:
  assumes "raw_ok raw"
  shows "partitioned (\<lambda>d. delta_key d \<le> y) (push_deltas 0 raw)"
proof -
  have "strictly_sorted (map input_offset (push_deltas 0 raw))"
    using raw_ok_sorted assms by (simp add: offsets_push_deltas raw_ok_def)
  then have "sorted_wrt (\<lambda>a b. input_offset a < input_offset b) (push_deltas 0 raw)"
    by (simp add: sorted_wrt_map)
  then show ?thesis
    unfolding partitioned_def
  proof (rule sorted_wrt_mono_rel [rotated])
    fix a b assume ab: "a \<in> set (push_deltas 0 raw)" "b \<in> set (push_deltas 0 raw)" "input_offset a < input_offset b"
    let ?a = "unat (input_offset a)" and ?b = "unat (input_offset b)"
    have m: "(input_offset a, bytes_deleted a) \<in> set raw" "(input_offset b, bytes_deleted b) \<in> set raw"
      using push_deltas_entry [of 0 raw _ 0] ab assms by (auto simp: raw_ok_def)
    have "del_nat raw ?b + ?a \<le> del_nat raw ?a + ?b"
      using del_nat_mono [OF assms raw_ok_start(1) [OF assms m(2)]] ab(3) by (simp add: word_less_nat_alt)
    moreover have "del_nat raw ?a \<le> ?a" "del_nat raw ?b \<le> ?b"
      using del_nat_bound [OF assms raw_ok_start(1) [OF assms]] m by blast+
    ultimately have "delta_key a \<le> delta_key b"
      using ab by (simp add: word_le_nat_alt delta_key_nat [OF assms])
    then show "delta_key b \<le> y \<longrightarrow> delta_key a \<le> y" by (meson order_trans)
  qed
qed

text \<open>For a kept byte, the keys below its output position are those of the deltas before it.\<close>

lemma key_iff_before:
  assumes "raw_ok raw" "survives raw (unat x)" "d \<in> set (push_deltas 0 raw)"
  shows "delta_key d \<le> x - deleted_before raw x \<longleftrightarrow> input_offset d < x"
proof -
  let ?x = "unat x" and ?o = "unat (input_offset d)" and ?n = "unat (bytes_deleted d)"
  have m: "(input_offset d, bytes_deleted d) \<in> set raw"
    using push_deltas_entry [of 0 raw d 0] assms by (auto simp: raw_ok_def)
  note st = raw_ok_start [OF assms(1) m]
  have bx: "boundary raw ?x" using assms(2) by (rule survives_boundary)
  have dx: "del_nat raw ?x \<le> ?x" "del_nat raw ?o \<le> ?o"
    using del_nat_bound [OF assms(1)] bx st(1) by blast+
  have out: "unat (x - deleted_before raw x) = ?x - del_nat raw ?x"
    using dx(1) by (simp add: deleted_before_nat unat_minus_nat)
  have sv: "\<not> (?o \<le> ?x \<and> ?x < ?o + ?n)"
    using assms(2) m by (auto simp: survives_def list_all_iff)
  show ?thesis
  proof (cases "input_offset d < x")
    case True
    then have "?o + ?n \<le> ?x" using sv by (simp add: word_less_nat_alt)
    with del_nat_mono [OF assms(1) bx] have "del_nat raw ?x + (?o + ?n) \<le> del_nat raw (?o + ?n) + ?x" .
    with st(5) dx have "?o - del_nat raw ?o \<le> ?x - del_nat raw ?x" by simp
    with True out delta_key_nat [OF assms(1,3)] show ?thesis by (simp add: word_le_nat_alt)
  next
    case False
    then have lt: "?x + 1 \<le> ?o" using sv st(3) by (simp add: word_less_nat_alt)
    have same: "del_nat raw (?x + 1) = del_nat raw ?x"
      using assms(2) raw_ok_start(3) [OF assms(1)]
    proof (induction raw)
      case (Cons e raw)
      obtain off n where e: "e = (off, n)" by (cases e)
      have "0 < unat n" using Cons.prems(2) [of off n] e by simp
      then have "unat off \<noteq> ?x" using Cons.prems(1) e by (auto simp: survives_def)
      moreover have "del_nat raw (?x + 1) = del_nat raw ?x"
        using Cons by (auto simp: survives_def)
      ultimately show ?case by (simp add: e less_Suc_eq)
    qed simp
    from del_nat_mono [OF assms(1) st(1) lt] same have "?x - del_nat raw ?x < ?o - del_nat raw ?o"
      using dx by simp
    with False out delta_key_nat [OF assms(1,3)] show ?thesis by (simp add: word_le_nat_alt)
  qed
qed

lemma i2o_nat:
  assumes "raw_ok raw" "survives raw (unat x)"
  shows "unat (input_to_output_offset (deltas_new raw) x) = unat x - del_nat raw (unat x)"
    and "del_nat raw (unat x) \<le> unat x"
proof -
  have sorted: "strictly_sorted (map fst raw)" using raw_ok_sorted assms(1) by (auto simp: raw_ok_def)
  show dx: "del_nat raw (unat x) \<le> unat x"
    using del_nat_bound [OF assms(1) survives_boundary [OF assms(2)]] .
  then show "unat (input_to_output_offset (deltas_new raw) x) = unat x - del_nat raw (unat x)"
    by (simp add: input_to_output_spec [OF sorted] deleted_before_nat unat_minus_nat)
qed

lemma o2i_i2o:
  assumes "raw_ok raw" "survives raw (unat x)"
  shows "output_to_input_offset (deltas_new raw) (input_to_output_offset (deltas_new raw) x) = x"
proof -
  have sorted: "strictly_sorted (map fst raw)" using raw_ok_sorted assms(1) by (auto simp: raw_ok_def)
  let ?ds = "push_deltas 0 raw" and ?y = "x - deleted_before raw x"
  let ?tw = "takeWhile (\<lambda>d. input_offset d < x) ?ds"
  have tw: "takeWhile (\<lambda>d. delta_key d \<le> ?y) ?ds = ?tw"
    by (rule takeWhile_cong) (simp_all add: key_iff_before [OF assms])
  have pp: "partition_point (\<lambda>d. delta_key d \<le> ?y) ?ds = length ?tw"
    using partition_point_eq_takeWhile [OF partitioned_keys [OF assms(1)]] tw by simp
  have "deleted_before raw x = (if ?tw = [] then 0 else cumulative_deleted (last ?tw))"
    using cumulative_push_deltas [OF sorted, of x 0] by (simp add: Let_def)
  with pp last_takeWhile_nth [of "\<lambda>d. input_offset d < x" ?ds]
  have "output_to_input_offset (deltas_new raw) ?y = x"
    by (auto simp: output_to_input_offset_def deltas_new_def Let_def delta_key_def [symmetric])
  then show ?thesis by (simp add: input_to_output_spec [OF sorted])
qed

text \<open>
  C15. Offset translation through well-formed deletions is lossless: for every byte that is kept,
  \<open>output_to_input_offset\<close> undoes \<open>input_to_output_offset\<close>, and the output offset is the input
  offset minus the number of bytes deleted before it, without wrap-around.
\<close>

theorem relax_offset_roundtrip:
  assumes "raw_ok raw" "survives raw (unat x)"
  shows "output_to_input_offset (deltas_new raw) (input_to_output_offset (deltas_new raw) x) = x \<and>
    unat (input_to_output_offset (deltas_new raw) x) + del_nat raw (unat x) = unat x"
  using o2i_i2o [OF assms] i2o_nat [OF assms] by simp

theorem relax_offset_roundtrip_witness:
  "raw_ok [(4, 4), (16, 2)] \<and> survives [(4, 4), (16, 2)] (unat (20 :: u64)) \<and>
   output_to_input_offset (deltas_new [(4, 4), (16, 2)])
     (input_to_output_offset (deltas_new [(4, 4), (16, 2)]) 20) = 20"
proof -
  have ok: "raw_ok [(4, 4), (16, 2)]" by (simp add: raw_ok_def)
  have sv: "survives [(4, 4), (16, 2)] (unat (20 :: u64))" by (simp add: survives_def)
  from relax_offset_roundtrip [OF ok sv] ok sv show ?thesis by blast
qed

text \<open>
  C16. Relaxation keeps the order of the kept bytes: of two kept bytes, the earlier one is placed
  strictly earlier in the output.
\<close>

theorem relax_offset_mono:
  assumes "raw_ok raw" "survives raw (unat x)" "survives raw (unat y)" "x < y"
  shows "input_to_output_offset (deltas_new raw) x < input_to_output_offset (deltas_new raw) y"
proof -
  let ?f = "input_to_output_offset (deltas_new raw)"
  have "unat x < unat y" using assms(4) by (simp add: word_less_nat_alt)
  then have "del_nat raw (unat y) + unat x \<le> del_nat raw (unat x) + unat y"
    using del_nat_mono [OF assms(1) survives_boundary [OF assms(3)]] by simp
  then have "unat (?f x) \<le> unat (?f y)"
    using i2o_nat [OF assms(1,2)] i2o_nat [OF assms(1,3)] by linarith
  then have "?f x \<le> ?f y" by (simp only: word_le_nat_alt)
  moreover have "?f x \<noteq> ?f y"
  proof
    assume "?f x = ?f y"
    then have "x = y" using o2i_i2o [OF assms(1,2)] o2i_i2o [OF assms(1,3)] by metis
    with assms(4) show False by simp
  qed
  ultimately show ?thesis by (rule le_neq_trans)
qed

theorem relax_offset_mono_witness:
  "input_to_output_offset (deltas_new [(4, 4), (16, 2)]) 3 < input_to_output_offset (deltas_new [(4, 4), (16, 2)]) 8"
  by (rule relax_offset_mono) (simp_all add: raw_ok_def survives_def)

section \<open>Merging and point queries\<close>

lemma deleted_before_sort: "deleted_before (sort_key fst raw) x = deleted_before raw x"
proof -
  have "mset (filter P (sort_key fst raw)) = mset (filter P raw)" for P
    by (metis mset_filter mset_sort)
  then have "mset (map f (filter P (sort_key fst raw))) = mset (map f (filter P raw))" for P and f :: "_ \<Rightarrow> u64"
    by (simp only: mset_map)
  then show ?thesis unfolding deleted_before_def by (metis sum_mset_sum_list)
qed

lemma strictly_sorted_sort:
  "distinct (map fst raw) \<Longrightarrow> strictly_sorted (map fst (sort_key fst (raw :: (u64 \<times> u32) list)))"
  by (metis distinct_map distinct_sort set_sort sorted_sort_key strict_sorted_iff)

text \<open>
  C17. Merging more deletions at other offsets into a table: afterwards the translation subtracts
  what the old and what the new deletions remove before the offset, and the table again answers
  from one sorted sequence.
\<close>

theorem merge_additional_translation:
  assumes "strictly_sorted (map fst raw)" "distinct (map fst (raw @ additional))"
  shows "input_to_output_offset (merge_additional (deltas_new raw) additional) x =
           x - (deleted_before raw x + deleted_before additional x) \<and>
         strictly_sorted (map input_offset (deltas (merge_additional (deltas_new raw) additional)))"
proof (cases "additional = []")
  case True
  with input_to_output_spec [OF assms(1)] assms(1) show ?thesis
    by (simp add: merge_additional_def deleted_before_def deltas_new_def offsets_push_deltas)
next
  case False
  let ?all = "sort_key fst (raw @ additional)"
  have m: "merge_additional (deltas_new raw) additional = deltas_new ?all"
    using False by (simp add: merge_additional_def map_push_deltas deltas_new_def)
  have s: "strictly_sorted (map fst ?all)" using strictly_sorted_sort [OF assms(2)] .
  have "deleted_before ?all x = deleted_before raw x + deleted_before additional x"
    unfolding deleted_before_sort by (simp add: deleted_before_def)
  with m s input_to_output_spec [OF s] show ?thesis by (simp add: deltas_new_def offsets_push_deltas)
qed

theorem merge_additional_translation_witness:
  "input_to_output_offset (merge_additional (deltas_new [(4, 4), (16, 2)]) [(8, 2)]) 20 = 12"
proof -
  have "input_to_output_offset (merge_additional (deltas_new [(4, 4), (16, 2)]) [(8, 2)]) 20 =
      20 - (deleted_before [(4, 4), (16, 2)] 20 + deleted_before [(8, 2)] 20)"
    using merge_additional_translation [of "[(4, 4), (16, 2)]" "[(8, 2)]" 20] by simp
  then show ?thesis by (simp add: deleted_before_def)
qed

lemma set_push_deltas: "set raw = (\<lambda>d. (input_offset d, bytes_deleted d)) ` set (push_deltas c raw)"
  using arg_cong [OF map_push_deltas [of c raw], of set] by (simp only: set_map)

lemma search_deltas_None:
  assumes "strictly_sorted (map fst raw)" "binary_search_by_key off input_offset (push_deltas 0 raw) = None"
  shows "off \<notin> fst ` set raw"
proof -
  have "strictly_sorted (map input_offset (push_deltas 0 raw))" using assms(1) by (simp add: offsets_push_deltas)
  from binary_search_by_key_None [OF this assms(2)]
  have "off \<notin> input_offset ` set (push_deltas 0 raw)" by blast
  then show ?thesis unfolding set_push_deltas [of raw 0] image_image by simp
qed

lemma search_deltas_Some:
  assumes "binary_search_by_key off input_offset (push_deltas 0 raw) = Some i"
  shows "(off, bytes_deleted (push_deltas 0 raw ! i)) \<in> set raw"
proof -
  let ?d = "push_deltas 0 raw ! i"
  have "?d \<in> set (push_deltas 0 raw)" "input_offset ?d = off"
    using binary_search_by_key_Some [OF assms] nth_mem by blast+
  then show ?thesis unfolding set_push_deltas [of raw 0] by blast
qed

lemma search_deltas:
  assumes "strictly_sorted (map fst raw)"
  shows "delta_bytes_at (deltas_new raw) off = (case map_of raw off of None \<Rightarrow> 0 | Some n \<Rightarrow> n)"
    and "has_delta_at (deltas_new raw) off \<longleftrightarrow> map_of raw off \<noteq> None"
proof -
  have "distinct (map fst raw)" using assms strict_sorted_iff by blast
  then have "(case binary_search_by_key off input_offset (push_deltas 0 raw) of
      None \<Rightarrow> map_of raw off = None | Some i \<Rightarrow> map_of raw off = Some (bytes_deleted (push_deltas 0 raw ! i)))"
    using search_deltas_None [OF assms] search_deltas_Some
    by (auto split: option.split simp: map_of_eq_None_iff intro: map_of_is_SomeI)
  then show "delta_bytes_at (deltas_new raw) off = (case map_of raw off of None \<Rightarrow> 0 | Some n \<Rightarrow> n)"
    and "has_delta_at (deltas_new raw) off \<longleftrightarrow> map_of raw off \<noteq> None"
    unfolding delta_bytes_at_def has_delta_at_def deltas_new_def
    by (auto split: option.splits)
qed

section \<open>The sparse map\<close>

text \<open>
  What users of \<open>RelaxDeltaMap\<close> rely on: a finite map with an invariant, insertion of fresh keys,
  and (in the extension) update of a present entry in place.
\<close>

locale index_map =
  fixes emp :: 'm
    and get :: "'m \<Rightarrow> 'k \<Rightarrow> 'v option"
    and ins :: "'k \<Rightarrow> 'v \<Rightarrow> 'm \<Rightarrow> 'm"
    and inv :: "'m \<Rightarrow> bool"
  assumes inv_emp: "inv emp"
    and get_emp: "get emp k = None"
    and inv_ins: "inv m \<Longrightarrow> get m k = None \<Longrightarrow> inv (ins k v m)"
    and get_ins: "inv m \<Longrightarrow> get m k = None \<Longrightarrow> get (ins k v m) k' = (if k' = k then Some v else get m k')"
begin

lemma build_from:
  assumes "inv m" "distinct (map fst kvs)" "\<And>k. k \<in> fst ` set kvs \<Longrightarrow> get m k = None"
  shows "inv (fold (\<lambda>(k, v). ins k v) kvs m) \<and>
         (\<forall>k. get (fold (\<lambda>(k, v). ins k v) kvs m) k = (case map_of kvs k of None \<Rightarrow> get m k | Some v \<Rightarrow> Some v))"
  using assms
proof (induction kvs arbitrary: m)
  case Nil
  then show ?case by simp
next
  case (Cons kv kvs)
  obtain k v where kv: "kv = (k, v)" by (cases kv)
  have fresh: "get m k = None" using Cons.prems(3) kv by simp
  have inv: "inv (ins k v m)" using inv_ins [OF Cons.prems(1) fresh] .
  have none: "get (ins k v m) k' = None" if "k' \<in> fst ` set kvs" for k'
    using that Cons.prems(2,3) kv by (auto simp: get_ins [OF Cons.prems(1) fresh])
  have "map_of kvs k = None" using Cons.prems(2) kv by (simp add: map_of_eq_None_iff)
  with Cons.IH [OF inv _ none] Cons.prems(2) kv show ?case
    by (auto simp: get_ins [OF Cons.prems(1) fresh] split: option.splits)
qed

lemma build:
  assumes "distinct (map fst kvs)"
  shows "inv (fold (\<lambda>(k, v). ins k v) kvs emp)" "get (fold (\<lambda>(k, v). ins k v) kvs emp) k = map_of kvs k"
  using build_from [OF inv_emp assms] get_emp by (simp_all split: option.splits)

end

locale index_map_mut = index_map emp get ins inv
  for emp :: 'm and get :: "'m \<Rightarrow> 'k \<Rightarrow> 'v option" and ins and inv +
  fixes upd :: "'m \<Rightarrow> 'k \<Rightarrow> ('v \<Rightarrow> 'v) \<Rightarrow> 'm"
  assumes inv_upd: "inv m \<Longrightarrow> inv (upd m k f)"
    and get_upd: "inv m \<Longrightarrow> get (upd m k f) k' = (if k' = k then map_option f (get m k) else get m k')"
begin

lemma upd_ins:
  assumes "inv m" "get m k = None"
  shows "get (upd (ins k v m) k f) k' = (if k' = k then Some (f v) else get m k')"
  using assms by (simp add: get_upd inv_ins get_ins)

end

definition delta_map_inv :: "RelaxDeltaMap \<Rightarrow> bool" where
  "delta_map_inv m = strictly_sorted (map fst (entries m))"

lemma delta_map_get_map_of:
  assumes "delta_map_inv m"
  shows "delta_map_get m k = map_of (entries m) k"
proof (cases "binary_search_by_key k fst (entries m)")
  case None
  have "k \<notin> fst ` set (entries m)"
    using binary_search_by_key_None [OF assms [unfolded delta_map_inv_def] None] by blast
  then have "map_of (entries m) k = None" by (simp add: map_of_eq_None_iff)
  with None show ?thesis by (simp add: delta_map_get_def)
next
  case (Some i)
  from binary_search_by_key_Some [OF Some] have i: "i < length (entries m)" "fst (entries m ! i) = k" by auto
  have "distinct (map fst (entries m))" using assms strict_sorted_iff unfolding delta_map_inv_def by blast
  moreover have "(k, snd (entries m ! i)) \<in> set (entries m)" using i by (metis nth_mem prod.collapse)
  ultimately show ?thesis using Some by (simp add: delta_map_get_def)
qed

lemma delta_map_insert_sorted_entries:
  assumes "delta_map_inv m"
  shows "entries (delta_map_insert_sorted i s m) =
    takeWhile (\<lambda>e. fst e < i) (entries m) @ (i, s) # dropWhile (\<lambda>e. fst e < i) (entries m)"
proof -
  let ?P = "\<lambda>e. fst e < i"
  have "partition_point ?P (entries m) = length (takeWhile ?P (entries m))"
    by (rule partition_point_eq_takeWhile, rule partitioned_key_less, rule strictly_sorted_weaken)
      (use assms in \<open>simp add: delta_map_inv_def\<close>)
  then show ?thesis
    by (simp add: delta_map_insert_sorted_def Let_def takeWhile_eq_take [symmetric] dropWhile_eq_drop [symmetric])
qed

lemma delta_map_insert_sorted_inv:
  assumes "delta_map_inv m" "delta_map_get m i = None"
  shows "delta_map_inv (delta_map_insert_sorted i s m)"
proof -
  let ?P = "\<lambda>e. fst e < i" and ?es = "entries m"
  have es: "?es = takeWhile ?P ?es @ dropWhile ?P ?es" by simp
  have s: "strictly_sorted (map fst (takeWhile ?P ?es) @ map fst (dropWhile ?P ?es))"
    using assms(1) unfolding delta_map_inv_def by (metis es map_append)
  have fresh: "i \<notin> fst ` set ?es" using assms by (simp add: delta_map_get_map_of map_of_eq_None_iff)
  have "i < fst e" if e: "e \<in> set (dropWhile ?P ?es)" for e
  proof -
    obtain h t where ht: "dropWhile ?P ?es = h # t" using e by (cases "dropWhile ?P ?es") auto
    then have "\<not> fst h < i" using hd_dropWhile [of ?P ?es] by simp
    moreover have "fst h \<le> fst e" using s e ht by (auto simp: sorted_wrt_append)
    moreover have "fst e \<noteq> i" using fresh e set_dropWhileD by fastforce
    ultimately show ?thesis by simp
  qed
  with s show ?thesis
    by (auto simp: delta_map_inv_def delta_map_insert_sorted_entries [OF assms(1)] sorted_wrt_append
        dest: set_takeWhileD)
qed

lemma delta_map_insert_sorted_get:
  assumes "delta_map_inv m" "delta_map_get m i = None"
  shows "delta_map_get (delta_map_insert_sorted i s m) k = (if k = i then Some s else delta_map_get m k)"
proof -
  let ?P = "\<lambda>e. fst e < i" and ?es = "entries m"
  have "map_of (takeWhile ?P ?es) i = None" by (auto simp: map_of_eq_None_iff dest: set_takeWhileD)
  moreover have "map_of ?es k = map_of (takeWhile ?P ?es @ dropWhile ?P ?es) k" by simp
  ultimately have "map_of (entries (delta_map_insert_sorted i s m)) k = (if k = i then Some s else map_of ?es k)"
    unfolding delta_map_insert_sorted_entries [OF assms(1)] map_of_append map_add_def
    by (auto split: option.splits)
  then show ?thesis
    using delta_map_get_map_of [OF assms(1)] delta_map_get_map_of [OF delta_map_insert_sorted_inv [OF assms]]
    by simp
qed

lemma delta_map_get_mut_entries:
  "map fst (entries (delta_map_get_mut m k f)) = map fst (entries m)"
proof (cases "binary_search_by_key k fst (entries m)")
  case (Some j)
  then show ?thesis by (simp add: delta_map_get_mut_def map_update) (metis list_update_id nth_map
        binary_search_by_key_Some)
qed (simp add: delta_map_get_mut_def)

lemma delta_map_get_mut_inv: "delta_map_inv m \<Longrightarrow> delta_map_inv (delta_map_get_mut m k f)"
  by (simp add: delta_map_inv_def delta_map_get_mut_entries)

lemma delta_map_get_mut_get:
  assumes "delta_map_inv m"
  shows "delta_map_get (delta_map_get_mut m k f) k' =
           (if k' = k then map_option f (delta_map_get m k) else delta_map_get m k')"
proof (cases "binary_search_by_key k fst (entries m)")
  case None
  then have "delta_map_get m k = None" by (simp add: delta_map_get_def)
  with None show ?thesis by (simp add: delta_map_get_mut_def)
next
  case (Some j)
  let ?es = "entries m"
  from binary_search_by_key_Some [OF Some] have j: "j < length ?es" "fst (?es ! j) = k" by auto
  have dist: "distinct (map fst ?es)"
    using assms strict_sorted_iff unfolding delta_map_inv_def by blast
  have split: "?es = take j ?es @ (k, snd (?es ! j)) # drop (Suc j) ?es"
    using id_take_nth_drop [OF j(1)] j(2) by (metis prod.collapse)
  have upd: "entries (delta_map_get_mut m k f) = take j ?es @ (k, f (snd (?es ! j))) # drop (Suc j) ?es"
    using Some j by (simp add: delta_map_get_mut_def upd_conv_take_nth_drop)
  have "k \<notin> fst ` set (take j ?es)"
    using dist split by (metis (no_types, lifting) distinct_append list.set_map map_append list.simps(9)
        fst_conv disjoint_iff list.set_intros(1))
  then have none: "map_of (take j ?es) k = None" by (simp add: map_of_eq_None_iff)
  have "map_of (entries (delta_map_get_mut m k f)) k' = (if k' = k then Some (f (snd (?es ! j))) else map_of ?es k')"
    unfolding upd by (subst (2) split) (auto simp: map_add_def none split: option.splits)
  moreover have "delta_map_get m k = Some (snd (?es ! j))" using Some by (simp add: delta_map_get_def)
  ultimately show ?thesis
    using delta_map_get_map_of [OF assms] delta_map_get_map_of [OF delta_map_get_mut_inv [OF assms]] by simp
qed

interpretation delta_map: index_map_mut delta_map_new delta_map_get delta_map_insert_sorted delta_map_inv
    delta_map_get_mut
proof
  show "delta_map_inv delta_map_new" by (simp add: delta_map_inv_def delta_map_new_def)
  show "delta_map_get delta_map_new k = None" for k
    by (simp add: delta_map_get_def delta_map_new_def binary_search_by_key_def)
qed (simp_all add: delta_map_insert_sorted_inv delta_map_insert_sorted_get delta_map_get_mut_inv
      delta_map_get_mut_get)

text \<open>Appending in ascending order is the same as sorted insertion.\<close>

lemma delta_map_insert_ascending:
  assumes "delta_map_inv m" "\<And>e. e \<in> set (entries m) \<Longrightarrow> fst e < i"
  shows "delta_map_insert i s m = delta_map_insert_sorted i s m"
proof -
  have "takeWhile (\<lambda>e. fst e < i) (entries m) = entries m" using assms(2) by (simp add: takeWhile_eq_all_conv)
  moreover have "dropWhile (\<lambda>e. fst e < i) (entries m) = []" using assms(2) by (simp add: dropWhile_eq_Nil_conv)
  ultimately have "entries (delta_map_insert_sorted i s m) = entries m @ [(i, s)]"
    using delta_map_insert_sorted_entries [OF assms(1), of i s] by simp
  then show ?thesis by (simp add: delta_map_insert_def delta_map_insert_sorted_def Let_def)
qed

text \<open>
  C18. Filling a \<open>RelaxDeltaMap\<close> by \<open>insert_sorted\<close>, in any order of distinct section indices,
  gives the map from index to deltas; updating an entry through \<open>get_mut\<close> changes that entry only.
\<close>

theorem delta_map_is_map:
  assumes "distinct (map fst kvs)"
  shows "delta_map_get (fold (\<lambda>(i, s). delta_map_insert_sorted i s) kvs delta_map_new) k = map_of kvs k \<and>
    delta_map_get (delta_map_get_mut (fold (\<lambda>(i, s). delta_map_insert_sorted i s) kvs delta_map_new) j f) k =
      (if k = j then map_option f (map_of kvs j) else map_of kvs k)"
  using delta_map.build [OF assms] by (simp add: delta_map.get_upd)

theorem delta_map_is_map_witness:
  "delta_map_get (fold (\<lambda>(i, s). delta_map_insert_sorted i s) [(7, deltas_new [(0, 2)]), (3, deltas_new [(8, 4)])]
     delta_map_new) 7 = Some (deltas_new [(0, 2)])"
  using delta_map_is_map [of "[(7, deltas_new [(0, 2)]), (3, deltas_new [(8, 4)])]" 7] by simp

end
