(* ===== verification/Dyn_Reloc.thy ===== *)
theory Dyn_Reloc
  imports Reloc_Types
begin

text \<open>
  Dynamic relocation kinds and their numbers per architecture (\<open>DynamicRelocationKind\<close> of
  \<open>linker-utils/src/elf.rs\<close>): what the linker emits for the dynamic loader and what it reads back
  from an output file. The locale \<open>dynamic_types\<close> states that emitting and reading agree.
\<close>

section \<open>Model\<close>

datatype DynamicRelocationKind =
    DynCopy
  | DynIrelative
  | DynDtpMod
  | DynDtpOff
  | DynTlsDesc
  | DynTpOff
  | DynRelative
  | DynAbsolute
  | DynGotEntry
  | DynJumpSlot

text \<open>
  The emitting functions are total except on PowerPC, where TLS descriptors are \<open>unreachable!\<close>;
  \<open>None\<close> stands for that panic.
\<close>

definition x86_64_dynamic_types :: "(rtype \<times> DynamicRelocationKind) list" where
  "x86_64_dynamic_types =
     [(''R_X86_64_COPY'', DynCopy),
      (''R_X86_64_IRELATIVE'', DynIrelative),
      (''R_X86_64_DTPMOD64'', DynDtpMod),
      (''R_X86_64_DTPOFF64'', DynDtpOff),
      (''R_X86_64_TPOFF64'', DynTpOff),
      (''R_X86_64_RELATIVE'', DynRelative),
      (''R_X86_64_GLOB_DAT'', DynGotEntry),
      (''R_X86_64_64'', DynAbsolute),
      (''R_X86_64_TLSDESC'', DynTlsDesc),
      (''R_X86_64_JUMP_SLOT'', DynJumpSlot)]"

definition from_x86_64_r_type :: "rtype \<Rightarrow> DynamicRelocationKind option" where
  "from_x86_64_r_type r_type = map_of x86_64_dynamic_types r_type"

fun x86_64_r_type :: "DynamicRelocationKind \<Rightarrow> rtype option" where
  "x86_64_r_type DynCopy = Some (''R_X86_64_COPY'')"
| "x86_64_r_type DynIrelative = Some (''R_X86_64_IRELATIVE'')"
| "x86_64_r_type DynDtpMod = Some (''R_X86_64_DTPMOD64'')"
| "x86_64_r_type DynDtpOff = Some (''R_X86_64_DTPOFF64'')"
| "x86_64_r_type DynTpOff = Some (''R_X86_64_TPOFF64'')"
| "x86_64_r_type DynRelative = Some (''R_X86_64_RELATIVE'')"
| "x86_64_r_type DynAbsolute = Some (''R_X86_64_64'')"
| "x86_64_r_type DynGotEntry = Some (''R_X86_64_GLOB_DAT'')"
| "x86_64_r_type DynTlsDesc = Some (''R_X86_64_TLSDESC'')"
| "x86_64_r_type DynJumpSlot = Some (''R_X86_64_JUMP_SLOT'')"

definition aarch64_dynamic_types :: "(rtype \<times> DynamicRelocationKind) list" where
  "aarch64_dynamic_types =
     [(''R_AARCH64_COPY'', DynCopy),
      (''R_AARCH64_IRELATIVE'', DynIrelative),
      (''R_AARCH64_TLS_DTPMOD'', DynDtpMod),
      (''R_AARCH64_TLS_DTPREL'', DynDtpOff),
      (''R_AARCH64_TLS_TPREL'', DynTpOff),
      (''R_AARCH64_RELATIVE'', DynRelative),
      (''R_AARCH64_ABS64'', DynAbsolute),
      (''R_AARCH64_GLOB_DAT'', DynGotEntry),
      (''R_AARCH64_TLSDESC'', DynTlsDesc),
      (''R_AARCH64_JUMP_SLOT'', DynJumpSlot)]"

definition from_aarch64_r_type :: "rtype \<Rightarrow> DynamicRelocationKind option" where
  "from_aarch64_r_type r_type = map_of aarch64_dynamic_types r_type"

fun aarch64_r_type :: "DynamicRelocationKind \<Rightarrow> rtype option" where
  "aarch64_r_type DynCopy = Some (''R_AARCH64_COPY'')"
| "aarch64_r_type DynIrelative = Some (''R_AARCH64_IRELATIVE'')"
| "aarch64_r_type DynDtpMod = Some (''R_AARCH64_TLS_DTPMOD'')"
| "aarch64_r_type DynDtpOff = Some (''R_AARCH64_TLS_DTPREL'')"
| "aarch64_r_type DynTpOff = Some (''R_AARCH64_TLS_TPREL'')"
| "aarch64_r_type DynRelative = Some (''R_AARCH64_RELATIVE'')"
| "aarch64_r_type DynAbsolute = Some (''R_AARCH64_ABS64'')"
| "aarch64_r_type DynGotEntry = Some (''R_AARCH64_GLOB_DAT'')"
| "aarch64_r_type DynTlsDesc = Some (''R_AARCH64_TLSDESC'')"
| "aarch64_r_type DynJumpSlot = Some (''R_AARCH64_JUMP_SLOT'')"

definition riscv64_dynamic_types :: "(rtype \<times> DynamicRelocationKind) list" where
  "riscv64_dynamic_types =
     [(''R_RISCV_COPY'', DynCopy),
      (''R_RISCV_IRELATIVE'', DynIrelative),
      (''R_RISCV_TLS_DTPMOD64'', DynDtpMod),
      (''R_RISCV_TLS_DTPREL64'', DynDtpOff),
      (''R_RISCV_TLS_TPREL64'', DynTpOff),
      (''R_RISCV_RELATIVE'', DynRelative),
      (''R_RISCV_64'', DynAbsolute),
      (''R_RISCV_TLSDESC'', DynTlsDesc),
      (''R_RISCV_JUMP_SLOT'', DynJumpSlot)]"

definition from_riscv64_r_type :: "rtype \<Rightarrow> DynamicRelocationKind option" where
  "from_riscv64_r_type r_type = map_of riscv64_dynamic_types r_type"

fun riscv64_r_type :: "DynamicRelocationKind \<Rightarrow> rtype option" where
  "riscv64_r_type DynCopy = Some (''R_RISCV_COPY'')"
| "riscv64_r_type DynIrelative = Some (''R_RISCV_IRELATIVE'')"
| "riscv64_r_type DynDtpMod = Some (''R_RISCV_TLS_DTPMOD64'')"
| "riscv64_r_type DynDtpOff = Some (''R_RISCV_TLS_DTPREL64'')"
| "riscv64_r_type DynTpOff = Some (''R_RISCV_TLS_TPREL64'')"
| "riscv64_r_type DynRelative = Some (''R_RISCV_RELATIVE'')"
| "riscv64_r_type DynAbsolute = Some (''R_RISCV_64'')"
| "riscv64_r_type DynGotEntry = Some (''R_RISCV_64'')"
| "riscv64_r_type DynTlsDesc = Some (''R_RISCV_TLSDESC'')"
| "riscv64_r_type DynJumpSlot = Some (''R_RISCV_JUMP_SLOT'')"

definition loongarch64_dynamic_types :: "(rtype \<times> DynamicRelocationKind) list" where
  "loongarch64_dynamic_types =
     [(''R_LARCH_COPY'', DynCopy),
      (''R_LARCH_IRELATIVE'', DynIrelative),
      (''R_LARCH_TLS_DTPMOD64'', DynDtpMod),
      (''R_LARCH_TLS_DTPREL64'', DynDtpOff),
      (''R_LARCH_TLS_TPREL64'', DynTpOff),
      (''R_LARCH_RELATIVE'', DynRelative),
      (''R_LARCH_64'', DynAbsolute),
      (''R_LARCH_TLS_DESC64'', DynTlsDesc),
      (''R_LARCH_JUMP_SLOT'', DynJumpSlot)]"

definition from_loongarch64_r_type :: "rtype \<Rightarrow> DynamicRelocationKind option" where
  "from_loongarch64_r_type r_type = map_of loongarch64_dynamic_types r_type"

fun loongarch64_r_type :: "DynamicRelocationKind \<Rightarrow> rtype option" where
  "loongarch64_r_type DynCopy = Some (''R_LARCH_COPY'')"
| "loongarch64_r_type DynIrelative = Some (''R_LARCH_IRELATIVE'')"
| "loongarch64_r_type DynDtpMod = Some (''R_LARCH_TLS_DTPMOD64'')"
| "loongarch64_r_type DynDtpOff = Some (''R_LARCH_TLS_DTPREL64'')"
| "loongarch64_r_type DynTpOff = Some (''R_LARCH_TLS_TPREL64'')"
| "loongarch64_r_type DynRelative = Some (''R_LARCH_RELATIVE'')"
| "loongarch64_r_type DynAbsolute = Some (''R_LARCH_64'')"
| "loongarch64_r_type DynGotEntry = Some (''R_LARCH_64'')"
| "loongarch64_r_type DynTlsDesc = Some (''R_LARCH_TLS_DESC64'')"
| "loongarch64_r_type DynJumpSlot = Some (''R_LARCH_JUMP_SLOT'')"

definition ppc64_dynamic_types :: "(rtype \<times> DynamicRelocationKind) list" where
  "ppc64_dynamic_types =
     [(''R_PPC64_COPY'', DynCopy),
      (''R_PPC64_IRELATIVE'', DynIrelative),
      (''R_PPC64_DTPMOD64'', DynDtpMod),
      (''R_PPC64_DTPREL64'', DynDtpOff),
      (''R_PPC64_TPREL64'', DynTpOff),
      (''R_PPC64_RELATIVE'', DynRelative),
      (''R_PPC64_ADDR64'', DynAbsolute),
      (''R_PPC64_GLOB_DAT'', DynGotEntry),
      (''R_PPC64_JMP_SLOT'', DynJumpSlot)]"

definition from_ppc64_r_type :: "rtype \<Rightarrow> DynamicRelocationKind option" where
  "from_ppc64_r_type r_type = map_of ppc64_dynamic_types r_type"

fun ppc64_r_type :: "DynamicRelocationKind \<Rightarrow> rtype option" where
  "ppc64_r_type DynCopy = Some (''R_PPC64_COPY'')"
| "ppc64_r_type DynIrelative = Some (''R_PPC64_IRELATIVE'')"
| "ppc64_r_type DynDtpMod = Some (''R_PPC64_DTPMOD64'')"
| "ppc64_r_type DynDtpOff = Some (''R_PPC64_DTPREL64'')"
| "ppc64_r_type DynTpOff = Some (''R_PPC64_TPREL64'')"
| "ppc64_r_type DynRelative = Some (''R_PPC64_RELATIVE'')"
| "ppc64_r_type DynAbsolute = Some (''R_PPC64_ADDR64'')"
| "ppc64_r_type DynGotEntry = Some (''R_PPC64_GLOB_DAT'')"
| "ppc64_r_type DynJumpSlot = Some (''R_PPC64_JMP_SLOT'')"
| "ppc64_r_type DynTlsDesc = None"

section \<open>Emitting and reading agree\<close>

locale dynamic_types =
  fixes to_r :: "DynamicRelocationKind \<Rightarrow> rtype option"
    and from_r :: "rtype \<Rightarrow> DynamicRelocationKind option"
    and kinds :: "DynamicRelocationKind set"
  assumes to_from: "k \<in> kinds \<Longrightarrow> to_r k = Some r \<Longrightarrow> from_r r = Some k"
    and from_to: "from_r r = Some k \<Longrightarrow> to_r k = Some r \<and> k \<in> kinds"
    and emitted: "k \<in> kinds \<Longrightarrow> to_r k \<noteq> None"
begin

lemma from_r_iff: "k \<in> kinds \<Longrightarrow> from_r r = Some k \<longleftrightarrow> to_r k = Some r"
  using to_from from_to by blast

lemma to_r_inj: "inj_on to_r kinds"
  by (rule inj_onI) (metis emitted not_Some_eq option.inject to_from)

lemma from_r_ran: "ran from_r = kinds"
proof
  show "ran from_r \<subseteq> kinds" using from_to by (auto simp: ran_def)
  show "kinds \<subseteq> ran from_r"
  proof
    fix k assume k: "k \<in> kinds"
    then obtain r where "to_r k = Some r" using emitted by blast
    with to_from [OF k] show "k \<in> ran from_r" by (blast intro: ranI)
  qed
qed

end

lemmas dynamic_tables = from_x86_64_r_type_def x86_64_dynamic_types_def from_aarch64_r_type_def
  aarch64_dynamic_types_def from_riscv64_r_type_def riscv64_dynamic_types_def
  from_loongarch64_r_type_def loongarch64_dynamic_types_def from_ppc64_r_type_def
  ppc64_dynamic_types_def

text \<open>Two kinds share a number where the psABI has no \<open>GLOB_DAT\<close>.\<close>

abbreviation kinds_without :: "DynamicRelocationKind \<Rightarrow> DynamicRelocationKind set" where
  "kinds_without k \<equiv> - {k}"

interpretation x86_dyn: dynamic_types x86_64_r_type from_x86_64_r_type UNIV
  by unfold_locales
    ((case_tac k; simp add: dynamic_tables), (simp add: dynamic_tables split: if_splits; blast), (case_tac k; simp))

interpretation aarch64_dyn: dynamic_types aarch64_r_type from_aarch64_r_type UNIV
  by unfold_locales
    ((case_tac k; simp add: dynamic_tables), (simp add: dynamic_tables split: if_splits; blast), (case_tac k; simp))

interpretation riscv_dyn: dynamic_types riscv64_r_type from_riscv64_r_type "kinds_without DynGotEntry"
  by unfold_locales
    ((case_tac k; simp add: dynamic_tables), (simp add: dynamic_tables split: if_splits; blast), (case_tac k; simp))

interpretation larch_dyn: dynamic_types loongarch64_r_type from_loongarch64_r_type "kinds_without DynGotEntry"
  by unfold_locales
    ((case_tac k; simp add: dynamic_tables), (simp add: dynamic_tables split: if_splits; blast), (case_tac k; simp))

interpretation ppc64_dyn: dynamic_types ppc64_r_type from_ppc64_r_type "kinds_without DynTlsDesc"
  by unfold_locales
    ((case_tac k; simp add: dynamic_tables), (simp add: dynamic_tables split: if_splits; blast), (case_tac k; simp))

text \<open>
  C19. On every architecture, the number emitted for a dynamic relocation kind is read back as
  that kind, and only that number is. The exceptions are the GOT entries of RISC-V and LoongArch,
  which are read back as absolute relocations, and the TLS descriptors of PowerPC, for which
  nothing can be emitted.
\<close>

theorem dynamic_types_roundtrip:
  "(from_x86_64_r_type r = Some k \<longleftrightarrow> x86_64_r_type k = Some r) \<and>
   (from_aarch64_r_type r = Some k \<longleftrightarrow> aarch64_r_type k = Some r) \<and>
   (from_riscv64_r_type r = Some k \<longleftrightarrow> k \<noteq> DynGotEntry \<and> riscv64_r_type k = Some r) \<and>
   (from_loongarch64_r_type r = Some k \<longleftrightarrow> k \<noteq> DynGotEntry \<and> loongarch64_r_type k = Some r) \<and>
   (from_ppc64_r_type r = Some k \<longleftrightarrow> ppc64_r_type k = Some r) \<and>
   riscv64_r_type DynGotEntry = riscv64_r_type DynAbsolute \<and>
   loongarch64_r_type DynGotEntry = loongarch64_r_type DynAbsolute \<and>
   (ppc64_r_type k = None \<longleftrightarrow> k = DynTlsDesc)"
proof -
  have ppc: "ppc64_r_type k = None \<longleftrightarrow> k = DynTlsDesc" by (cases k) auto
  have "from_ppc64_r_type r = Some k \<longleftrightarrow> ppc64_r_type k = Some r"
    by (cases "k = DynTlsDesc") (use ppc64_dyn.from_r_iff [of k r] ppc64_dyn.from_to [of r k] in auto)
  moreover have "from_riscv64_r_type r = Some k \<longleftrightarrow> k \<noteq> DynGotEntry \<and> riscv64_r_type k = Some r"
    using riscv_dyn.from_r_iff [of k r] riscv_dyn.from_to [of r k] by auto
  moreover have "from_loongarch64_r_type r = Some k \<longleftrightarrow> k \<noteq> DynGotEntry \<and> loongarch64_r_type k = Some r"
    using larch_dyn.from_r_iff [of k r] larch_dyn.from_to [of r k] by auto
  ultimately show ?thesis
    using x86_dyn.from_r_iff [of k r] aarch64_dyn.from_r_iff [of k r] ppc by simp
qed

end
