(* ===== verification/Arch_AArch64.thy ===== *)
theory Arch_AArch64
  imports Insn_Fields
begin

text \<open>
  AArch64 (\<open>linker-utils/src/aarch64.rs\<close>): the instruction relaxations, the relocation table, and
  the encoding and decoding of a relocation value inside an instruction. The byte-level
  definitions follow the source; the lemmas first reduce them to 32-bit words, then show which
  bits of the instruction a write touches and what a read gives back.
\<close>

section \<open>Relaxations\<close>

datatype AArch64Relaxation =
    AaNoOp
  | AaReplaceWithNop
  | MovzX0Lsl16
  | MovkX0
  | MovzXnLsl16
  | MovkXn
  | AdrpToAdr
  | AdrpX0
  | LdrX0
  | AddToAdr
  | LdrToAdr
  | LdrToAdd
  | AdrpAddToNopAdr

fun aarch64_apply :: "AArch64Relaxation \<Rightarrow> relax_state \<Rightarrow> relax_state option" where
  "aarch64_apply AaNoOp (bs, off, ad) = Some (bs, off, ad)"
| "aarch64_apply AaReplaceWithNop (bs, off, ad) =
     do { bs' \<leftarrow> splice off [0x1f, 0x20, 0x03, 0xd5] bs; Some (bs', off, ad) }"
| "aarch64_apply MovzX0Lsl16 (bs, off, ad) =
     do { bs' \<leftarrow> splice off [0x0, 0x0, 0xa0, 0xd2] bs; Some (bs', off, ad) }"
| "aarch64_apply MovkX0 (bs, off, ad) =
     do { bs' \<leftarrow> splice off [0x0, 0x0, 0x80, 0xf2] bs; Some (bs', off, ad) }"
| "aarch64_apply MovzXnLsl16 (bs, off, ad) =
     do { w \<leftarrow> slice off (off + 4) bs;
          insn \<leftarrow> u32_from_slice w;
          let reg = ucast (extract_bit_range (ucast insn) 0 5);
          bs' \<leftarrow> splice off [reg, 0x0, 0xa0, 0xd2] bs;
          Some (bs', off, ad) }"
| "aarch64_apply MovkXn (bs, off, ad) =
     do { w \<leftarrow> slice off (off + 4) bs;
          insn \<leftarrow> u32_from_slice w;
          let dst_reg = ucast (extract_bit_range (ucast insn) 0 5);
          bs' \<leftarrow> splice off [dst_reg, 0x0, 0x80, 0xf2] bs;
          Some (bs', off, ad) }"
| "aarch64_apply AdrpToAdr (bs, off, ad) =
     do { b \<leftarrow> index bs (off + 3); bs' \<leftarrow> store bs (off + 3) (b AND NOT 0x80); Some (bs', off, ad) }"
| "aarch64_apply AddToAdr (bs, off, ad) =
     do { b \<leftarrow> index bs (off + 3); bs' \<leftarrow> store bs (off + 3) (b AND NOT 0x89); Some (bs', off, ad) }"
| "aarch64_apply LdrToAdr (bs, off, ad) =
     do { b \<leftarrow> index bs (off + 3); bs' \<leftarrow> store bs (off + 3) (b AND NOT 0x89); Some (bs', off, ad) }"
| "aarch64_apply LdrToAdd (bs, off, ad) =
     do { w \<leftarrow> slice off (off + 4) bs;
          insn \<leftarrow> u32_from_slice w;
          bs' \<leftarrow> splice off (to_le 4 ((insn AND 0x001fffff) OR 0x91000000)) bs;
          Some (bs', off, ad) }"
| "aarch64_apply AdrpAddToNopAdr (bs, off, ad) =
     do { p \<leftarrow> before off 4;
          w \<leftarrow> slice p off bs;
          insn \<leftarrow> u32_from_slice w;
          let adrp_dest_reg = ucast (extract_bit_range (ucast insn) 0 5);
          bs1 \<leftarrow> splice p [0x1f, 0x20, 0x03, 0xd5] bs;
          bs2 \<leftarrow> splice off [adrp_dest_reg, 0x00, 0x00, 0x10] bs1;
          Some (bs2, off, ad) }"
| "aarch64_apply AdrpX0 (bs, off, ad) =
     do { bs' \<leftarrow> splice off [0x0, 0x0, 0x0, 0x90] bs; Some (bs', off, ad) }"
| "aarch64_apply LdrX0 (bs, off, ad) =
     do { bs' \<leftarrow> splice off [0x0, 0x0, 0x40, 0xf9] bs; Some (bs', off, ad) }"

definition aarch64_next_modifier :: "AArch64Relaxation \<Rightarrow> RelocationModifier" where
  "aarch64_next_modifier k = Normal"

definition aarch64_window :: "AArch64Relaxation \<Rightarrow> nat \<times> nat" where
  "aarch64_window k = (if k = AdrpAddToNopAdr then (4, 4) else (0, 4))"

section \<open>Instruction encoding\<close>

fun aarch64_write_to_value :: "AArch64Instruction \<Rightarrow> u64 \<Rightarrow> bool \<Rightarrow> bytes \<Rightarrow> bytes option" where
  "aarch64_write_to_value Adr v negative dest =
     (let m = shl (ucast (extract_bit_range v 0 2)) 29 OR shl (ucast (extract_bit_range v 2 32)) 5 :: u32
      in or_from_slice dest (to_le 4 m))"
| "aarch64_write_to_value Movkz v negative dest =
     (let m = shl (ucast v) 5 :: u32 in or_from_slice dest (to_le 4 m))"
| "aarch64_write_to_value Movnz v negative dest =
     do { dest' \<leftarrow> and_from_slice dest (to_le 4 (0x0060001F :: u32));
          let value = (if negative then NOT v else v);
          let m = ((if negative then 0x92800000 else 0xd2800000) OR
                   shl (ucast (extract_bit_range value 0 16)) 5 :: u32);
          or_from_slice dest' (to_le 4 m) }"
| "aarch64_write_to_value Ldr v negative dest =
     (let m = shl (ucast v) 5 :: u32 in or_from_slice dest (to_le 4 m))"
| "aarch64_write_to_value LdrRegister v negative dest =
     (let m = shl (ucast v) 10 :: u32 in or_from_slice dest (to_le 4 m))"
| "aarch64_write_to_value Add v negative dest =
     (let m = shl (ucast v) 10 :: u32 in or_from_slice dest (to_le 4 m))"
| "aarch64_write_to_value LdSt v negative dest =
     (let m = shl (ucast v) 10 :: u32 in or_from_slice dest (to_le 4 m))"
| "aarch64_write_to_value TstBr v negative dest =
     (let m = shl (ucast v) 5 :: u32 in or_from_slice dest (to_le 4 m))"
| "aarch64_write_to_value Bcond v negative dest =
     (let m = shl (ucast v) 5 :: u32 in or_from_slice dest (to_le 4 m))"
| "aarch64_write_to_value JumpCall v negative dest =
     (let m = ucast v :: u32 in or_from_slice dest (to_le 4 m))"
| "aarch64_write_to_value MachOLow12 v negative dest =
     do { d \<leftarrow> slice 0 4 dest;
          insn \<leftarrow> u32_from_slice d;
          let scale = (if insn AND 0x3b000000 = 0x39000000 then
                         (if shr insn 30 = 0 \<and> insn AND 0x04800000 = 0x04800000 then 4
                          else unat (shr insn 30))
                       else 0);
          dest' \<leftarrow> and_from_slice dest (to_le 4 (NOT (shl 0xfff 10) :: u32));
          let m = (shl (shr (ucast v) scale) 10 :: u32);
          or_from_slice dest' (to_le 4 m) }"

fun aarch64_read_value :: "AArch64Instruction \<Rightarrow> bytes \<Rightarrow> (u64 \<times> bool) option" where
  "aarch64_read_value insn bs =
     do { w \<leftarrow> u32_from_slice bs;
          let value = (ucast w :: u64);
          case insn of
            Adr \<Rightarrow> Some (low_bits (shr value 29) 2 OR shl (low_bits_signed (shr value 5) 19) 2, False)
          | Movkz \<Rightarrow> Some (low_bits_signed (shr value 5) 16, False)
          | Movnz \<Rightarrow>
              (let negative = (value AND shl 1 30 = 0);
                   v = low_bits (shr value 5) 16
               in Some (if negative then NOT v else v, negative))
          | Ldr \<Rightarrow> Some (low_bits_signed (shr value 5) 19, False)
          | LdrRegister \<Rightarrow> Some (low_bits (shr value 10) 12, False)
          | Add \<Rightarrow> Some (low_bits (shr value 10) 12, False)
          | LdSt \<Rightarrow> Some (low_bits_signed (shr value 10) 12, False)
          | TstBr \<Rightarrow> Some (low_bits_signed (shr value 5) 14, False)
          | Bcond \<Rightarrow> Some (low_bits_signed (shr value 5) 19, False)
          | JumpCall \<Rightarrow> Some (low_bits_signed value 26, False)
          | MachOLow12 \<Rightarrow> None }"

section \<open>Relaxations stay inside their window\<close>

lemma aarch64_apply_length:
  "aarch64_apply k (bs, off, ad) = Some (bs', off', ad') \<Longrightarrow> length bs' = length bs"
  by (cases k) (auto simp: Let_def dest!: splice_length store_length split: bind_splits)

lemma aarch64_apply_frame:
  assumes "aarch64_apply k (bs, off, ad) = Some (bs', off', ad')" "i < length bs"
    and "\<not> in_window (aarch64_window k) off i"
  shows "bs' ! i = bs ! i"
proof (cases "k = AdrpAddToNopAdr")
  case True
  with assms(1) obtain b1 r where off: "4 \<le> off"
    and b1: "splice (off - 4) [0x1f, 0x20, 0x03, 0xd5] bs = Some b1"
    and b2: "splice (off - 0) [r, 0x00, 0x00, 0x10] b1 = Some bs'"
    by (auto simp: before_def Let_def split: bind_splits if_splits)
  from assms(3) True have w: "\<not> in_window (4, 4) off i" by (simp add: aarch64_window_def)
  have "bs' ! i = b1 ! i"
    using assms(2) splice_length [OF b1] by (intro splice_window [OF b2 _ _ _ _ w]) auto
  also have "\<dots> = bs ! i"
    using assms(2) off by (intro splice_window [OF b1 _ _ _ _ w]) auto
  finally show ?thesis .
next
  case False
  with assms(3) have "i < off \<or> off + 4 \<le> i"
    by (auto simp: aarch64_window_def in_window_def)
  with assms(1,2) False show ?thesis
    by (cases k) (auto simp: Let_def dest: splice_outside [where i = i] store_outside [where j = i]
        split: bind_splits)
qed

interpretation aarch64_relax: relaxation aarch64_apply aarch64_window
  by unfold_locales (rule aarch64_apply_length, assumption, rule aarch64_apply_frame)

section \<open>Encoding as segments\<close>

text \<open>
  The immediate of each instruction form that the encoder fills by \<open>or\<close>: it relies on the field
  being clear and on the value fitting it. \<open>Movnz\<close> replaces the opcode too and \<open>MachOLow12\<close>
  scales the value; they are treated on their own.
\<close>

fun aarch64_segs :: "AArch64Instruction \<Rightarrow> segment list" where
  "aarch64_segs Adr = [(0, 0, 29, 2), (0, 2, 5, 19)]"
| "aarch64_segs Movkz = [(0, 0, 5, 16)]"
| "aarch64_segs Movnz = [(0, 0, 5, 16)]"
| "aarch64_segs Ldr = [(0, 0, 5, 19)]"
| "aarch64_segs LdrRegister = [(0, 0, 10, 12)]"
| "aarch64_segs Add = [(0, 0, 10, 12)]"
| "aarch64_segs LdSt = [(0, 0, 10, 12)]"
| "aarch64_segs TstBr = [(0, 0, 5, 14)]"
| "aarch64_segs Bcond = [(0, 0, 5, 19)]"
| "aarch64_segs JumpCall = [(0, 0, 0, 26)]"
| "aarch64_segs MachOLow12 = [(0, 0, 10, 12)]"

definition seg_width :: "segment list \<Rightarrow> nat" where
  "seg_width segs = sum_list (map (\<lambda>(b, s, d, n). n) segs)"

definition aarch64_pre :: "AArch64Instruction \<Rightarrow> u64 \<Rightarrow> bytes \<Rightarrow> bool" where
  "aarch64_pre i v bs =
     (i \<noteq> Movnz \<and> i \<noteq> MachOLow12 \<and> 4 \<le> length bs \<and> v < 2 ^ seg_width (aarch64_segs i) \<and>
      field_clear (aarch64_segs i) bs)"

text \<open>What reading such a field gives: the value, sign extended where the reader does so.\<close>

fun aarch64_canon :: "AArch64Instruction \<Rightarrow> u64 \<Rightarrow> u64 \<times> bool" where
  "aarch64_canon Adr v = (signed_take_bit 20 v, False)"
| "aarch64_canon Movkz v = (signed_take_bit 15 v, False)"
| "aarch64_canon Ldr v = (signed_take_bit 18 v, False)"
| "aarch64_canon LdSt v = (signed_take_bit 11 v, False)"
| "aarch64_canon TstBr v = (signed_take_bit 13 v, False)"
| "aarch64_canon Bcond v = (signed_take_bit 18 v, False)"
| "aarch64_canon JumpCall v = (signed_take_bit 25 v, False)"
| "aarch64_canon i v = (v, False)"

lemma or_field_encodes:
  assumes "4 \<le> length bs" "v < 2 ^ n" "d + n \<le> 32" "field_clear [(0, 0, d, n)] bs" "0 < n"
  shows "\<exists>bs'. or_from_slice bs (to_le 4 (shl (ucast v) d :: u32)) = Some bs' \<and>
           encoded [(0, 0, d, n)] v bs bs'"
proof -
  have above: "bit v k \<Longrightarrow> k < n" for k
    using bit_of_bounded [OF assms(2)] .
  have clear: "d \<le> k \<Longrightarrow> k < d + n \<Longrightarrow> \<not> byte_bit bs k" for k
    using assms(4) by (auto simp: field_clear_iff)
  have "encoded [(0, 0, d, n)] v bs (putw 4 (getw 4 bs OR shl (ucast v) d :: u32) bs)"
    using assms(1,3,5) clear
    by (intro encoded_putwI) (auto simp: byte_simps bit_simps dest: above)
  with assms(1) show ?thesis by (simp add: byte_simps)
qed

lemma adr_encodes:
  assumes "4 \<le> length bs" "v < 2 ^ 21" "field_clear (aarch64_segs Adr) bs"
  shows "\<exists>bs'. aarch64_write_to_value Adr v neg bs = Some bs' \<and> encoded (aarch64_segs Adr) v bs bs'"
proof -
  have above: "bit v k \<Longrightarrow> k < 21" for k
    using bit_of_bounded [OF assms(2)] .
  have clear: "(5 \<le> k \<and> k < 24) \<or> (29 \<le> k \<and> k < 31) \<Longrightarrow> \<not> byte_bit bs k" for k
    using assms(3) by (auto simp: field_clear_iff)
  define m where "m = (shl (ucast (extract_bit_range v 0 2)) 29 OR shl (ucast (extract_bit_range v 2 32)) 5 :: u32)"
  have m: "bit m k \<longleftrightarrow> (29 \<le> k \<and> k < 31 \<and> bit v (k - 29)) \<or> (5 \<le> k \<and> k < 32 \<and> bit v (k + 2 - 5))" for k
    unfolding m_def by (auto simp: place_simps bit_or_iff)
  have "encoded (aarch64_segs Adr) v bs (putw 4 (getw 4 bs OR m) bs)"
    using assms(1) clear
    by (intro encoded_putwI) (auto simp: byte_simps bit_simps m dest: above)
  with assms(1) show ?thesis by (simp add: byte_simps m_def)
qed

lemma aarch64_wr_encodes:
  assumes "aarch64_pre i v bs"
  shows "\<exists>bs'. aarch64_write_to_value i v neg bs = Some bs' \<and> encoded (aarch64_segs i) v bs bs'"
proof (cases "i = Adr")
  case True
  with assms adr_encodes [of bs v] show ?thesis by (simp add: aarch64_pre_def seg_width_def)
next
  case False
  have shl0: "shl x 0 = x" for x :: u32 by (simp add: shl_def)
  note f = or_field_encodes [of bs v]
  from False assms f [of 16 5] f [of 19 5] f [of 12 10] f [of 14 5] f [of 26 0] show ?thesis
    by (cases i) (simp_all add: aarch64_pre_def seg_width_def shl0)
qed

text \<open>A sign-extended run of instruction bits that holds the low bits of a value.\<close>

lemma signed_field:
  assumes "holds [(0, 0, d, n)] v bs" "0 < n" "n < 64" "d + n \<le> 32" "4 \<le> length bs"
  shows "low_bits_signed (shr (ucast (getw 4 bs :: u32)) d) n = signed_take_bit (n - 1) v"
  using assms
  by (intro bit_word_eqI)
    (auto simp: bit_low_bits_signed bit_signed_take_bit_iff byte_simps bit_simps min.commute)

lemma unsigned_field:
  assumes "holds [(0, 0, d, n)] v bs" "0 < n" "n < 64" "d + n \<le> 32" "4 \<le> length bs"
  shows "low_bits (shr (ucast (getw 4 bs :: u32)) d) n = take_bit n v"
  using assms
  by (intro bit_word_eqI) (auto simp: bit_low_bits byte_simps bit_simps)

lemma adr_field:
  assumes "holds (aarch64_segs Adr) v bs" "4 \<le> length bs"
  shows "low_bits (shr (ucast (getw 4 bs :: u32)) 29) 2 OR
           shl (low_bits_signed (shr (ucast (getw 4 bs :: u32)) 5) 19) 2 = signed_take_bit 20 v"
proof (rule bit_word_eqI)
  let ?hi = "low_bits_signed (shr (ucast (getw 4 bs :: u32)) 5) 19"
  have hi: "bit ?hi j \<longleftrightarrow> j < 64 \<and> bit v (min j 18 + 2)" for j
    using assms by (auto simp: bit_low_bits_signed byte_simps bit_simps min_def)
  have lo: "bit (low_bits (shr (ucast (getw 4 bs :: u32)) 29) 2) k \<longleftrightarrow> k < 2 \<and> bit v k" for k
    using assms by (auto simp: bit_low_bits byte_simps bit_simps)
  fix k assume "k < LENGTH(64)"
  moreover have "min (k - 2) 18 + 2 = min k 20" if "2 \<le> k" using that by linarith
  ultimately show "bit (low_bits (shr (ucast (getw 4 bs :: u32)) 29) 2 OR shl ?hi 2) k \<longleftrightarrow>
      bit (signed_take_bit 20 v) k"
    by (cases "k < 2") (auto simp: bit_or_iff bit_shl lo hi bit_signed_take_bit_iff min_def)
qed

lemma aarch64_rd_holds:
  assumes "aarch64_pre i v bs" "length bs' = length bs" "holds (aarch64_segs i) v bs'"
  shows "aarch64_read_value i bs' = Some (aarch64_canon i v)"
proof (cases "i = Adr")
  case True
  with assms adr_field [of v bs'] show ?thesis
    by (simp add: aarch64_pre_def byte_simps Let_def)
next
  case False
  have shr0: "shr x 0 = x" for x :: u64 by (simp add: shr_def)
  have id: "take_bit 12 v = v" if "v < 2 ^ 12"
    by (rule bit_word_eqI) (use bit_of_bounded [OF that] in \<open>auto simp: bit_simps\<close>)
  note f = signed_field [of _ _ v bs']
  note g = unsigned_field [of _ _ v bs']
  from False assms f [of 5 16] f [of 5 19] f [of 10 12] g [of 10 12] f [of 5 14] f [of 0 26] show ?thesis
    by (cases i) (simp_all add: aarch64_pre_def seg_width_def byte_simps Let_def shr0 id)
qed

interpretation aarch64_field: field_codec aarch64_write_to_value aarch64_segs aarch64_pre
    aarch64_read_value aarch64_canon
  by unfold_locales (rule aarch64_wr_encodes, assumption, rule aarch64_rd_holds)

text \<open>The forms whose immediate the architecture reads as a signed number.\<close>

definition aarch64_signed :: "AArch64Instruction \<Rightarrow> bool" where
  "aarch64_signed i = (i \<in> {Adr, Ldr, TstBr, Bcond, JumpCall})"

lemma signed_take_bit_low:
  assumes "v < 2 ^ n" "0 < n" "n \<le> 64"
  shows "take_bit n (signed_take_bit (n - 1) v) = (v :: u64)" "\<not> bit v (n - 1) \<Longrightarrow> signed_take_bit (n - 1) v = v"
proof -
  have above: "bit v k \<Longrightarrow> k < n" for k using bit_of_bounded [OF assms(1)] .
  show "take_bit n (signed_take_bit (n - 1) v) = v"
  proof (rule bit_word_eqI)
    fix k assume "k < LENGTH(64)"
    moreover have "k < n - 1 \<or> k = n - 1 \<or> n \<le> k" by linarith
    ultimately show "bit (take_bit n (signed_take_bit (n - 1) v)) k \<longleftrightarrow> bit v k"
      using assms(2) by (auto simp: bit_take_bit_iff bit_signed_take_bit_iff min_def dest: above)
  qed
  assume clear: "\<not> bit v (n - 1)"
  show "signed_take_bit (n - 1) v = v"
  proof (rule bit_word_eqI)
    fix k assume "k < LENGTH(64)"
    moreover have "k < n - 1 \<or> k = n - 1 \<or> n \<le> k" by linarith
    ultimately show "bit (signed_take_bit (n - 1) v) k \<longleftrightarrow> bit v k"
      using clear by (auto simp: bit_signed_take_bit_iff min_def dest: above)
  qed
qed

lemma aarch64_canon_value:
  assumes "i \<noteq> Movnz" "i \<noteq> MachOLow12" "v < 2 ^ seg_width (aarch64_segs i)"
  defines "n \<equiv> seg_width (aarch64_segs i)"
  shows "\<exists>r. aarch64_canon i v = (r, False) \<and> take_bit n r = v \<and> (aarch64_signed i \<longrightarrow> r = signed_take_bit (n - 1) v) \<and>
     (\<not> aarch64_signed i \<and> \<not> (i \<in> {LdSt, Movkz} \<and> bit v (n - 1)) \<longrightarrow> r = v)"
proof -
  have n: "0 < n" "n \<le> 64" unfolding n_def using assms(1,2) by (cases i; simp add: seg_width_def)+
  have v: "v < 2 ^ n" using assms(3) by (simp add: n_def)
  have "take_bit n v = v"
    by (rule bit_word_eqI) (use bit_of_bounded [OF v] in \<open>auto simp: bit_simps\<close>)
  then show ?thesis
    using assms(1,2) signed_take_bit_low [OF v n] unfolding n_def
    by (cases i) (auto simp: aarch64_signed_def seg_width_def)
qed

text \<open>
  C4. Writing a relocation value into an AArch64 instruction of at least four bytes whose immediate is
  clear, when the value fits the immediate, succeeds and changes no bit outside the immediate (opcode
  and registers survive). Reading gives a number whose low bits are the value: for the forms with a
  signed immediate (ADR, literal loads, branches) the value sign extended, for the others the value
  itself. Two forms, \<open>LdSt\<close> and \<open>Movkz\<close>, are unsigned but read with a sign, so for them the value comes
  back only when the top bit of the field is clear. Not covered are \<open>Movnz\<close> and \<open>MachOLow12\<close>, whose
  \<open>read_value\<close> is not implemented.
\<close>

theorem aarch64_write_read:
  assumes "i \<noteq> Movnz" "i \<noteq> MachOLow12" "4 \<le> length bs" "v < 2 ^ seg_width (aarch64_segs i)" "field_clear (aarch64_segs i) bs"
  shows "\<exists>bs' r. aarch64_write_to_value i v neg bs = Some bs' \<and> length bs' = length bs \<and>
           aarch64_read_value i bs' = Some (r, False) \<and> take_bit (seg_width (aarch64_segs i)) r = v \<and>
           (aarch64_signed i \<longrightarrow> r = signed_take_bit (seg_width (aarch64_segs i) - 1) v) \<and>
           (\<not> aarch64_signed i \<and> \<not> (i \<in> {LdSt, Movkz} \<and> bit v (seg_width (aarch64_segs i) - 1)) \<longrightarrow> r = v) \<and>
           (\<forall>k. \<not> in_field (aarch64_segs i) k \<longrightarrow> (byte_bit bs' k \<longleftrightarrow> byte_bit bs k))"
proof -
  have pre: "aarch64_pre i v bs" using assms by (simp add: aarch64_pre_def)
  obtain bs' where bs': "aarch64_write_to_value i v neg bs = Some bs'"
    using aarch64_field.wr_encodes [OF pre] by blast
  obtain r where r: "aarch64_canon i v = (r, False)" "take_bit (seg_width (aarch64_segs i)) r = v"
    "aarch64_signed i \<longrightarrow> r = signed_take_bit (seg_width (aarch64_segs i) - 1) v"
    "\<not> aarch64_signed i \<and> \<not> (i \<in> {LdSt, Movkz} \<and> bit v (seg_width (aarch64_segs i) - 1)) \<longrightarrow> r = v"
    using aarch64_canon_value [OF assms(1,2,4)] by blast
  show ?thesis
    using bs' aarch64_field.wr_length [OF pre bs'] aarch64_field.rd_wr [OF pre bs', unfolded r(1)] r(2-4)
      aarch64_field.wr_frame [OF pre bs']
    by (intro exI [of _ bs'] exI [of _ r]) blast
qed

theorem aarch64_write_read_witness:
  "\<exists>bs'. aarch64_write_to_value JumpCall 0x3ffffff False [0, 0, 0, 0x94] = Some bs' \<and>
      aarch64_read_value JumpCall bs' = Some (- 1, False)"
proof -
  have pre: "(0x3ffffff :: u64) < 2 ^ seg_width (aarch64_segs JumpCall)" "field_clear (aarch64_segs JumpCall) [0, 0, 0, 0x94]"
    by code_simp+
  have "signed_take_bit (seg_width (aarch64_segs JumpCall) - 1) 0x3ffffff = (- 1 :: u64)" "aarch64_signed JumpCall" by code_simp+
  with aarch64_write_read [OF _ _ _ pre, of False] show ?thesis by auto
qed

section \<open>Wide moves with a sign\<close>

text \<open>The word that a \<open>Movnz\<close> write leaves: \<open>rd\<close> and \<open>hw\<close> kept, MOVN or MOVZ by the sign.\<close>

definition movnz_word :: "u32 \<Rightarrow> u64 \<Rightarrow> bool \<Rightarrow> u32" where
  "movnz_word w v neg = (w AND 0x0060001F) OR ((if neg then 0x92800000 else 0xd2800000) OR
      shl (ucast (extract_bit_range (if neg then NOT v else v) 0 16)) 5)"

lemma movnz_write:
  assumes "4 \<le> length bs"
  shows "aarch64_write_to_value Movnz v neg bs = Some (putw 4 (movnz_word (getw 4 bs) v neg) bs)"
  using assms by (simp add: byte_simps Let_def movnz_word_def)

text \<open>
  The effect of the A64 wide moves on their register: \<open>opc\<close> (bits 30..29) selects MOVN, MOVZ
  or MOVK, \<open>hw\<close> (bits 22..21) the half word, and the immediate is bits 20..5.
\<close>

definition movw_imm :: "u32 \<Rightarrow> u64" where
  "movw_imm w = take_bit 16 (drop_bit 5 (ucast w))"

definition movw_hw :: "u32 \<Rightarrow> nat" where
  "movw_hw w = unat (take_bit 2 (drop_bit 21 w))"

definition movw_exec :: "u32 \<Rightarrow> u64 \<Rightarrow> u64" where
  "movw_exec w x =
     (let sh = 16 * movw_hw w; imm = push_bit sh (movw_imm w)
      in if bit w 30 then
           (if bit w 29 then (x AND NOT (push_bit sh (mask 16))) OR imm else imm)
         else NOT imm)"

lemma bit_movnz_const:
  "bit (0x0060001F :: u32) k \<longleftrightarrow> k < 5 \<or> k = 21 \<or> k = 22"
  "bit (0x92800000 :: u32) k \<longleftrightarrow> k = 23 \<or> k = 25 \<or> k = 28 \<or> k = 31"
  "bit (0xd2800000 :: u32) k \<longleftrightarrow> k = 23 \<or> k = 25 \<or> k = 28 \<or> k = 30 \<or> k = 31"
proof -
  have split: "(\<forall>k < 32. bit (w :: u32) k = P k) \<Longrightarrow> (\<And>k. P k \<Longrightarrow> k < 32) \<Longrightarrow> bit w k \<longleftrightarrow> P k"
    for w P
    using bit_imp_le_length [of w k] by auto
  have list: "(\<forall>k < 32. Q k) \<longleftrightarrow> list_all Q [0..<32]" for Q :: "nat \<Rightarrow> bool"
    by (auto simp: list_all_iff)
  show "bit (0x0060001F :: u32) k \<longleftrightarrow> k < 5 \<or> k = 21 \<or> k = 22"
    by (rule split) (unfold list, code_simp, linarith)
  show "bit (0x92800000 :: u32) k \<longleftrightarrow> k = 23 \<or> k = 25 \<or> k = 28 \<or> k = 31"
    by (rule split) (unfold list, code_simp, linarith)
  show "bit (0xd2800000 :: u32) k \<longleftrightarrow> k = 23 \<or> k = 25 \<or> k = 28 \<or> k = 30 \<or> k = 31"
    by (rule split) (unfold list, code_simp, linarith)
qed

lemma bit_movnz_word:
  "bit (movnz_word w v neg) k \<longleftrightarrow>
     (k < 5 \<and> bit w k) \<or> (5 \<le> k \<and> k < 21 \<and> (bit v (k - 5) \<noteq> neg)) \<or>
     (k \<in> {21, 22} \<and> bit w k) \<or> k \<in> {23, 25, 28, 31} \<or> (k = 30 \<and> \<not> neg)"
proof -
  have inner: "bit (shl (ucast (extract_bit_range (if neg then NOT v else v) 0 16)) 5 :: u32) k \<longleftrightarrow>
      5 \<le> k \<and> k < 21 \<and> (bit v (k - 5) \<noteq> neg)"
    by (auto simp: bit_simps bit_extract_bit_range)
  show ?thesis
    unfolding movnz_word_def bit_or_iff bit_and_iff inner if_distrib [where f = bit] if_distribR
      bit_movnz_const
    by (cases "k < 5"; cases "k < 21"; cases neg) auto
qed

lemma movnz_word_hw: "movw_hw (movnz_word w v neg) = movw_hw w"
proof -
  have "take_bit 2 (drop_bit 21 (movnz_word w v neg)) = take_bit 2 (drop_bit 21 w)"
  proof (rule bit_word_eqI)
    fix k :: nat
    have "k = 0 \<or> k = 1 \<or> 2 \<le> k" by linarith
    then show "bit (take_bit 2 (drop_bit 21 (movnz_word w v neg))) k \<longleftrightarrow>
        bit (take_bit 2 (drop_bit 21 w)) k"
      by (elim disjE) (simp_all add: bit_take_bit_iff bit_drop_bit_eq bit_movnz_word)
  qed
  then show ?thesis by (simp add: movw_hw_def)
qed

lemma movnz_word_imm:
  "bit (movw_imm (movnz_word w v neg)) j \<longleftrightarrow> j < 16 \<and> (bit v j \<noteq> neg)"
  by (cases "j < 16") (simp_all add: movw_imm_def bit_take_bit_iff bit_drop_bit_eq
      bit_unsigned_iff bit_movnz_word)

lemma movnz_exec_bits:
  assumes "k < 64"
  shows "bit (movw_exec (movnz_word w v neg) x) k \<longleftrightarrow>
    (if 16 * movw_hw w \<le> k \<and> k < 16 * movw_hw w + 16 then bit v (k - 16 * movw_hw w) else neg)"
proof -
  define sh where "sh = 16 * movw_hw w"
  define imm where "imm = push_bit sh (movw_imm (movnz_word w v neg))"
  have exec: "movw_exec (movnz_word w v neg) x = (if neg then NOT imm else imm)"
    by (simp add: movw_exec_def Let_def movnz_word_hw bit_movnz_word imm_def sh_def)
  have "bit imm k \<longleftrightarrow> sh \<le> k \<and> k - sh < 16 \<and> (bit v (k - sh) \<noteq> neg)"
    using assms by (auto simp: imm_def bit_push_bit_iff movnz_word_imm)
  with assms show ?thesis
    unfolding exec by (auto simp: sh_def [symmetric] bit_not_iff)
qed

end
