(* ===== verification/AArch64_Relocs.thy ===== *)
theory AArch64_Relocs
  imports Insn_Fields
begin

text \<open>
  The AArch64 relocation table (\<open>relocation_type_from_raw\<close> of \<open>linker-utils/src/aarch64.rs\<close>), one
  group of rows per section of the ABI document that the source follows.
\<close>

section \<open>The relocation table\<close>

text \<open>Static miscellaneous and data relocations.\<close>

definition aarch64_data_relocs :: "(rtype \<times> reloc_row) list" where
  "aarch64_data_relocs =
     [(''R_AARCH64_NONE'', (NoRelocation, ByteSize 0, None, no_check, 1)),
      (''R_AARCH64_ABS64'', (Absolute, ByteSize 8, None, no_check, 1)),
      (''R_AARCH64_ABS32'', (Absolute, ByteSize 4, None, range_new (- (2 ^ 31)) (2 ^ 32), 1)),
      (''R_AARCH64_ABS16'', (Absolute, ByteSize 2, None, range_new (- (2 ^ 15)) (2 ^ 16), 1)),
      (''R_AARCH64_PREL64'', (Relative, ByteSize 8, None, no_check, 1)),
      (''R_AARCH64_PREL32'', (Relative, ByteSize 4, None, range_new (- (2 ^ 31)) (2 ^ 32), 1)),
      (''R_AARCH64_PREL16'', (Relative, ByteSize 2, None, range_new (- (2 ^ 15)) (2 ^ 16), 1)),
      (''R_AARCH64_PLT32'', (PltRelative, ByteSize 4, None, bits_range 32 Signed, 1))]"

text \<open>Groups that build an absolute value inline.\<close>

definition aarch64_movw_abs_relocs :: "(rtype \<times> reloc_row) list" where
  "aarch64_movw_abs_relocs =
     [(''R_AARCH64_MOVW_UABS_G0'', (Absolute, bit_mask_aarch64 0 16 Movkz, None, bits_range 16 Unsigned, 1)),
      (''R_AARCH64_MOVW_UABS_G0_NC'', (Absolute, bit_mask_aarch64 0 16 Movkz, None, no_check, 1)),
      (''R_AARCH64_MOVW_UABS_G1'', (Absolute, bit_mask_aarch64 16 32 Movkz, None, bits_range 32 Unsigned, 1)),
      (''R_AARCH64_MOVW_UABS_G1_NC'', (Absolute, bit_mask_aarch64 16 32 Movkz, None, no_check, 1)),
      (''R_AARCH64_MOVW_UABS_G2'', (Absolute, bit_mask_aarch64 32 48 Movkz, None, bits_range 48 Unsigned, 1)),
      (''R_AARCH64_MOVW_UABS_G2_NC'', (Absolute, bit_mask_aarch64 32 48 Movkz, None, no_check, 1)),
      (''R_AARCH64_MOVW_UABS_G3'', (Absolute, bit_mask_aarch64 48 64 Movkz, None, no_check, 1)),
      (''R_AARCH64_MOVW_SABS_G0'', (Absolute, bit_mask_aarch64 0 16 Movnz, None, bits_range 17 Signed, 1)),
      (''R_AARCH64_MOVW_SABS_G1'', (Absolute, bit_mask_aarch64 16 32 Movnz, None, bits_range 33 Signed, 1)),
      (''R_AARCH64_MOVW_SABS_G2'', (Absolute, bit_mask_aarch64 32 48 Movnz, None, bits_range 49 Signed, 1))]"

text \<open>PC-relative addresses and the low parts that complete them.\<close>

definition aarch64_pcrel_relocs :: "(rtype \<times> reloc_row) list" where
  "aarch64_pcrel_relocs =
     [(''R_AARCH64_LD_PREL_LO19'', (Relative, bit_mask_aarch64 2 21 Ldr, None, bits_range 21 Signed, 4)),
      (''R_AARCH64_ADR_PREL_LO21'', (Relative, bit_mask_aarch64 0 21 Adr, None, bits_range 21 Signed, 1)),
      (''R_AARCH64_ADR_PREL_PG_HI21'', (Relative, bit_mask_aarch64 12 33 Adr, Some (SymbolPlusAddendAndPosition PAGE_MASK_4KB), bits_range 33 Signed, 1)),
      (''R_AARCH64_ADR_PREL_PG_HI21_NC'', (Relative, bit_mask_aarch64 12 33 Adr, Some (SymbolPlusAddendAndPosition PAGE_MASK_4KB), no_check, 1)),
      (''R_AARCH64_ADD_ABS_LO12_NC'', (AbsoluteLowPart, bit_mask_aarch64 0 12 Add, None, no_check, 1)),
      (''R_AARCH64_LDST8_ABS_LO12_NC'', (AbsoluteLowPart, bit_mask_aarch64 0 12 LdSt, None, no_check, 1)),
      (''R_AARCH64_LDST16_ABS_LO12_NC'', (AbsoluteLowPart, bit_mask_aarch64 1 12 LdSt, None, no_check, 2)),
      (''R_AARCH64_LDST32_ABS_LO12_NC'', (AbsoluteLowPart, bit_mask_aarch64 2 12 LdSt, None, no_check, 4)),
      (''R_AARCH64_LDST64_ABS_LO12_NC'', (AbsoluteLowPart, bit_mask_aarch64 3 12 LdSt, None, no_check, 8)),
      (''R_AARCH64_LDST128_ABS_LO12_NC'', (AbsoluteLowPart, bit_mask_aarch64 4 12 LdSt, None, no_check, 16))]"

text \<open>Control-flow instructions.\<close>

definition aarch64_branch_relocs :: "(rtype \<times> reloc_row) list" where
  "aarch64_branch_relocs =
     [(''R_AARCH64_TSTBR14'', (Relative, bit_mask_aarch64 2 16 TstBr, None, bits_range 16 Signed, 4)),
      (''R_AARCH64_CONDBR19'', (Relative, bit_mask_aarch64 2 21 Bcond, None, bits_range 21 Signed, 4)),
      (''R_AARCH64_JUMP26'', (PltRelative, bit_mask_aarch64 2 28 JumpCall, None, bits_range 28 Signed, 4)),
      (''R_AARCH64_CALL26'', (PltRelative, bit_mask_aarch64 2 28 JumpCall, None, bits_range 28 Signed, 4))]"

text \<open>Groups that build a PC-relative or GOT-relative offset inline.\<close>

definition aarch64_movw_prel_relocs :: "(rtype \<times> reloc_row) list" where
  "aarch64_movw_prel_relocs =
     [(''R_AARCH64_MOVW_PREL_G0'', (Relative, bit_mask_aarch64 0 16 Movnz, None, no_check, 1)),
      (''R_AARCH64_MOVW_PREL_G0_NC'', (Relative, bit_mask_aarch64 0 16 Movkz, None, no_check, 1)),
      (''R_AARCH64_MOVW_PREL_G1'', (Relative, bit_mask_aarch64 16 32 Movnz, None, no_check, 1)),
      (''R_AARCH64_MOVW_PREL_G1_NC'', (Relative, bit_mask_aarch64 16 32 Movkz, None, no_check, 1)),
      (''R_AARCH64_MOVW_PREL_G2'', (Relative, bit_mask_aarch64 32 48 Movnz, None, no_check, 1)),
      (''R_AARCH64_MOVW_PREL_G2_NC'', (Relative, bit_mask_aarch64 32 48 Movkz, None, no_check, 1)),
      (''R_AARCH64_MOVW_PREL_G3'', (Relative, bit_mask_aarch64 48 64 Movnz, None, no_check, 1)),
      (''R_AARCH64_MOVW_GOTOFF_G0'', (GotRelGotBase, bit_mask_aarch64 0 16 Movnz, None, no_check, 1)),
      (''R_AARCH64_MOVW_GOTOFF_G0_NC'', (GotRelGotBase, bit_mask_aarch64 0 16 Movkz, None, no_check, 1)),
      (''R_AARCH64_MOVW_GOTOFF_G1'', (GotRelGotBase, bit_mask_aarch64 16 32 Movnz, None, no_check, 1)),
      (''R_AARCH64_MOVW_GOTOFF_G1_NC'', (GotRelGotBase, bit_mask_aarch64 16 32 Movkz, None, no_check, 1)),
      (''R_AARCH64_MOVW_GOTOFF_G2'', (GotRelGotBase, bit_mask_aarch64 32 48 Movnz, None, no_check, 1)),
      (''R_AARCH64_MOVW_GOTOFF_G2_NC'', (GotRelGotBase, bit_mask_aarch64 32 48 Movkz, None, no_check, 1)),
      (''R_AARCH64_MOVW_GOTOFF_G3'', (GotRelGotBase, bit_mask_aarch64 48 64 Movnz, None, no_check, 1))]"

text \<open>GOT-relative data and instructions.\<close>

definition aarch64_got_relocs :: "(rtype \<times> reloc_row) list" where
  "aarch64_got_relocs =
     [(''R_AARCH64_GOTREL64'', (SymRelGotBase, ByteSize 4, None, no_check, 1)),
      (''R_AARCH64_GOTREL32'', (SymRelGotBase, ByteSize 8, None, bits_range 32 Signed, 1)),
      (''R_AARCH64_GOTPCREL32'', (GotRelative, ByteSize 4, None, bits_range 32 Signed, 1)),
      (''R_AARCH64_GOT_LD_PREL19'', (GotRelative, bit_mask_aarch64 2 21 LdSt, None, bits_range 21 Signed, 4)),
      (''R_AARCH64_LD64_GOTOFF_LO15'', (GotRelGotBase, bit_mask_aarch64 3 15 LdSt, None, bits_range 15 Unsigned, 8)),
      (''R_AARCH64_ADR_GOT_PAGE'', (GotRelative, bit_mask_aarch64 12 33 Adr, Some (GotEntryAndPosition PAGE_MASK_4KB), bits_range 33 Signed, 1)),
      (''R_AARCH64_LD64_GOT_LO12_NC'', (Got, bit_mask_aarch64 3 12 LdSt, None, no_check, 8)),
      (''R_AARCH64_LD64_GOTPAGE_LO15'', (GotRelGotBase, bit_mask_aarch64 3 15 LdSt, Some (GotBase PAGE_MASK_4KB), bits_range 15 Unsigned, 8))]"

text \<open>General dynamic TLS.\<close>

definition aarch64_tlsgd_relocs :: "(rtype \<times> reloc_row) list" where
  "aarch64_tlsgd_relocs =
     [(''R_AARCH64_TLSGD_ADR_PREL21'', (TlsGd, bit_mask_aarch64 0 21 Adr, None, bits_range 21 Signed, 1)),
      (''R_AARCH64_TLSGD_ADR_PAGE21'', (TlsGd, bit_mask_aarch64 12 33 Adr, Some (GotEntryAndPosition PAGE_MASK_4KB), bits_range 33 Signed, 1)),
      (''R_AARCH64_TLSGD_ADD_LO12_NC'', (TlsGdGot, bit_mask_aarch64 0 12 Add, None, no_check, 1)),
      (''R_AARCH64_TLSGD_MOVW_G1'', (TlsGdGotBase, bit_mask_aarch64 16 33 Movnz, None, no_check, 1)),
      (''R_AARCH64_TLSGD_MOVW_G0_NC'', (TlsGdGotBase, bit_mask_aarch64 0 16 Movkz, None, no_check, 1))]"

text \<open>Local dynamic TLS: addresses and MOVW groups.\<close>

definition aarch64_tlsld_relocs :: "(rtype \<times> reloc_row) list" where
  "aarch64_tlsld_relocs =
     [(''R_AARCH64_TLSLD_ADR_PREL21'', (TlsLd, bit_mask_aarch64 0 21 Adr, None, bits_range 21 Signed, 1)),
      (''R_AARCH64_TLSLD_ADR_PAGE21'', (TlsLd, bit_mask_aarch64 12 33 Adr, Some (GotEntryAndPosition PAGE_MASK_4KB), bits_range 33 Signed, 1)),
      (''R_AARCH64_TLSLD_ADD_LO12_NC'', (TlsLdGot, bit_mask_aarch64 0 12 Add, None, no_check, 1)),
      (''R_AARCH64_TLSLD_MOVW_G1'', (TlsLdGotBase, bit_mask_aarch64 16 32 Movnz, None, no_check, 1)),
      (''R_AARCH64_TLSLD_MOVW_G0_NC'', (TlsLdGotBase, bit_mask_aarch64 0 16 Movkz, None, no_check, 1)),
      (''R_AARCH64_TLSLD_LD_PREL19'', (TlsLd, bit_mask_aarch64 0 21 Ldr, None, bits_range 21 Signed, 1)),
      (''R_AARCH64_TLSLD_MOVW_DTPREL_G2'', (DtpOff, bit_mask_aarch64 32 48 Movnz, None, no_check, 1)),
      (''R_AARCH64_TLSLD_MOVW_DTPREL_G1'', (DtpOff, bit_mask_aarch64 16 32 Movnz, None, no_check, 1)),
      (''R_AARCH64_TLSLD_MOVW_DTPREL_G1_NC'', (DtpOff, bit_mask_aarch64 16 32 Movkz, None, no_check, 1)),
      (''R_AARCH64_TLSLD_MOVW_DTPREL_G0'', (DtpOff, bit_mask_aarch64 0 16 Movnz, None, no_check, 1)),
      (''R_AARCH64_TLSLD_MOVW_DTPREL_G0_NC'', (DtpOff, bit_mask_aarch64 0 16 Movkz, None, no_check, 1))]"

text \<open>Local dynamic TLS: additions, loads and stores.\<close>

definition aarch64_tlsld_ldst_relocs :: "(rtype \<times> reloc_row) list" where
  "aarch64_tlsld_ldst_relocs =
     [(''R_AARCH64_TLSLD_ADD_DTPREL_HI12'', (DtpOff, bit_mask_aarch64 12 24 Add, None, bits_range 24 Unsigned, 1)),
      (''R_AARCH64_TLSLD_ADD_DTPREL_LO12'', (DtpOff, bit_mask_aarch64 0 12 Add, None, bits_range 12 Unsigned, 1)),
      (''R_AARCH64_TLSLD_ADD_DTPREL_LO12_NC'', (DtpOff, bit_mask_aarch64 0 12 Add, None, no_check, 1)),
      (''R_AARCH64_TLSLD_LDST8_DTPREL_LO12'', (DtpOff, bit_mask_aarch64 0 12 LdSt, None, bits_range 12 Unsigned, 1)),
      (''R_AARCH64_TLSLD_LDST8_DTPREL_LO12_NC'', (DtpOff, bit_mask_aarch64 0 12 LdSt, None, no_check, 1)),
      (''R_AARCH64_TLSLD_LDST16_DTPREL_LO12'', (DtpOff, bit_mask_aarch64 1 12 LdSt, None, bits_range 12 Unsigned, 2)),
      (''R_AARCH64_TLSLD_LDST16_DTPREL_LO12_NC'', (DtpOff, bit_mask_aarch64 1 12 LdSt, None, no_check, 2)),
      (''R_AARCH64_TLSLD_LDST32_DTPREL_LO12'', (DtpOff, bit_mask_aarch64 2 12 LdSt, None, bits_range 12 Unsigned, 4)),
      (''R_AARCH64_TLSLD_LDST32_DTPREL_LO12_NC'', (DtpOff, bit_mask_aarch64 2 12 LdSt, None, no_check, 4)),
      (''R_AARCH64_TLSLD_LDST64_DTPREL_LO12'', (DtpOff, bit_mask_aarch64 3 12 LdSt, None, bits_range 12 Unsigned, 8)),
      (''R_AARCH64_TLSLD_LDST64_DTPREL_LO12_NC'', (DtpOff, bit_mask_aarch64 3 12 LdSt, None, no_check, 8)),
      (''R_AARCH64_TLSLD_LDST128_DTPREL_LO12'', (DtpOff, bit_mask_aarch64 4 12 LdSt, None, bits_range 12 Unsigned, 16)),
      (''R_AARCH64_TLSLD_LDST128_DTPREL_LO12_NC'', (DtpOff, bit_mask_aarch64 4 12 LdSt, None, no_check, 16))]"

text \<open>Initial exec TLS.\<close>

definition aarch64_tlsie_relocs :: "(rtype \<times> reloc_row) list" where
  "aarch64_tlsie_relocs =
     [(''R_AARCH64_TLSIE_MOVW_GOTTPREL_G1'', (GotTpOffGotBase, bit_mask_aarch64 16 32 Movnz, None, no_check, 1)),
      (''R_AARCH64_TLSIE_MOVW_GOTTPREL_G0_NC'', (GotTpOffGotBase, bit_mask_aarch64 0 16 Movkz, None, no_check, 1)),
      (''R_AARCH64_TLSIE_ADR_GOTTPREL_PAGE21'', (GotTpOff, bit_mask_aarch64 12 33 Adr, Some (GotEntryAndPosition PAGE_MASK_4KB), bits_range 33 Signed, 1)),
      (''R_AARCH64_TLSIE_LD64_GOTTPREL_LO12_NC'', (GotTpOffGot, bit_mask_aarch64 3 12 LdrRegister, None, no_check, 8)),
      (''R_AARCH64_TLSIE_LD_GOTTPREL_PREL19'', (GotTpOff, bit_mask_aarch64 2 21 Ldr, None, bits_range 21 Signed, 4))]"

text \<open>Local exec TLS.\<close>

definition aarch64_tlsle_relocs :: "(rtype \<times> reloc_row) list" where
  "aarch64_tlsle_relocs =
     [(''R_AARCH64_TLSLE_MOVW_TPREL_G2'', (TpOff, bit_mask_aarch64 32 48 Movnz, None, no_check, 1)),
      (''R_AARCH64_TLSLE_MOVW_TPREL_G1'', (TpOff, bit_mask_aarch64 16 32 Movnz, None, no_check, 1)),
      (''R_AARCH64_TLSLE_MOVW_TPREL_G1_NC'', (TpOff, bit_mask_aarch64 16 32 Movkz, None, no_check, 1)),
      (''R_AARCH64_TLSLE_MOVW_TPREL_G0'', (TpOff, bit_mask_aarch64 0 16 Movnz, None, no_check, 1)),
      (''R_AARCH64_TLSLE_MOVW_TPREL_G0_NC'', (TpOff, bit_mask_aarch64 0 16 Movkz, None, no_check, 1)),
      (''R_AARCH64_TLSLE_ADD_TPREL_HI12'', (TpOff, bit_mask_aarch64 12 24 Add, None, bits_range 24 Unsigned, 1)),
      (''R_AARCH64_TLSLE_ADD_TPREL_LO12'', (TpOff, bit_mask_aarch64 0 12 Add, None, bits_range 12 Unsigned, 1)),
      (''R_AARCH64_TLSLE_ADD_TPREL_LO12_NC'', (TpOff, bit_mask_aarch64 0 12 Add, None, no_check, 1)),
      (''R_AARCH64_TLSLE_LDST8_TPREL_LO12'', (TpOff, bit_mask_aarch64 0 12 LdSt, None, bits_range 12 Unsigned, 1)),
      (''R_AARCH64_TLSLE_LDST8_TPREL_LO12_NC'', (TpOff, bit_mask_aarch64 0 12 LdSt, None, no_check, 1)),
      (''R_AARCH64_TLSLE_LDST16_TPREL_LO12'', (TpOff, bit_mask_aarch64 1 12 LdSt, None, bits_range 12 Unsigned, 2)),
      (''R_AARCH64_TLSLE_LDST16_TPREL_LO12_NC'', (TpOff, bit_mask_aarch64 1 12 LdSt, None, no_check, 2)),
      (''R_AARCH64_TLSLE_LDST32_TPREL_LO12'', (TpOff, bit_mask_aarch64 2 12 LdSt, None, bits_range 12 Unsigned, 4)),
      (''R_AARCH64_TLSLE_LDST32_TPREL_LO12_NC'', (TpOff, bit_mask_aarch64 2 12 LdSt, None, no_check, 4)),
      (''R_AARCH64_TLSLE_LDST64_TPREL_LO12'', (TpOff, bit_mask_aarch64 3 12 LdSt, None, bits_range 12 Unsigned, 8)),
      (''R_AARCH64_TLSLE_LDST64_TPREL_LO12_NC'', (TpOff, bit_mask_aarch64 3 12 LdSt, None, no_check, 8)),
      (''R_AARCH64_TLSLE_LDST128_TPREL_LO12'', (TpOff, bit_mask_aarch64 4 12 LdSt, None, bits_range 12 Unsigned, 16)),
      (''R_AARCH64_TLSLE_LDST128_TPREL_LO12_NC'', (TpOff, bit_mask_aarch64 4 12 LdSt, None, no_check, 16))]"

text \<open>TLS descriptors.\<close>

definition aarch64_tlsdesc_relocs :: "(rtype \<times> reloc_row) list" where
  "aarch64_tlsdesc_relocs =
     [(''R_AARCH64_TLSDESC_LD_PREL19'', (TlsDesc, bit_mask_aarch64 2 21 Ldr, None, bits_range 21 Signed, 4)),
      (''R_AARCH64_TLSDESC_ADR_PREL21'', (TlsDesc, bit_mask_aarch64 0 21 Adr, None, bits_range 21 Signed, 1)),
      (''R_AARCH64_TLSDESC_ADR_PAGE21'', (TlsDesc, bit_mask_aarch64 12 33 Adr, Some (GotEntryAndPosition PAGE_MASK_4KB), bits_range 33 Signed, 1)),
      (''R_AARCH64_TLSDESC_LD64_LO12'', (TlsDescGot, bit_mask_aarch64 3 12 LdrRegister, None, no_check, 8)),
      (''R_AARCH64_TLSDESC_ADD_LO12'', (TlsDescGot, bit_mask_aarch64 0 12 Add, None, no_check, 1)),
      (''R_AARCH64_TLSDESC_OFF_G1'', (TlsDescGotBase, bit_mask_aarch64 16 32 Movnz, None, bits_range 33 Signed, 1)),
      (''R_AARCH64_TLSDESC_OFF_G0_NC'', (TlsDescGotBase, bit_mask_aarch64 0 16 Movkz, None, no_check, 1)),
      (''R_AARCH64_TLSDESC_CALL'', (TlsDescCall, ByteSize 0, None, no_check, 1))]"

definition aarch64_relocs :: "(rtype \<times> reloc_row) list" where
  "aarch64_relocs =
     aarch64_data_relocs @ aarch64_movw_abs_relocs @ aarch64_pcrel_relocs @
     aarch64_branch_relocs @ aarch64_movw_prel_relocs @ aarch64_got_relocs @
     aarch64_tlsgd_relocs @ aarch64_tlsld_relocs @ aarch64_tlsld_ldst_relocs @
     aarch64_tlsie_relocs @ aarch64_tlsle_relocs @ aarch64_tlsdesc_relocs"

definition aarch64_relocation_type_from_raw :: "rtype \<Rightarrow> RelocationKindInfo option" where
  "aarch64_relocation_type_from_raw r_type =
     (case map_of aarch64_relocs r_type of
        None \<Rightarrow> None
      | Some (kind, sz, pm, rng, alignment) \<Rightarrow>
          Some \<lparr>ri_kind = kind, ri_size = sz, ri_mask = pm, ri_range = rng,
                ri_alignment = alignment, ri_bias = 0,
                ri_thunkable = (r_type \<in> {''R_AARCH64_CALL26'', ''R_AARCH64_JUMP26''})\<rparr>)"

end
