(* ===== verification/RiscV64_Relocs.thy ===== *)
theory RiscV64_Relocs
  imports Insn_Fields
begin

text \<open>
  The RISC-V relocation table (\<open>relocation_type_from_raw\<close> of \<open>linker-utils/src/riscv64.rs\<close>). A row
  \<open>None\<close> is a type that the source lists and answers with \<open>None\<close>.
\<close>

text \<open>Data, branches and calls.\<close>

definition riscv_data_branch_relocs :: "(rtype \<times> reloc_row option) list" where
  "riscv_data_branch_relocs =
     [(''R_RISCV_NONE'', Some (NoRelocation, ByteSize 0, None, no_check, 1)),
      (''R_RISCV_32'', Some (Absolute, ByteSize 4, None, range_new (- (2 ^ 31)) (2 ^ 32), 1)),
      (''R_RISCV_64'', Some (Absolute, ByteSize 8, None, no_check, 1)),
      (''R_RISCV_BRANCH'', Some (Relative, bit_mask_riscv 0 32 BType, None, range_new (- (2 ^ 12)) (2 ^ 12 - 1), 2)),
      (''R_RISCV_JAL'', Some (Relative, bit_mask_riscv 0 32 JType, None, range_new (- (2 ^ 20)) (2 ^ 20 - 1), 2)),
      (''R_RISCV_CALL'', Some (PltRelative, bit_mask_riscv 0 64 UiType, None, range_new (- (2 ^ 31)) (2 ^ 32), 1)),
      (''R_RISCV_CALL_PLT'', Some (PltRelative, bit_mask_riscv 0 64 UiType, None, range_new (- (2 ^ 31)) (2 ^ 32), 1))]"

text \<open>The high and low halves of 32-bit values.\<close>

definition riscv_hi_lo_relocs :: "(rtype \<times> reloc_row option) list" where
  "riscv_hi_lo_relocs =
     [(''R_RISCV_GOT_HI20'', Some (GotRelative, bit_mask_riscv 0 32 UType, None, range_new (- (2 ^ 31)) (2 ^ 32), 1)),
      (''R_RISCV_TLS_GOT_HI20'', Some (GotTpOff, bit_mask_riscv 0 32 UType, None, range_new (- (2 ^ 31)) (2 ^ 32), 1)),
      (''R_RISCV_TLS_GD_HI20'', Some (TlsGd, bit_mask_riscv 0 32 UType, None, range_new (- (2 ^ 31)) (2 ^ 32), 1)),
      (''R_RISCV_PCREL_HI20'', Some (Relative, bit_mask_riscv 0 32 UType, None, range_new (- (2 ^ 31)) (2 ^ 32), 1)),
      (''R_RISCV_PCREL_LO12_I'', Some (RelativeRiscVLow12, bit_mask_riscv 0 32 IType, None, range_new (- (2 ^ 31)) (2 ^ 32), 1)),
      (''R_RISCV_PCREL_LO12_S'', Some (RelativeRiscVLow12, bit_mask_riscv 0 32 SType, None, range_new (- (2 ^ 31)) (2 ^ 32), 1)),
      (''R_RISCV_HI20'', Some (Absolute, bit_mask_riscv 0 32 UType, None, range_new (- (2 ^ 31)) (2 ^ 32), 1)),
      (''R_RISCV_LO12_I'', Some (Absolute, bit_mask_riscv 0 32 IType, None, range_new (- (2 ^ 31)) (2 ^ 32), 1)),
      (''R_RISCV_LO12_S'', Some (Absolute, bit_mask_riscv 0 32 SType, None, range_new (- (2 ^ 31)) (2 ^ 32), 1)),
      (''R_RISCV_TPREL_HI20'', Some (TpOff, bit_mask_riscv 0 32 UType, None, range_new (- (2 ^ 31)) (2 ^ 32), 1)),
      (''R_RISCV_TPREL_LO12_I'', Some (TpOff, bit_mask_riscv 0 32 IType, None, range_new (- (2 ^ 31)) (2 ^ 32), 1)),
      (''R_RISCV_TPREL_LO12_S'', Some (TpOff, bit_mask_riscv 0 32 SType, None, range_new (- (2 ^ 31)) (2 ^ 32), 1))]"

text \<open>In-place addition and subtraction.\<close>

definition riscv_add_sub_relocs :: "(rtype \<times> reloc_row option) list" where
  "riscv_add_sub_relocs =
     [(''R_RISCV_TPREL_ADD'', Some (NoRelocation, ByteSize 0, None, no_check, 1)),
      (''R_RISCV_ADD8'', Some (AbsoluteAddition, ByteSize 1, None, no_check, 1)),
      (''R_RISCV_ADD16'', Some (AbsoluteAddition, ByteSize 2, None, no_check, 1)),
      (''R_RISCV_ADD32'', Some (AbsoluteAddition, ByteSize 4, None, no_check, 1)),
      (''R_RISCV_ADD64'', Some (AbsoluteAddition, ByteSize 8, None, no_check, 1)),
      (''R_RISCV_SUB8'', Some (AbsoluteSubtraction, ByteSize 1, None, no_check, 1)),
      (''R_RISCV_SUB16'', Some (AbsoluteSubtraction, ByteSize 2, None, no_check, 1)),
      (''R_RISCV_SUB32'', Some (AbsoluteSubtraction, ByteSize 4, None, no_check, 1)),
      (''R_RISCV_SUB64'', Some (AbsoluteSubtraction, ByteSize 8, None, no_check, 1))]"

text \<open>Compressed branches, sets, ULEB128 pairs and the unsupported TLS descriptors.\<close>

definition riscv_misc_relocs :: "(rtype \<times> reloc_row option) list" where
  "riscv_misc_relocs =
     [(''R_RISCV_GOT32_PCREL'', Some (GotRelative, ByteSize 4, None, range_new (- (2 ^ 31)) (2 ^ 32), 1)),
      (''R_RISCV_ALIGN'', Some (AlignmentReloc, ByteSize 0, None, no_check, 1)),
      (''R_RISCV_RVC_BRANCH'', Some (Relative, bit_mask_riscv 0 16 CbType, None, range_new (- (2 ^ 8)) (2 ^ 8 - 1), 2)),
      (''R_RISCV_RVC_JUMP'', Some (Relative, bit_mask_riscv 0 16 CjType, None, range_new (- (2 ^ 11)) (2 ^ 11 - 1), 2)),
      (''R_RISCV_RELAX'', Some (NoRelocation, ByteSize 0, None, no_check, 1)),
      (''R_RISCV_SUB6'', Some (AbsoluteSubtractionWord6, ByteSize 1, None, no_check, 1)),
      (''R_RISCV_SET6'', Some (AbsoluteSetWord6, ByteSize 1, None, no_check, 1)),
      (''R_RISCV_SET8'', Some (AbsoluteSet, ByteSize 1, None, no_check, 1)),
      (''R_RISCV_SET16'', Some (AbsoluteSet, ByteSize 2, None, no_check, 1)),
      (''R_RISCV_SET32'', Some (AbsoluteSet, ByteSize 4, None, no_check, 1)),
      (''R_RISCV_32_PCREL'', Some (Relative, ByteSize 4, None, range_new (- (2 ^ 31)) (2 ^ 32), 1)),
      (''R_RISCV_PLT32'', Some (PltRelative, ByteSize 4, None, range_new (- (2 ^ 31)) (2 ^ 32), 1)),
      (''R_RISCV_SET_ULEB128'', Some (Relative, ByteSize 0, None, no_check, 1)),
      (''R_RISCV_SUB_ULEB128'', Some (PairSubtractionULEB128 ''R_RISCV_SET_ULEB128'', ByteSize 8, None, no_check, 1)),
      (''R_RISCV_TLSDESC_HI20'', None),
      (''R_RISCV_TLSDESC_LOAD_LO12'', None),
      (''R_RISCV_TLSDESC_ADD_LO12'', None),
      (''R_RISCV_TLSDESC_CALL'', None)]"

definition riscv_relocs :: "(rtype \<times> reloc_row option) list" where
  "riscv_relocs =
     riscv_data_branch_relocs @ riscv_hi_lo_relocs @ riscv_add_sub_relocs @ riscv_misc_relocs"

definition riscv_relocation_type_from_raw :: "rtype \<Rightarrow> RelocationKindInfo option" where
  "riscv_relocation_type_from_raw r_type =
     (case map_of riscv_relocs r_type of
        Some (Some (kind, sz, pm, rng, alignment)) \<Rightarrow>
          Some \<lparr>ri_kind = kind, ri_size = sz, ri_mask = pm, ri_range = rng,
                ri_alignment = alignment, ri_bias = 0, ri_thunkable = False\<rparr>
      | _ \<Rightarrow> None)"

end
