(* ===== verification/Arch_LoongArch64.thy ===== *)
theory Arch_LoongArch64
  imports Insn_Fields
begin

text \<open>
  LoongArch 64 (\<open>linker-utils/src/loongarch64.rs\<close>): the relaxations, the instruction encoder and
  decoder, and the high-part computation of the 64-bit PC-relative sequences.
\<close>

section \<open>Model\<close>

datatype LoongArch64Relaxation = LaNoOp | LaReplaceWithNop

fun larch_apply :: "LoongArch64Relaxation \<Rightarrow> relax_state \<Rightarrow> relax_state option" where
  "larch_apply LaNoOp (bs, off, ad) = Some (bs, off, ad)"
| "larch_apply LaReplaceWithNop (bs, off, ad) =
     do { bs' \<leftarrow> splice off [0x03, 0x40, 0x0, 0x0] bs; Some (bs', off, ad) }"

definition larch_next_modifier :: "LoongArch64Relaxation \<Rightarrow> RelocationModifier" where
  "larch_next_modifier k = Normal"

definition CALL30_CLEAR :: u64 where "CALL30_CLEAR = shl 0xFFF803FF 32 OR 0xFE00001F"
definition CALL36_CLEAR :: u64 where "CALL36_CLEAR = shl 0xFC0003FF 32 OR 0xFE00001F"

fun larch_write_to_value :: "LoongArch64Instruction \<Rightarrow> u64 \<Rightarrow> bool \<Rightarrow> bytes \<Rightarrow> bytes option" where
  "larch_write_to_value Shift5 v negative dest =
     masked_update dest (to_le 4 (0xFE00001F :: u32)) (to_le 4 (ucast (shl v 5) :: u32))"
| "larch_write_to_value Shift10 v negative dest =
     masked_update dest (to_le 4 (0xFFC003FF :: u32)) (to_le 4 (ucast (shl v 10) :: u32))"
| "larch_write_to_value Branch26 v negative dest =
     (let low_part = shl (v AND 0xffff) 10; high_part = shr v 16
      in masked_update dest (to_le 4 (0xFC000000 :: u32)) (to_le 4 (ucast (low_part OR high_part) :: u32)))"
| "larch_write_to_value Branch21 v negative dest =
     (let low_part = shl (v AND 0xffff) 10; high_part = shr v 16
      in masked_update dest (to_le 4 (0xFC0003E0 :: u32)) (to_le 4 (ucast (low_part OR high_part) :: u32)))"
| "larch_write_to_value Call30 v negative dest =
     (let low_part = shl (v AND 0x1ff) (32 + 10); high_part = shl (v AND NOT 0x1ff) 5
      in masked_update dest (to_le 8 CALL30_CLEAR) (to_le 8 (low_part OR high_part)))"
| "larch_write_to_value Call36 v negative dest =
     (let low_part = shl (v AND 0xffff) (32 + 10); high_part = shl (shr (v + 0x8000) 16) 5
      in masked_update dest (to_le 8 CALL36_CLEAR) (to_le 8 (low_part OR high_part)))"

fun larch_read_value :: "LoongArch64Instruction \<Rightarrow> bytes \<Rightarrow> (u64 \<times> bool) option" where
  "larch_read_value Shift5 bs =
     do { value \<leftarrow> u32_from_slice bs;
          let imm = (shr value 5 AND 0xfffff);
          Some (ucast imm, False) }"
| "larch_read_value Shift10 bs =
     do { value \<leftarrow> u32_from_slice bs;
          let imm = (shr value 10 AND 0xfff);
          Some (ucast imm, False) }"
| "larch_read_value Branch26 bs =
     do { value \<leftarrow> u32_from_slice bs;
          let low_part = (shr value 10 AND 0xffff);
          let high_part = (value AND 0x3ff);
          let imm = (shl high_part 16 OR low_part);
          Some (with_sign (sext_i32 imm 6)) }"
| "larch_read_value Branch21 bs =
     do { value \<leftarrow> u32_from_slice bs;
          let low_part = (shr value 10 AND 0xffff);
          let high_part = (value AND 0x1f);
          let imm = (shl high_part 16 OR low_part);
          Some (with_sign (sext_i32 imm 11)) }"
| "larch_read_value Call30 bs =
     do { value \<leftarrow> u64_from_slice bs;
          let insn1 = (ucast (shr value 32) :: u32);
          let insn2 = (ucast value :: u32);
          let high_part = shl (shr insn1 5 AND 0x7ffff) 9;
          let low_part = (shr insn2 10 AND 0x1ff);
          let imm = (high_part OR low_part);
          Some (ucast imm, False) }"
| "larch_read_value Call36 bs =
     do { value \<leftarrow> u64_from_slice bs;
          let insn1 = (ucast value :: u32);
          let insn2 = (ucast (shr value 32) :: u32);
          let high_part = (ucast (shr insn1 5 AND 0xfffff) :: u64);
          let low_part = (ucast (shr insn2 10 AND 0xffff) :: u64);
          let imm = (((shl high_part 16 - 0x8000) AND 0xffffffff) OR low_part);
          Some (imm, False) }"

definition highest_relocation_with_bias :: "u64 \<Rightarrow> u64 \<Rightarrow> u64" where
  "highest_relocation_with_bias symbol_with_addend pc =
     ((symbol_with_addend + SIZE_2GB +
        (if symbol_with_addend AND SIZE_2KB \<noteq> 0 then SIZE_4KB - SIZE_4GB else 0))
       AND NOT PAGE_MASK_4KB)
     - ((pc - 8) AND NOT PAGE_MASK_4KB)"

section \<open>Relaxations stay inside their window\<close>

definition larch_window :: "LoongArch64Relaxation \<Rightarrow> nat \<times> nat" where
  "larch_window k = (if k = LaNoOp then (0, 0) else (0, 4))"

interpretation larch_relax: relaxation larch_apply larch_window
proof
  fix k bs off ad bs' off' ad'
  assume a: "larch_apply k (bs, off, ad) = Some (bs', off', ad')"
  then show "length bs' = length bs"
    by (cases k) (auto dest!: splice_length split: bind_splits)
  fix i assume "i < length bs" "\<not> in_window (larch_window k) off i"
  with a show "bs' ! i = bs ! i"
    by (cases k) (auto simp: larch_window_def in_window_def not_less
        dest: splice_outside [where i = i] split: bind_splits)
qed

section \<open>Encoding as segments\<close>

text \<open>
  The forms that do not mask the value rely on it fitting the field. \<open>Call30\<close> writes the upper
  bits of its value nine places too high for the decoder that the source pairs it with, so it
  is left to its own lemma.
\<close>

fun larch_segs :: "LoongArch64Instruction \<Rightarrow> segment list" where
  "larch_segs Shift5 = [(0, 0, 5, 20)]"
| "larch_segs Shift10 = [(0, 0, 10, 12)]"
| "larch_segs Branch26 = [(0, 0, 10, 16), (0, 16, 0, 10)]"
| "larch_segs Branch21 = [(0, 0, 10, 16), (0, 16, 0, 5)]"
| "larch_segs Call30 = [(0, 0, 42, 9), (0, 9, 14, 11)]"
| "larch_segs Call36 = [(0, 0, 42, 16), (0x8000, 16, 5, 20)]"

definition larch_pre :: "LoongArch64Instruction \<Rightarrow> u64 \<Rightarrow> bytes \<Rightarrow> bool" where
  "larch_pre i v bs =
     (case i of
        Shift5 \<Rightarrow> 4 \<le> length bs \<and> v < 2 ^ 20
      | Shift10 \<Rightarrow> 4 \<le> length bs \<and> v < 2 ^ 12
      | Branch26 \<Rightarrow> 4 \<le> length bs \<and> v < 2 ^ 26
      | Branch21 \<Rightarrow> 4 \<le> length bs \<and> v < 2 ^ 21
      | Call30 \<Rightarrow> False
      | Call36 \<Rightarrow> 8 \<le> length bs \<and> v < 2 ^ 36 \<and> (byte_bit bs 25 \<or> v + 0x8000 < 2 ^ 36))"

fun larch_canon :: "LoongArch64Instruction \<Rightarrow> u64 \<Rightarrow> u64 \<times> bool" where
  "larch_canon Branch26 v = (signed_take_bit 25 v, bit v 25)"
| "larch_canon Branch21 v = (signed_take_bit 20 v, bit v 20)"
| "larch_canon Call36 v =
     (((push_bit 16 (take_bit 20 (drop_bit 16 (v + 0x8000))) - 0x8000) AND 0xffffffff) OR take_bit 16 v, False)"
| "larch_canon i v = (v, False)"

lemma larch_masks_fit:
  "mask_fits (0xFE00001F :: u32) (larch_segs Shift5)"
  "mask_fits (0xFFC003FF :: u32) (larch_segs Shift10)"
  "mask_fits (0xFC000000 :: u32) (larch_segs Branch26)"
  "mask_fits (0xFC0003E0 :: u32) (larch_segs Branch21)"
  "mask_fits CALL36_CLEAR (larch_segs Call36)"
  by code_simp+

lemma larch_shift5_encodes:
  assumes "larch_pre Shift5 v bs"
  shows "\<exists>bs'. larch_write_to_value Shift5 v neg bs = Some bs' \<and> encoded (larch_segs Shift5) v bs bs'"
proof -
  have v: "4 \<le> length bs" "v < 2 ^ 20" using assms by (simp_all add: larch_pre_def)
  have "bits_placed (larch_segs Shift5) v (ucast (shl v 5) :: u32)"
    using bit_above_bounded [OF v(2)] by (simp add: placed_simps bit_shl)
  from masked_update_encodes [OF _ v(1) larch_masks_fit(1) this] show ?thesis by simp
qed

lemma larch_shift10_encodes:
  assumes "larch_pre Shift10 v bs"
  shows "\<exists>bs'. larch_write_to_value Shift10 v neg bs = Some bs' \<and> encoded (larch_segs Shift10) v bs bs'"
proof -
  have v: "4 \<le> length bs" "v < 2 ^ 12" using assms by (simp_all add: larch_pre_def)
  have "bits_placed (larch_segs Shift10) v (ucast (shl v 10) :: u32)"
    using bit_above_bounded [OF v(2)] by (simp add: placed_simps bit_shl)
  from masked_update_encodes [OF _ v(1) larch_masks_fit(2) this] show ?thesis by simp
qed

lemma larch_branch26_encodes:
  assumes "larch_pre Branch26 v bs"
  shows "\<exists>bs'. larch_write_to_value Branch26 v neg bs = Some bs' \<and> encoded (larch_segs Branch26) v bs bs'"
proof -
  have v: "4 \<le> length bs" "v < 2 ^ 26" using assms by (simp_all add: larch_pre_def)
  have "bits_placed (larch_segs Branch26) v (ucast (shl (v AND 0xffff) 10 OR shr v 16) :: u32)"
    using bit_above_bounded [OF v(2)] by (simp add: placed_simps bit_shl bit_shr)
  from masked_update_encodes [OF _ v(1) larch_masks_fit(3) this] show ?thesis by simp
qed

lemma larch_branch21_encodes:
  assumes "larch_pre Branch21 v bs"
  shows "\<exists>bs'. larch_write_to_value Branch21 v neg bs = Some bs' \<and> encoded (larch_segs Branch21) v bs bs'"
proof -
  have v: "4 \<le> length bs" "v < 2 ^ 21" using assms by (simp_all add: larch_pre_def)
  have "bits_placed (larch_segs Branch21) v (ucast (shl (v AND 0xffff) 10 OR shr v 16) :: u32)"
    using bit_above_bounded [OF v(2)] by (simp add: placed_simps bit_shl bit_shr)
  from masked_update_encodes [OF _ v(1) larch_masks_fit(4) this] show ?thesis by simp
qed

text \<open>
  The carry into the high part of a \<open>Call36\<close> value can reach bit 25, which the opcode of
  \<open>pcaddu18i\<close> has set already.
\<close>

lemma call36_carry:
  fixes v :: u64
  assumes "v < 2 ^ 36"
  shows "v + 0x8000 < 2 ^ 37"
proof -
  have "unat (v + 0x8000) = unat v + 0x8000"
    using assms by (subst unat_add_lem [THEN iffD1]) (auto simp: word_less_nat_alt)
  with assms show ?thesis by (simp add: word_less_nat_alt)
qed

lemma larch_call36_encodes:
  assumes "larch_pre Call36 v bs"
  shows "\<exists>bs'. larch_write_to_value Call36 v neg bs = Some bs' \<and> encoded (larch_segs Call36) v bs bs'"
proof -
  have v: "8 \<le> length bs" "v < 2 ^ 36" "byte_bit bs 25 \<or> v + 0x8000 < 2 ^ 36"
    using assms by (simp_all add: larch_pre_def)
  define m where "m = shl (v AND 0xffff) (32 + 10) OR shl (shr (v + 0x8000) 16) 5"
  define c25 :: u64 where "c25 = NOT (2 ^ 25)"
  have c25: "bit c25 k \<longleftrightarrow> k < 64 \<and> k \<noteq> 25" for k
    unfolding c25_def bit_not_iff bit_exp_iff by (auto simp: not_le)
  have m25: "\<not> bit m 25" if "v + 0x8000 < 2 ^ 36"
    using bit_above_bounded [OF that, of 36] by (simp add: m_def bit_or_iff bit_shl bit_shr)
  have drop25: "(getw 8 bs AND CALL36_CLEAR) OR m = (getw 8 bs AND CALL36_CLEAR) OR (m AND c25)"
  proof (rule bit_word_eqI)
    fix k
    have "bit CALL36_CLEAR 25" by code_simp
    moreover have "\<not> bit m 25" if "\<not> byte_bit bs 25" using that v(3) m25 by blast
    ultimately show "bit ((getw 8 bs AND CALL36_CLEAR) OR m) k \<longleftrightarrow>
        bit ((getw 8 bs AND CALL36_CLEAR) OR (m AND c25)) k"
      by (cases "k = 25") (auto simp: bit_or_iff bit_and_iff c25 byte_simps dest: bit_imp_le_length)
  qed
  have "bits_placed (larch_segs Call36) v (m AND c25)"
    using bit_above_bounded [OF call36_carry [OF v(2)]]
    by (simp add: placed_simps bit_shl bit_shr m_def c25)
  from masked_update_encodes [OF _ v(1) larch_masks_fit(5) this] v(1) show ?thesis
    unfolding larch_write_to_value.simps Let_def m_def [symmetric]
    by (simp add: masked_update_word drop25)
qed

lemma larch_wr_encodes:
  "larch_pre i v bs \<Longrightarrow> \<exists>bs'. larch_write_to_value i v neg bs = Some bs' \<and> encoded (larch_segs i) v bs bs'"
  using larch_shift5_encodes larch_shift10_encodes larch_branch26_encodes larch_branch21_encodes
    larch_call36_encodes
  by (cases i) (auto simp: larch_pre_def simp del: larch_segs.simps larch_write_to_value.simps)

section \<open>Decoding\<close>

lemma larch_rd_branch26:
  assumes "holds (larch_segs Branch26) v bs" "4 \<le> length bs"
  shows "larch_read_value Branch26 bs = Some (larch_canon Branch26 v)"
  using assms by (simp add: byte_simps Let_def with_sign_sext_bits [where v = v] piece_simps)

lemma larch_rd_branch21:
  assumes "holds (larch_segs Branch21) v bs" "4 \<le> length bs"
  shows "larch_read_value Branch21 bs = Some (larch_canon Branch21 v)"
  using assms by (simp add: byte_simps Let_def with_sign_sext_bits [where v = v] piece_simps)

lemma larch_rd_call36:
  assumes "holds (larch_segs Call36) v bs" "8 \<le> length bs"
  shows "larch_read_value Call36 bs = Some (larch_canon Call36 v)"
proof -
  let ?w = "getw 8 bs :: u64"
  have masks: "(0xfffff :: u32) = mask 20" "(0xffff :: u32) = mask 16" by (simp_all add: mask_eq_exp_minus_1)
  have "ucast (shr (ucast ?w :: u32) 5 AND 0xfffff) = take_bit 20 (drop_bit 16 (v + 0x8000))"
    unfolding masks using assms
    by (intro bit_word_eqI) (auto simp: bit_simps byte_simps add.commute)
  moreover have "ucast (shr (ucast (shr ?w 32) :: u32) 10 AND 0xffff) = take_bit 16 v"
    unfolding masks using assms
    by (intro bit_word_eqI) (auto simp: bit_simps byte_simps add.commute)
  ultimately show ?thesis using assms(2) by (simp add: byte_simps Let_def shl_def)
qed

lemma larch_rd_holds:
  assumes "larch_pre i v bs" "length bs' = length bs" "holds (larch_segs i) v bs'"
  shows "larch_read_value i bs' = Some (larch_canon i v)"
proof -
  have masks: "(0xfffff :: u32) = mask 20" "(0xfff :: u32) = mask 12" by (simp_all add: mask_eq_exp_minus_1)
  from assms larch_rd_branch26 [of v bs'] larch_rd_branch21 [of v bs'] larch_rd_call36 [of v bs']
    unsigned_piece [of 5 20 v bs'] unsigned_piece [of 10 12 v bs']
  show ?thesis
    by (cases i) (simp_all add: larch_pre_def u32_from_slice_getw masks)
qed

interpretation larch_field: field_codec larch_write_to_value larch_segs larch_pre larch_read_value larch_canon
  by unfold_locales (rule larch_wr_encodes, assumption, rule larch_rd_holds)

text \<open>The bytes and the width of the immediate of a form.\<close>

definition larch_bytes :: "LoongArch64Instruction \<Rightarrow> nat" where
  "larch_bytes i = (if i \<in> {Call30, Call36} then 8 else 4)"

fun larch_width :: "LoongArch64Instruction \<Rightarrow> nat" where
  "larch_width Shift5 = 20"
| "larch_width Shift10 = 12"
| "larch_width Branch26 = 26"
| "larch_width Branch21 = 21"
| "larch_width Call30 = 30"
| "larch_width Call36 = 36"

text \<open>
  C9. Writing a value that fits into the immediate of a LoongArch instruction, or of the pair of
  \<open>Call36\<close>, succeeds, whatever the immediate held before, and changes nothing outside the immediate. For
  \<open>Call36\<close> the rounded upper part has to fit too, unless bit 25, which the opcode of \<open>pcaddu18i\<close> sets, is
  set. Reading gives the value back: for the two immediates of 20 and 12 bits as it is, for branches
  sign extended and with its sign. Not covered are \<open>Call30\<close>, whose reader takes the two halves from the
  other instructions than its writer, and the reading of \<open>Call36\<close>, which is not the inverse of the writing.
\<close>

theorem larch_write_read:
  assumes "i \<noteq> Call30" "larch_bytes i \<le> length bs" "v < 2 ^ larch_width i"
    and "i = Call36 \<longrightarrow> byte_bit bs 25 \<or> v + 0x8000 < 2 ^ 36"
  shows "\<exists>bs'. larch_write_to_value i v neg bs = Some bs' \<and> length bs' = length bs \<and>
           (\<forall>k. \<not> in_field (larch_segs i) k \<longrightarrow> (byte_bit bs' k \<longleftrightarrow> byte_bit bs k)) \<and>
           (i \<in> {Shift5, Shift10} \<longrightarrow> larch_read_value i bs' = Some (v, False)) \<and>
           (i \<in> {Branch26, Branch21} \<longrightarrow>
              larch_read_value i bs' = Some (signed_take_bit (larch_width i - 1) v, bit v (larch_width i - 1)))"
proof -
  have pre: "larch_pre i v bs" using assms by (cases i) (simp_all add: larch_pre_def larch_bytes_def)
  obtain bs' where bs': "larch_write_to_value i v neg bs = Some bs'"
    using larch_field.wr_encodes [OF pre] by blast
  have rd: "larch_read_value i bs' = Some (larch_canon i v)" using larch_field.rd_wr [OF pre bs'] .
  have "larch_canon i v = (v, False)" if "i \<in> {Shift5, Shift10}" using that by auto
  moreover have "larch_canon i v = (signed_take_bit (larch_width i - 1) v, bit v (larch_width i - 1))"
    if "i \<in> {Branch26, Branch21}" using that by auto
  ultimately show ?thesis
    using bs' rd larch_field.wr_length [OF pre bs'] larch_field.wr_frame [OF pre bs'] by (intro exI [of _ bs']) simp
qed

theorem larch_write_read_witness:
  "\<exists>bs'. larch_write_to_value Branch26 0x3fffffe True [0xff, 0xff, 0xff, 0x57] = Some bs' \<and>
      larch_read_value Branch26 bs' = Some (- 2, True)"
proof -
  have v: "signed_take_bit (larch_width Branch26 - 1) 0x3fffffe = (- 2 :: u64)" "bit (0x3fffffe :: u64) (larch_width Branch26 - 1)"
    by code_simp+
  have "\<exists>bs'. larch_write_to_value Branch26 0x3fffffe True [0xff, 0xff, 0xff, 0x57] = Some bs' \<and>
      larch_read_value Branch26 bs' = Some (signed_take_bit (larch_width Branch26 - 1) 0x3fffffe, bit (0x3fffffe :: u64) (larch_width Branch26 - 1))"
    using larch_write_read [of Branch26 "[0xff, 0xff, 0xff, 0x57]" "0x3fffffe" True] by (auto simp: larch_bytes_def)
  then show ?thesis unfolding v(1) using v(2) by simp
qed

text \<open>The reader of \<open>Call36\<close> does not give zero back.\<close>

lemma call36_read_differs:
  "larch_write_to_value Call36 0 False (replicate 8 0) = Some (replicate 8 0)"
  "larch_read_value Call36 (replicate 8 0) = Some (0xffff8000, False)"
  by code_simp+

section \<open>The call pair\<close>

text \<open>
  \<open>pcaddu18i\<close> adds its sign-extended 20-bit immediate times \<open>2^18\<close> to the program counter, \<open>jirl\<close>
  its sign-extended 16-bit immediate times 4.
\<close>

definition pcaddu18i_offset :: "u32 \<Rightarrow> u64" where
  "pcaddu18i_offset w = push_bit 18 (signed_take_bit 19 (drop_bit 5 (ucast w)))"

definition jirl_offset :: "u32 \<Rightarrow> u64" where
  "jirl_offset w = push_bit 2 (signed_take_bit 15 (drop_bit 10 (ucast w)))"

lemma call36_jirl:
  assumes "holds (larch_segs Call36) (take_bit 36 (drop_bit 2 d)) bs" "8 \<le> length bs" "take_bit 2 d = 0"
  shows "jirl_offset (getw 4 (drop 4 bs)) = signed_take_bit 17 d"
proof (rule bit_word_eqI)
  fix k assume "k < LENGTH(64)"
  have low: "\<not> bit d j" if "j < 2" for j
    using arg_cong [OF assms(3), of "\<lambda>x. bit x j"] that by (simp add: bit_take_bit_iff)
  have f: "byte_bit bs (42 + j) \<longleftrightarrow> bit d (2 + j)" if "j < 16" for j
    using assms(1) that by (auto simp: bit_take_bit_iff bit_drop_bit_eq)
  define x where "x = signed_take_bit 15 (drop_bit 10 (ucast (getw 4 (drop 4 bs) :: u32) :: u64))"
  have imm: "bit x j \<longleftrightarrow> j < 64 \<and> bit d (2 + min j 15)" for j
    using assms(2) f [of "min 15 j"]
    by (simp add: x_def bit_signed_take_bit_iff bit_drop_bit_eq bit_unsigned_iff byte_simps byte_bit_drop
        min_less_iff_disj min.commute)
  show "bit (jirl_offset (getw 4 (drop 4 bs))) k \<longleftrightarrow> bit (signed_take_bit 17 d) k"
  proof (cases "k < 2")
    case True
    with low [of k] show ?thesis by (simp add: jirl_offset_def x_def [symmetric] bit_push_bit_iff bit_signed_take_bit_iff)
  next
    case False
    then have "2 + min (k - 2) 15 = min 17 k" "k < 64 \<Longrightarrow> k - 2 < 64" by auto
    with False \<open>k < LENGTH(64)\<close> show ?thesis
      by (simp add: jirl_offset_def x_def [symmetric] bit_push_bit_iff imm bit_signed_take_bit_iff)
  qed
qed

lemma call36_shifted:
  assumes "take_bit 2 d = 0" "k < 36"
  shows "bit (take_bit 36 (drop_bit 2 d) + 0x8000) k \<longleftrightarrow> bit (d + 0x20000 :: u64) (2 + k)"
proof -
  have "push_bit 2 (drop_bit 2 d) = d"
    using assms(1) bits_ident [of 2 d] by simp
  then have "push_bit 2 (drop_bit 2 d + 0x8000) = d + 0x20000"
    by (simp add: push_bit_add)
  moreover have "bit (push_bit 2 x) (2 + k) \<longleftrightarrow> bit x k" for x :: u64
    using assms(2) by (simp add: bit_push_bit_iff)
  ultimately have "bit (d + 0x20000) (2 + k) \<longleftrightarrow> bit (drop_bit 2 d + 0x8000) k"
    by metis
  also have "\<dots> \<longleftrightarrow> bit (take_bit 36 (drop_bit 2 d + 0x8000)) k"
    using assms(2) by (simp add: bit_take_bit_iff)
  also have "\<dots> \<longleftrightarrow> bit (take_bit 36 (take_bit 36 (drop_bit 2 d) + 0x8000)) k"
    by (simp only: take_bit_add_word)
  finally show ?thesis using assms(2) by (simp add: bit_take_bit_iff)
qed

lemma call36_pcaddu18i:
  assumes "holds (larch_segs Call36) (take_bit 36 (drop_bit 2 d)) bs" "8 \<le> length bs" "take_bit 2 d = 0"
  shows "pcaddu18i_offset (getw 4 bs) = signed_take_bit 37 (d + 0x20000) AND NOT (mask 18)"
proof (rule bit_word_eqI)
  fix k assume k: "k < LENGTH(64)"
  define x where "x = signed_take_bit 19 (drop_bit 5 (ucast (getw 4 bs :: u32) :: u64))"
  have f: "byte_bit bs (5 + j) \<longleftrightarrow> bit (d + 0x20000) (18 + j)" if "j < 20" for j
    using assms(1) that call36_shifted [OF assms(3), of "16 + j"] by (simp add: add.commute)
  have imm: "bit x j \<longleftrightarrow> j < 64 \<and> bit (d + 0x20000) (18 + min j 19)" for j
    using assms(2) f [of "min 19 j"]
    by (simp add: x_def bit_signed_take_bit_iff bit_drop_bit_eq bit_unsigned_iff byte_simps
        min_less_iff_disj min.commute)
  show "bit (pcaddu18i_offset (getw 4 bs)) k \<longleftrightarrow> bit (signed_take_bit 37 (d + 0x20000) AND NOT (mask 18)) k"
  proof (cases "k < 18")
    case True
    then show ?thesis
      by (simp add: pcaddu18i_offset_def x_def [symmetric] bit_push_bit_iff bit_and_iff bit_not_iff bit_mask_iff)
  next
    case False
    then have "18 + min (k - 18) 19 = min 37 k" "k < 64 \<Longrightarrow> k - 18 < 64" by auto
    with False k show ?thesis
      by (simp add: pcaddu18i_offset_def x_def [symmetric] bit_push_bit_iff imm bit_signed_take_bit_iff
          bit_and_iff bit_not_iff bit_mask_iff)
  qed
qed

text \<open>
  C10. A displacement that is a multiple of 4 in \<open>[-2^37, 2^37 - 2^17)\<close>, written into a
  \<open>pcaddu18i\<close>/\<open>jirl\<close> pair through \<open>R_LARCH_CALL36\<close>'s bit range, is what the pair adds to the
  program counter.
\<close>

theorem larch_call36_displacement:
  assumes "- (2 ^ 37) \<le> sint d" "sint d < 2 ^ 37 - 2 ^ 17" "take_bit 2 d = 0"
    and "8 \<le> length bs" "byte_bit bs 25"
  shows "\<exists>bs'. larch_write_to_value Call36 (extract_bit_range d 2 38) neg bs = Some bs' \<and>
           pcaddu18i_offset (getw 4 bs') + jirl_offset (getw 4 (drop 4 bs')) = d"
proof -
  let ?v = "extract_bit_range d 2 38"
  have v: "?v = take_bit 36 (drop_bit 2 d)" by (simp add: extract_bit_range_eq)
  have "?v < 2 ^ 36" using extract_bit_range_fits [of 2 38 d] by simp
  then have pre: "larch_pre Call36 ?v bs" using assms(4,5) by (simp add: larch_pre_def)
  obtain bs' where bs': "larch_write_to_value Call36 ?v neg bs = Some bs'"
      "encoded (larch_segs Call36) ?v bs bs'"
    using larch_field.wr_encodes [OF pre] by blast
  have h: "holds (larch_segs Call36) (take_bit 36 (drop_bit 2 d)) bs'" "8 \<le> length bs'"
    using bs'(2) assms(4) by (simp_all only: encoded_def v)
  have "sint (d + word_of_int 0x20000) = sint d + 0x20000"
    using assms(1,2) by (intro sint_add_small) auto
  then have "signed_take_bit 37 (d + 0x20000) = d + 0x20000"
    using assms(1,2) by (intro signed_take_bit_id) auto
  with call36_jirl [OF h assms(3)] call36_pcaddu18i [OF h assms(3)] hi_lo_sum [of 17 d] bs'(1)
  show ?thesis by simp
qed

theorem larch_call36_displacement_witness:
  "take_bit 2 (- 8 :: u64) = 0 \<and>
   (\<exists>bs'. larch_write_to_value Call36 (extract_bit_range (- 8) 2 38) True
            [1, 0, 0, 0x1e, 0x21, 0, 0, 0x4c] = Some bs' \<and>
      pcaddu18i_offset (getw 4 bs') + jirl_offset (getw 4 (drop 4 bs')) = - 8)"
proof -
  have t: "take_bit 2 (- 8 :: u64) = 0" by code_simp
  have b: "byte_bit [1, 0, 0, 0x1e, 0x21, 0, 0, 0x4c] 25" by code_simp
  from larch_call36_displacement [OF _ _ t _ b, of True] t show ?thesis by simp
qed

text \<open>
  The decoder that the source calls the inverse takes the two instructions of a \<open>Call30\<close> pair in
  the other order than the encoder.
\<close>

lemma call30_read_swaps:
  "larch_write_to_value Call30 1 False (replicate 8 0) = Some [0, 0, 0, 0, 0, 4, 0, 0]"
  "larch_read_value Call30 [0, 0, 0, 0, 0, 4, 0, 0] = Some (0x4000, False)"
  by code_simp+

end
