(* ===== verification/LoongArch64_Relocs.thy ===== *)
theory LoongArch64_Relocs
  imports Insn_Fields
begin

text \<open>
  The LoongArch relocation table (\<open>relocation_type_from_raw\<close> of \<open>linker-utils/src/loongarch64.rs\<close>),
  whose rows carry a bias. A row \<open>None\<close> is a type that the source lists and answers with \<open>None\<close>.
\<close>

text \<open>Data, in-place addition and subtraction, ULEB128 pairs.\<close>

definition larch_add_sub_relocs :: "(rtype \<times> reloc_bias_row option) list" where
  "larch_add_sub_relocs =
     [(''R_LARCH_NONE'', Some (NoRelocation, ByteSize 0, None, no_check, 1, 0)),
      (''R_LARCH_32'', Some (Absolute, ByteSize 4, None, range_new (- (2 ^ 31)) (2 ^ 32), 1, 0)),
      (''R_LARCH_64'', Some (Absolute, ByteSize 8, None, no_check, 1, 0)),
      (''R_LARCH_ADD6'', Some (AbsoluteAdditionWord6, ByteSize 1, None, no_check, 1, 0)),
      (''R_LARCH_ADD8'', Some (AbsoluteAddition, ByteSize 1, None, no_check, 1, 0)),
      (''R_LARCH_ADD16'', Some (AbsoluteAddition, ByteSize 2, None, no_check, 1, 0)),
      (''R_LARCH_ADD24'', Some (AbsoluteAddition, ByteSize 3, None, no_check, 1, 0)),
      (''R_LARCH_ADD32'', Some (AbsoluteAddition, ByteSize 4, None, no_check, 1, 0)),
      (''R_LARCH_ADD64'', Some (AbsoluteAddition, ByteSize 8, None, no_check, 1, 0)),
      (''R_LARCH_SUB6'', Some (AbsoluteSubtractionWord6, ByteSize 1, None, no_check, 1, 0)),
      (''R_LARCH_SUB8'', Some (AbsoluteSubtraction, ByteSize 1, None, no_check, 1, 0)),
      (''R_LARCH_SUB16'', Some (AbsoluteSubtraction, ByteSize 2, None, no_check, 1, 0)),
      (''R_LARCH_SUB24'', Some (AbsoluteSubtraction, ByteSize 3, None, no_check, 1, 0)),
      (''R_LARCH_SUB32'', Some (AbsoluteSubtraction, ByteSize 4, None, no_check, 1, 0)),
      (''R_LARCH_SUB64'', Some (AbsoluteSubtraction, ByteSize 8, None, no_check, 1, 0)),
      (''R_LARCH_ADD_ULEB128'', Some (Relative, ByteSize 0, None, no_check, 1, 0)),
      (''R_LARCH_SUB_ULEB128'', Some (PairSubtractionULEB128 ''R_LARCH_ADD_ULEB128'', ByteSize 8, None, no_check, 1, 0))]"

text \<open>Absolute and PC-relative parts, GOT-relative parts.\<close>

definition larch_general_relocs :: "(rtype \<times> reloc_bias_row option) list" where
  "larch_general_relocs =
     [(''R_LARCH_ABS_HI20'', Some (Absolute, bit_mask_loongarch64 12 32 Shift5, None, no_check, 1, 0)),
      (''R_LARCH_ABS_LO12'', Some (Absolute, bit_mask_loongarch64 0 12 Shift10, None, no_check, 1, 0)),
      (''R_LARCH_ABS64_HI12'', Some (Absolute, bit_mask_loongarch64 52 64 Shift10, None, no_check, 1, 0)),
      (''R_LARCH_ABS64_LO20'', Some (Absolute, bit_mask_loongarch64 32 52 Shift5, None, no_check, 1, 0)),
      (''R_LARCH_PCALA_HI20'', Some (Relative, bit_mask_loongarch64 12 32 Shift5, Some (SymbolPlusAddendAndPosition PAGE_MASK_4KB), no_check, 1, SIZE_2KB)),
      (''R_LARCH_PCALA_LO12'', Some (AbsoluteLowPart, bit_mask_loongarch64 0 12 Shift10, None, no_check, 1, 0)),
      (''R_LARCH_PCALA64_HI12'', Some (RelativeLoongArchHigh, bit_mask_loongarch64 52 64 Shift10, None, no_check, 1, 0)),
      (''R_LARCH_PCALA64_LO20'', Some (RelativeLoongArchHigh, bit_mask_loongarch64 32 52 Shift5, None, no_check, 1, 0)),
      (''R_LARCH_32_PCREL'', Some (Relative, ByteSize 4, None, bits_range 32 Signed, 1, 0)),
      (''R_LARCH_PCREL20_S2'', Some (Relative, bit_mask_loongarch64 2 22 Shift5, None, bits_range 22 Signed, 4, 0)),
      (''R_LARCH_64_PCREL'', Some (Relative, ByteSize 8, None, no_check, 1, 0)),
      (''R_LARCH_PCADD_HI20'', Some (Relative, bit_mask_loongarch64 12 32 Shift5, None, no_check, 1, SIZE_2KB)),
      (''R_LARCH_GOT_PC_HI20'', Some (GotRelative, bit_mask_loongarch64 12 32 Shift5, Some (GotEntryAndPosition PAGE_MASK_4KB), no_check, 1, SIZE_2KB)),
      (''R_LARCH_GOT_PC_LO12'', Some (Got, bit_mask_loongarch64 0 12 Shift10, None, no_check, 1, 0)),
      (''R_LARCH_GOT64_PC_HI12'', Some (GotRelativeLoongArch64, bit_mask_loongarch64 52 64 Shift10, None, no_check, 1, 0)),
      (''R_LARCH_GOT64_PC_LO20'', Some (GotRelativeLoongArch64, bit_mask_loongarch64 32 52 Shift5, None, no_check, 1, 0))]"

text \<open>Control flow.\<close>

definition larch_branch_relocs :: "(rtype \<times> reloc_bias_row option) list" where
  "larch_branch_relocs =
     [(''R_LARCH_B16'', Some (Relative, bit_mask_loongarch64 2 18 Shift10, None, bits_range 18 Signed, 4, 0)),
      (''R_LARCH_B21'', Some (Relative, bit_mask_loongarch64 2 23 Branch21, None, bits_range 23 Signed, 4, 0)),
      (''R_LARCH_B26'', Some (PltRelative, bit_mask_loongarch64 2 28 Branch26, None, bits_range 28 Signed, 4, 0)),
      (''R_LARCH_CALL36'', Some (PltRelative, bit_mask_loongarch64 2 38 Call36, None, bits_range 38 Signed, 4, 0)),
      (''R_LARCH_CALL30'', Some (Relative, bit_mask_loongarch64 2 19 Call30, None, no_check, 1, 0))]"

text \<open>Traditional TLS.\<close>

definition larch_tls_relocs :: "(rtype \<times> reloc_bias_row option) list" where
  "larch_tls_relocs =
     [(''R_LARCH_TLS_LE_HI20'', Some (TpOff, bit_mask_loongarch64 12 32 Shift5, None, no_check, 1, 0)),
      (''R_LARCH_TLS_LE_LO12'', Some (TpOff, bit_mask_loongarch64 0 12 Shift10, None, no_check, 1, 0)),
      (''R_LARCH_TLS_LE64_LO20'', Some (TpOff, bit_mask_loongarch64 32 52 Shift5, None, no_check, 1, 0)),
      (''R_LARCH_TLS_LE64_HI12'', Some (TpOff, bit_mask_loongarch64 52 64 Shift10, None, no_check, 1, 0)),
      (''R_LARCH_TLS_LE_HI20_R'', Some (TpOff, bit_mask_loongarch64 12 32 Shift5, None, no_check, 1, SIZE_2KB)),
      (''R_LARCH_TLS_LE_LO12_R'', Some (TpOff, bit_mask_loongarch64 0 12 Shift10, None, no_check, 1, 0)),
      (''R_LARCH_TLS_IE_PC_HI20'', Some (GotTpOff, bit_mask_loongarch64 12 32 Shift5, Some (GotEntryAndPosition PAGE_MASK_4KB), no_check, 1, SIZE_2KB)),
      (''R_LARCH_TLS_IE_PC_LO12'', Some (GotTpOffGot, bit_mask_loongarch64 0 12 Shift10, None, no_check, 1, 0)),
      (''R_LARCH_TLS_IE64_PC_LO20'', Some (GotTpOffLoongArch64, bit_mask_loongarch64 32 52 Shift5, None, no_check, 1, 0)),
      (''R_LARCH_TLS_IE64_PC_HI12'', Some (GotTpOffLoongArch64, bit_mask_loongarch64 52 64 Shift10, None, no_check, 1, 0)),
      (''R_LARCH_TLS_IE_HI20'', Some (GotTpOffGot, bit_mask_loongarch64 12 32 Shift5, None, no_check, 1, 0)),
      (''R_LARCH_TLS_IE_LO12'', Some (GotTpOffGot, bit_mask_loongarch64 0 12 Shift10, None, no_check, 1, 0)),
      (''R_LARCH_TLS_IE64_HI12'', Some (GotTpOffGot, bit_mask_loongarch64 52 64 Shift10, None, no_check, 1, 0)),
      (''R_LARCH_TLS_IE64_LO20'', Some (GotTpOffGot, bit_mask_loongarch64 32 52 Shift5, None, no_check, 1, 0))]"

text \<open>Dynamic TLS models, TLS descriptors and miscellaneous.\<close>

definition larch_tlsdesc_relocs :: "(rtype \<times> reloc_bias_row option) list" where
  "larch_tlsdesc_relocs =
     [(''R_LARCH_TLS_LD_PC_HI20'', Some (TlsGd, bit_mask_loongarch64 12 32 Shift5, Some (GotEntryAndPosition PAGE_MASK_4KB), no_check, 1, SIZE_2KB)),
      (''R_LARCH_TLS_LD_HI20'', Some (TlsGdGot, bit_mask_loongarch64 12 32 Shift5, None, no_check, 1, 0)),
      (''R_LARCH_TLS_GD_PC_HI20'', Some (TlsGd, bit_mask_loongarch64 12 32 Shift5, Some (GotEntryAndPosition PAGE_MASK_4KB), no_check, 1, SIZE_2KB)),
      (''R_LARCH_TLS_GD_HI20'', Some (TlsGdGot, bit_mask_loongarch64 12 32 Shift5, None, no_check, 1, 0)),
      (''R_LARCH_TLS_DESC_PC_HI20'', Some (TlsDesc, bit_mask_loongarch64 12 32 Shift5, Some (GotEntryAndPosition PAGE_MASK_4KB), no_check, 1, SIZE_2KB)),
      (''R_LARCH_TLS_DESC_PC_LO12'', Some (TlsDescGot, bit_mask_loongarch64 0 12 Shift10, None, no_check, 1, 0)),
      (''R_LARCH_TLS_DESC64_PC_HI12'', Some (TlsDescLoongArch64, bit_mask_loongarch64 52 64 Shift10, None, no_check, 1, 0)),
      (''R_LARCH_TLS_DESC64_PC_LO20'', Some (TlsDescLoongArch64, bit_mask_loongarch64 32 52 Shift5, None, no_check, 1, 0)),
      (''R_LARCH_TLS_DESC_LD'', Some (NoRelocation, ByteSize 0, None, no_check, 1, 0)),
      (''R_LARCH_TLS_DESC_CALL'', Some (TlsDescCall, ByteSize 0, None, no_check, 1, 0)),
      (''R_LARCH_TLS_DTPREL32'', Some (DtpOff, ByteSize 4, None, no_check, 1, 0)),
      (''R_LARCH_TLS_DTPREL64'', Some (DtpOff, ByteSize 8, None, no_check, 1, 0)),
      (''R_LARCH_TLS_LD_PCREL20_S2'', None),
      (''R_LARCH_TLS_GD_PCREL20_S2'', None),
      (''R_LARCH_TLS_DESC_PCREL20_S2'', None),
      (''R_LARCH_RELAX'', Some (NoRelocation, ByteSize 0, None, no_check, 1, 0)),
      (''R_LARCH_TLS_LE_ADD_R'', Some (NoRelocation, ByteSize 0, None, no_check, 1, 0)),
      (''R_LARCH_ALIGN'', Some (NoRelocation, ByteSize 0, None, no_check, 1, 0))]"

definition larch_relocs :: "(rtype \<times> reloc_bias_row option) list" where
  "larch_relocs =
     larch_add_sub_relocs @ larch_general_relocs @ larch_branch_relocs @ larch_tls_relocs @
     larch_tlsdesc_relocs"

definition larch_relocation_type_from_raw :: "rtype \<Rightarrow> RelocationKindInfo option" where
  "larch_relocation_type_from_raw r_type =
     (case map_of larch_relocs r_type of
        Some (Some (kind, sz, pm, rng, alignment, bias)) \<Rightarrow>
          Some \<lparr>ri_kind = kind, ri_size = sz, ri_mask = pm, ri_range = rng,
                ri_alignment = alignment, ri_bias = bias, ri_thunkable = False\<rparr>
      | _ \<Rightarrow> None)"

end
