(* ===== verification/Arch_Ppc64.thy ===== *)
theory Arch_Ppc64
  imports Insn_Fields
begin

text \<open>
  PowerPC64 ELFv2 (\<open>linker-utils/src/ppc64.rs\<close>): the relocation table, the only relaxation, and
  the masked-or encoder with its decoder. The last part shows that the \<open>@ha\<close>/\<open>@lo\<close> halves, the
  former with its bias of \<open>0x8000\<close>, rebuild the value they were cut from.
\<close>

section \<open>Model\<close>

datatype Ppc64Relaxation = PpcNoOp

fun ppc64_apply :: "Ppc64Relaxation \<Rightarrow> relax_state \<Rightarrow> relax_state option" where
  "ppc64_apply PpcNoOp st = Some st"

definition ppc64_next_modifier :: "Ppc64Relaxation \<Rightarrow> RelocationModifier" where
  "ppc64_next_modifier k = Normal"

definition ppc64_relocs :: "(rtype \<times> ppc64_row) list" where
  "ppc64_relocs =
     [(''R_PPC64_ADDR64'', (Absolute, ByteSize 8, no_check, 1, 0)),
      (''R_PPC64_ADDR32'', (Absolute, ByteSize 4, range_new (- (2 ^ 31)) (2 ^ 32), 1, 0)),
      (''R_PPC64_REL64'', (Relative, ByteSize 8, no_check, 1, 0)),
      (''R_PPC64_REL32'', (Relative, ByteSize 4, bits_range 32 Signed, 1, 0)),
      (''R_PPC64_REL24'', (Relative, bit_mask_ppc64 0 26 Branch24, bits_range 26 Signed, 4, 0)),
      (''R_PPC64_REL14'', (Relative, bit_mask_ppc64 0 16 Branch14, bits_range 16 Signed, 4, 0)),
      (''R_PPC64_REL16_HA'', (Relative, bit_mask_ppc64 16 32 PpcD, no_check, 1, 0x8000)),
      (''R_PPC64_REL16_LO'', (Relative, bit_mask_ppc64 0 16 PpcD, no_check, 1, 0)),
      (''R_PPC64_TOC16_HA'', (SymRelGotBase, bit_mask_ppc64 16 32 PpcD, no_check, 1, 0x8000)),
      (''R_PPC64_TOC16_LO'', (SymRelGotBase, bit_mask_ppc64 0 16 PpcD, no_check, 1, 0)),
      (''R_PPC64_TOC16_LO_DS'', (SymRelGotBase, bit_mask_ppc64 0 16 PpcDs, no_check, 4, 0))]"

definition ppc64_relocation_type_from_raw :: "rtype \<Rightarrow> RelocationKindInfo option" where
  "ppc64_relocation_type_from_raw r_type =
     (case map_of ppc64_relocs r_type of
        None \<Rightarrow> None
      | Some (kind, sz, rng, alignment, bias) \<Rightarrow>
          Some \<lparr>ri_kind = kind, ri_size = sz, ri_mask = None, ri_range = rng,
                ri_alignment = alignment, ri_bias = bias, ri_thunkable = False\<rparr>)"

fun ppc64_field_mask :: "Ppc64Instruction \<Rightarrow> u32" where
  "ppc64_field_mask PpcD = 0x0000ffff"
| "ppc64_field_mask PpcDs = 0x0000fffc"
| "ppc64_field_mask Branch14 = 0x0000fffc"
| "ppc64_field_mask Branch24 = 0x03fffffc"

definition ppc64_write_to_value :: "Ppc64Instruction \<Rightarrow> u64 \<Rightarrow> bool \<Rightarrow> bytes \<Rightarrow> bytes option" where
  "ppc64_write_to_value i v negative dest =
     do { let field_mask = ppc64_field_mask i;
          insn \<leftarrow> u32_from_slice dest;
          let insn' = ((insn AND NOT field_mask) OR (ucast v AND field_mask));
          splice 0 (to_le 4 insn') dest }"

definition ppc64_read_value :: "Ppc64Instruction \<Rightarrow> bytes \<Rightarrow> (u64 \<times> bool) option" where
  "ppc64_read_value i bs =
     do { insn \<leftarrow> u32_from_slice bs;
          Some (ucast (insn AND ppc64_field_mask i), False) }"

interpretation ppc64_relax: relaxation ppc64_apply "\<lambda>_. (0, 0)"
  by unfold_locales (case_tac k; simp)+

section \<open>Encoding as segments\<close>

fun ppc64_segs :: "Ppc64Instruction \<Rightarrow> segment list" where
  "ppc64_segs PpcD = [(0, 0, 0, 16)]"
| "ppc64_segs PpcDs = [(0, 2, 2, 14)]"
| "ppc64_segs Branch14 = [(0, 2, 2, 14)]"
| "ppc64_segs Branch24 = [(0, 2, 2, 24)]"

definition ppc64_pre :: "Ppc64Instruction \<Rightarrow> u64 \<Rightarrow> bytes \<Rightarrow> bool" where
  "ppc64_pre i v bs = (4 \<le> length bs)"

definition ppc64_canon :: "Ppc64Instruction \<Rightarrow> u64 \<Rightarrow> u64 \<times> bool" where
  "ppc64_canon i v = (v AND ucast (ppc64_field_mask i), False)"

lemma ppc64_mask_field: "k < 32 \<Longrightarrow> bit (ppc64_field_mask i) k \<longleftrightarrow> in_field (ppc64_segs i) k"
proof -
  have "mask_fits (NOT (ppc64_field_mask i)) (ppc64_segs i)" by (cases i; simp; code_simp)
  then show "k < 32 \<Longrightarrow> bit (ppc64_field_mask i) k \<longleftrightarrow> in_field (ppc64_segs i) k"
    by (auto simp: mask_fits_def list_all_iff bit_not_iff)
qed

lemma ppc64_seg_identity: "(b, s, d, n) \<in> set (ppc64_segs i) \<Longrightarrow> b = 0 \<and> s = d \<and> d + n \<le> 32"
  by (cases i) auto

lemma ppc64_wr_encodes:
  assumes "ppc64_pre i v bs"
  shows "\<exists>bs'. ppc64_write_to_value i v neg bs = Some bs' \<and> encoded (ppc64_segs i) v bs bs'"
proof -
  have len: "4 \<le> length bs" using assms by (simp add: ppc64_pre_def)
  define w where "w = (getw 4 bs AND NOT (ppc64_field_mask i)) OR (ucast v AND ppc64_field_mask i)"
  have bit_w: "k < 32 \<Longrightarrow> bit w k \<longleftrightarrow> (if in_field (ppc64_segs i) k then bit v k else byte_bit bs k)" for k
    by (auto simp: w_def bit_or_iff bit_and_iff bit_not_iff bit_unsigned_iff ppc64_mask_field byte_simps)
  have "encoded (ppc64_segs i) v bs (putw 4 w bs)"
  proof (rule encoded_putwI)
    fix b s d m k assume g: "(b, s, d, m) \<in> set (ppc64_segs i)" "d \<le> k" "k < d + m"
    then have "in_field (ppc64_segs i) k" by (force simp: in_field_def list_ex_iff seg_covers_def)
    with g ppc64_seg_identity [OF g(1)] bit_w [of k]
    show "k < 8 * 4 \<and> bit w k = bit (v + b) (k + s - d)" by simp
  qed (use len bit_w in auto)
  moreover have "splice 0 (to_le 4 w) bs = Some (putw 4 w bs)"
    using len by (simp add: splice_def putw_def)
  ultimately show ?thesis
    using len by (simp add: ppc64_write_to_value_def byte_simps w_def Let_def)
qed

lemma ppc64_rd_holds:
  assumes "ppc64_pre i v bs" "length bs' = length bs" "holds (ppc64_segs i) v bs'"
  shows "ppc64_read_value i bs' = Some (ppc64_canon i v)"
proof -
  have "bit (getw 4 bs' AND ppc64_field_mask i :: u32) k \<longleftrightarrow> bit v k \<and> bit (ppc64_field_mask i) k" for k
  proof (cases "k < 32 \<and> in_field (ppc64_segs i) k")
    case True
    then obtain b s d n where "(b, s, d, n) \<in> set (ppc64_segs i)" "d \<le> k" "k < d + n"
      by (auto simp: in_field_def list_ex_iff seg_covers_def)
    with assms(3) ppc64_seg_identity [OF this(1)] have "byte_bit bs' k \<longleftrightarrow> bit v k"
      by (force simp: holds_def seg_covers_def seg_bit_def)
    with True show ?thesis by (auto simp: bit_and_iff byte_simps)
  next
    case False
    then have "\<not> bit (ppc64_field_mask i) k"
      using ppc64_mask_field [of k i] bit_imp_le_length [of "ppc64_field_mask i" k] by auto
    then show ?thesis by (simp add: bit_and_iff)
  qed
  then have "ucast (getw 4 bs' AND ppc64_field_mask i :: u32) = v AND ucast (ppc64_field_mask i)"
    by (intro bit_word_eqI) (auto simp: bit_and_iff bit_unsigned_iff)
  with assms show ?thesis by (simp add: ppc64_read_value_def ppc64_canon_def ppc64_pre_def byte_simps)
qed

interpretation ppc64_field: field_codec ppc64_write_to_value ppc64_segs ppc64_pre ppc64_read_value ppc64_canon
  by unfold_locales (rule ppc64_wr_encodes, assumption, rule ppc64_rd_holds)

section \<open>The \<open>@ha\<close> and \<open>@lo\<close> halves\<close>

text \<open>What \<open>addis\<close> and \<open>addi\<close> (or a load) add to their base register.\<close>

definition addis_offset :: "u32 \<Rightarrow> u64" where
  "addis_offset w = push_bit 16 (signed_take_bit 15 (ucast w))"

definition addi_offset :: "u32 \<Rightarrow> u64" where
  "addi_offset w = signed_take_bit 15 (ucast w)"

lemma d_field:
  assumes "holds (ppc64_segs PpcD) v bs"
  shows "signed_take_bit 15 (ucast (getw 4 bs :: u32) :: u64) = signed_take_bit 15 v"
proof (rule bit_word_eqI)
  fix k assume "k < LENGTH(64)"
  have "byte_bit bs (min 15 k) \<longleftrightarrow> bit v (min 15 k)" using assms by (simp add: min_less_iff_disj)
  then show "bit (signed_take_bit 15 (ucast (getw 4 bs :: u32) :: u64)) k \<longleftrightarrow> bit (signed_take_bit 15 v) k"
    by (simp add: bit_signed_take_bit_iff bit_unsigned_iff byte_simps min_less_iff_disj)
qed

lemma ha_part:
  "push_bit 16 (signed_take_bit 15 (take_bit 16 (drop_bit 16 x))) = signed_take_bit 31 x AND NOT (mask 16 :: u64)"
proof (rule bit_word_eqI)
  fix k assume "k < LENGTH(64)"
  have "k < 16 \<or> 16 + min 15 (k - 16) = min 31 k" by auto
  then show "bit (push_bit 16 (signed_take_bit 15 (take_bit 16 (drop_bit 16 x)))) k \<longleftrightarrow>
      bit (signed_take_bit 31 x AND NOT (mask 16 :: u64)) k"
    by (auto simp: bit_push_bit_iff bit_signed_take_bit_iff bit_take_bit_iff bit_drop_bit_eq bit_and_iff
        bit_not_iff bit_mask_iff min_less_iff_disj)
qed

text \<open>
  C11. For a displacement in \<open>[-2^31, 2^31 - 2^15)\<close>, the \<open>@ha\<close> half (bits 16..32 of the value
  plus the bias \<open>0x8000\<close>) and the \<open>@lo\<close> half (bits 0..16), written into the D fields of any two
  instructions, make \<open>addis\<close> and \<open>addi\<close> add exactly the displacement.
\<close>

theorem ppc64_ha_lo_pair:
  assumes "- (2 ^ 31) \<le> sint v" "sint v < 2 ^ 31 - 2 ^ 15" "4 \<le> length b1" "4 \<le> length b2"
  shows "\<exists>b1' b2'. ppc64_write_to_value PpcD (extract_bit_range (v + 0x8000) 16 32) neg1 b1 = Some b1' \<and>
           ppc64_write_to_value PpcD (extract_bit_range v 0 16) neg2 b2 = Some b2' \<and>
           addis_offset (getw 4 b1') + addi_offset (getw 4 b2') = v"
proof -
  let ?hi = "extract_bit_range (v + 0x8000) 16 32" and ?lo = "extract_bit_range v 0 16"
  have pre: "ppc64_pre PpcD ?hi b1" "ppc64_pre PpcD ?lo b2" using assms(3,4) by (simp_all add: ppc64_pre_def)
  obtain b1' b2' where b: "ppc64_write_to_value PpcD ?hi neg1 b1 = Some b1'" "encoded (ppc64_segs PpcD) ?hi b1 b1'"
    "ppc64_write_to_value PpcD ?lo neg2 b2 = Some b2'" "encoded (ppc64_segs PpcD) ?lo b2 b2'"
    using ppc64_field.wr_encodes [OF pre(1)] ppc64_field.wr_encodes [OF pre(2)] by blast
  have "sint (v + word_of_int 0x8000) = sint v + 0x8000"
    using assms(1,2) by (intro sint_add_small) auto
  then have s: "signed_take_bit 31 (v + 0x8000) = v + 0x8000"
    using assms(1,2) by (intro signed_take_bit_id) auto
  have "holds (ppc64_segs PpcD) ?hi b1'" "holds (ppc64_segs PpcD) ?lo b2'"
    using b(2,4) by (simp_all only: encoded_def)
  note d = d_field [OF this(1)] d_field [OF this(2)]
  have "addis_offset (getw 4 b1') = (v + 0x8000) AND NOT (mask 16)"
    using ha_part [of "v + 0x8000"] s unfolding addis_offset_def d(1) by (simp add: extract_bit_range_eq)
  moreover have "addi_offset (getw 4 b2') = signed_take_bit 15 v"
    unfolding addi_offset_def d(2) by (simp add: extract_bit_range_eq signed_take_bit_take_bit)
  ultimately show ?thesis using b(1,3) hi_lo_sum [of 15 v] by simp
qed

theorem ppc64_ha_lo_pair_witness:
  "\<exists>b1' b2'. ppc64_write_to_value PpcD (extract_bit_range (0x12348000 + 0x8000) 16 32) False [0, 0, 0x62, 0x3c] = Some b1' \<and>
     ppc64_write_to_value PpcD (extract_bit_range 0x12348000 0 16) False [0, 0, 0x63, 0x38] = Some b2' \<and>
     addis_offset (getw 4 b1') + addi_offset (getw 4 b2') = 0x12348000"
  by (rule ppc64_ha_lo_pair) simp_all

end
