(* ===== verification/Arch_X86_64.thy ===== *)
theory Arch_X86_64
  imports Insn_Fields
begin

text \<open>
  x86-64 (\<open>linker-utils/src/x86_64.rs\<close>): the instruction relaxations, each a rewrite of the bytes
  around the relocation that may move the relocation and reset its addend, and the relocation
  table. The lemmas bound what each relaxation touches and show that the rewritten instruction
  still names the register that the original one did.
\<close>

section \<open>Relaxations\<close>

datatype X86_64Relaxation =
    MovIndirectToLea
  | MovIndirectToAbsolute
  | RexMovIndirectToAbsolute u8
  | RexAddIndirectToAbsolute u8
  | RexSubIndirectToAbsolute u8
  | RexCmpIndirectToAbsolute u8
  | CallIndirectToRelative
  | JmpIndirectToRelative
  | X86NoOp
  | TlsGdToLocalExec
  | TlsGdToLocalExecLarge
  | TlsLdToLocalExec
  | TlsLdToLocalExecNoPlt
  | TlsLdToLocalExec64
  | TlsGdToInitialExec
  | TlsDescToLocalExec u8
  | TlsDescToInitialExec
  | SkipTlsDescCall

text \<open>Accesses at \<open>offset - k\<close>.\<close>

definition index_before :: "bytes \<Rightarrow> nat \<Rightarrow> nat \<Rightarrow> u8 option" where
  "index_before bs off k = do { p \<leftarrow> before off k; index bs p }"

definition store_before :: "bytes \<Rightarrow> nat \<Rightarrow> nat \<Rightarrow> u8 \<Rightarrow> bytes option" where
  "store_before bs off k v = do { p \<leftarrow> before off k; store bs p v }"

definition splice_before :: "bytes \<Rightarrow> nat \<Rightarrow> nat \<Rightarrow> bytes \<Rightarrow> bytes option" where
  "splice_before bs off k ys = do { p \<leftarrow> before off k; splice p ys bs }"

text \<open>The prefix byte with the extension of the \<open>reg\<close> field moved to that of the \<open>rm\<close> field.\<close>

definition rex_reg_to_rm :: "u8 \<Rightarrow> u8 \<Rightarrow> u8" where
  "rex_reg_to_rm inst_offset rex =
     (if inst_offset = 3 then (rex AND NOT 4) OR shr (rex AND 4) 2
      else if inst_offset = 4 then (rex AND NOT 0x44) OR shr (rex AND 0x44) 2
      else rex)"

definition mod_rm_direct :: "u8 \<Rightarrow> u8 \<Rightarrow> u8" where
  "mod_rm_direct base mod_rm = (shr mod_rm 3 AND 0x7) OR base"

text \<open>The common tail: the opcode at \<open>offset - 2\<close>, the operand byte at \<open>offset - 1\<close>, no addend.\<close>

definition op_mod_rm :: "u8 \<Rightarrow> u8 \<Rightarrow> bytes \<Rightarrow> nat \<Rightarrow> relax_state option" where
  "op_mod_rm opcode base bs off =
     do { bs1 \<leftarrow> store_before bs off 2 opcode;
          mod_rm \<leftarrow> index_before bs1 off 1;
          bs2 \<leftarrow> store_before bs1 off 1 (mod_rm_direct base mod_rm);
          Some (bs2, off, 0) }"

definition rex_op_mod_rm :: "u8 \<Rightarrow> u8 \<Rightarrow> u8 \<Rightarrow> bytes \<Rightarrow> nat \<Rightarrow> relax_state option" where
  "rex_op_mod_rm inst_offset opcode base bs off =
     do { rex \<leftarrow> index_before bs off 3;
          bs1 \<leftarrow> store_before bs off 3 (rex_reg_to_rm inst_offset rex);
          op_mod_rm opcode base bs1 off }"

text \<open>The payload byte of an extended EVEX prefix (\<open>inst_offset == 6\<close>).\<close>

definition evex_payload :: "u8 \<Rightarrow> u8" where
  "evex_payload l =
     (let l' = (if l AND 0x80 = 0 then (l OR 0x80) AND NOT 0x20 else l)
      in if l' AND 0x10 = 0 then l' OR 0x10 OR 0x08 else l')"

definition x86_rex_add :: "u8 \<Rightarrow> bytes \<Rightarrow> nat \<Rightarrow> relax_state option" where
  "x86_rex_add inst_offset bs off =
     (if inst_offset = 3 \<or> inst_offset = 4 then rex_op_mod_rm inst_offset 0x81 0xc0 bs off
      else if inst_offset = 6 then
        do { l5 \<leftarrow> index_before bs off 5;
             bs1 \<leftarrow> store_before bs off 5 (evex_payload l5);
             op_mod_rm 0x81 0xc0 bs1 off }
      else op_mod_rm 0x81 0xc0 bs off)"

definition x86_tlsdesc_to_le :: "u8 \<Rightarrow> bytes \<Rightarrow> nat \<Rightarrow> int \<Rightarrow> relax_state option" where
  "x86_tlsdesc_to_le inst_offset bs off ad =
     do { rex \<leftarrow> index_before bs off 3;
          modrm \<leftarrow> index_before bs off 1;
          let rex_r = (shr rex 2 AND 1);
          let reg = (shr modrm 3 AND 0x7);
          if inst_offset = 3 \<or> inst_offset = 4 then
            do { let rex' = (if inst_offset = 3 then (if rex_r = 0 then 0x48 else 0x49)
                             else (if rex_r = 0 then 0x18 else 0x19));
                 bs' \<leftarrow> splice_before bs off 3 [rex', 0xc7, 0xc0 OR reg, 0, 0, 0, 0];
                 Some (bs', off, 0) }
          else Some (bs, off, ad) }"

definition x86_tlsdesc_to_ie :: "bytes \<Rightarrow> nat \<Rightarrow> int \<Rightarrow> relax_state option" where
  "x86_tlsdesc_to_ie bs off ad =
     do { rex \<leftarrow> index_before bs off 3;
          modrm \<leftarrow> index_before bs off 1;
          let rex_r = (shr rex 2 AND 1);
          let reg = (shr modrm 3 AND 0x7);
          let rex' = (if rex_r = 0 then 0x48 else 0x4c);
          bs' \<leftarrow> splice_before bs off 3 [rex', 0x8b, 0x05 OR shl reg 3, 0, 0, 0, 0];
          Some (bs', off, ad) }"

fun x86_apply :: "X86_64Relaxation \<Rightarrow> relax_state \<Rightarrow> relax_state option" where
  "x86_apply MovIndirectToLea (bs, off, ad) =
     do { bs' \<leftarrow> store_before bs off 2 0x8d; Some (bs', off, ad) }"
| "x86_apply MovIndirectToAbsolute (bs, off, ad) = op_mod_rm 0xc7 0xc0 bs off"
| "x86_apply (RexMovIndirectToAbsolute i) (bs, off, ad) = rex_op_mod_rm i 0xc7 0xc0 bs off"
| "x86_apply (RexAddIndirectToAbsolute i) (bs, off, ad) = x86_rex_add i bs off"
| "x86_apply (RexSubIndirectToAbsolute i) (bs, off, ad) = rex_op_mod_rm i 0x81 0xe8 bs off"
| "x86_apply (RexCmpIndirectToAbsolute i) (bs, off, ad) = rex_op_mod_rm i 0x81 0xf8 bs off"
| "x86_apply CallIndirectToRelative (bs, off, ad) =
     do { bs' \<leftarrow> splice_before bs off 2 [0x67, 0xe8]; Some (bs', off, ad) }"
| "x86_apply JmpIndirectToRelative (bs, off, ad) =
     do { bs' \<leftarrow> splice_before bs off 2 [0xe9, 0, 0, 0, 0, 0x90]; Some (bs', off - 1, ad) }"
| "x86_apply TlsGdToLocalExec (bs, off, ad) =
     do { bs' \<leftarrow> splice_before bs off 4 [0x64, 0x48, 0x8b, 0x04, 0x25, 0, 0, 0, 0, 0x48, 0x8d, 0x80];
          Some (bs', off + 8, 0) }"
| "x86_apply TlsGdToLocalExecLarge (bs, off, ad) =
     do { bs' \<leftarrow> splice_before bs off 3 [0x64, 0x48, 0x8b, 0x04, 0x25, 0, 0, 0, 0,
            0x48, 0x8d, 0x80, 0, 0, 0, 0, 0x66, 0x0f, 0x1f, 0x44, 0, 0];
          Some (bs', off + 9, 0) }"
| "x86_apply TlsGdToInitialExec (bs, off, ad) =
     do { bs' \<leftarrow> splice_before bs off 4 [0x64, 0x48, 0x8b, 0x04, 0x25, 0, 0, 0, 0, 0x48, 0x03, 0x05];
          Some (bs', off + 8, ad) }"
| "x86_apply TlsLdToLocalExec (bs, off, ad) =
     do { bs' \<leftarrow> splice_before bs off 3 [0x66, 0x66, 0x66, 0x64, 0x48, 0x8b, 0x04, 0x25, 0, 0, 0, 0];
          Some (bs', off + 5, ad) }"
| "x86_apply TlsLdToLocalExecNoPlt (bs, off, ad) =
     do { bs' \<leftarrow> splice_before bs off 3 [0x66, 0x66, 0x66, 0x66, 0x64, 0x48, 0x8b, 0x04, 0x25, 0, 0, 0, 0];
          Some (bs', off + 5, ad) }"
| "x86_apply TlsLdToLocalExec64 (bs, off, ad) =
     do { bs' \<leftarrow> splice_before bs off 3 [0x66, 0x66, 0x66, 0x66, 0x2e, 0x0f, 0x1f, 0x84, 0, 0, 0, 0, 0,
            0x64, 0x48, 0x8b, 0x04, 0x25, 0, 0, 0, 0];
          Some (bs', off + 15, ad) }"
| "x86_apply (TlsDescToLocalExec i) (bs, off, ad) = x86_tlsdesc_to_le i bs off ad"
| "x86_apply TlsDescToInitialExec (bs, off, ad) = x86_tlsdesc_to_ie bs off ad"
| "x86_apply SkipTlsDescCall (bs, off, ad) =
     do { bs' \<leftarrow> splice off [0x66, 0x90] bs; Some (bs', off, ad) }"
| "x86_apply X86NoOp (bs, off, ad) = Some (bs, off, ad)"

definition x86_next_modifier :: "X86_64Relaxation \<Rightarrow> RelocationModifier" where
  "x86_next_modifier k =
     (case k of
        TlsGdToInitialExec \<Rightarrow> SkipNextRelocation
      | TlsGdToLocalExec \<Rightarrow> SkipNextRelocation
      | TlsGdToLocalExecLarge \<Rightarrow> SkipNextRelocation
      | TlsLdToLocalExec \<Rightarrow> SkipNextRelocation
      | TlsLdToLocalExecNoPlt \<Rightarrow> SkipNextRelocation
      | TlsLdToLocalExec64 \<Rightarrow> SkipNextRelocation
      | _ \<Rightarrow> Normal)"

section \<open>The relocation table\<close>

type_synonym reloc_size_and_range = "RelocationSize \<times> AllowedRange"

definition RELOC_8_BYTE_UNSIGNED :: reloc_size_and_range where
  "RELOC_8_BYTE_UNSIGNED = (ByteSize 8, bytes_range 8 Unsigned)"
definition RELOC_8_BYTE_SIGNED :: reloc_size_and_range where
  "RELOC_8_BYTE_SIGNED = (ByteSize 8, bytes_range 8 Signed)"
definition RELOC_4_BYTE_UNSIGNED :: reloc_size_and_range where
  "RELOC_4_BYTE_UNSIGNED = (ByteSize 4, bytes_range 4 Unsigned)"
definition RELOC_4_BYTE_SIGNED :: reloc_size_and_range where
  "RELOC_4_BYTE_SIGNED = (ByteSize 4, bytes_range 4 Signed)"
definition RELOC_2_BYTE_SIGNED :: reloc_size_and_range where
  "RELOC_2_BYTE_SIGNED = (ByteSize 2, bytes_range 2 Signed)"
definition RELOC_1_BYTE_SIGNED :: reloc_size_and_range where
  "RELOC_1_BYTE_SIGNED = (ByteSize 1, bytes_range 1 Signed)"
definition RELOC_2_BYTE_MIXED :: reloc_size_and_range where
  "RELOC_2_BYTE_MIXED = (ByteSize 2, range_new (- (2 ^ 15)) (2 ^ 16 - 1 + 1))"
definition RELOC_1_BYTE_MIXED :: reloc_size_and_range where
  "RELOC_1_BYTE_MIXED = (ByteSize 1, range_new (- (2 ^ 7)) (2 ^ 8 - 1 + 1))"
definition RELOC_NONE :: reloc_size_and_range where
  "RELOC_NONE = (ByteSize 0, no_check)"

definition x86_relocs :: "(rtype \<times> RelocationKind \<times> reloc_size_and_range) list" where
  "x86_relocs =
     [(''R_X86_64_64'', (Absolute, RELOC_8_BYTE_UNSIGNED)),
      (''R_X86_64_PC32'', (Relative, RELOC_4_BYTE_SIGNED)),
      (''R_X86_64_PC64'', (Relative, RELOC_8_BYTE_SIGNED)),
      (''R_X86_64_GOT32'', (GotRelGotBase, RELOC_4_BYTE_UNSIGNED)),
      (''R_X86_64_GOT64'', (GotRelGotBase, RELOC_8_BYTE_UNSIGNED)),
      (''R_X86_64_GOTOFF64'', (SymRelGotBase, RELOC_8_BYTE_SIGNED)),
      (''R_X86_64_PLT32'', (PltRelative, RELOC_4_BYTE_SIGNED)),
      (''R_X86_64_PLTOFF64'', (PltRelGotBase, RELOC_8_BYTE_SIGNED)),
      (''R_X86_64_GOTPCREL'', (GotRelative, RELOC_4_BYTE_SIGNED)),
      (''R_X86_64_GOTPC64'', (Relative, RELOC_8_BYTE_SIGNED)),
      (''R_X86_64_GOTPC32'', (Relative, RELOC_4_BYTE_SIGNED)),
      (''R_X86_64_32'', (Absolute, RELOC_4_BYTE_UNSIGNED)),
      (''R_X86_64_32S'', (Absolute, RELOC_4_BYTE_SIGNED)),
      (''R_X86_64_16'', (Absolute, RELOC_2_BYTE_MIXED)),
      (''R_X86_64_PC16'', (Relative, RELOC_2_BYTE_SIGNED)),
      (''R_X86_64_8'', (Absolute, RELOC_1_BYTE_MIXED)),
      (''R_X86_64_PC8'', (Relative, RELOC_1_BYTE_SIGNED)),
      (''R_X86_64_TLSGD'', (TlsGd, RELOC_4_BYTE_SIGNED)),
      (''R_X86_64_TLSLD'', (TlsLd, RELOC_4_BYTE_SIGNED)),
      (''R_X86_64_DTPOFF32'', (DtpOff, RELOC_4_BYTE_SIGNED)),
      (''R_X86_64_DTPOFF64'', (DtpOff, RELOC_8_BYTE_SIGNED)),
      (''R_X86_64_GOTTPOFF'', (GotTpOff, RELOC_4_BYTE_SIGNED)),
      (''R_X86_64_CODE_4_GOTTPOFF'', (GotTpOff, RELOC_4_BYTE_SIGNED)),
      (''R_X86_64_CODE_5_GOTTPOFF'', (GotTpOff, RELOC_4_BYTE_SIGNED)),
      (''R_X86_64_CODE_6_GOTTPOFF'', (GotTpOff, RELOC_4_BYTE_SIGNED)),
      (''R_X86_64_GOTPCRELX'', (GotRelative, RELOC_4_BYTE_SIGNED)),
      (''R_X86_64_REX_GOTPCRELX'', (GotRelative, RELOC_4_BYTE_SIGNED)),
      (''R_X86_64_CODE_4_GOTPCRELX'', (GotRelative, RELOC_4_BYTE_SIGNED)),
      (''R_X86_64_CODE_5_GOTPCRELX'', (GotRelative, RELOC_4_BYTE_SIGNED)),
      (''R_X86_64_CODE_6_GOTPCRELX'', (GotRelative, RELOC_4_BYTE_SIGNED)),
      (''R_X86_64_TPOFF32'', (TpOff, RELOC_4_BYTE_SIGNED)),
      (''R_X86_64_GOTPC32_TLSDESC'', (TlsDesc, RELOC_4_BYTE_SIGNED)),
      (''R_X86_64_CODE_4_GOTPC32_TLSDESC'', (TlsDesc, RELOC_4_BYTE_SIGNED)),
      (''R_X86_64_CODE_5_GOTPC32_TLSDESC'', (TlsDesc, RELOC_4_BYTE_SIGNED)),
      (''R_X86_64_CODE_6_GOTPC32_TLSDESC'', (TlsDesc, RELOC_4_BYTE_SIGNED)),
      (''R_X86_64_TLSDESC_CALL'', (TlsDescCall, RELOC_NONE)),
      (''R_X86_64_NONE'', (NoRelocation, RELOC_NONE))]"

definition x86_relocation_from_raw :: "rtype \<Rightarrow> RelocationKindInfo option" where
  "x86_relocation_from_raw r_type =
     (case map_of x86_relocs r_type of
        None \<Rightarrow> None
      | Some (kind, sz, rng) \<Rightarrow>
          Some \<lparr>ri_kind = kind, ri_size = sz, ri_mask = None, ri_range = rng,
                ri_alignment = 1, ri_bias = 0, ri_thunkable = False\<rparr>)"

section \<open>Relaxations stay inside their window\<close>

fun x86_window :: "X86_64Relaxation \<Rightarrow> nat \<times> nat" where
  "x86_window MovIndirectToLea = (2, 0)"
| "x86_window MovIndirectToAbsolute = (2, 0)"
| "x86_window (RexMovIndirectToAbsolute i) = (3, 0)"
| "x86_window (RexAddIndirectToAbsolute i) = (5, 0)"
| "x86_window (RexSubIndirectToAbsolute i) = (3, 0)"
| "x86_window (RexCmpIndirectToAbsolute i) = (3, 0)"
| "x86_window CallIndirectToRelative = (2, 0)"
| "x86_window JmpIndirectToRelative = (2, 4)"
| "x86_window X86NoOp = (0, 0)"
| "x86_window TlsGdToLocalExec = (4, 8)"
| "x86_window TlsGdToLocalExecLarge = (3, 19)"
| "x86_window TlsLdToLocalExec = (3, 9)"
| "x86_window TlsLdToLocalExecNoPlt = (3, 10)"
| "x86_window TlsLdToLocalExec64 = (3, 19)"
| "x86_window TlsGdToInitialExec = (4, 8)"
| "x86_window (TlsDescToLocalExec i) = (3, 4)"
| "x86_window TlsDescToInitialExec = (3, 4)"
| "x86_window SkipTlsDescCall = (0, 2)"

text \<open>\<open>bs'\<close> has the length of \<open>bs\<close> and agrees with it outside the window.\<close>

definition framed :: "nat \<times> nat \<Rightarrow> nat \<Rightarrow> bytes \<Rightarrow> bytes \<Rightarrow> bool" where
  "framed w off bs bs' =
     (length bs' = length bs \<and> (\<forall>i < length bs. \<not> in_window w off i \<longrightarrow> bs' ! i = bs ! i))"

lemma framed_refl: "framed w off bs bs"
  by (simp add: framed_def)

lemma framed_trans: "framed w off a b \<Longrightarrow> framed w off b c \<Longrightarrow> framed w off a c"
  by (simp add: framed_def)

lemma framed_mono: "framed (a, b) off x y \<Longrightarrow> a \<le> a' \<Longrightarrow> b \<le> b' \<Longrightarrow> framed (a', b') off x y"
  by (auto simp: framed_def in_window_def)

lemma store_before_framed: "store_before bs off k v = Some bs' \<Longrightarrow> 0 < k \<Longrightarrow> framed (k, 0) off bs bs'"
  by (auto simp: store_before_def before_def framed_def in_window_def store_def
      split: bind_splits if_splits)

lemma splice_before_framed:
  assumes "splice_before bs off k ys = Some bs'" "k \<le> w1" "length ys \<le> w2 + k"
  shows "framed (w1, w2) off bs bs'"
proof -
  have k: "k \<le> off" and sp: "splice (off - k) ys bs = Some bs'"
    using assms(1) by (auto simp: splice_before_def before_def split: bind_splits if_splits)
  then show ?thesis
    using splice_window [OF sp k assms(2,3)] splice_length [OF sp] by (simp add: framed_def)
qed

lemma op_mod_rm_framed:
  assumes "op_mod_rm opc base bs off = Some (bs', off', ad')"
  shows "framed (2, 0) off bs bs'"
proof -
  obtain bs1 m where 1: "store_before bs off 2 opc = Some bs1"
    and 2: "store_before bs1 off 1 (mod_rm_direct base m) = Some bs'"
    using assms by (auto simp: op_mod_rm_def split: bind_splits)
  have "framed (2, 0) off bs bs1" using store_before_framed [OF 1] by simp
  moreover have "framed (2, 0) off bs1 bs'"
    using framed_mono [OF store_before_framed [OF 2]] by simp
  ultimately show ?thesis by (rule framed_trans)
qed

lemma rex_op_mod_rm_framed:
  assumes "rex_op_mod_rm i opc base bs off = Some (bs', off', ad')"
  shows "framed (3, 0) off bs bs'"
proof -
  obtain bs1 r where 1: "store_before bs off 3 (rex_reg_to_rm i r) = Some bs1"
    and 2: "op_mod_rm opc base bs1 off = Some (bs', off', ad')"
    using assms by (auto simp: rex_op_mod_rm_def split: bind_splits)
  from framed_mono [OF op_mod_rm_framed [OF 2]] store_before_framed [OF 1]
  show ?thesis by (auto intro: framed_trans)
qed

lemma x86_rex_add_framed:
  assumes "x86_rex_add i bs off = Some (bs', off', ad')"
  shows "framed (5, 0) off bs bs'"
proof -
  consider "rex_op_mod_rm i 0x81 0xc0 bs off = Some (bs', off', ad')"
    | "op_mod_rm 0x81 0xc0 bs off = Some (bs', off', ad')"
    | bs1 l where "store_before bs off 5 (evex_payload l) = Some bs1" "op_mod_rm 0x81 0xc0 bs1 off = Some (bs', off', ad')"
    using assms by (auto simp: x86_rex_add_def split: bind_splits if_splits)
  then show ?thesis
  proof cases
    case 1
    from framed_mono [OF rex_op_mod_rm_framed [OF this]] show ?thesis by simp
  next
    case 2
    from framed_mono [OF op_mod_rm_framed [OF this]] show ?thesis by simp
  next
    case 3
    from framed_mono [OF op_mod_rm_framed [OF 3(2)]] store_before_framed [OF 3(1)]
    show ?thesis by (auto intro: framed_trans)
  qed
qed

lemma x86_tlsdesc_to_le_framed:
  "x86_tlsdesc_to_le i bs off ad = Some (bs', off', ad') \<Longrightarrow> framed (3, 4) off bs bs'"
  by (auto simp: x86_tlsdesc_to_le_def Let_def intro: framed_refl elim: splice_before_framed
      split: bind_splits if_splits)

lemma x86_tlsdesc_to_ie_framed:
  "x86_tlsdesc_to_ie bs off ad = Some (bs', off', ad') \<Longrightarrow> framed (3, 4) off bs bs'"
  by (auto simp: x86_tlsdesc_to_ie_def Let_def elim: splice_before_framed split: bind_splits)

lemma splice_framed:
  "splice off ys bs = Some bs' \<Longrightarrow> length ys \<le> w2 \<Longrightarrow> framed (0, w2) off bs bs'"
  using splice_window [of off 0 ys bs bs' 0 w2] splice_length by (auto simp: framed_def)

lemma x86_apply_framed:
  "x86_apply k (bs, off, ad) = Some (bs', off', ad') \<Longrightarrow> framed (x86_window k) off bs bs'"
  by (cases k) (auto intro: framed_refl elim: splice_before_framed splice_framed store_before_framed
      op_mod_rm_framed rex_op_mod_rm_framed x86_rex_add_framed x86_tlsdesc_to_le_framed
      x86_tlsdesc_to_ie_framed split: bind_splits)

interpretation x86_relax: relaxation x86_apply x86_window
  by unfold_locales (use x86_apply_framed in \<open>auto simp: framed_def\<close>)

text \<open>
  C12. Applying any sequence of x86-64 relaxations to a section keeps its length and changes only
  bytes inside the window of one of them, so code between the relaxed instructions is intact.
\<close>

theorem x86_relaxations_frame:
  assumes "apply_seq x86_apply rs bs = Some bs'"
  shows "length bs' = length bs \<and>
    (\<forall>i < length bs. (\<forall>(k, off, ad) \<in> set rs. \<not> in_window (x86_window k) off i) \<longrightarrow> bs' ! i = bs ! i)"
  using x86_relax.seq_length [OF assms] x86_relax.seq_frame [OF assms] by blast

theorem x86_relaxations_frame_witness:
  "\<exists>bs'. apply_seq x86_apply [(RexMovIndirectToAbsolute 3, 3, - 4), (CallIndirectToRelative, 9, - 4)]
      [0x4c, 0x8b, 0x05, 1, 2, 3, 4, 0xff, 0x15, 5, 6, 7, 8] = Some bs' \<and>
    length bs' = 13 \<and> bs' ! 4 = 2 \<and> bs' ! 12 = 8"
proof -
  let ?rs = "[(RexMovIndirectToAbsolute 3, 3, - 4 :: int), (CallIndirectToRelative, 9, - 4)]"
  let ?bs = "[0x4c, 0x8b, 0x05, 1, 2, 3, 4, 0xff, 0x15, 5, 6, 7, 8] :: bytes"
  have s: "apply_seq x86_apply ?rs ?bs = Some [0x49, 0xc7, 0xc0, 1, 2, 3, 4, 0x67, 0xe8, 5, 6, 7, 8]"
    by code_simp
  from x86_relaxations_frame [OF s] s show ?thesis by (simp add: in_window_def)
qed

section \<open>The rewritten instruction names the same register\<close>

text \<open>The register numbers of the \<open>reg\<close> and \<open>rm\<close> operands under a REX prefix.\<close>

definition reg_operand :: "u8 \<Rightarrow> u8 \<Rightarrow> nat" where
  "reg_operand rex mod_rm = 8 * of_bool (bit rex 2) + unat (take_bit 3 (drop_bit 3 mod_rm))"

definition rm_operand :: "u8 \<Rightarrow> u8 \<Rightarrow> nat" where
  "rm_operand rex mod_rm = 8 * of_bool (bit rex 0) + unat (take_bit 3 mod_rm)"

lemma byte_eqI:
  assumes "\<And>k. k \<in> {0, 1, 2, 3, 4, 5, 6, 7} \<Longrightarrow> bit a k \<longleftrightarrow> bit (b :: u8) k"
  shows "a = b"
proof (rule bit_word_eqI)
  fix k assume "k < LENGTH(8)"
  then have "k \<in> {0, 1, 2, 3, 4, 5, 6, 7}" by auto
  then show "bit a k \<longleftrightarrow> bit b k" by (rule assms)
qed

lemmas u8_bits = bit_and_iff bit_or_iff bit_not_iff bit_shr bit_take_bit_iff bit_drop_bit_eq

lemma mod_rm_direct_fields:
  assumes "(base, ext) \<in> {(0xc0, 0), (0xe8, 5), (0xf8, 7)}"
  shows "take_bit 3 (mod_rm_direct base m) = take_bit 3 (drop_bit 3 m)"
    and "take_bit 3 (drop_bit 3 (mod_rm_direct base m)) = ext"
    and "drop_bit 6 (mod_rm_direct base m) = 3"
  using assms by (auto intro!: byte_eqI simp: mod_rm_direct_def u8_bits)

lemma rex_reg_to_rm_bits:
  "\<not> bit rex 0 \<Longrightarrow> bit (rex_reg_to_rm 3 rex) 0 \<longleftrightarrow> bit rex 2"
  "\<not> bit (rex_reg_to_rm 3 rex) 2"
  "bit (rex_reg_to_rm 3 rex) 3 \<longleftrightarrow> bit rex 3"
  by (simp_all add: rex_reg_to_rm_def u8_bits)

lemma rex_op_mod_rm_bytes:
  assumes "3 \<le> off" "off \<le> length bs"
  shows "rex_op_mod_rm i opc base bs off =
    Some (bs[off - 3 := rex_reg_to_rm i (bs ! (off - 3)), off - 2 := opc,
             off - 1 := mod_rm_direct base (bs ! (off - 1))], off, 0)"
proof -
  have "off - 3 < length bs" "off - 2 < length bs" "off - 1 < length bs" using assms by auto
  with assms show ?thesis
    by (simp add: rex_op_mod_rm_def op_mod_rm_def index_before_def store_before_def before_def
        index_def store_def)
qed

text \<open>Relaxation, opcode, operand base and opcode extension of the REX forms.\<close>

definition rex_forms :: "(X86_64Relaxation \<times> u8 \<times> u8 \<times> u8) list" where
  "rex_forms =
     [(RexMovIndirectToAbsolute 3, 0xc7, 0xc0, 0), (RexAddIndirectToAbsolute 3, 0x81, 0xc0, 0),
      (RexSubIndirectToAbsolute 3, 0x81, 0xe8, 5), (RexCmpIndirectToAbsolute 3, 0x81, 0xf8, 7)]"

text \<open>
  Turning \<open>mov\<close>, \<open>add\<close>, \<open>sub\<close> or \<open>cmp\<close> of a GOT slot into the form with an immediate (REX
  prefix, three bytes before the relocation): the rewritten instruction has the immediate opcode
  with the right extension, operates directly on the register that was the operand of the
  original one - REX.R has become REX.B - at the same operand size, and the addend is reset.
\<close>

lemma x86_rex_register_kept:
  assumes "(k, opc, base, ext) \<in> set rex_forms" "3 \<le> off" "off \<le> length bs" "\<not> bit (bs ! (off - 3)) 0"
  shows "\<exists>bs'. x86_apply k (bs, off, ad) = Some (bs', off, 0) \<and> bs' ! (off - 2) = opc \<and>
      rm_operand (bs' ! (off - 3)) (bs' ! (off - 1)) = reg_operand (bs ! (off - 3)) (bs ! (off - 1)) \<and>
      take_bit 3 (drop_bit 3 (bs' ! (off - 1))) = ext \<and> drop_bit 6 (bs' ! (off - 1)) = 3 \<and>
      (bit (bs' ! (off - 3)) 3 \<longleftrightarrow> bit (bs ! (off - 3)) 3)"
proof -
  define bs' where "bs' = bs[off - 3 := rex_reg_to_rm 3 (bs ! (off - 3)), off - 2 := opc,
             off - 1 := mod_rm_direct base (bs ! (off - 1))]"
  have ap: "x86_apply k (bs, off, ad) = Some (bs', off, 0)"
    using assms(1-3) by (auto simp: rex_forms_def rex_op_mod_rm_bytes x86_rex_add_def bs'_def)
  have b: "bs' ! (off - 3) = rex_reg_to_rm 3 (bs ! (off - 3))" "bs' ! (off - 2) = opc"
    "bs' ! (off - 1) = mod_rm_direct base (bs ! (off - 1))"
    using assms(2,3) by (simp_all add: bs'_def nth_list_update)
  have e: "(base, ext) \<in> {(0xc0, 0), (0xe8, 5), (0xf8, 7)}"
    using assms(1) by (auto simp: rex_forms_def)
  from ap b mod_rm_direct_fields [OF e] rex_reg_to_rm_bits [of "bs ! (off - 3)"] assms(4)
  show ?thesis by (simp del: bit_0 add: rm_operand_def reg_operand_def)
qed

end
