(* ===== verification/Reloc_Write.thy ===== *)
theory Reloc_Write
  imports Arch_AArch64 AArch64_Relocs RiscV64_Exec RiscV64_Relocs Arch_LoongArch64 LoongArch64_Relocs
    Arch_Ppc64 Arch_X86_64
begin

text \<open>
  Writing a computed relocation value into the output (\<open>RelocationInstruction\<close> and
  \<open>RelocationKindInfo::write_to_buffer\<close> of \<open>linker-utils/src/elf.rs\<close>), on top of the encoders of
  all architectures and their tables. The properties are about whole relocations: a value that
  passes the checks is not truncated, the instruction that results computes the value, and
  nothing outside the relocated field changes.

  The \<open>leb128\<close> crate is a parameter \<open>uleb\<close>: the bytes that \<open>leb128::write::unsigned\<close> produces.
\<close>

section \<open>Model\<close>

fun insn_write_to_value :: "RelocationInstruction \<Rightarrow> u64 \<Rightarrow> bool \<Rightarrow> bytes \<Rightarrow> bytes option" where
  "insn_write_to_value (AArch64 i) v negative dest = aarch64_write_to_value i v negative dest"
| "insn_write_to_value (RiscV i) v negative dest = riscv_write_to_value i v negative dest"
| "insn_write_to_value (LoongArch64 i) v negative dest = larch_write_to_value i v negative dest"
| "insn_write_to_value (Ppc64 i) v negative dest = ppc64_write_to_value i v negative dest"

fun insn_read_value :: "RelocationInstruction \<Rightarrow> bytes \<Rightarrow> (u64 \<times> bool) option" where
  "insn_read_value (AArch64 i) bs = aarch64_read_value i bs"
| "insn_read_value (RiscV i) bs = riscv_read_value i bs"
| "insn_read_value (LoongArch64 i) bs = larch_read_value i bs"
| "insn_read_value (Ppc64 i) bs = ppc64_read_value i bs"

definition write_windows_size :: "RelocationInstruction \<Rightarrow> nat" where
  "write_windows_size i = 4"

definition insn_bit_mask :: "RelocationInstruction \<Rightarrow> BitRange \<Rightarrow> bytes option" where
  "insn_bit_mask i r =
     do { let all_ones = shl 1 (range_end r - range_start r) - 1;
          m \<leftarrow> insn_write_to_value i all_ones False [0, 0, 0, 0];
          Some (map (\<lambda>b. NOT b) m) }"

definition write_uleb :: "(u64 \<Rightarrow> bytes) \<Rightarrow> u64 \<Rightarrow> bytes \<Rightarrow> (reloc_error, bytes) outcome" where
  "write_uleb uleb value output =
     (let enc = uleb value; n = length enc
      in if 10 < n then Panicked
         else bind_outcome (ensure (n \<le> length output) (UlebTooLong n))
                (\<lambda>_. Ok (enc @ drop n output)))"

definition write_sized :: "RelocationSize \<Rightarrow> u64 \<Rightarrow> bytes \<Rightarrow> (reloc_error, bytes) outcome" where
  "write_sized sz value output =
     (case sz of
        ByteSize n \<Rightarrow>
          bind_outcome (ensure (n \<le> length output) OutsideSection)
            (\<lambda>_. of_panic (do { vb \<leftarrow> slice 0 n (to_le 8 value); splice 0 vb output }))
      | BitMasking bm \<Rightarrow>
          (let extracted_value = extract_bit_range value (range_start (bm_range bm)) (range_end (bm_range bm));
               negative = (sint value < 0)
           in of_panic (insn_write_to_value (bm_instruction bm) extracted_value negative output)))"

definition write_to_buffer ::
    "(u64 \<Rightarrow> bytes) \<Rightarrow> RelocationKindInfo \<Rightarrow> u64 \<Rightarrow> bytes \<Rightarrow> (reloc_error, bytes) outcome" where
  "write_to_buffer uleb ri value output =
     bind_outcome (verify ri value)
       (\<lambda>_. case ri_kind ri of
              PairSubtractionULEB128 _ \<Rightarrow> write_uleb uleb value output
            | _ \<Rightarrow> write_sized (ri_size ri) value output)"

section \<open>Byte-sized relocations\<close>

definition is_uleb_pair :: "RelocationKind \<Rightarrow> bool" where
  "is_uleb_pair k = (case k of PairSubtractionULEB128 _ \<Rightarrow> True | _ \<Rightarrow> False)"

lemma write_to_buffer_sized:
  "\<not> is_uleb_pair (ri_kind ri) \<Longrightarrow>
     write_to_buffer uleb ri v out = bind_outcome (verify ri v) (\<lambda>_. write_sized (ri_size ri) v out)"
  by (cases "ri_kind ri") (simp_all add: write_to_buffer_def is_uleb_pair_def)

lemma write_bytes:
  "n \<le> 8 \<Longrightarrow> write_sized (ByteSize n) v out =
     (if n \<le> length out then Ok (to_le n v @ drop n out) else Error OutsideSection)"
  by (simp add: write_sized_def ensure_def slice_def splice_def take_to_le)

lemma write_to_buffer_bytes:
  assumes "ri_size ri = ByteSize n" "n \<le> 8" "\<not> is_uleb_pair (ri_kind ri)"
  shows "write_to_buffer uleb ri v out =
    (if \<not> is_multiple_of v (ri_alignment ri) then Error (NotAligned (sint v) (ri_alignment ri))
     else if \<not> range_contains (ri_range ri) (sint v) then Error (OutOfBounds (sint v) (ri_range ri))
     else if n \<le> length out then Ok (to_le n v @ drop n out) else Error OutsideSection)"
  using assms by (simp add: write_to_buffer_sized write_bytes verify_def ensure_def)

text \<open>A range all of whose values are determined by their low \<open>8 n\<close> bits and a known sign.\<close>

definition range_fits :: "nat \<Rightarrow> AllowedRange \<Rightarrow> bool" where
  "range_fits n r = (n = 8 \<or> (- (2 ^ (8 * n - 1)) \<le> range_min r \<and> range_max r \<le> 2 ^ (8 * n)))"

lemma from_le_to_le_take: "n \<le> 8 \<Longrightarrow> from_le (to_le n (v :: u64)) = take_bit (8 * n) v"
  by (rule bit_word_eqI) (auto simp: bit_from_le bit_to_le_nth bit_take_bit_iff)

lemma uint_eq_sint_nonneg: "0 \<le> sint (v :: u64) \<Longrightarrow> uint v = sint v"
proof -
  assume "0 \<le> sint v"
  then have "\<not> bit (uint v) 63" using bit_last_iff [of v] by (simp add: bit_uint_iff)
  then have "signed_take_bit 63 (uint v) = take_bit 63 (uint v)" by (rule signed_take_bit_eq_if_positive)
  moreover have "take_bit 63 (uint v) = uint v"
  proof (rule bit_eqI)
    fix k
    show "bit (take_bit 63 (uint v)) k \<longleftrightarrow> bit (uint v) k"
      using \<open>\<not> bit (uint v) 63\<close> by (cases "k = 63") (auto simp: bit_take_bit_iff bit_uint_iff)
  qed
  ultimately show ?thesis by (simp add: sint_uint)
qed

lemma range_fits_value:
  assumes "range_fits n r" "range_contains r (sint v)" "0 < n" "n \<le> 8"
  shows "take_bit (8 * n) v = v \<or> signed_take_bit (8 * n - 1) v = (v :: u64)"
proof (cases "n = 8")
  case True
  have "take_bit 64 v = v" by (rule bit_word_eqI) (simp add: bit_take_bit_iff)
  with True show ?thesis by simp
next
  case False
  then have r: "- (2 ^ (8 * n - 1)) \<le> sint v" "sint v < 2 ^ (8 * n)"
    using assms(1,2) by (auto simp: range_fits_def range_contains_def)
  show ?thesis
  proof (cases "0 \<le> sint v")
    case True
    then have "uint v < 2 ^ (8 * n)" using r(2) uint_eq_sint_nonneg [OF True] by simp
    then have "v AND mask (8 * n) = v" by (simp add: mask_eq_iff)
    then show ?thesis by (simp add: take_bit_eq_mask)
  next
    case neg: False
    moreover have "8 * n - 1 < 63" using assms(4) False by simp
    moreover have "sint v < 2 ^ (8 * n - 1)" using neg by (meson le_less_trans not_le zero_less_numeral zero_less_power less_imp_le)
    ultimately have "signed_take_bit (8 * n - 1) v = v" using r(1) by (intro signed_take_bit_id)
    then show ?thesis ..
  qed
qed

text \<open>What a table row has to satisfy for its byte-sized values not to be cut.\<close>

definition row_fits :: "RelocationKind \<Rightarrow> RelocationSize \<Rightarrow> AllowedRange \<Rightarrow> bool" where
  "row_fits kind sz r =
     (case sz of ByteSize n \<Rightarrow> n \<le> 8 \<and> \<not> is_uleb_pair kind \<and> (n = 0 \<or> range_fits n r) | BitMasking _ \<Rightarrow> False)"

lemma x86_rows_fit: "list_all (\<lambda>(name, kind, sz, r). row_fits kind sz r) x86_relocs"
  by code_simp

lemma stored_value:
  assumes "range_fits n r" "range_contains r (sint v)" "0 < n" "n \<le> 8"
  shows "from_le (to_le n v) = v \<or> signed_take_bit (8 * n - 1) (from_le (to_le n v)) = (v :: u64)"
  using range_fits_value [OF assms] assms(3,4)
  by (auto simp: from_le_to_le_take signed_take_bit_take_bit)

text \<open>
  C20. Every x86-64 relocation, for every value and output buffer: the write never panics; it
  fails exactly when the value is outside the allowed range or the buffer is too short; otherwise
  it changes only the relocated bytes, and those bytes, zero- or sign-extended, are the value -
  a value is never truncated silently.
\<close>

theorem x86_write_exact:
  assumes "x86_relocation_from_raw r = Some ri"
  shows "\<exists>n \<le> 8. ri_size ri = ByteSize n \<and>
     write_to_buffer uleb ri v out =
       (if \<not> range_contains (ri_range ri) (sint v) then Error (OutOfBounds (sint v) (ri_range ri))
        else if n \<le> length out then Ok (to_le n v @ drop n out) else Error OutsideSection) \<and>
     (0 < n \<and> range_contains (ri_range ri) (sint v) \<longrightarrow>
        from_le (to_le n v) = v \<or> signed_take_bit (8 * n - 1) (from_le (to_le n v)) = v)"
proof -
  obtain kind sz rng where row: "map_of x86_relocs r = Some (kind, sz, rng)"
    and ri: "ri_kind ri = kind" "ri_size ri = sz" "ri_range ri = rng" "ri_alignment ri = 1"
    using assms by (auto simp: x86_relocation_from_raw_def split: option.splits)
  from map_of_SomeD [OF row] x86_rows_fit have "row_fits kind sz rng" by (auto simp: list_all_iff)
  then obtain n where n: "sz = ByteSize n" "n \<le> 8" "\<not> is_uleb_pair kind" "n = 0 \<or> range_fits n rng"
    by (auto simp: row_fits_def split: RelocationSize.splits)
  have "is_multiple_of v 1" by (simp add: is_multiple_of_def)
  with n ri write_to_buffer_bytes [of ri n uleb v out] stored_value [of n rng v] show ?thesis
    by (intro exI [of _ n]) auto
qed

theorem x86_write_exact_witness:
  "\<exists>ri. x86_relocation_from_raw ''R_X86_64_PC32'' = Some ri \<and>
     write_to_buffer (\<lambda>_. []) ri (- 5) [0, 0, 0, 0, 0x90] = Ok [0xfb, 0xff, 0xff, 0xff, 0x90]"
proof -
  obtain ri where ri: "x86_relocation_from_raw ''R_X86_64_PC32'' = Some ri"
    and f: "ri_size ri = ByteSize 4" "ri_range ri = bytes_range 4 Signed"
    by (simp add: x86_relocation_from_raw_def x86_relocs_def RELOC_4_BYTE_SIGNED_def)
  have "range_contains (bytes_range 4 Signed) (sint (- 5 :: u64))"
    by (simp add: range_contains_def bytes_range_def from_byte_size_def from_bit_size_def range_new_def)
  moreover have "to_le 4 (- 5 :: u64) = [0xfb, 0xff, 0xff, 0xff]" by code_simp
  ultimately have "write_to_buffer (\<lambda>_. []) ri (- 5) [0, 0, 0, 0, 0x90] = Ok [0xfb, 0xff, 0xff, 0xff, 0x90]"
    using x86_write_exact [OF ri, of "\<lambda>_. []" "- 5" "[0, 0, 0, 0, 0x90]"] f by auto
  with ri show ?thesis by blast
qed

section \<open>AArch64 instructions\<close>

definition aarch64_row_fits :: "reloc_row \<Rightarrow> bool" where
  "aarch64_row_fits row =
     (case row of (kind, sz, pm, r, al) \<Rightarrow>
        (case sz of
           ByteSize n \<Rightarrow> row_fits kind sz r
         | BitMasking bm \<Rightarrow>
             (case bm_instruction bm of
                AArch64 i \<Rightarrow>
                  i \<noteq> MachOLow12 \<and> \<not> is_uleb_pair kind \<and> range_start (bm_range bm) < range_end (bm_range bm) \<and>
                  range_end (bm_range bm) \<le> 64 \<and>
                  range_end (bm_range bm) - range_start (bm_range bm) \<le> seg_width (aarch64_segs i)
              | _ \<Rightarrow> False)))"

definition aarch64_misfits :: "rtype list" where
  "aarch64_misfits =
     [''R_AARCH64_GOTREL64'', ''R_AARCH64_GOT_LD_PREL19'', ''R_AARCH64_TLSGD_MOVW_G1'',
      ''R_AARCH64_TLSLD_LD_PREL19'']"

lemma aarch64_misfits_exact: "map fst (filter (\<lambda>(n, row). \<not> aarch64_row_fits row) aarch64_relocs) = aarch64_misfits"
  by code_simp

lemma aarch64_rows_fit:
  assumes "map_of aarch64_relocs r = Some row" "r \<notin> set aarch64_misfits"
  shows "aarch64_row_fits row"
proof (rule ccontr)
  assume "\<not> aarch64_row_fits row"
  then have "(r, row) \<in> set (filter (\<lambda>(n, row). \<not> aarch64_row_fits row) aarch64_relocs)"
    using map_of_SomeD [OF assms(1)] by simp
  then have "r \<in> fst ` set (filter (\<lambda>(n, row). \<not> aarch64_row_fits row) aarch64_relocs)" by force
  then have "r \<in> set aarch64_misfits" unfolding aarch64_misfits_exact [symmetric] set_map .
  with assms(2) show False ..
qed

text \<open>A relocation whose value passed the checks, on an instruction with a clear immediate.\<close>

lemma aarch64_checked_write:
  assumes "aarch64_relocation_type_from_raw r = Some ri" "r \<notin> set aarch64_misfits"
    and "ri_size ri = BitMasking bm" "bm_instruction bm = AArch64 i" "i \<noteq> Movnz"
    and "verify ri v = Ok ()" "4 \<le> length out" "field_clear (aarch64_segs i) out"
  defines "x \<equiv> extract_bit_range v (range_start (bm_range bm)) (range_end (bm_range bm))"
  shows "aarch64_pre i x out \<and> (\<exists>out'. write_to_buffer uleb ri v out = Ok out' \<and>
           aarch64_write_to_value i x (sint v < 0) out = Some out')"
proof -
  obtain pm rng al where row: "map_of aarch64_relocs r = Some (ri_kind ri, ri_size ri, pm, rng, al)"
    using assms(1) by (auto simp: aarch64_relocation_type_from_raw_def split: option.splits)
  have f: "i \<noteq> MachOLow12" "\<not> is_uleb_pair (ri_kind ri)" "range_start (bm_range bm) < range_end (bm_range bm)"
    "range_end (bm_range bm) \<le> 64"
    "range_end (bm_range bm) - range_start (bm_range bm) \<le> seg_width (aarch64_segs i)"
    using aarch64_rows_fit [OF row assms(2)] assms(3,4) by (simp_all add: aarch64_row_fits_def)
  have "seg_width (aarch64_segs i) < 64" by (cases i) (simp_all add: seg_width_def)
  then have "range_end (bm_range bm) - range_start (bm_range bm) < 64" using f(5) by simp
  from extract_bit_range_fits [OF f(3,4) this, of v] have "bit x k \<Longrightarrow> k < seg_width (aarch64_segs i)" for k
    unfolding x_def using bit_of_bounded f(5) less_le_trans by blast
  then have "take_bit (seg_width (aarch64_segs i)) x = x" by (intro bit_word_eqI) (auto simp: bit_take_bit_iff)
  then have "x < 2 ^ seg_width (aarch64_segs i)"
    using and_mask_less_size [of "seg_width (aarch64_segs i)" x] \<open>seg_width (aarch64_segs i) < 64\<close>
    by (simp add: take_bit_eq_mask word_size)
  with f(1) assms(5,7,8) have pre: "aarch64_pre i x out" by (simp add: aarch64_pre_def)
  obtain out' where out': "aarch64_write_to_value i x (sint v < 0) out = Some out'"
    using aarch64_field.wr_encodes [OF pre] by blast
  then have "write_to_buffer uleb ri v out = Ok out'"
    using f(2) assms(3,4,6) by (simp add: write_to_buffer_sized write_sized_def x_def)
  with pre out' show ?thesis by blast
qed

text \<open>The rows by size: so many bytes, or the immediate of an AArch64 instruction.\<close>

lemma aarch64_raw_row:
  assumes "aarch64_relocation_type_from_raw r = Some ri" "r \<notin> set aarch64_misfits"
  shows "(case ri_size ri of
      ByteSize n \<Rightarrow> n \<le> 8 \<and> \<not> is_uleb_pair (ri_kind ri) \<and> (n = 0 \<or> range_fits n (ri_range ri))
    | BitMasking bm \<Rightarrow> \<not> is_uleb_pair (ri_kind ri) \<and> (\<exists>i. bm_instruction bm = AArch64 i \<and> i \<noteq> MachOLow12))"
proof -
  obtain pm rng al where row: "map_of aarch64_relocs r = Some (ri_kind ri, ri_size ri, pm, rng, al)" "ri_range ri = rng"
    using assms(1) by (auto simp: aarch64_relocation_type_from_raw_def split: option.splits)
  from aarch64_rows_fit [OF row(1) assms(2)] row(2) show ?thesis
    by (auto simp: aarch64_row_fits_def row_fits_def split: RelocationSize.splits RelocationInstruction.splits)
qed

lemma aarch64_byte_alignment:
  assumes "aarch64_relocation_type_from_raw r = Some ri" "ri_size ri = ByteSize n"
  shows "ri_alignment ri = 1"
proof -
  have "list_all (\<lambda>(r, kind, sz, pm, rng, al). case sz of ByteSize n \<Rightarrow> al = 1 | _ \<Rightarrow> True) aarch64_relocs" by code_simp
  moreover obtain kind pm rng al where "(r, kind, ByteSize n, pm, rng, al) \<in> set aarch64_relocs" "ri_alignment ri = al"
    using assms by (auto simp: aarch64_relocation_type_from_raw_def split: option.splits dest: map_of_SomeD)
  ultimately show ?thesis by (force simp: list_all_iff)
qed

lemma checked_error:
  assumes "verify ri v \<noteq> Ok ()"
  shows "\<exists>e. write_to_buffer uleb ri v out = Error e"
proof -
  obtain e where "verify ri v = Error e"
    using assms verify_not_panicked [of ri v] by (cases "verify ri v") auto
  then show ?thesis by (simp add: write_to_buffer_def)
qed

text \<open>
  What a successful write of the selected bits \<open>x\<close> of a value leaves of an instruction. A signed wide
  move is rewritten as a whole; \<open>movw_exec\<close> says what it does.
\<close>

definition movnz_written :: "u64 \<Rightarrow> bool \<Rightarrow> bytes \<Rightarrow> bytes \<Rightarrow> bool" where
  "movnz_written x neg out out' =
     (length out' = length out \<and>
      (\<forall>k. k < 5 \<or> k \<in> {21, 22} \<or> 32 \<le> k \<longrightarrow> (byte_bit out' k \<longleftrightarrow> byte_bit out k)) \<and>
      (\<forall>y k. k < 64 \<longrightarrow> (bit (movw_exec (getw 4 out') y) k \<longleftrightarrow>
        (if 16 * movw_hw (getw 4 out) \<le> k \<and> k < 16 * movw_hw (getw 4 out) + 16
         then bit x (k - 16 * movw_hw (getw 4 out)) else neg))))"

definition field_written :: "AArch64Instruction \<Rightarrow> u64 \<Rightarrow> bytes \<Rightarrow> bytes \<Rightarrow> bool" where
  "field_written i x out out' =
     (length out' = length out \<and>
      (\<forall>k. \<not> in_field (aarch64_segs i) k \<longrightarrow> (byte_bit out' k \<longleftrightarrow> byte_bit out k)) \<and>
      (\<exists>w. aarch64_read_value i out' = Some (w, False) \<and> take_bit (seg_width (aarch64_segs i)) w = x \<and>
        (aarch64_signed i \<longrightarrow> w = signed_take_bit (seg_width (aarch64_segs i) - 1) x) \<and>
        (\<not> aarch64_signed i \<and> \<not> (i \<in> {LdSt, Movkz} \<and> bit x (seg_width (aarch64_segs i) - 1)) \<longrightarrow> w = x)))"

lemma movnz_write_written:
  assumes "4 \<le> length out" "aarch64_write_to_value Movnz x neg out = Some out'"
  shows "movnz_written x neg out out'"
proof -
  have o: "out' = putw 4 (movnz_word (getw 4 out) x neg) out" using assms movnz_write [OF assms(1)] by simp
  have "byte_bit out' k \<longleftrightarrow> byte_bit out k" if "k < 5 \<or> k \<in> {21, 22} \<or> 32 \<le> k" for k
    using that assms(1) by (auto simp: o byte_simps bit_movnz_word)
  moreover have "length out' = length out" "(getw 4 out' :: u32) = movnz_word (getw 4 out) x neg"
    using assms(1) by (simp_all add: o byte_simps)
  ultimately show ?thesis by (simp add: movnz_written_def movnz_exec_bits)
qed

lemma field_write_written:
  assumes "aarch64_pre i x out" "aarch64_write_to_value i x neg out = Some out'"
  shows "field_written i x out out'"
proof -
  have i: "i \<noteq> Movnz" "i \<noteq> MachOLow12" "x < 2 ^ seg_width (aarch64_segs i)" using assms(1) by (simp_all add: aarch64_pre_def)
  from aarch64_canon_value [OF i] aarch64_field.wr_length [OF assms] aarch64_field.rd_wr [OF assms]
    aarch64_field.wr_frame [OF assms] show ?thesis
    unfolding field_written_def by auto
qed

text \<open>
  C21. Writing any relocation of the AArch64 table but four (which the list \<open>aarch64_misfits\<close> names, see
  the findings), for every value. A relocation of whole bytes fails exactly when the value is outside
  the allowed range or the buffer is too short, and stores bytes that, zero- or sign-extended, are the
  value. For a relocation of an instruction, a value that fails the alignment or range check is
  reported; one that passes, written into an instruction of at least four bytes with a clear
  immediate, changes no bit outside the immediate, and decoding the immediate gives a number whose low
  bits are the selected bits of the value: sign extended where the form is signed, else as they are,
  unless the top bit of an \<open>LdSt\<close> or \<open>Movkz\<close> field is set, which the decoder takes for a sign. A signed wide move needs no clear immediate:
  it becomes a MOVN or MOVZ by the sign, keeps its register and its half word, and, executed, gives
  that half word the selected bits and all others the sign.
\<close>

theorem aarch64_relocation_write:
  assumes "aarch64_relocation_type_from_raw r = Some ri" "r \<notin> set aarch64_misfits"
  shows "case ri_size ri of
      ByteSize n \<Rightarrow> n \<le> 8 \<and>
        write_to_buffer uleb ri v out =
          (if \<not> range_contains (ri_range ri) (sint v) then Error (OutOfBounds (sint v) (ri_range ri))
           else if n \<le> length out then Ok (to_le n v @ drop n out) else Error OutsideSection) \<and>
        (0 < n \<and> range_contains (ri_range ri) (sint v) \<longrightarrow>
           from_le (to_le n v) = v \<or> signed_take_bit (8 * n - 1) (from_le (to_le n v)) = v)
    | BitMasking bm \<Rightarrow> \<exists>i. bm_instruction bm = AArch64 i \<and>
        (verify ri v \<noteq> Ok () \<longrightarrow> (\<exists>e. write_to_buffer uleb ri v out = Error e)) \<and>
        (verify ri v = Ok () \<and> 4 \<le> length out \<and> (i = Movnz \<or> field_clear (aarch64_segs i) out) \<longrightarrow>
           (\<exists>out'. write_to_buffer uleb ri v out = Ok out' \<and>
              (let x = extract_bit_range v (range_start (bm_range bm)) (range_end (bm_range bm))
               in if i = Movnz then movnz_written x (sint v < 0) out out' else field_written i x out out')))"
proof (cases "ri_size ri")
  case (ByteSize n)
  have row: "n \<le> 8" "\<not> is_uleb_pair (ri_kind ri)" "n = 0 \<or> range_fits n (ri_range ri)"
    using aarch64_raw_row [OF assms] by (simp_all add: ByteSize)
  have "is_multiple_of v (ri_alignment ri)" using aarch64_byte_alignment [OF assms(1) ByteSize] by (simp add: is_multiple_of_def)
  with row write_to_buffer_bytes [OF ByteSize row(1,2), of uleb v out] stored_value [of n "ri_range ri" v] show ?thesis
    by (auto simp: ByteSize)
next
  case (BitMasking bm)
  obtain i where i: "bm_instruction bm = AArch64 i" "\<not> is_uleb_pair (ri_kind ri)"
    using aarch64_raw_row [OF assms] by (auto simp: BitMasking)
  let ?x = "extract_bit_range v (range_start (bm_range bm)) (range_end (bm_range bm))"
  have "\<exists>out'. write_to_buffer uleb ri v out = Ok out' \<and>
      (if i = Movnz then movnz_written ?x (sint v < 0) out out' else field_written i ?x out out')"
    if v: "verify ri v = Ok ()" "4 \<le> length out" "i = Movnz \<or> field_clear (aarch64_segs i) out"
  proof (cases "i = Movnz")
    case True
    have "write_to_buffer uleb ri v out = of_panic (aarch64_write_to_value Movnz ?x (sint v < 0) out)"
      using i v(1) True by (simp add: write_to_buffer_sized write_sized_def BitMasking Let_def del: aarch64_write_to_value.simps)
    with movnz_write_written [OF v(2)] movnz_write [OF v(2), of ?x "sint v < 0"] True show ?thesis by simp
  next
    case False
    with v have "field_clear (aarch64_segs i) out" by simp
    from aarch64_checked_write [OF assms BitMasking i(1) False v(1,2) this, of uleb] field_write_written False
    show ?thesis by auto
  qed
  with checked_error [of ri v uleb out] i(1) show ?thesis by (simp add: BitMasking Let_def)
qed

lemma aarch64_call26:
  "aarch64_relocation_type_from_raw ''R_AARCH64_CALL26'' =
     Some \<lparr>ri_kind = PltRelative, ri_size = bit_mask_aarch64 2 28 JumpCall, ri_mask = None,
           ri_range = range_new (- (2 ^ 27)) (2 ^ 27), ri_alignment = 4, ri_bias = 0, ri_thunkable = True\<rparr>"
  by code_simp

theorem aarch64_relocation_write_witness:
  "\<exists>ri out'. aarch64_relocation_type_from_raw ''R_AARCH64_CALL26'' = Some ri \<and>
     write_to_buffer (\<lambda>_. []) ri 0x1000 [0, 0, 0, 0x94] = Ok out' \<and>
     aarch64_read_value JumpCall out' = Some (0x400, False)"
proof -
  let ?ri = "the (aarch64_relocation_type_from_raw ''R_AARCH64_CALL26'')"
  have ri: "aarch64_relocation_type_from_raw ''R_AARCH64_CALL26'' = Some ?ri"
    and m: "''R_AARCH64_CALL26'' \<notin> set aarch64_misfits" by (simp_all add: aarch64_call26 aarch64_misfits_def)
  have sz: "ri_size ?ri = BitMasking \<lparr>bm_instruction = AArch64 JumpCall, bm_range = \<lparr>range_start = 2, range_end = 28\<rparr>\<rparr>"
    by (simp add: aarch64_call26 size_defs)
  have v: "verify ?ri 0x1000 = Ok ()"
    by (simp add: aarch64_call26 verify_def is_multiple_of_def range_contains_def range_new_def)
  have c: "field_clear (aarch64_segs JumpCall) [0, 0, 0, 0x94]" "aarch64_signed JumpCall" by code_simp+
  have x: "signed_take_bit (seg_width (aarch64_segs JumpCall) - 1) (extract_bit_range 0x1000 2 28) = (0x400 :: u64)" by code_simp
  from aarch64_relocation_write [OF ri m, of "\<lambda>_. []" "0x1000" "[0, 0, 0, 0x94]"] v c x ri show ?thesis
    by (auto simp: sz field_written_def)
qed

section \<open>Branch displacements\<close>

text \<open>The PC-relative AArch64 relocations with a word offset: name, encoding, bits of the range.\<close>

definition aarch64_branches :: "(rtype \<times> AArch64Instruction \<times> nat) list" where
  "aarch64_branches =
     [(''R_AARCH64_CALL26'', JumpCall, 28), (''R_AARCH64_JUMP26'', JumpCall, 28),
      (''R_AARCH64_CONDBR19'', Bcond, 21), (''R_AARCH64_TSTBR14'', TstBr, 16),
      (''R_AARCH64_LD_PREL_LO19'', Ldr, 21)]"

lemma aarch64_branch_rows:
  "list_all (\<lambda>(r, i, n). case aarch64_relocation_type_from_raw r of
      None \<Rightarrow> False
    | Some ri \<Rightarrow> ri_size ri = bit_mask_aarch64 2 n i \<and> ri_alignment ri = 4 \<and>
        ri_range ri = range_new (- (2 ^ (n - 1))) (2 ^ (n - 1)) \<and> r \<notin> set aarch64_misfits \<and> i \<noteq> Movnz \<and>
        16 \<le> n \<and> n \<le> 28) aarch64_branches"
  by code_simp

lemma aarch64_branch_canon:
  "(r, i, n) \<in> set aarch64_branches \<Longrightarrow> aarch64_canon i x = (signed_take_bit (n - 3) x, False)"
  by (auto simp: aarch64_branches_def)

lemma word_offset_rebuilt:
  assumes "3 \<le> n" "n < 64" "take_bit 2 v = 0" "- (2 ^ (n - 1)) \<le> sint v" "sint v < 2 ^ (n - 1)"
  shows "push_bit 2 (signed_take_bit (n - 3) (extract_bit_range v 2 n)) = (v :: u64)"
proof -
  have low: "\<not> bit v j" if "j < 2" for j
    using arg_cong [OF assms(3), of "\<lambda>x. bit x j"] that by (simp add: bit_take_bit_iff)
  have "push_bit 2 (signed_take_bit (n - 3) (extract_bit_range v 2 n)) = signed_take_bit (n - 1) v"
  proof (rule bit_word_eqI)
    fix k assume k: "k < LENGTH(64)"
    show "bit (push_bit 2 (signed_take_bit (n - 3) (extract_bit_range v 2 n))) k \<longleftrightarrow>
        bit (signed_take_bit (n - 1) v) k"
    proof (cases "k < 2")
      case True
      then have "min (n - 1) k = k" using assms(1) by auto
      with True low [of k] k show ?thesis by (simp add: bit_push_bit_iff bit_signed_take_bit_iff)
    next
      case False
      then have "2 + min (n - 3) (k - 2) = min (n - 1) k" "min (n - 3) (k - 2) < n - 2" "k - 2 < 64"
        using assms(1) k by auto
      with False k assms(1,2) show ?thesis
        by (simp add: bit_push_bit_iff bit_signed_take_bit_iff bit_extract_bit_range)
    qed
  qed
  also have "\<dots> = v" using assms by (intro signed_take_bit_id) auto
  finally show ?thesis .
qed

lemma multiple_of_4: "is_multiple_of v 4 \<Longrightarrow> take_bit 2 (v :: u64) = 0"
proof -
  assume "is_multiple_of v 4"
  then have "unat (take_bit 2 v) = 0"
    by (simp add: is_multiple_of_def take_bit_eq_mod unat_mod)
  then show ?thesis by (simp add: unat_eq_0)
qed

text \<open>
  C22. An AArch64 branch, call or literal load whose displacement passes the checks (a multiple
  of four inside the signed range of the instruction), written into an instruction whose immediate
  field is clear in a buffer of at least four bytes, encodes exactly that displacement: four times
  the decoded immediate is the value. A displacement that does not pass is reported. The encoder ORs
  the immediate in, so nothing is claimed of a field that is not clear.
\<close>

theorem aarch64_branch_displacement:
  assumes "(r, i, n) \<in> set aarch64_branches" "aarch64_relocation_type_from_raw r = Some ri"
    and "4 \<le> length out" "field_clear (aarch64_segs i) out"
  shows "if is_multiple_of v 4 \<and> - (2 ^ (n - 1)) \<le> sint v \<and> sint v < 2 ^ (n - 1)
         then \<exists>out' w. write_to_buffer uleb ri v out = Ok out' \<and>
                aarch64_read_value i out' = Some (w, False) \<and> push_bit 2 w = v
         else \<exists>e. write_to_buffer uleb ri v out = Error e"
proof -
  have row: "ri_size ri = bit_mask_aarch64 2 n i" "ri_alignment ri = 4"
    "ri_range ri = range_new (- (2 ^ (n - 1))) (2 ^ (n - 1))" "r \<notin> set aarch64_misfits" "i \<noteq> Movnz"
    "16 \<le> n" "n \<le> 28"
    using aarch64_branch_rows assms(1,2) by (auto simp: list_all_iff split: option.splits)
  have ok: "verify ri v = Ok () \<longleftrightarrow> is_multiple_of v 4 \<and> - (2 ^ (n - 1)) \<le> sint v \<and> sint v < 2 ^ (n - 1)"
    by (simp add: verify_Ok row range_contains_def range_new_def)
  show ?thesis
  proof (cases "verify ri v = Ok ()")
    case True
    let ?x = "extract_bit_range v 2 n"
    have sz: "ri_size ri = BitMasking \<lparr>bm_instruction = AArch64 i, bm_range = \<lparr>range_start = 2, range_end = n\<rparr>\<rparr>"
      using row(1) by (simp add: size_defs)
    from aarch64_checked_write [OF assms(2) row(4) sz _ row(5) True assms(3,4), of uleb] obtain out' where
      pre: "aarch64_pre i ?x out" and w: "write_to_buffer uleb ri v out = Ok out'"
      "aarch64_write_to_value i ?x (sint v < 0) out = Some out'"
      by auto
    have "push_bit 2 (signed_take_bit (n - 3) ?x) = v"
      using True ok row(6,7) multiple_of_4 by (intro word_offset_rebuilt) auto
    with aarch64_field.rd_wr [OF pre w(2)] aarch64_branch_canon [OF assms(1)] w(1) True ok
    show ?thesis by simp
  next
    case False
    with checked_error [OF False, of uleb out] ok show ?thesis by auto
  qed
qed

theorem aarch64_branch_displacement_witness:
  "\<exists>ri out' w. aarch64_relocation_type_from_raw ''R_AARCH64_CALL26'' = Some ri \<and>
     write_to_buffer (\<lambda>_. []) ri (- 0x8000000) [0, 0, 0, 0x94] = Ok out' \<and>
     aarch64_read_value JumpCall out' = Some (w, False) \<and> push_bit 2 w = - 0x8000000"
proof -
  have b: "(''R_AARCH64_CALL26'', JumpCall, 28) \<in> set aarch64_branches" by (simp add: aarch64_branches_def)
  have c: "field_clear (aarch64_segs JumpCall) [0, 0, 0, 0x94]" by code_simp
  from aarch64_branch_displacement [OF b aarch64_call26 _ c, of "- 0x8000000" "\<lambda>_. []"] aarch64_call26
  show ?thesis by (simp add: is_multiple_of_def)
qed

section \<open>Wide moves\<close>

lemma aarch64_movw_rows:
  "aarch64_relocation_type_from_raw ''R_AARCH64_MOVW_SABS_G1'' =
     Some \<lparr>ri_kind = Absolute, ri_size = bit_mask_aarch64 16 32 Movnz, ri_mask = None,
           ri_range = range_new (- (2 ^ 32)) (2 ^ 32), ri_alignment = 1, ri_bias = 0, ri_thunkable = False\<rparr>"
  "aarch64_relocation_type_from_raw ''R_AARCH64_MOVW_UABS_G0_NC'' =
     Some \<lparr>ri_kind = Absolute, ri_size = bit_mask_aarch64 0 16 Movkz, ri_mask = None,
           ri_range = no_check, ri_alignment = 1, ri_bias = 0, ri_thunkable = False\<rparr>"
  by code_simp+

lemma high_bits_sign:
  assumes "n < 63" "- (2 ^ n) \<le> sint v" "sint v < 2 ^ n" "n \<le> k" "k < 64"
  shows "bit (v :: u64) k \<longleftrightarrow> sint v < 0"
proof -
  have "signed_take_bit n v = v" using assms(1-3) by (rule signed_take_bit_id)
  then have "bit v k \<longleftrightarrow> bit v (min n k)" "bit v 63 \<longleftrightarrow> bit v (min n 63)"
    using bit_signed_take_bit_iff [of n v k] bit_signed_take_bit_iff [of n v 63] assms(5) by simp_all
  moreover have "bit v 63 \<longleftrightarrow> sint v < 0" using bit_last_iff [of v] by simp
  ultimately show ?thesis using assms(1,4) by (simp add: min_def)
qed

text \<open>A MOVK of the low half word, after its relocation, replaces the low half word by the value's.\<close>

lemma movk_write_exec:
  assumes "4 \<le> length b" "movw_hw (getw 4 b) = 0" "bit (getw 4 b :: u32) 30" "bit (getw 4 b :: u32) 29"
    and "field_clear (aarch64_segs Movkz) b"
  shows "\<exists>b'. aarch64_write_to_value Movkz (extract_bit_range v 0 16) neg b = Some b' \<and>
           (\<forall>y. movw_exec (getw 4 b') y = (y AND NOT (mask 16)) OR take_bit 16 v)"
proof -
  let ?lo = "extract_bit_range v 0 16"
  have "?lo < 2 ^ 16" using extract_bit_range_fits [of 0 16 v] by simp
  then have pre: "aarch64_pre Movkz ?lo b" using assms(1,5) by (simp add: aarch64_pre_def seg_width_def)
  obtain b' where b': "aarch64_write_to_value Movkz ?lo neg b = Some b'" "encoded (aarch64_segs Movkz) ?lo b b'"
    using aarch64_field.wr_encodes [OF pre] by blast
  have keep: "bit (getw 4 b' :: u32) k \<longleftrightarrow> bit (getw 4 b :: u32) k" if "k < 5 \<or> 21 \<le> k" for k
    using b'(2) that by (auto simp: encoded_def byte_simps)
  have "movw_imm (getw 4 b') = take_bit 16 v"
    using b'(2) by (intro bit_word_eqI) (auto simp: encoded_def movw_imm_def bit_take_bit_iff bit_drop_bit_eq
        bit_unsigned_iff byte_simps bit_extract_bit_range)
  moreover have "take_bit 2 (drop_bit 21 (getw 4 b' :: u32)) = take_bit 2 (drop_bit 21 (getw 4 b))"
    by (rule bit_word_eqI) (auto simp: bit_take_bit_iff bit_drop_bit_eq keep)
  then have "movw_hw (getw 4 b') = 0" using assms(2) by (simp add: movw_hw_def)
  ultimately have "movw_exec (getw 4 b') y = (y AND NOT (mask 16)) OR take_bit 16 v" for y
    using assms(3,4) by (simp add: movw_exec_def keep)
  with b'(1) show ?thesis by blast
qed

lemma movw_pair_value:
  assumes "- (2 ^ 32) \<le> sint v" "sint v < 2 ^ 32" "movw_hw w = 1"
  shows "(movw_exec (movnz_word w (extract_bit_range v 16 32) (sint v < 0)) x AND NOT (mask 16)) OR take_bit 16 v = v"
proof (rule bit_word_eqI)
  fix k assume k: "k < LENGTH(64)"
  let ?y = "movw_exec (movnz_word w (extract_bit_range v 16 32) (sint v < 0)) x"
  have y: "bit ?y k \<longleftrightarrow> (if 16 \<le> k \<and> k < 32 then bit v k else sint v < 0)"
    using k by (auto simp: movnz_exec_bits assms(3) bit_extract_bit_range)
  have top: "32 \<le> k \<Longrightarrow> bit v k \<longleftrightarrow> sint v < 0"
    using high_bits_sign [of 32 v k] assms(1,2) k by simp
  show "bit ((?y AND NOT (mask 16)) OR take_bit 16 v) k \<longleftrightarrow> bit v k"
    unfolding bit_or_iff bit_and_iff bit_not_iff bit_mask_iff bit_take_bit_iff y
    using k top by (cases "k < 16"; cases "k < 32") auto
qed

text \<open>
  C23. A signed 33-bit value loaded by a MOVN/MOVZ of its second half word followed by a MOVK of
  its first: after both relocations the two instructions leave the value in the register. The
  first write chooses MOVN or MOVZ by the sign; the second instruction is a MOVK with a clear
  immediate.
\<close>

theorem aarch64_movw_pair:
  assumes "- (2 ^ 32) \<le> sint v" "sint v < 2 ^ 32"
    and "4 \<le> length b1" "movw_hw (getw 4 b1) = 1"
    and "4 \<le> length b0" "movw_hw (getw 4 b0) = 0" "bit (getw 4 b0 :: u32) 30" "bit (getw 4 b0 :: u32) 29"
    and "field_clear (aarch64_segs Movkz) b0"
    and "aarch64_relocation_type_from_raw ''R_AARCH64_MOVW_SABS_G1'' = Some r1"
    and "aarch64_relocation_type_from_raw ''R_AARCH64_MOVW_UABS_G0_NC'' = Some r0"
  shows "\<exists>b1' b0'. write_to_buffer uleb r1 v b1 = Ok b1' \<and> write_to_buffer uleb r0 v b0 = Ok b0' \<and>
           movw_exec (getw 4 b0') (movw_exec (getw 4 b1') x) = v"
proof -
  let ?hi = "extract_bit_range v 16 32" and ?neg = "sint v < 0"
  have ok: "verify r1 v = Ok ()" "verify r0 v = Ok ()"
    using assms(1,2,10,11) by (auto simp: aarch64_movw_rows verify_Ok is_multiple_of_def range_contains_def
        range_new_def no_check_def)
  have w1: "write_to_buffer uleb r1 v b1 = Ok (putw 4 (movnz_word (getw 4 b1) ?hi ?neg) b1)"
    using ok(1) assms(3,10) by (auto simp del: aarch64_write_to_value.simps
        simp: aarch64_movw_rows write_to_buffer_def write_sized_def size_defs movnz_write)
  obtain b0' where b0': "aarch64_write_to_value Movkz (extract_bit_range v 0 16) ?neg b0 = Some b0'"
    and e: "\<And>y. movw_exec (getw 4 b0') y = (y AND NOT (mask 16)) OR take_bit 16 v"
    using movk_write_exec [OF assms(5-9)] by blast
  have w0: "write_to_buffer uleb r0 v b0 = Ok b0'"
    using ok(2) b0' assms(11) by (auto simp del: aarch64_write_to_value.simps
        simp: aarch64_movw_rows write_to_buffer_def write_sized_def size_defs)
  from w1 w0 show ?thesis
    using movw_pair_value [OF assms(1,2,4), of x] e by (auto simp: byte_simps)
qed

theorem aarch64_movw_pair_witness:
  "\<exists>r1 r0 b1' b0'. aarch64_relocation_type_from_raw ''R_AARCH64_MOVW_SABS_G1'' = Some r1 \<and>
     aarch64_relocation_type_from_raw ''R_AARCH64_MOVW_UABS_G0_NC'' = Some r0 \<and>
     write_to_buffer (\<lambda>_. []) r1 (- 0x12345678) [0, 0, 0xa0, 0xd2] = Ok b1' \<and>
     write_to_buffer (\<lambda>_. []) r0 (- 0x12345678) [0, 0, 0x80, 0xf2] = Ok b0' \<and>
     movw_exec (getw 4 b0') (movw_exec (getw 4 b1') 0) = - 0x12345678"
proof -
  have c: "field_clear (aarch64_segs Movkz) [0, 0, 0x80, 0xf2]"
    "movw_hw (getw 4 [0, 0, 0xa0, 0xd2]) = 1" "movw_hw (getw 4 [0, 0, 0x80, 0xf2]) = 0"
    "bit (getw 4 [0, 0, 0x80, 0xf2] :: u32) 30" "bit (getw 4 [0, 0, 0x80, 0xf2] :: u32) 29"
    by code_simp+
  have len: "4 \<le> length [0, 0, 0xa0, 0xd2 :: u8]" "4 \<le> length [0, 0, 0x80, 0xf2 :: u8]" by simp_all
  have v: "- (2 ^ 32) \<le> sint (- 0x12345678 :: u64)" "sint (- 0x12345678 :: u64) < 2 ^ 32" by simp_all
  from aarch64_movw_pair [OF v len(1) c(2) len(2) c(3-5) c(1) aarch64_movw_rows, of "\<lambda>_. []" 0] aarch64_movw_rows
  show ?thesis by blast
qed

end
