(* ===== verification/Value_Flags.thy ===== *)
theory Value_Flags
  imports Prelude
begin

text \<open>
  Symbol flags (\<open>libjdxld/src/value_flags.rs\<close>): the bit set that says what a symbol is and what
  references to it need, its predicates, the per-symbol vector, and the atomic updates that the
  threads of the graph traversal make on it. The last section models the threads: every call of
  \<open>fetch_or\<close> is a relaxed load, possibly followed by an atomic \<open>fetch_or\<close>, interleaved with the
  others in any way; the invariant says that every flag is handed out as new exactly once.
\<close>

section \<open>Flags\<close>

type_synonym ValueFlags = u32

definition ABSOLUTE :: ValueFlags where "ABSOLUTE = 2 ^ 0"
definition DYNAMIC :: ValueFlags where "DYNAMIC = 2 ^ 1"
definition IFUNC :: ValueFlags where "IFUNC = 2 ^ 2"
definition NON_INTERPOSABLE :: ValueFlags where "NON_INTERPOSABLE = 2 ^ 3"
definition DOWNGRADE_TO_LOCAL :: ValueFlags where "DOWNGRADE_TO_LOCAL = 2 ^ 4"
definition DYNAMIC_FUNCTION :: ValueFlags where "DYNAMIC_FUNCTION = 2 ^ 5"
definition DIRECT :: ValueFlags where "DIRECT = 2 ^ 6"
definition GOT :: ValueFlags where "GOT = 2 ^ 7"
definition PLT :: ValueFlags where "PLT = 2 ^ 8"
definition GOT_TLS_MODULE :: ValueFlags where "GOT_TLS_MODULE = 2 ^ 9"
definition GOT_TLS_OFFSET :: ValueFlags where "GOT_TLS_OFFSET = 2 ^ 10"
definition GOT_TLS_DESCRIPTOR :: ValueFlags where "GOT_TLS_DESCRIPTOR = 2 ^ 11"
definition EXPORT_DYNAMIC :: ValueFlags where "EXPORT_DYNAMIC = 2 ^ 12"
definition COPY_RELOCATION :: ValueFlags where "COPY_RELOCATION = 2 ^ 13"
definition IFUNC_GOT_FOR_ADDRESS :: ValueFlags where "IFUNC_GOT_FOR_ADDRESS = 2 ^ 14"
definition HAS_RANGE_LIMITED_REL :: ValueFlags where "HAS_RANGE_LIMITED_REL = 2 ^ 15"
definition HAS_NON_IR_REF :: ValueFlags where "HAS_NON_IR_REF = 2 ^ 16"

lemmas flag_defs = ABSOLUTE_def DYNAMIC_def IFUNC_def NON_INTERPOSABLE_def DOWNGRADE_TO_LOCAL_def
  DYNAMIC_FUNCTION_def DIRECT_def GOT_def PLT_def GOT_TLS_MODULE_def GOT_TLS_OFFSET_def
  GOT_TLS_DESCRIPTOR_def EXPORT_DYNAMIC_def COPY_RELOCATION_def IFUNC_GOT_FOR_ADDRESS_def
  HAS_RANGE_LIMITED_REL_def HAS_NON_IR_REF_def

text \<open>\<open>contains\<close> of the \<open>bitflags\<close> crate: all bits of the argument are set.\<close>

definition contains :: "ValueFlags \<Rightarrow> ValueFlags \<Rightarrow> bool" where
  "contains s f = (s AND f = f)"

definition flags_merge :: "ValueFlags \<Rightarrow> ValueFlags \<Rightarrow> ValueFlags" where
  "flags_merge s other = (if contains other NON_INTERPOSABLE then s OR NON_INTERPOSABLE else s)"

definition resolution_flags :: "ValueFlags \<Rightarrow> ValueFlags" where
  "resolution_flags s =
     s AND (DIRECT OR GOT OR PLT OR GOT_TLS_MODULE OR GOT_TLS_OFFSET OR GOT_TLS_DESCRIPTOR OR
            EXPORT_DYNAMIC OR COPY_RELOCATION OR IFUNC_GOT_FOR_ADDRESS)"

definition has_resolution :: "ValueFlags \<Rightarrow> bool" where
  "has_resolution s = (resolution_flags s \<noteq> 0)"

definition is_dynamic :: "ValueFlags \<Rightarrow> bool" where "is_dynamic s = contains s DYNAMIC"
definition is_ifunc :: "ValueFlags \<Rightarrow> bool" where "is_ifunc s = contains s IFUNC"

definition has_link_time_address :: "ValueFlags \<Rightarrow> bool" where
  "has_link_time_address s = (\<not> contains s IFUNC \<and> \<not> contains s DYNAMIC \<and> \<not> contains s ABSOLUTE)"

definition is_absolute :: "ValueFlags \<Rightarrow> bool" where "is_absolute s = contains s ABSOLUTE"
definition is_function :: "ValueFlags \<Rightarrow> bool" where "is_function s = contains s DYNAMIC_FUNCTION"
definition is_downgraded_to_local :: "ValueFlags \<Rightarrow> bool" where
  "is_downgraded_to_local s = contains s DOWNGRADE_TO_LOCAL"
definition is_symtab_local :: "ValueFlags \<Rightarrow> bool \<Rightarrow> bool" where
  "is_symtab_local s sym_is_local = (sym_is_local \<or> is_downgraded_to_local s)"
definition is_interposable :: "ValueFlags \<Rightarrow> bool" where
  "is_interposable s = (\<not> contains s NON_INTERPOSABLE)"
definition needs_direct :: "ValueFlags \<Rightarrow> bool" where "needs_direct s = contains s DIRECT"
definition needs_copy_relocation :: "ValueFlags \<Rightarrow> bool" where
  "needs_copy_relocation s = contains s COPY_RELOCATION"
definition needs_export_dynamic :: "ValueFlags \<Rightarrow> bool" where
  "needs_export_dynamic s = contains s EXPORT_DYNAMIC"
definition needs_got :: "ValueFlags \<Rightarrow> bool" where "needs_got s = contains s GOT"
definition needs_plt :: "ValueFlags \<Rightarrow> bool" where "needs_plt s = contains s PLT"
definition needs_got_tls_offset :: "ValueFlags \<Rightarrow> bool" where
  "needs_got_tls_offset s = contains s GOT_TLS_OFFSET"
definition needs_got_tls_module :: "ValueFlags \<Rightarrow> bool" where
  "needs_got_tls_module s = contains s GOT_TLS_MODULE"
definition needs_got_tls_descriptor :: "ValueFlags \<Rightarrow> bool" where
  "needs_got_tls_descriptor s = contains s GOT_TLS_DESCRIPTOR"
definition needs_ifunc_got_for_address :: "ValueFlags \<Rightarrow> bool" where
  "needs_ifunc_got_for_address s = contains s IFUNC_GOT_FOR_ADDRESS"

definition needs_tls_got :: "ValueFlags \<Rightarrow> bool" where
  "needs_tls_got s =
     (contains s GOT_TLS_OFFSET \<or> contains s GOT_TLS_MODULE \<or> contains s GOT_TLS_DESCRIPTOR)"

section \<open>The vector of flags\<close>

type_synonym PerSymbolFlags = "ValueFlags list"

definition flags_push :: "ValueFlags \<Rightarrow> PerSymbolFlags \<Rightarrow> PerSymbolFlags" where
  "flags_push extra fs = fs @ [extra]"

definition set_flag :: "nat \<Rightarrow> ValueFlags \<Rightarrow> PerSymbolFlags \<Rightarrow> PerSymbolFlags option" where
  "set_flag symbol_id extra fs = do { f \<leftarrow> index fs symbol_id; store fs symbol_id (f OR extra) }"

definition flags_for_symbol :: "PerSymbolFlags \<Rightarrow> nat \<Rightarrow> ValueFlags option" where
  "flags_for_symbol fs symbol_id = index fs symbol_id"

definition raw_range :: "PerSymbolFlags \<Rightarrow> nat \<Rightarrow> nat \<Rightarrow> ValueFlags list option" where
  "raw_range fs a b = slice a b fs"

section \<open>Atomic updates\<close>

text \<open>The atomic operations on one cell; \<open>fetch_or\<close> returns the bits before it.\<close>

definition atomic_fetch_or :: "ValueFlags \<Rightarrow> ValueFlags \<Rightarrow> ValueFlags \<times> ValueFlags" where
  "atomic_fetch_or cell flags = (cell OR flags, cell)"

definition atomic_or_assign :: "ValueFlags \<Rightarrow> ValueFlags \<Rightarrow> ValueFlags" where
  "atomic_or_assign cell flags = fst (atomic_fetch_or cell flags)"

definition atomic_remove :: "ValueFlags \<Rightarrow> ValueFlags \<Rightarrow> ValueFlags" where
  "atomic_remove cell flags_to_remove = cell AND NOT flags_to_remove"

text \<open>
  A call of \<open>AtomicValueFlags::fetch_or\<close> in progress: not started, past the load that found a bit
  missing, or returned. The cell keeps the sequence of values it has had: a relaxed load may
  return any of them, a read-modify-write works on the last.
\<close>

datatype call_state = Idle | Loaded | Returned ValueFlags

record cell_state =
  history :: "ValueFlags list"
  calls :: "(ValueFlags \<times> call_state) list"

definition cell :: "cell_state \<Rightarrow> ValueFlags" where
  "cell s = last (history s)"

inductive call_step :: "nat \<Rightarrow> cell_state \<Rightarrow> cell_state \<Rightarrow> bool" where
  load_all_set: "i < length (calls s) \<Longrightarrow> calls s ! i = (flags, Idle) \<Longrightarrow> current_bits \<in> set (history s) \<Longrightarrow>
     current_bits AND flags = flags \<Longrightarrow>
     call_step i s (s\<lparr>calls := (calls s)[i := (flags, Returned current_bits)]\<rparr>)"
| load_missing: "i < length (calls s) \<Longrightarrow> calls s ! i = (flags, Idle) \<Longrightarrow> current_bits \<in> set (history s) \<Longrightarrow>
     current_bits AND flags \<noteq> flags \<Longrightarrow>
     call_step i s (s\<lparr>calls := (calls s)[i := (flags, Loaded)]\<rparr>)"
| update: "i < length (calls s) \<Longrightarrow> calls s ! i = (flags, Loaded) \<Longrightarrow>
     (cell', previous_bits) = atomic_fetch_or (cell s) flags \<Longrightarrow>
     call_step i s (s\<lparr>history := history s @ [cell'],
                      calls := (calls s)[i := (flags, Returned previous_bits)]\<rparr>)"

inductive cell_reach :: "cell_state \<Rightarrow> cell_state \<Rightarrow> bool" where
  cell_refl: "cell_reach s s"
| cell_trans: "cell_reach s t \<Longrightarrow> call_step i t u \<Longrightarrow> cell_reach s u"

inductive_cases call_stepE: "call_step i s t"

definition start :: "ValueFlags \<Rightarrow> ValueFlags list \<Rightarrow> cell_state" where
  "start c fs = \<lparr>history = [c], calls = map (\<lambda>f. (f, Idle)) fs\<rparr>"

definition all_returned :: "cell_state \<Rightarrow> bool" where
  "all_returned s = list_all (\<lambda>(f, st). case st of Returned _ \<Rightarrow> True | _ \<Rightarrow> False) (calls s)"

text \<open>Call number \<open>i\<close> returned and its caller saw bit \<open>b\<close> of its flags as newly set.\<close>

definition won :: "nat \<Rightarrow> ValueFlags \<times> call_state \<Rightarrow> bool" where
  "won b c = (case c of (f, Returned p) \<Rightarrow> bit f b \<and> \<not> bit p b | _ \<Rightarrow> False)"

definition winners :: "nat \<Rightarrow> cell_state \<Rightarrow> nat" where
  "winners b s = length (filter (won b) (calls s))"

section \<open>Every flag is new to exactly one caller\<close>

definition subflags :: "ValueFlags \<Rightarrow> ValueFlags \<Rightarrow> bool" where
  "subflags a b = (\<forall>k. bit a k \<longrightarrow> bit b k)"

lemma and_eq_subflags: "c AND f = f \<longleftrightarrow> subflags f c"
  unfolding subflags_def by (metis bit_and_iff bit_word_eqI)

definition cell_inv :: "ValueFlags \<Rightarrow> ValueFlags list \<Rightarrow> cell_state \<Rightarrow> bool" where
  "cell_inv c fs s =
     (history s \<noteq> [] \<and> map fst (calls s) = fs \<and> subflags c (cell s) \<and>
      (\<forall>h \<in> set (history s). subflags h (cell s)) \<and>
      (\<forall>k. bit (cell s) k \<longrightarrow> bit c k \<or> (\<exists>f \<in> set fs. bit f k)) \<and>
      (\<forall>f p. (f, Returned p) \<in> set (calls s) \<longrightarrow> subflags f (cell s)) \<and>
      (\<forall>b. winners b s = (if bit (cell s) b \<and> \<not> bit c b then 1 else 0)))"

lemma cell_inv_start: "cell_inv c fs (start c fs)"
proof -
  have "filter (won b) (map (\<lambda>f. (f, Idle)) fs) = []" for b
    by (auto simp: won_def filter_empty_conv)
  then show ?thesis
    by (auto simp: cell_inv_def start_def cell_def winners_def subflags_def comp_def)
qed

text \<open>Replacing a call that has not won by another state.\<close>

lemma winners_update:
  assumes "i < length (calls s)" "\<not> won b (calls s ! i)"
  shows "length (filter (won b) ((calls s)[i := x])) = winners b s + (if won b x then 1 else 0)"
proof -
  have "calls s = take i (calls s) @ calls s ! i # drop (Suc i) (calls s)"
    using id_take_nth_drop [OF assms(1)] .
  then have "winners b s = length (filter (won b) (take i (calls s))) + length (filter (won b) (drop (Suc i) (calls s)))"
    using assms(2) unfolding winners_def by (metis (no_types, lifting) filter.simps(2) filter_append length_append)
  with assms(1) show ?thesis by (simp add: upd_conv_take_nth_drop)
qed

lemma fst_update: "i < length cs \<Longrightarrow> cs ! i = (f, st) \<Longrightarrow> map fst (cs[i := (f, st')]) = map fst cs"
  by (metis fst_conv list_update_id map_update nth_map)

lemma not_won [simp]: "\<not> won b (f, Idle)" "\<not> won b (f, Loaded)"
  "won b (f, Returned p) \<longleftrightarrow> bit f b \<and> \<not> bit p b"
  by (simp_all add: won_def)

lemma cell_inv_load_all_set:
  assumes "cell_inv c fs s" "i < length (calls s)" "calls s ! i = (f, Idle)" "h \<in> set (history s)" "h AND f = f"
  shows "cell_inv c fs (s\<lparr>calls := (calls s)[i := (f, Returned h)]\<rparr>)"
proof -
  have f: "subflags f h" "subflags h (cell s)"
    using assms(1,4,5) by (auto simp: and_eq_subflags cell_inv_def)
  have "winners b (s\<lparr>calls := (calls s)[i := (f, Returned h)]\<rparr>) = winners b s" for b
    using winners_update [OF assms(2), of b "(f, Returned h)"] assms(3) f(1)
    by (simp add: winners_def subflags_def)
  moreover have "subflags g (cell s)" if "(g, Returned p) \<in> set ((calls s)[i := (f, Returned h)])" for g p
  proof -
    have "(g, Returned p) = (f, Returned h) \<or> (g, Returned p) \<in> set (calls s)"
      using that set_update_subset_insert by fastforce
    with assms(1) f show ?thesis by (auto simp: cell_inv_def subflags_def)
  qed
  ultimately show ?thesis
    using assms(1) fst_update [OF assms(2,3)] unfolding cell_inv_def cell_def by auto
qed

lemma cell_inv_load_missing:
  assumes "cell_inv c fs s" "i < length (calls s)" "calls s ! i = (f, Idle)"
  shows "cell_inv c fs (s\<lparr>calls := (calls s)[i := (f, Loaded)]\<rparr>)"
proof -
  have "winners b (s\<lparr>calls := (calls s)[i := (f, Loaded)]\<rparr>) = winners b s" for b
    using winners_update [OF assms(2), of b "(f, Loaded)"] assms(3) by (simp add: winners_def)
  moreover have "subflags g (cell s)" if "(g, Returned p) \<in> set ((calls s)[i := (f, Loaded)])" for g p
  proof -
    have "(g, Returned p) \<in> set (calls s)" using that set_update_subset_insert by fastforce
    with assms(1) show ?thesis by (auto simp: cell_inv_def)
  qed
  ultimately show ?thesis
    using assms(1) fst_update [OF assms(2,3)] unfolding cell_inv_def cell_def by auto
qed

lemma cell_inv_update:
  assumes "cell_inv c fs s" "i < length (calls s)" "calls s ! i = (f, Loaded)"
  defines "t \<equiv> s\<lparr>history := history s @ [cell s OR f], calls := (calls s)[i := (f, Returned (cell s))]\<rparr>"
  shows "cell_inv c fs t"
proof -
  have cell_t: "cell t = cell s OR f" by (simp add: t_def cell_def)
  have f: "f \<in> set fs" using assms(1-3) unfolding cell_inv_def by (metis fst_conv nth_map nth_mem length_map)
  have w: "winners b t = winners b s + (if bit f b \<and> \<not> bit (cell s) b then 1 else 0)" for b
    using winners_update [OF assms(2), of b "(f, Returned (cell s))"] assms(3) by (simp add: winners_def t_def)
  have "winners b t = (if bit (cell t) b \<and> \<not> bit c b then 1 else 0)" for b
    using w [of b] assms(1) by (auto simp: cell_inv_def cell_t bit_or_iff subflags_def)
  moreover have "subflags g (cell t)" if "(g, Returned p) \<in> set (calls t)" for g p
  proof -
    have "(g, Returned p) = (f, Returned (cell s)) \<or> (g, Returned p) \<in> set (calls s)"
      using that set_update_subset_insert unfolding t_def by fastforce
    with assms(1) show ?thesis by (auto simp: cell_inv_def subflags_def cell_t bit_or_iff)
  qed
  moreover have "subflags h (cell t)" if "h \<in> set (history t)" for h
    using that assms(1) unfolding t_def cell_t [unfolded t_def] by (auto simp: cell_inv_def subflags_def bit_or_iff)
  moreover have "map fst (calls t) = fs"
    using assms(1) fst_update [OF assms(2,3)] by (simp add: t_def cell_inv_def)
  ultimately show ?thesis
    using assms(1) f unfolding cell_inv_def by (auto simp: cell_t bit_or_iff subflags_def) (simp add: t_def)
qed

lemma cell_inv_step: "cell_inv c fs s \<Longrightarrow> call_step i s t \<Longrightarrow> cell_inv c fs t"
  by (erule call_stepE)
    (auto simp: atomic_fetch_or_def intro: cell_inv_load_all_set cell_inv_load_missing cell_inv_update)

lemma cell_inv_reach: "cell_reach s t \<Longrightarrow> cell_inv c fs s \<Longrightarrow> cell_inv c fs t"
  by (induction rule: cell_reach.induct) (auto intro: cell_inv_step)

text \<open>Progress: a call that has not returned can take a step, and each call takes at most two.\<close>

lemma call_progress:
  assumes "history s \<noteq> []" "\<not> all_returned s"
  shows "\<exists>i t. call_step i s t"
proof -
  obtain i where i: "i < length (calls s)" and nr: "\<And>f p. calls s ! i \<noteq> (f, Returned p)"
    using assms(2) by (fastforce simp: all_returned_def list_all_length split: call_state.splits)
  obtain f st where c: "calls s ! i = (f, st)" by (cases "calls s ! i")
  have last: "last (history s) \<in> set (history s)" using assms(1) by simp
  show ?thesis
  proof (cases st)
    case Idle
    then show ?thesis using i c last by (cases "last (history s) AND f = f") (blast intro: call_step.intros)+
  next
    case Loaded
    with c have "calls s ! i = (f, Loaded)" by simp
    then show ?thesis using call_step.update [OF i] by (metis surj_pair)
  qed (use nr c in blast)
qed

definition remaining :: "cell_state \<Rightarrow> nat" where
  "remaining s = sum_list (map (\<lambda>(f, st). case st of Idle \<Rightarrow> 2 | Loaded \<Rightarrow> 1 | Returned _ \<Rightarrow> 0) (calls s))"

lemma remaining_update:
  assumes "i < length cs" "w x < w (cs ! i)"
  shows "sum_list (map w (cs[i := x])) < sum_list (map w cs :: nat list)"
proof -
  have "cs = take i cs @ cs ! i # drop (Suc i) cs" using id_take_nth_drop [OF assms(1)] .
  then have "sum_list (map w cs) = sum_list (map w (take i cs)) + w (cs ! i) + sum_list (map w (drop (Suc i) cs))"
    by (metis (no_types, lifting) add.assoc list.simps(9) map_append sum_list.Cons sum_list_append)
  with assms show ?thesis by (simp add: upd_conv_take_nth_drop)
qed

lemma remaining_step: "call_step i s t \<Longrightarrow> remaining t < remaining s"
  by (erule call_stepE) (auto simp: remaining_def intro!: remaining_update)

lemma cell_reach_prepend: "cell_reach u t \<Longrightarrow> call_step i s u \<Longrightarrow> cell_reach s t"
proof (induction rule: cell_reach.induct)
  case (cell_refl u)
  show ?case by (rule cell_trans [OF cell_reach.cell_refl cell_refl])
next
  case (cell_trans u t j v)
  show ?case by (rule cell_reach.cell_trans [OF cell_trans.IH [OF cell_trans.prems] cell_trans.hyps(2)])
qed

lemma reach_all_returned:
  assumes "cell_inv c fs s"
  shows "\<exists>t. cell_reach s t \<and> all_returned t"
  using assms
proof (induction "remaining s" arbitrary: s rule: less_induct)
  case less
  show ?case
  proof (cases "all_returned s")
    case True
    then show ?thesis by (blast intro: cell_refl)
  next
    case False
    have "history s \<noteq> []" using less.prems unfolding cell_inv_def by (rule conjunct1)
    with False obtain i u where u: "call_step i s u"
      using call_progress by blast
    obtain t where t: "cell_reach u t" "all_returned t"
      using less.hyps [OF remaining_step [OF u] cell_inv_step [OF less.prems u]] by (elim exE conjE)
    with cell_reach_prepend [OF t(1) u] show ?thesis by (intro exI conjI)
  qed
qed

lemma fold_or_bit: "bit (fold (OR) fs c) k \<longleftrightarrow> bit (c :: ValueFlags) k \<or> (\<exists>f \<in> set fs. bit f k)"
  by (induction fs arbitrary: c) (auto simp: bit_or_iff)

lemma returned_in_calls:
  assumes "all_returned s" "map fst (calls s) = fs" "f \<in> set fs"
  shows "\<exists>p. (f, Returned p) \<in> set (calls s)"
proof -
  obtain st where m: "(f, st) \<in> set (calls s)" using assms(2,3) by force
  with assms(1) obtain p where "st = Returned p"
    by (cases st) (auto simp: all_returned_def list_all_iff)
  with m show ?thesis by blast
qed

lemma cell_inv_winners: "cell_inv c fs s \<Longrightarrow> winners b s = (if bit (cell s) b \<and> \<not> bit c b then 1 else 0)"
  unfolding cell_inv_def by blast

lemma cell_inv_bits:
  assumes "cell_inv c fs s" "all_returned s"
  shows "bit (cell s) k \<longleftrightarrow> bit c k \<or> (\<exists>f \<in> set fs. bit f k)"
proof
  show "bit (cell s) k \<Longrightarrow> bit c k \<or> (\<exists>f \<in> set fs. bit f k)"
    using assms(1) unfolding cell_inv_def by blast
  have c: "subflags c (cell s)" and fs: "map fst (calls s) = fs"
    and ret: "\<And>f p. (f, Returned p) \<in> set (calls s) \<Longrightarrow> subflags f (cell s)"
    using assms(1) unfolding cell_inv_def by blast+
  show "bit c k \<or> (\<exists>f \<in> set fs. bit f k) \<Longrightarrow> bit (cell s) k"
    using c ret returned_in_calls [OF assms(2) fs] unfolding subflags_def by blast
qed

text \<open>
  C24. Any number of threads calling \<open>fetch_or\<close> on one symbol's flags, in any interleaving and with
  loads that may see stale values: the calls can always run to completion; when they have, the
  flags are the union of what was there and all that was asked for, and for every flag that was
  not there before exactly one caller was told that it is new - so the work that a new flag
  triggers is done once and by one thread.
\<close>

theorem fetch_or_once:
  "(\<forall>s. cell_reach (start c fs) s \<longrightarrow> (\<exists>t. cell_reach s t \<and> all_returned t)) \<and>
   (\<forall>t. cell_reach (start c fs) t \<and> all_returned t \<longrightarrow>
      cell t = fold (OR) fs c \<and>
      (\<forall>b. winners b t = (if \<not> bit c b \<and> (\<exists>f \<in> set fs. bit f b) then 1 else 0)))"
proof (intro conjI allI impI; (elim conjE)?)
  fix s assume "cell_reach (start c fs) s"
  then show "\<exists>t. cell_reach s t \<and> all_returned t"
    using reach_all_returned cell_inv_reach cell_inv_start by blast
next
  fix t assume r: "cell_reach (start c fs) t" "all_returned t"
  then have inv: "cell_inv c fs t" using cell_inv_reach cell_inv_start by blast
  note bits = cell_inv_bits [OF inv r(2)]
  show "cell t = fold (OR) fs c" by (rule bit_word_eqI) (simp only: bits fold_or_bit)
  show "winners b t = (if \<not> bit c b \<and> (\<exists>f \<in> set fs. bit f b) then 1 else 0)" for b
  proof -
    have "(bit (cell t) b \<and> \<not> bit c b) = (\<not> bit c b \<and> (\<exists>f \<in> set fs. bit f b))" unfolding bits by blast
    then show ?thesis using cell_inv_winners [OF inv, of b] by (simp only:)
  qed
qed

theorem fetch_or_once_witness:
  "\<exists>t. cell_reach (start DIRECT [GOT, GOT OR PLT]) t \<and> all_returned t \<and> winners 7 t = 1"
proof -
  let ?c = DIRECT and ?fs = "[GOT, GOT OR PLT]"
  obtain t where t: "cell_reach (start ?c ?fs) t" "all_returned t"
    using fetch_or_once [of ?c ?fs] cell_refl by blast
  have "winners 7 t = (if \<not> bit ?c 7 \<and> (\<exists>f \<in> set ?fs. bit f 7) then 1 else 0)"
    using fetch_or_once [of ?c ?fs] t by blast
  then have "winners 7 t = 1" by (simp add: flag_defs)
  with t show ?thesis by blast
qed

end
