(* ===== verification/Output_Kind.thy ===== *)
theory Output_Kind
  imports Prelude
begin

text \<open>
  What is being linked (\<open>libjdxld/src/output_kind.rs\<close>): the four kinds of output, two of them with
  a relocation model, how the kind follows from the arguments, and the questions asked of it.
\<close>

datatype RelocationModel = Fixed | PositionIndependent

datatype OutputKind =
    StaticExecutable RelocationModel
  | DynamicExecutable RelocationModel
  | SharedObject
  | PartialLink

definition output_kind_new :: "RelocationModel \<Rightarrow> bool \<Rightarrow> bool \<Rightarrow> bool \<Rightarrow> bool \<Rightarrow> OutputKind" where
  "output_kind_new model should_output_executable should_output_partial_object has_dynamic_linker has_dynamic =
     (if \<not> should_output_executable then
        (if should_output_partial_object then PartialLink else SharedObject)
      else if has_dynamic_linker \<and> model = PositionIndependent then DynamicExecutable model
      else if has_dynamic then DynamicExecutable model
      else StaticExecutable model)"

fun is_executable :: "OutputKind \<Rightarrow> bool" where
  "is_executable SharedObject = False"
| "is_executable PartialLink = False"
| "is_executable _ = True"

fun is_shared_object :: "OutputKind \<Rightarrow> bool" where
  "is_shared_object SharedObject = True"
| "is_shared_object _ = False"

fun is_partial_link :: "OutputKind \<Rightarrow> bool" where
  "is_partial_link PartialLink = True"
| "is_partial_link _ = False"

fun is_dynamic_executable :: "OutputKind \<Rightarrow> bool" where
  "is_dynamic_executable (DynamicExecutable _) = True"
| "is_dynamic_executable _ = False"

fun is_static_executable :: "OutputKind \<Rightarrow> bool" where
  "is_static_executable (StaticExecutable _) = True"
| "is_static_executable _ = False"

fun is_position_independent :: "OutputKind \<Rightarrow> bool" where
  "is_position_independent SharedObject = True"
| "is_position_independent (DynamicExecutable PositionIndependent) = True"
| "is_position_independent (StaticExecutable PositionIndependent) = True"
| "is_position_independent _ = False"

fun has_fixed_load_address :: "OutputKind \<Rightarrow> bool" where
  "has_fixed_load_address (StaticExecutable Fixed) = True"
| "has_fixed_load_address (DynamicExecutable Fixed) = True"
| "has_fixed_load_address _ = False"

fun needs_dynsym :: "OutputKind \<Rightarrow> bool" where
  "needs_dynsym (DynamicExecutable _) = True"
| "needs_dynsym SharedObject = True"
| "needs_dynsym (StaticExecutable PositionIndependent) = True"
| "needs_dynsym _ = False"

fun needs_dynamic :: "OutputKind \<Rightarrow> bool" where
  "needs_dynamic (StaticExecutable Fixed) = False"
| "needs_dynamic PartialLink = False"
| "needs_dynamic _ = True"

fun should_output_symbol_versions :: "OutputKind \<Rightarrow> bool" where
  "should_output_symbol_versions (DynamicExecutable _) = True"
| "should_output_symbol_versions SharedObject = True"
| "should_output_symbol_versions _ = False"

lemma output_kind_cases:
  obtains "k = StaticExecutable Fixed" | "k = StaticExecutable PositionIndependent"
  | "k = DynamicExecutable Fixed" | "k = DynamicExecutable PositionIndependent"
  | "k = SharedObject" | "k = PartialLink"
  by (cases k) (metis RelocationModel.exhaust)+

lemma load_address_known_or_not:
  "\<not> is_partial_link k \<Longrightarrow> has_fixed_load_address k \<longleftrightarrow> \<not> is_position_independent k"
  by (cases k rule: output_kind_cases) simp_all

end
