(* ===== verification/Relr.thy ===== *)
theory Relr
  imports Prelude
begin

text \<open>
  Packed relative relocations, the section \<open>.relr.dyn\<close> (\<open>RelrBitmap\<close> and \<open>RelrEncoder\<close> of
  \<open>libjdxld/src/elf.rs\<close>, \<open>write_address_relocation\<close> and \<open>write_got_relr_bitmap\<close> of
  \<open>elf_writer.rs\<close>). The same encoder runs twice: during layout on the offsets inside a section,
  to count entries, and during writing on addresses. The lemmas show that the written entries
  decode to the relocated addresses, and that both runs need the same number of entries.
\<close>

section \<open>Model\<close>

definition RELR_ENTRY_SIZE :: u64 where "RELR_ENTRY_SIZE = 8"

definition relr_bitmap_slots :: u64 where
  "relr_bitmap_slots = RELR_ENTRY_SIZE * 8 - 1"

record RelrBitmap =
  range_start :: u64
  range_end :: u64
  encoded_bits :: u64

definition bitmap_after :: "u64 \<Rightarrow> RelrBitmap" where
  "bitmap_after address =
     (let start = address + RELR_ENTRY_SIZE
      in \<lparr>range_start = start, range_end = start + relr_bitmap_slots * RELR_ENTRY_SIZE, encoded_bits = 1\<rparr>)"

definition bitmap_next :: "RelrBitmap \<Rightarrow> RelrBitmap" where
  "bitmap_next b =
     (let address_range = relr_bitmap_slots * RELR_ENTRY_SIZE
      in \<lparr>range_start = range_start b + address_range, range_end = range_end b + address_range,
          encoded_bits = 1\<rparr>)"

text \<open>\<open>insert\<close> returns whether the address fits and the bitmap, which is updated when it does.\<close>

definition bitmap_insert :: "RelrBitmap \<Rightarrow> u64 \<Rightarrow> bool \<times> RelrBitmap" where
  "bitmap_insert b address =
     (let offset = address - range_start b
      in if \<not> (range_start b \<le> address \<and> address < range_end b) \<or> offset mod RELR_ENTRY_SIZE \<noteq> 0 then (False, b)
         else (True, b\<lparr>encoded_bits := encoded_bits b OR shl 1 (unat (offset div RELR_ENTRY_SIZE + 1))\<rparr>))"

datatype RelrState = NoRun | AddressOnly RelrBitmap | WithBitmap RelrBitmap

datatype RelrEntryEncoding = NewEntry | UpdateEntry

fun relr_encode :: "RelrState \<Rightarrow> u64 \<Rightarrow> RelrState \<times> u64 \<times> RelrEntryEncoding" where
  "relr_encode NoRun address = (AddressOnly (bitmap_after address), address, NewEntry)"
| "relr_encode (AddressOnly next_bitmap) address =
     (case bitmap_insert next_bitmap address of
        (True, b) \<Rightarrow> (WithBitmap b, encoded_bits b, NewEntry)
      | (False, _) \<Rightarrow> (AddressOnly (bitmap_after address), address, NewEntry))"
| "relr_encode (WithBitmap bitmap) address =
     (case bitmap_insert bitmap address of
        (True, b) \<Rightarrow> (WithBitmap b, encoded_bits b, UpdateEntry)
      | (False, _) \<Rightarrow>
          (case bitmap_insert (bitmap_next bitmap) address of
             (True, b) \<Rightarrow> (WithBitmap b, encoded_bits b, NewEntry)
           | (False, _) \<Rightarrow> (AddressOnly (bitmap_after address), address, NewEntry)))"

text \<open>
  Writing: a new entry is taken from the free part of the table, an update overwrites the entry
  that was taken last. During layout only the new entries are counted.
\<close>

fun relr_emit :: "u64 list \<Rightarrow> u64 \<times> RelrEntryEncoding \<Rightarrow> u64 list" where
  "relr_emit entries (v, NewEntry) = entries @ [v]"
| "relr_emit entries (v, UpdateEntry) = butlast entries @ [v]"

fun relr_run :: "RelrState \<Rightarrow> u64 list \<Rightarrow> u64 list \<Rightarrow> RelrState \<times> u64 list" where
  "relr_run st entries [] = (st, entries)"
| "relr_run st entries (a # as) =
     (case relr_encode st a of (st', e) \<Rightarrow> relr_run st' (relr_emit entries e) as)"

definition relr_section :: "u64 list \<Rightarrow> u64 list" where
  "relr_section as = snd (relr_run NoRun [] as)"

fun relr_count :: "RelrState \<Rightarrow> u64 list \<Rightarrow> nat" where
  "relr_count st [] = 0"
| "relr_count st (a # as) =
     (case relr_encode st a of (st', _, e) \<Rightarrow> (if e = NewEntry then 1 else 0) + relr_count st' as)"

text \<open>The block of GOT slots that are all relocated: one address, then full bitmaps.\<close>

function got_bitmaps :: "u64 \<Rightarrow> u64 list" where
  "got_bitmaps remaining =
     (if remaining = 0 then []
      else
        let slots = min remaining relr_bitmap_slots;
            bitmap = shl (shl 1 (unat slots) - 1) 1 OR 1
        in bitmap # got_bitmaps (if remaining < relr_bitmap_slots then 0 else remaining - relr_bitmap_slots))"
  by auto
termination
  by (relation "measure unat")
    (auto simp: relr_bitmap_slots_def RELR_ENTRY_SIZE_def word_less_nat_alt not_less word_le_nat_alt
      unat_sub [unfolded word_le_nat_alt] unat_gt_0)

definition write_got_relr_bitmap :: "u64 \<Rightarrow> u64 \<Rightarrow> u64 list" where
  "write_got_relr_bitmap n base = (if base = 0 \<or> n = 0 then [] else base # got_bitmaps (n - 1))"

definition div_ceil :: "u64 \<Rightarrow> u64 \<Rightarrow> u64" where
  "div_ceil a b = (if a mod b = 0 then a div b else a div b + 1)"

definition got_relr_bitmap_relr_count :: "u64 \<Rightarrow> u64" where
  "got_relr_bitmap_relr_count n = (if n = 0 then 0 else 1 + div_ceil (n - 1) relr_bitmap_slots)"

section \<open>What the dynamic loader reads\<close>

text \<open>
  The generic ABI: an even entry is an address; an odd entry is a bitmap for the 63 words that
  follow the last address or bitmap.
\<close>

definition bitmap_addresses :: "u64 \<Rightarrow> u64 \<Rightarrow> u64 list" where
  "bitmap_addresses base w = [base + 8 * of_nat i. i \<leftarrow> [0..<63], bit w (Suc i)]"

fun relr_decode :: "u64 \<Rightarrow> u64 list \<Rightarrow> u64 list" where
  "relr_decode base [] = []"
| "relr_decode base (e # es) =
     (if \<not> bit e 0 then e # relr_decode (e + 8) es
      else bitmap_addresses base e @ relr_decode (base + 504) es)"

section \<open>Bitmaps\<close>

lemma bit_0_odd [simp]: "bit (w :: u64) 0 \<longleftrightarrow> odd w"
  by (simp add: bit_0)

definition set_slot :: "u64 \<Rightarrow> nat \<Rightarrow> u64" where
  "set_slot w i = w OR push_bit (Suc i) 1"

lemma bit_set_slot: "i < 63 \<Longrightarrow> bit (set_slot w i) k \<longleftrightarrow> bit w k \<or> k = Suc i"
  by (auto simp: set_slot_def bit_simps simp del: push_bit_of_1)

definition bitmap_wf :: "RelrBitmap \<Rightarrow> bool" where
  "bitmap_wf b = (range_end b = range_start b + 504 \<and> odd (encoded_bits b))"

lemmas relr_consts = relr_bitmap_slots_def RELR_ENTRY_SIZE_def

lemma bitmap_wf_intros [simp]:
  "bitmap_wf (bitmap_after a)" "bitmap_wf b \<Longrightarrow> bitmap_wf (bitmap_next b)"
  by (simp_all add: bitmap_wf_def bitmap_after_def bitmap_next_def relr_consts Let_def)

lemma window_no_wrap:
  assumes "s \<le> a" "a < s + (504 :: u64)"
  shows "unat (a - s) < 504" "unat a = unat s + unat (a - s)"
proof -
  have "unat s \<le> unat a" "unat a < (unat s + 504) mod 2 ^ 64"
    using assms by (simp_all add: word_le_nat_alt word_less_nat_alt unat_word_ariths)
  moreover have "unat a < 2 ^ 64" using unsigned_less [of a] by simp
  ultimately have "unat a < unat s + 504" by (cases "unat s + 504 < 2 ^ 64") (auto simp: mod_if)
  moreover show "unat a = unat s + unat (a - s)" using assms(1) by (simp add: unat_sub word_le_nat_alt)
  ultimately show "unat (a - s) < 504" by simp
qed

lemma bitmap_insert_True:
  assumes "bitmap_insert b a = (True, b')" "bitmap_wf b"
  obtains i where "i < 63" "a = range_start b + 8 * of_nat i" "unat a = unat (range_start b) + 8 * i"
    "b' = b\<lparr>encoded_bits := set_slot (encoded_bits b) i\<rparr>"
proof -
  define off where "off = a - range_start b"
  have in_range: "range_start b \<le> a" "a < range_start b + 504" and m: "off mod 8 = 0"
    and b': "b' = b\<lparr>encoded_bits := encoded_bits b OR shl 1 (unat (off div 8 + 1))\<rparr>"
    using assms by (auto simp: bitmap_insert_def bitmap_wf_def off_def Let_def relr_consts split: if_splits)
  have lt: "unat off < 504" and ua: "unat a = unat (range_start b) + unat off"
    using window_no_wrap [OF in_range] by (simp_all add: off_def)
  define i where "i = unat off div 8"
  have i: "i < 63" using lt by (simp add: i_def)
  have "unat (off mod 8) = unat off mod 8" by (simp add: unat_mod)
  then have "unat off mod 8 = 0" using m by simp
  then have off_i: "unat off = 8 * i" unfolding i_def by presburger
  then have "of_nat (unat off) = (of_nat (8 * i) :: u64)" by simp
  then have "off = 8 * of_nat i" by simp
  moreover have "unat (off div 8 + 1) = Suc i"
    using i by (simp add: unat_word_ariths unat_div i_def)
  ultimately have "a = range_start b + 8 * of_nat i" "b' = b\<lparr>encoded_bits := set_slot (encoded_bits b) i\<rparr>"
    using i b' by (simp_all add: shl_def set_slot_def off_def algebra_simps)
  then show ?thesis using that [of i] i ua off_i by simp
qed

lemma bitmap_addresses_concat:
  "bitmap_addresses base w = concat (map (\<lambda>i. if bit w (Suc i) then [base + 8 * of_nat i] else []) [0..<63])"
  by (simp add: bitmap_addresses_def)

lemma set_bitmap_addresses: "set (bitmap_addresses base w) = (\<lambda>i. base + 8 * of_nat i) ` {i. i < 63 \<and> bit w (Suc i)}"
  by (auto simp: bitmap_addresses_def)

lemma bitmap_addresses_insert:
  "i < 63 \<Longrightarrow> set (bitmap_addresses base (set_slot w i)) =
     insert (base + 8 * of_nat i) (set (bitmap_addresses base w))"
  unfolding set_bitmap_addresses by (auto simp: bit_set_slot)

lemma bitmap_addresses_snoc:
  assumes "i < 63" "\<And>j. i \<le> j \<Longrightarrow> j < 63 \<Longrightarrow> \<not> bit w (Suc j)"
  shows "bitmap_addresses base (set_slot w i) = bitmap_addresses base w @ [base + 8 * of_nat i]"
proof -
  define f where "f = (\<lambda>(v :: u64) j. if bit v (Suc j) then [base + 8 * of_nat j] else [])"
  have split: "[0..<63] = [0..<i] @ i # [Suc i..<63]"
    using assms(1) by (metis less_imp_le_nat upt_conv_Cons upt_add_eq_append zero_le le_add_diff_inverse)
  have "map (f (set_slot w i)) [0..<i] = map (f w) [0..<i]"
    using assms(1) by (simp add: f_def bit_set_slot)
  moreover have "concat (map (f (set_slot w i)) [Suc i..<63]) = []" "concat (map (f w) [Suc i..<63]) = []"
    using assms by (auto simp: f_def bit_set_slot)
  moreover have "f (set_slot w i) i = [base + 8 * of_nat i]" "f w i = []"
    using assms(1) assms(2) [of i] by (auto simp: f_def bit_set_slot)
  moreover have "bitmap_addresses base v = concat (map (f v) [0..<63])" for v
    unfolding f_def by (rule bitmap_addresses_concat)
  ultimately show ?thesis by (simp only: split map_append list.map concat_append concat.simps append_Nil append_Nil2)
qed

lemma bitmap_addresses_1 [simp]: "bitmap_addresses base 1 = []"
  by (simp add: bitmap_addresses_def)

lemma bitmap_insert_wf:
  "bitmap_wf b \<Longrightarrow> bitmap_wf (b\<lparr>encoded_bits := set_slot (encoded_bits b) i\<rparr>)"
  by (simp add: bitmap_wf_def set_slot_def even_or_iff)

section \<open>Decoding what was written\<close>

fun relr_pos :: "u64 \<Rightarrow> u64 list \<Rightarrow> u64" where
  "relr_pos base [] = base"
| "relr_pos base (e # es) = relr_pos (if even e then e + 8 else base + 504) es"

lemma relr_decode_append:
  "relr_decode base (es @ fs) = relr_decode base es @ relr_decode (relr_pos base es) fs"
  by (induction es arbitrary: base) simp_all

lemma relr_pos_append: "relr_pos base (es @ fs) = relr_pos (relr_pos base es) fs"
  by (induction es arbitrary: base) simp_all

text \<open>
  The state of the encoder after the addresses \<open>as\<close> against the entries written so far. For
  addresses in increasing order nothing is reordered and no bit of the open bitmap is beyond the
  last address.
\<close>

definition relr_inv :: "u64 list \<Rightarrow> RelrState \<Rightarrow> u64 list \<Rightarrow> bool" where
  "relr_inv as st es =
     (set (relr_decode 0 es) = set as \<and> (sorted_wrt (<) as \<longrightarrow> relr_decode 0 es = as) \<and>
      (case st of
         NoRun \<Rightarrow> es = [] \<and> as = []
       | AddressOnly b \<Rightarrow> bitmap_wf b \<and> encoded_bits b = 1 \<and> range_start b = relr_pos 0 es
       | WithBitmap b \<Rightarrow> bitmap_wf b \<and> es \<noteq> [] \<and> last es = encoded_bits b \<and> range_start b = relr_pos 0 (butlast es) \<and>
           as \<noteq> [] \<and> (sorted_wrt (<) as \<longrightarrow>
             (\<forall>j < 63. bit (encoded_bits b) (Suc j) \<longrightarrow> unat (range_start b) + 8 * j \<le> unat (last as)))))"

lemma relr_inv_address:
  assumes "relr_inv as st es" "even a"
  shows "relr_inv (as @ [a]) (AddressOnly (bitmap_after a)) (es @ [a])"
proof -
  have "relr_decode 0 (es @ [a]) = relr_decode 0 es @ [a]" "relr_pos 0 (es @ [a]) = a + 8"
    using assms(2) by (simp_all add: relr_decode_append relr_pos_append)
  then show ?thesis
    using assms(1) by (auto simp: relr_inv_def bitmap_after_def relr_consts Let_def sorted_wrt_append
        bitmap_wf_intros(1) [unfolded bitmap_after_def relr_consts Let_def, simplified])
qed

lemma relr_inv_new_bitmap:
  assumes "relr_inv as st es" "bitmap_wf b" "encoded_bits b = 1" "range_start b = relr_pos 0 es"
    and "bitmap_insert b a = (True, b')"
  shows "relr_inv (as @ [a]) (WithBitmap b') (es @ [encoded_bits b'])"
proof -
  obtain i where i: "i < 63" "a = range_start b + 8 * of_nat i" "unat a = unat (range_start b) + 8 * i"
    and b': "b' = b\<lparr>encoded_bits := set_slot (encoded_bits b) i\<rparr>"
    using bitmap_insert_True [OF assms(5,2)] by blast
  have wf: "bitmap_wf b'" using bitmap_insert_wf [OF assms(2)] by (simp add: b')
  then have "odd (encoded_bits b')" by (simp add: bitmap_wf_def)
  moreover have "bitmap_addresses (range_start b) (encoded_bits b') = [a]"
    using bitmap_addresses_snoc [OF i(1), of 1 "range_start b"] i(2) assms(3) by (simp add: b')
  ultimately have "relr_decode 0 (es @ [encoded_bits b']) = relr_decode 0 es @ [a]"
    using assms(4) by (simp add: relr_decode_append)
  moreover have "j = i" if "bit (encoded_bits b') (Suc j)" for j
    using that assms(3) by (simp add: b' bit_set_slot [OF i(1)])
  ultimately show ?thesis
    using assms(1,4) wf i(3) by (auto simp: relr_inv_def b' sorted_wrt_append)
qed

lemma relr_inv_update:
  assumes "relr_inv as (WithBitmap b) es" "bitmap_insert b a = (True, b')"
  shows "relr_inv (as @ [a]) (WithBitmap b') (butlast es @ [encoded_bits b'])"
proof -
  have wf: "bitmap_wf b" and es: "es \<noteq> []" "last es = encoded_bits b" "range_start b = relr_pos 0 (butlast es)"
    and as: "as \<noteq> []" "set (relr_decode 0 es) = set as" and so: "sorted_wrt (<) as \<Longrightarrow> relr_decode 0 es = as"
    and bits: "\<And>j. sorted_wrt (<) as \<Longrightarrow> j < 63 \<Longrightarrow> bit (encoded_bits b) (Suc j) \<Longrightarrow>
        unat (range_start b) + 8 * j \<le> unat (last as)"
    using assms(1) by (auto simp: relr_inv_def)
  obtain i where i: "i < 63" "a = range_start b + 8 * of_nat i" "unat a = unat (range_start b) + 8 * i"
    and b': "b' = b\<lparr>encoded_bits := set_slot (encoded_bits b) i\<rparr>"
    using bitmap_insert_True [OF assms(2) wf] by blast
  have wf': "bitmap_wf b'" using bitmap_insert_wf [OF wf] by (simp add: b')
  have dec: "relr_decode 0 (butlast es @ [w]) = relr_decode 0 (butlast es) @ bitmap_addresses (range_start b) w"
    if "odd w" for w
    using that es(3) by (simp add: relr_decode_append)
  have es_eq: "es = butlast es @ [encoded_bits b]" using es(1,2) by (metis append_butlast_last_id)
  have odd: "odd (encoded_bits b)" "odd (set_slot (encoded_bits b) i)" using wf wf' by (simp_all add: bitmap_wf_def b')
  have old: "relr_decode 0 es = relr_decode 0 (butlast es) @ bitmap_addresses (range_start b) (encoded_bits b)"
    using dec [OF odd(1)] es_eq by simp
  have last: "unat (last as) < unat a" if "sorted_wrt (<) (as @ [a])"
    using that as(1) by (auto simp: sorted_wrt_append word_less_nat_alt dest: bspec [OF _ last_in_set])
  have "relr_decode 0 (butlast es @ [encoded_bits b']) = as @ [a]" if so': "sorted_wrt (<) (as @ [a])"
  proof -
    have sas: "sorted_wrt (<) as" using so' by (simp add: sorted_wrt_append)
    have "\<not> bit (encoded_bits b) (Suc j)" if "i \<le> j" "j < 63" for j
      using bits [OF sas that(2)] last [OF so'] i(3) that(1) by linarith
    then show ?thesis
      using dec [OF odd(2)] old so [OF sas] bitmap_addresses_snoc [OF i(1)] i(2) by (simp add: b')
  qed
  moreover have "set (relr_decode 0 (butlast es @ [encoded_bits b'])) = set (as @ [a])"
    using dec [OF odd(2)] old as(2) bitmap_addresses_insert [OF i(1)] i(2) by (simp add: b')
  moreover have "unat (range_start b) + 8 * j \<le> unat a"
    if "sorted_wrt (<) (as @ [a])" "j < 63" "bit (encoded_bits b') (Suc j)" for j
    using that bits [of j] last i(3) by (force simp: b' bit_set_slot [OF i(1)] sorted_wrt_append)
  ultimately show ?thesis
    using wf' es(3) unfolding relr_inv_def by (simp add: b' sorted_wrt_append)
qed

lemma relr_inv_step:
  assumes "relr_inv as st es" "even a" "relr_encode st a = (st', e)"
  shows "relr_inv (as @ [a]) st' (relr_emit es e)"
proof (cases st)
  case NoRun
  with assms relr_inv_address [OF assms(1,2)] show ?thesis by auto
next
  case (AddressOnly b)
  then have "bitmap_wf b" "encoded_bits b = 1" "range_start b = relr_pos 0 es"
    using assms(1) by (simp_all add: relr_inv_def)
  from relr_inv_new_bitmap [OF assms(1) this] relr_inv_address [OF assms(1,2)] assms(3) AddressOnly
  show ?thesis by (auto split: prod.splits bool.splits)
next
  case (WithBitmap b)
  have inv: "relr_inv as (WithBitmap b) es" using assms(1) WithBitmap by simp
  have wf: "bitmap_wf b" "es = butlast es @ [encoded_bits b]" "range_start b = relr_pos 0 (butlast es)"
    using inv append_butlast_last_id [of es] by (auto simp: relr_inv_def)
  have "relr_pos 0 (butlast es @ [encoded_bits b]) = range_start b + 504"
    using wf(1,3) by (simp add: relr_pos_append bitmap_wf_def)
  then have "relr_pos 0 es = range_start b + 504" using wf(2) by simp
  then have nxt: "range_start (bitmap_next b) = relr_pos 0 es" "encoded_bits (bitmap_next b) = 1"
    by (simp_all add: bitmap_next_def relr_consts Let_def)
  from relr_inv_new_bitmap [OF assms(1) _ nxt(2,1)] wf(1) relr_inv_update [OF inv]
    relr_inv_address [OF assms(1,2)] assms(3) WithBitmap
  show ?thesis by (auto split: prod.splits bool.splits)
qed

lemma relr_inv_run:
  "relr_inv as st es \<Longrightarrow> \<forall>a \<in> set bs. even a \<Longrightarrow> relr_run st es bs = (st', es') \<Longrightarrow> relr_inv (as @ bs) st' es'"
proof (induction bs arbitrary: as st es)
  case Nil
  then show ?case by simp
next
  case (Cons a bs)
  obtain st1 e where e: "relr_encode st a = (st1, e)" by (cases "relr_encode st a")
  from Cons.IH [OF relr_inv_step [OF Cons.prems(1) _ e]] Cons.prems(2,3) e show ?case by simp
qed

text \<open>
  C25. The packed relative relocations are lossless: for relocated addresses that are even, in
  any order, the dynamic loader decodes the written section to exactly that set of addresses,
  and to the very list when they were given in increasing order.
\<close>

theorem relr_decodes:
  assumes "\<forall>a \<in> set as. even a"
  shows "set (relr_decode 0 (relr_section as)) = set as \<and>
    (sorted_wrt (<) as \<longrightarrow> relr_decode 0 (relr_section as) = as)"
proof -
  have "relr_inv [] NoRun []" by (simp add: relr_inv_def)
  moreover obtain st es where run: "relr_run NoRun [] as = (st, es)" by (cases "relr_run NoRun [] as")
  ultimately have "relr_inv as st es" using relr_inv_run [OF _ assms run, of "[]"] by simp
  then show ?thesis by (simp add: relr_inv_def relr_section_def run)
qed

theorem relr_decodes_witness:
  "relr_section [0x1000, 0x1008, 0x1018, 0x1200, 0x2002] = [0x1000, 0xb, 3, 0x2002] \<and>
   relr_decode 0 [0x1000, 0xb, 3, 0x2002] = [0x1000, 0x1008, 0x1018, 0x1200, 0x2002]"
proof -
  let ?as = "[0x1000, 0x1008, 0x1018, 0x1200, 0x2002] :: u64 list"
  have "relr_section ?as = [0x1000, 0xb, 3, 0x2002]" by code_simp
  moreover have "\<forall>a \<in> set ?as. even a" "sorted_wrt (<) ?as" by simp_all
  ultimately show ?thesis using relr_decodes [of ?as] by simp
qed

section \<open>Layout and writing agree on the number of entries\<close>

lemma relr_run_length:
  "(case st of WithBitmap _ \<Rightarrow> es \<noteq> [] | _ \<Rightarrow> True) \<Longrightarrow>
     length (snd (relr_run st es as)) = length es + relr_count st as"
proof (induction as arbitrary: st es)
  case Nil
  then show ?case by simp
next
  case (Cons a as)
  obtain st' v e where enc: "relr_encode st a = (st', v, e)" by (cases "relr_encode st a") auto
  have "e = UpdateEntry \<Longrightarrow> es \<noteq> []"
    using enc Cons.prems by (cases st) (auto split: prod.splits bool.splits)
  then have "length (relr_emit es (v, e)) = length es + (if e = NewEntry then 1 else 0)" "relr_emit es (v, e) \<noteq> []"
    by (cases e; simp)+
  then show ?case using Cons.IH [where st = st' and es = "relr_emit es (v, e)"] enc by (cases st') simp_all
qed

definition shift_bitmap :: "u64 \<Rightarrow> RelrBitmap \<Rightarrow> RelrBitmap" where
  "shift_bitmap base b = b\<lparr>range_start := base + range_start b, range_end := base + range_end b\<rparr>"

fun shift_state :: "u64 \<Rightarrow> RelrState \<Rightarrow> RelrState" where
  "shift_state base NoRun = NoRun"
| "shift_state base (AddressOnly b) = AddressOnly (shift_bitmap base b)"
| "shift_state base (WithBitmap b) = WithBitmap (shift_bitmap base b)"

text \<open>The window of a bitmap, and for an open bitmap also the next one, ends below the top.\<close>

fun state_below :: "u64 \<Rightarrow> RelrState \<Rightarrow> bool" where
  "state_below base NoRun = True"
| "state_below base (AddressOnly b) = (bitmap_wf b \<and> unat base + unat (range_start b) + 504 < 2 ^ 64)"
| "state_below base (WithBitmap b) = (bitmap_wf b \<and> unat base + unat (range_start b) + 1008 < 2 ^ 64)"

lemma unat_plus_below: "unat x + unat y < 2 ^ 64 \<Longrightarrow> unat (x + y :: u64) = unat x + unat y"
  by (simp add: unat_word_ariths)

lemma bitmap_insert_shift:
  assumes "bitmap_wf b" "unat base + unat (range_start b) + 504 < 2 ^ 64" "unat base + unat a < 2 ^ 64"
  shows "bitmap_insert (shift_bitmap base b) (base + a) =
    (case bitmap_insert b a of (f, b') \<Rightarrow> (f, shift_bitmap base b'))"
proof -
  have e: "range_end b = range_start b + 504" using assms(1) by (simp add: bitmap_wf_def)
  have "unat (range_start b + 504) = unat (range_start b) + 504" using assms(2) by (simp add: unat_plus_below)
  moreover have "unat (base + (range_start b + 504)) = unat base + (unat (range_start b) + 504)"
    using assms(2) by (simp add: unat_plus_below)
  moreover have "unat (base + range_start b) = unat base + unat (range_start b)" "unat (base + a) = unat base + unat a"
    using assms by (simp_all add: unat_plus_below)
  ultimately have "base + range_start b \<le> base + a \<longleftrightarrow> range_start b \<le> a"
    "base + a < base + range_end b \<longleftrightarrow> a < range_end b"
    by (simp_all add: e word_le_nat_alt word_less_nat_alt)
  then show ?thesis by (simp add: bitmap_insert_def shift_bitmap_def Let_def)
qed

lemma shift_after: "shift_bitmap base (bitmap_after a) = bitmap_after (base + a)"
  by (simp add: shift_bitmap_def bitmap_after_def Let_def algebra_simps)

lemma shift_next: "shift_bitmap base (bitmap_next b) = bitmap_next (shift_bitmap base b)"
  by (simp add: shift_bitmap_def bitmap_next_def Let_def algebra_simps)

lemma shift_encoded [simp]: "encoded_bits (shift_bitmap base b) = encoded_bits b"
  by (simp add: shift_bitmap_def)

lemma state_below_after:
  "unat base + unat a + 1016 < 2 ^ 64 \<Longrightarrow> state_below base (AddressOnly (bitmap_after a))"
  by (simp, simp add: bitmap_after_def relr_consts Let_def unat_plus_below)

lemma state_below_insert:
  assumes "bitmap_insert b a = (True, b')" "bitmap_wf b" "unat base + unat a + 1016 < 2 ^ 64"
  shows "state_below base (WithBitmap b')"
proof -
  obtain i where "unat a = unat (range_start b) + 8 * i" "b' = b\<lparr>encoded_bits := set_slot (encoded_bits b) i\<rparr>"
    using bitmap_insert_True [OF assms(1,2)] by blast
  with assms(3) bitmap_insert_wf [OF assms(2)] show ?thesis by simp
qed

lemma bitmap_next_below:
  assumes "unat base + unat (range_start b) + 1008 < 2 ^ 64"
  shows "unat base + unat (range_start (bitmap_next b)) + 504 < 2 ^ 64"
  using assms by (simp add: bitmap_next_def relr_consts Let_def unat_plus_below)

lemma relr_encode_shift:
  assumes "state_below base st" "unat base + unat a + 1016 < 2 ^ 64" "relr_encode st a = (st', v, e)"
  shows "\<exists>v'. relr_encode (shift_state base st) (base + a) = (shift_state base st', v', e) \<and> state_below base st'"
proof (cases st)
  case NoRun
  with assms(2,3) show ?thesis by (auto simp: shift_after simp del: state_below.simps intro: state_below_after)
next
  case (AddressOnly b)
  then have "bitmap_insert (shift_bitmap base b) (base + a) = (case bitmap_insert b a of (f, b') \<Rightarrow> (f, shift_bitmap base b'))"
    using assms(1,2) by (intro bitmap_insert_shift) auto
  then show ?thesis
    using assms(1,3) AddressOnly state_below_insert [OF _ _ assms(2), of b] state_below_after [OF assms(2)]
    by (auto simp: shift_after split: prod.splits bool.splits)
next
  case (WithBitmap b)
  then have wf: "bitmap_wf b" and lo: "unat base + unat (range_start b) + 1008 < 2 ^ 64" using assms(1) by auto
  have "bitmap_insert (shift_bitmap base b) (base + a) = (case bitmap_insert b a of (f, b') \<Rightarrow> (f, shift_bitmap base b'))"
    "bitmap_insert (shift_bitmap base (bitmap_next b)) (base + a) =
       (case bitmap_insert (bitmap_next b) a of (f, b') \<Rightarrow> (f, shift_bitmap base b'))"
    using wf lo assms(2) bitmap_next_below [OF lo] by (auto intro!: bitmap_insert_shift)
  then show ?thesis
    using wf assms(3) WithBitmap state_below_insert [OF _ _ assms(2)] state_below_after [OF assms(2)]
    by (auto simp: shift_after shift_next [symmetric] split: prod.splits bool.splits)
qed

lemma relr_count_shift:
  "state_below base st \<Longrightarrow> \<forall>a \<in> set as. unat base + unat a + 1016 < 2 ^ 64 \<Longrightarrow>
     relr_count (shift_state base st) (map ((+) base) as) = relr_count st as"
proof (induction as arbitrary: st)
  case Nil
  then show ?case by simp
next
  case (Cons a as)
  obtain st' v e where enc: "relr_encode st a = (st', v, e)" by (cases "relr_encode st a") auto
  obtain v' where "relr_encode (shift_state base st) (base + a) = (shift_state base st', v', e)" "state_below base st'"
    using relr_encode_shift [OF Cons.prems(1) _ enc] Cons.prems(2) by auto
  with Cons enc show ?case by simp
qed

text \<open>
  C26. Layout reserves exactly the space that writing needs: running the encoder over the offsets
  of the relocations inside a section counts as many entries as are written when it runs over
  their addresses, wherever the section ends up (below the very top of the address space).
\<close>

theorem relr_layout_exact:
  assumes "\<forall>o' \<in> set offsets. unat section_address + unat o' + 1016 < 2 ^ 64"
  shows "length (relr_section (map ((+) section_address) offsets)) = relr_count NoRun offsets"
  using relr_run_length [where st = NoRun and es = "[]"] relr_count_shift [of section_address NoRun offsets] assms
  by (simp add: relr_section_def)

theorem relr_layout_exact_witness:
  "length (relr_section (map ((+) 0x10000) [0, 8, 0x200, 0x1000])) = 4 \<and> relr_count NoRun [0, 8, 0x200, 0x1000] = 4"
proof -
  have "relr_count NoRun [0, 8, 0x200, 0x1000] = 4" by code_simp
  moreover have "\<forall>o' \<in> set [0, 8, 0x200, 0x1000]. unat (0x10000 :: u64) + unat (o' :: u64) + 1016 < 2 ^ 64" by simp
  ultimately show ?thesis using relr_layout_exact by metis
qed

section \<open>The relocated block of the GOT\<close>

lemma bit_full_bitmap:
  "s \<le> 63 \<Longrightarrow> bit (shl (shl 1 s - 1) 1 OR 1 :: u64) k \<longleftrightarrow> k \<le> s"
proof -
  assume s: "s \<le> 63"
  then have "shl 1 s - 1 = (mask s :: u64)" by (simp add: shl_def mask_eq_decr_exp)
  then have "shl (shl 1 s - 1) 1 OR 1 = (push_bit 1 (mask s) OR 1 :: u64)" by (simp only: shl_def) simp
  with s show ?thesis by (auto simp only: bit_or_iff bit_push_bit_iff bit_mask_iff bit_1_iff) auto
qed

lemma unat_u64_less: "unat (w :: u64) < 2 ^ 64"
  using unsigned_less [of w] by simp

lemma bitmap_addresses_full:
  assumes "s \<le> 63"
  shows "bitmap_addresses base (shl (shl 1 s - 1) 1 OR 1) = map (\<lambda>i. base + 8 * of_nat i) [0..<s]"
proof -
  have split: "[0..<63] = [0..<s] @ [s..<63]" using assms upt_add_eq_append [of 0 s "63 - s"] by simp
  have "map (\<lambda>i. if Suc i \<le> s then [base + 8 * of_nat i] else []) [0..<s] = map (\<lambda>i. [base + 8 * of_nat i]) [0..<s]"
    "concat (map (\<lambda>i. if Suc i \<le> s then [base + 8 * of_nat i] else []) [s..<63]) = []"
    by auto
  moreover have "bitmap_addresses base (shl (shl 1 s - 1) 1 OR 1) =
      concat (map (\<lambda>i. if Suc i \<le> s then [base + 8 * of_nat i] else []) [0..<63])"
    unfolding bitmap_addresses_concat bit_full_bitmap [OF assms] ..
  ultimately show ?thesis
    by (simp only: split map_append concat_append append_Nil2) (simp add: concat_map_singleton)
qed

lemma slots_63: "relr_bitmap_slots = 63"
  by (simp add: relr_consts)

declare got_bitmaps.simps [simp del]

lemma got_bitmaps_spec:
  "relr_decode base (got_bitmaps r) = map (\<lambda>i. base + 8 * of_nat i) [0..<unat r] \<and>
   length (got_bitmaps r) = (unat r + 62) div 63"
proof (induction r arbitrary: base rule: got_bitmaps.induct)
  case (1 r)
  define s where "s = unat (min r 63)"
  define r' where "r' = (if r < 63 then 0 else r - 63)"
  show ?case
  proof (cases "r = 0")
    case True
    then show ?thesis by (simp add: got_bitmaps.simps)
  next
    case False
    have IH: "relr_decode base (got_bitmaps r') = map (\<lambda>i. base + 8 * of_nat i) [0..<unat r']"
      "length (got_bitmaps r') = (unat r' + 62) div 63" for base
      using 1 [OF False refl refl] unfolding slots_63 r'_def by auto
    have s: "s \<le> 63" "0 < s" and r: "unat r = s + unat r'" "unat r' \<noteq> 0 \<Longrightarrow> s = 63"
      using False by (auto simp: s_def r'_def min_def word_le_nat_alt word_less_nat_alt unat_sub unat_gt_0
          split: if_splits)
    have gb: "got_bitmaps r = (shl (shl 1 s - 1) 1 OR 1) # got_bitmaps r'"
      using False by (subst got_bitmaps.simps) (simp add: slots_63 s_def r'_def Let_def)
    have "bit (shl (shl 1 s - 1) 1 OR 1 :: u64) 0" using bit_full_bitmap [OF s(1), of 0] by simp
    then have "relr_decode base (got_bitmaps r) =
        map (\<lambda>i. base + 8 * of_nat i) [0..<s] @ map (\<lambda>i. base + 504 + 8 * of_nat i) [0..<unat r']"
      unfolding gb relr_decode.simps bitmap_addresses_full [OF s(1)] IH by simp
    also have "map (\<lambda>i. base + 504 + 8 * of_nat i) [0..<unat r'] = map (\<lambda>i. base + 8 * of_nat i) [s..<s + unat r']"
    proof (cases "unat r' = 0")
      case False
      with r(2) have "s = 63" by simp
      then show ?thesis by (intro nth_equalityI) (auto simp: algebra_simps)
    qed simp
    also have "map (\<lambda>i. base + 8 * of_nat i) [0..<s] @ \<dots> = map (\<lambda>i. base + 8 * of_nat i) [0..<unat r]"
      using upt_add_eq_append [of 0 s "unat r'"] r(1) by (simp flip: map_append)
    finally have dec: "relr_decode base (got_bitmaps r) = map (\<lambda>i. base + 8 * of_nat i) [0..<unat r]" .
    have "length (got_bitmaps r) = (unat r + 62) div 63"
      using IH(2) r s unfolding gb by (cases "unat r' = 0") (auto simp: div_if)
    with dec show ?thesis by blast
  qed
qed

lemma nat_div_ceil: "(m + 62) div 63 = (if m mod 63 = 0 then m div 63 else m div 63 + 1 :: nat)"
proof -
  define q t where "q = m div 63" and "t = m mod 63"
  have m: "m = 63 * q + t" "t < 63" by (simp_all add: q_def t_def)
  then have "(m + 62) div 63 = q + (t + 62) div 63" by simp
  also have "(t + 62) div 63 = (if t = 0 then 0 else 1)" using m(2) by (simp add: div_nat_eqI)
  finally show ?thesis by (simp add: q_def t_def)
qed

lemma div_ceil_63: "unat (div_ceil r 63) = (unat r + 62) div 63"
proof -
  have "unat (r mod 63) = unat r mod 63" "unat (r div 63) = unat r div 63" by (simp_all add: unat_mod unat_div)
  moreover have "r mod 63 = 0 \<longleftrightarrow> unat r mod 63 = 0" by (metis calculation(1) unat_eq_0)
  moreover have "unat (r div 63 + 1) = unat r div 63 + 1"
    using calculation(2) unat_u64_less [of r] by (simp add: unat_word_ariths)
  ultimately show ?thesis unfolding div_ceil_def nat_div_ceil by (simp only: split: if_splits) simp
qed

text \<open>
  C27. The block of relocated GOT slots: the number of entries reserved for \<open>n\<close> slots is the number
  written, and the loader decodes them to precisely the \<open>n\<close> slots from the base of the block.
\<close>

theorem got_relr_block:
  assumes "0 < n" "base \<noteq> 0" "even base"
  shows "length (write_got_relr_bitmap n base) = unat (got_relr_bitmap_relr_count n) \<and>
    relr_decode 0 (write_got_relr_bitmap n base) = map (\<lambda>i. base + 8 * of_nat i) [0..<unat n]"
proof -
  have n: "n \<noteq> 0" "unat n = Suc (unat (n - 1))" using assms(1) by (auto simp: unat_minus_one unat_gt_0)
  have "(unat (n - 1) + 62) div 63 + 1 < 2 ^ 64" using unat_u64_less [of "n - 1"] by simp
  then have "unat (got_relr_bitmap_relr_count n) = Suc ((unat (n - 1) + 62) div 63)"
    using n(1) div_ceil_63 [of "n - 1"] by (simp add: got_relr_bitmap_relr_count_def slots_63 unat_word_ariths)
  moreover have "map (\<lambda>i. base + 8 + 8 * of_nat i) [0..<unat (n - 1)] = map (\<lambda>i. base + 8 * of_nat i) [1..<unat n]"
  proof -
    have "[1..<unat n] = map Suc [0..<unat (n - 1)]" unfolding n(2) map_Suc_upt by simp
    then show ?thesis by (simp add: algebra_simps)
  qed
  moreover have "map (\<lambda>i. base + 8 * of_nat i) [0..<unat n] = base # map (\<lambda>i. base + 8 * of_nat i) [1..<unat n]"
    using n(2) by (subst upt_conv_Cons) auto
  moreover have "write_got_relr_bitmap n base = base # got_bitmaps (n - 1)"
    using n(1) assms(2) by (simp add: write_got_relr_bitmap_def)
  ultimately show ?thesis
    using assms(3) got_bitmaps_spec [of "base + 8" "n - 1"] by simp
qed

theorem got_relr_block_witness:
  "write_got_relr_bitmap 3 0x4000 = [0x4000, 7] \<and> unat (got_relr_bitmap_relr_count 3) = 2 \<and>
   relr_decode 0 [0x4000, 7] = [0x4000, 0x4008, 0x4010]"
proof -
  have w: "write_got_relr_bitmap 3 0x4000 = [0x4000, 7]"
    by (simp add: write_got_relr_bitmap_def got_bitmaps.simps slots_63 shl_def Let_def)
  have "even (0x4000 :: u64)" by simp
  then show ?thesis using got_relr_block [of 3 "0x4000"] w by (simp add: upt_rec)
qed

end
