(* ===== verification/Platform.thy ===== *)
theory Platform
  imports Prelude
begin

text \<open>
  Definitions that the architectures of the linker proper share (\<open>libjdxld/src/elf.rs\<close>,
  \<open>platform.rs\<close>): the size of an entry of the procedure linkage table and the errors of writing
  one, and the classes of GNU properties.
\<close>

definition PLT_ENTRY_SIZE :: u64 where "PLT_ENTRY_SIZE = 0x10"

datatype plt_error = PltTooFar | PltUnimplemented

text \<open>\<open>dest.copy_from_slice(template)\<close> panics unless the lengths agree.\<close>

definition copy_template :: "bytes \<Rightarrow> bytes \<Rightarrow> bytes option" where
  "copy_template template dest = (if length dest = length template then Some template else None)"

lemma copy_template_Some [simp]: "copy_template t d = Some r \<longleftrightarrow> length d = length t \<and> r = t"
  by (auto simp: copy_template_def)

datatype PropertyClass = PropertyOr | PropertyAnd | PropertyAndOr

end
