(* ===== verification/Table_Writer.thy ===== *)
theory Table_Writer
  imports Value_Flags Output_Kind Relr Dyn_Reloc Platform
begin

text \<open>
  The writer of the linker-made tables (\<open>struct TableWriter\<close> of \<open>libjdxld/src/elf_writer.rs\<close>): the
  GOT and the part of it that is relocated by \<open>.relr.dyn\<close>, the PLT entries, and the dynamic
  relocations. Each table is a slice of the output file whose length was fixed by layout; entries
  are split off its front one by one, and running out is an error.
\<close>

section \<open>State\<close>

datatype Part = GotPart | GotRelrPart | PltGotPart | RelaPltPart | RelaDynRelativePart | RelaDynGeneralPart | RelrDynPart

datatype table_error =
    InsufficientAllocation Part
  | MissingDynamicSymbolIndex
  | MissingGotAddress
  | MissingPltAddress
  | GotTlsOffsetOutsideTls u64
  | StaticTlsDesc
  | ExpectedAddress ValueFlags
  | RelrInternal
  | PltError plt_error

text \<open>A table: the entries split off so far, and how many are left.\<close>

record 'a table =
  taken :: "'a list"
  left :: nat

record Rela =
  rela_offset :: u64
  rela_addend :: int
  rela_sym :: u32
  rela_type :: "rtype option"

record TableWriter =
  tw_output_kind :: OutputKind
  tw_got :: "u64 table"
  tw_got_relr :: "u64 table"
  tw_plt_got :: "bytes table"
  tw_rela_plt :: "Rela table"
  tw_tls_start :: u64
  tw_tls_end :: u64
  tw_rela_dyn_relative :: "Rela table"
  tw_rela_dyn_general :: "Rela table"
  tw_relr_dyn :: "u64 table option"
  tw_current_relr_dyn :: "nat option"
  tw_relr_writer :: RelrState

text \<open>What the architecture provides: the numbers of dynamic relocations, the PLT entry, the TLS bases.\<close>

record arch_tables =
  get_dynamic_relocation_type :: "DynamicRelocationKind \<Rightarrow> rtype option"
  write_plt_entry :: "bytes \<Rightarrow> u64 \<Rightarrow> u64 \<Rightarrow> (plt_error, bytes) outcome"
  get_dtv_offset :: u64
  tp_offset_start :: u64

record Resolution =
  raw_value :: u64
  dynamic_symbol_index :: "u32 option"
  res_flags :: ValueFlags
  got_address :: "u64 option"
  plt_address :: "u64 option"

definition CURRENT_EXE_TLS_MOD :: u64 where "CURRENT_EXE_TLS_MOD = 1"
definition GOT_ENTRY_SIZE :: u64 where "GOT_ENTRY_SIZE = 8"

section \<open>Taking entries\<close>

definition take_entry :: "Part \<Rightarrow> 'a \<Rightarrow> 'a table \<Rightarrow> (table_error, 'a table) outcome" where
  "take_entry p v t =
     (if left t = 0 then Error (InsufficientAllocation p)
      else Ok \<lparr>taken = taken t @ [v], left = left t - 1\<rparr>)"

text \<open>Storing into an entry that was taken: here always the last one taken.\<close>

definition set_last :: "'a \<Rightarrow> 'a table \<Rightarrow> 'a table" where
  "set_last v t = t\<lparr>taken := (taken t)[length (taken t) - 1 := v]\<rparr>"

definition take_next_got_entry :: "TableWriter \<Rightarrow> (table_error, TableWriter) outcome" where
  "take_next_got_entry tw = bind_outcome (take_entry GotPart 0 (tw_got tw)) (\<lambda>t. Ok (tw\<lparr>tw_got := t\<rparr>))"

definition take_next_got_relr_entry :: "TableWriter \<Rightarrow> (table_error, TableWriter) outcome" where
  "take_next_got_relr_entry tw =
     bind_outcome (take_entry GotRelrPart 0 (tw_got_relr tw)) (\<lambda>t. Ok (tw\<lparr>tw_got_relr := t\<rparr>))"

definition set_got_entry :: "u64 \<Rightarrow> TableWriter \<Rightarrow> TableWriter" where
  "set_got_entry v tw = tw\<lparr>tw_got := set_last v (tw_got tw)\<rparr>"

definition set_got_relr_entry :: "u64 \<Rightarrow> TableWriter \<Rightarrow> TableWriter" where
  "set_got_relr_entry v tw = tw\<lparr>tw_got_relr := set_last v (tw_got_relr tw)\<rparr>"

text \<open>One relocation of the general part of \<open>.rela.dyn\<close>.\<close>

definition write_rela_dyn_general :: "u64 \<Rightarrow> u32 \<Rightarrow> rtype option \<Rightarrow> int \<Rightarrow> TableWriter \<Rightarrow> (table_error, TableWriter) outcome" where
  "write_rela_dyn_general place dynsym r_type addend tw =
     bind_outcome
       (take_entry RelaDynGeneralPart \<lparr>rela_offset = place, rela_addend = addend, rela_sym = dynsym, rela_type = r_type\<rparr>
          (tw_rela_dyn_general tw))
       (\<lambda>t. Ok (tw\<lparr>tw_rela_dyn_general := t\<rparr>))"

definition write_dynamic_symbol_relocation ::
    "arch_tables \<Rightarrow> u64 \<Rightarrow> int \<Rightarrow> u32 \<Rightarrow> DynamicRelocationKind \<Rightarrow> TableWriter \<Rightarrow> (table_error, TableWriter) outcome" where
  "write_dynamic_symbol_relocation A place addend symbol_index kind tw =
     write_rela_dyn_general place symbol_index (get_dynamic_relocation_type A kind) addend tw"

definition write_dtpmod_relocation :: "arch_tables \<Rightarrow> u64 \<Rightarrow> u32 \<Rightarrow> TableWriter \<Rightarrow> (table_error, TableWriter) outcome" where
  "write_dtpmod_relocation A place dynsym tw =
     write_rela_dyn_general place dynsym (get_dynamic_relocation_type A DynDtpMod) 0 tw"

definition write_tls_descriptor_relocation ::
    "arch_tables \<Rightarrow> u64 \<Rightarrow> u32 \<Rightarrow> int \<Rightarrow> TableWriter \<Rightarrow> (table_error, TableWriter) outcome" where
  "write_tls_descriptor_relocation A place dynsym addend tw =
     write_rela_dyn_general place dynsym (get_dynamic_relocation_type A DynTlsDesc) addend tw"

definition write_dtpoff_relocation :: "arch_tables \<Rightarrow> u64 \<Rightarrow> u32 \<Rightarrow> TableWriter \<Rightarrow> (table_error, TableWriter) outcome" where
  "write_dtpoff_relocation A place dynsym tw =
     write_rela_dyn_general place dynsym (get_dynamic_relocation_type A DynDtpOff) 0 tw"

definition write_tpoff_relocation ::
    "arch_tables \<Rightarrow> u64 \<Rightarrow> u32 \<Rightarrow> int \<Rightarrow> TableWriter \<Rightarrow> (table_error, TableWriter) outcome" where
  "write_tpoff_relocation A place dynsym addend tw =
     write_rela_dyn_general place dynsym (get_dynamic_relocation_type A DynTpOff) addend tw"

definition write_ifunc_relocation_for_data ::
    "arch_tables \<Rightarrow> u64 \<Rightarrow> int \<Rightarrow> TableWriter \<Rightarrow> (table_error, TableWriter) outcome" where
  "write_ifunc_relocation_for_data A place resolver_address tw =
     write_rela_dyn_general place 0 (get_dynamic_relocation_type A DynIrelative) resolver_address tw"

text \<open>\<open>rela_plt.split_off_first_mut().unwrap()\<close> panics when the table is exhausted.\<close>

definition write_ifunc_relocation :: "arch_tables \<Rightarrow> Resolution \<Rightarrow> TableWriter \<Rightarrow> (table_error, TableWriter) outcome" where
  "write_ifunc_relocation A res tw =
     (if left (tw_rela_plt tw) = 0 then Panicked
      else
        case got_address res of
          None \<Rightarrow> Error MissingGotAddress
        | Some ga \<Rightarrow>
            bind_outcome
              (take_entry RelaPltPart
                 \<lparr>rela_offset = ga, rela_addend = sint (raw_value res), rela_sym = 0,
                  rela_type = get_dynamic_relocation_type A DynIrelative\<rparr> (tw_rela_plt tw))
              (\<lambda>t. Ok (tw\<lparr>tw_rela_plt := t\<rparr>)))"

section \<open>Relative relocations\<close>

definition write_relative_rela :: "arch_tables \<Rightarrow> u64 \<Rightarrow> u64 \<Rightarrow> TableWriter \<Rightarrow> (table_error, TableWriter \<times> u64) outcome" where
  "write_relative_rela A place relative_address tw =
     bind_outcome
       (take_entry RelaDynRelativePart
          \<lparr>rela_offset = place, rela_addend = sint relative_address, rela_sym = 0,
           rela_type = get_dynamic_relocation_type A DynRelative\<rparr> (tw_rela_dyn_relative tw))
       (\<lambda>t. Ok (tw\<lparr>tw_rela_dyn_relative := t\<rparr>, 0))"

definition write_relr_entry_flat :: "arch_tables \<Rightarrow> u64 \<Rightarrow> u64 \<Rightarrow> TableWriter \<Rightarrow> (table_error, TableWriter \<times> u64) outcome" where
  "write_relr_entry_flat A place relative_address tw =
     (case tw_relr_dyn tw of
        Some relr \<Rightarrow>
          if place mod 2 = 0 then
            bind_outcome (take_entry RelrDynPart place relr)
              (\<lambda>t. Ok (tw\<lparr>tw_relr_dyn := Some t\<rparr>, relative_address))
          else write_relative_rela A place relative_address tw
      | None \<Rightarrow> write_relative_rela A place relative_address tw)"

definition write_address_relocation :: "arch_tables \<Rightarrow> u64 \<Rightarrow> u64 \<Rightarrow> TableWriter \<Rightarrow> (table_error, TableWriter \<times> u64) outcome" where
  "write_address_relocation A place relative_address tw =
     (case tw_relr_dyn tw of
        Some relr \<Rightarrow>
          if place mod 2 = 0 then
            (case relr_encode (tw_relr_writer tw) place of
               (st, v, NewEntry) \<Rightarrow>
                 bind_outcome (take_entry RelrDynPart v relr)
                   (\<lambda>t. Ok (tw\<lparr>tw_relr_dyn := Some t, tw_relr_writer := st,
                                tw_current_relr_dyn := Some (length (taken relr))\<rparr>, relative_address))
             | (st, v, UpdateEntry) \<Rightarrow>
                 (case tw_current_relr_dyn tw of
                    None \<Rightarrow> Error RelrInternal
                  | Some i \<Rightarrow>
                      Ok (tw\<lparr>tw_relr_dyn := Some (relr\<lparr>taken := (taken relr)[i := v]\<rparr>), tw_relr_writer := st\<rparr>,
                          relative_address)))
          else write_relative_rela A place relative_address tw
      | None \<Rightarrow> write_relative_rela A place relative_address tw)"

definition reset_relr_run :: "TableWriter \<Rightarrow> TableWriter" where
  "reset_relr_run tw = tw\<lparr>tw_relr_writer := NoRun, tw_current_relr_dyn := None\<rparr>"

section \<open>The GOT and PLT entries of a symbol\<close>

definition is_got_relr_eligible :: "ValueFlags \<Rightarrow> bool \<Rightarrow> bool \<Rightarrow> OutputKind \<Rightarrow> bool" where
  "is_got_relr_eligible flags has_dynamic_symbol relr_enabled output_kind =
     (relr_enabled \<and> \<not> is_ifunc flags \<and> \<not> has_dynamic_symbol \<and> has_link_time_address flags \<and>
      \<not> is_downgraded_to_local flags \<and> is_position_independent output_kind)"

definition require_dynamic_symbol_index :: "Resolution \<Rightarrow> (table_error, u32) outcome" where
  "require_dynamic_symbol_index res =
     (case dynamic_symbol_index res of None \<Rightarrow> Error MissingDynamicSymbolIndex | Some i \<Rightarrow> Ok i)"

definition res_address :: "Resolution \<Rightarrow> (table_error, u64) outcome" where
  "res_address res =
     (if \<not> has_link_time_address (res_flags res) then Error (ExpectedAddress (res_flags res)) else Ok (raw_value res))"

definition process_got_tls_offset :: "arch_tables \<Rightarrow> Resolution \<Rightarrow> u64 \<Rightarrow> TableWriter \<Rightarrow> (table_error, TableWriter) outcome" where
  "process_got_tls_offset A res ga tw =
     bind_outcome (take_next_got_entry tw) (\<lambda>tw.
       let flags = res_flags res; address = raw_value res
       in if is_dynamic flags \<or> needs_export_dynamic flags \<and> is_interposable flags then
            bind_outcome (require_dynamic_symbol_index res) (\<lambda>i.
              write_tpoff_relocation A ga i 0 (set_got_entry 0 tw))
          else if address = 0 then Ok (set_got_entry 0 tw)
          else if \<not> (tw_tls_start tw \<le> address \<and> address \<le> tw_tls_end tw) then Error (GotTlsOffsetOutsideTls address)
          else if is_executable (tw_output_kind tw) then Ok (set_got_entry (address - tp_offset_start A) tw)
          else write_tpoff_relocation A ga 0 (sint (address - tw_tls_start tw)) tw)"

definition process_got_tls_mod_and_offset ::
    "arch_tables \<Rightarrow> Resolution \<Rightarrow> u64 \<Rightarrow> TableWriter \<Rightarrow> (table_error, TableWriter) outcome" where
  "process_got_tls_mod_and_offset A res ga tw =
     bind_outcome (take_next_got_entry tw) (\<lambda>tw.
     bind_outcome
       (if is_executable (tw_output_kind tw) \<and> \<not> is_dynamic (res_flags res) then
          Ok (set_got_entry CURRENT_EXE_TLS_MOD tw)
        else
          write_dtpmod_relocation A ga (case dynamic_symbol_index res of None \<Rightarrow> 0 | Some i \<Rightarrow> i)
            (set_got_entry 0 tw)) (\<lambda>tw.
     bind_outcome (take_next_got_entry tw) (\<lambda>tw.
       case dynamic_symbol_index res of
         Some i \<Rightarrow>
           bind_outcome
             (if is_interposable (res_flags res) then write_dtpoff_relocation A (ga + GOT_ENTRY_SIZE) i tw else Ok tw)
             (\<lambda>tw. Ok (set_got_entry 0 tw))
       | None \<Rightarrow>
           bind_outcome (res_address res) (\<lambda>address.
             Ok (set_got_entry (address - tw_tls_start tw - get_dtv_offset A) tw)))))"

definition process_got_tls_descriptor ::
    "arch_tables \<Rightarrow> Resolution \<Rightarrow> u64 \<Rightarrow> TableWriter \<Rightarrow> (table_error, TableWriter) outcome" where
  "process_got_tls_descriptor A res ga tw =
     bind_outcome (take_next_got_entry tw) (\<lambda>tw.
     bind_outcome (take_next_got_entry (set_got_entry 0 tw)) (\<lambda>tw.
     bind_outcome (ensure (\<not> is_static_executable (tw_output_kind tw)) StaticTlsDesc) (\<lambda>_.
       write_tls_descriptor_relocation A ga
         (case dynamic_symbol_index res of None \<Rightarrow> 0 | Some i \<Rightarrow> i)
         (if dynamic_symbol_index res = None then sint (raw_value res - tw_tls_start tw) else 0)
         (set_got_entry 0 tw))))"

definition tw_write_plt_entry :: "arch_tables \<Rightarrow> u64 \<Rightarrow> u64 \<Rightarrow> TableWriter \<Rightarrow> (table_error, TableWriter) outcome" where
  "tw_write_plt_entry A ga plt tw =
     bind_outcome (take_entry PltGotPart (replicate (unat PLT_ENTRY_SIZE) 0) (tw_plt_got tw)) (\<lambda>t.
       case write_plt_entry A (last (taken t)) ga plt of
         Ok entry \<Rightarrow> Ok (tw\<lparr>tw_plt_got := set_last entry t\<rparr>)
       | Error e \<Rightarrow> Error (PltError e)
       | Panicked \<Rightarrow> Panicked)"

text \<open>The value of an ordinary GOT entry, with the dynamic relocation that it needs.\<close>

definition process_got_entry :: "arch_tables \<Rightarrow> bool \<Rightarrow> Resolution \<Rightarrow> u64 \<Rightarrow> TableWriter \<Rightarrow> (table_error, TableWriter) outcome" where
  "process_got_entry A is_got_relr res ga tw =
     (let flags = res_flags res; set = (if is_got_relr then set_got_relr_entry else set_got_entry)
      in if is_dynamic flags \<or> needs_export_dynamic flags \<and> is_interposable flags \<and> \<not> is_ifunc flags then
           bind_outcome (require_dynamic_symbol_index res) (\<lambda>i.
             write_dynamic_symbol_relocation A ga 0 i DynGotEntry (set 0 tw))
         else if is_ifunc flags then write_ifunc_relocation A res (set 0 tw)
         else if is_got_relr then Ok (set (raw_value res) tw)
         else if has_link_time_address flags \<and> is_position_independent (tw_output_kind tw) then
           bind_outcome (write_relr_entry_flat A ga (raw_value res) tw) (\<lambda>(tw, value). Ok (set value tw))
         else Ok (set (raw_value res) tw))"

definition process_ifunc_got :: "arch_tables \<Rightarrow> Resolution \<Rightarrow> u64 \<Rightarrow> TableWriter \<Rightarrow> (table_error, TableWriter) outcome" where
  "process_ifunc_got A res ga tw =
     bind_outcome (take_next_got_entry tw) (\<lambda>tw.
       case plt_address res of
         None \<Rightarrow> Error MissingPltAddress
       | Some plt \<Rightarrow>
           if is_position_independent (tw_output_kind tw) then
             bind_outcome (write_relr_entry_flat A (ga + GOT_ENTRY_SIZE) plt tw) (\<lambda>(tw, value). Ok (set_got_entry value tw))
           else Ok (set_got_entry plt tw))"

definition process_tls_resolution :: "arch_tables \<Rightarrow> Resolution \<Rightarrow> u64 \<Rightarrow> TableWriter \<Rightarrow> (table_error, TableWriter) outcome" where
  "process_tls_resolution A res ga tw =
     (let flags = res_flags res;
          ga1 = (if needs_got_tls_offset flags then ga + GOT_ENTRY_SIZE else ga);
          ga2 = (if needs_got_tls_module flags then ga1 + 2 * GOT_ENTRY_SIZE else ga1)
      in bind_outcome (if needs_got_tls_offset flags then process_got_tls_offset A res ga tw else Ok tw) (\<lambda>tw.
         bind_outcome (if needs_got_tls_module flags then process_got_tls_mod_and_offset A res ga1 tw else Ok tw) (\<lambda>tw.
           if needs_got_tls_descriptor flags then process_got_tls_descriptor A res ga2 tw else Ok tw)))"

definition process_resolution :: "arch_tables \<Rightarrow> bool \<Rightarrow> Resolution \<Rightarrow> TableWriter \<Rightarrow> (table_error, TableWriter) outcome" where
  "process_resolution A relr_enabled res tw =
     (case got_address res of
        None \<Rightarrow> Ok tw
      | Some ga \<Rightarrow>
          let flags = res_flags res
          in if needs_got_tls_offset flags \<or> needs_got_tls_module flags \<or> needs_got_tls_descriptor flags then
               process_tls_resolution A res ga tw
             else
               let has_dynamic_symbol = is_dynamic flags \<or> needs_export_dynamic flags \<and> is_interposable flags;
                   is_got_relr = is_got_relr_eligible flags has_dynamic_symbol relr_enabled (tw_output_kind tw)
               in bind_outcome (if is_got_relr then take_next_got_relr_entry tw else take_next_got_entry tw) (\<lambda>tw.
                  bind_outcome (process_got_entry A is_got_relr res ga tw) (\<lambda>tw.
                  bind_outcome
                    (case plt_address res of Some plt \<Rightarrow> tw_write_plt_entry A ga plt tw | None \<Rightarrow> Ok tw) (\<lambda>tw.
                    if needs_ifunc_got_for_address flags then process_ifunc_got A res ga tw else Ok tw))))"

text \<open>The check at the end: whatever layout reserved has been used.\<close>

definition part_left :: "TableWriter \<Rightarrow> Part \<Rightarrow> nat" where
  "part_left tw p =
     (case p of
        GotPart \<Rightarrow> left (tw_got tw)
      | GotRelrPart \<Rightarrow> left (tw_got_relr tw)
      | PltGotPart \<Rightarrow> left (tw_plt_got tw)
      | RelaPltPart \<Rightarrow> left (tw_rela_plt tw)
      | RelaDynRelativePart \<Rightarrow> left (tw_rela_dyn_relative tw)
      | RelaDynGeneralPart \<Rightarrow> left (tw_rela_dyn_general tw)
      | RelrDynPart \<Rightarrow> (case tw_relr_dyn tw of None \<Rightarrow> 0 | Some t \<Rightarrow> left t))"

end
