(* ===== verification/Got_Alloc.thy ===== *)
theory Got_Alloc
  imports Table_Writer
begin

text \<open>
  Reserving space for the entries of a symbol during layout and giving it addresses
  (\<open>allocate_resolution\<close>, \<open>create_resolution\<close> and their helpers in \<open>libjdxld/src/elf.rs\<close>). Three places of the
  linker have to agree on what a symbol needs, each with its own case analysis on the flags: the
  reservation, the assignment of addresses, and the writer of \<open>Table_Writer\<close>. The lemmas show that
  they do, for flags that are consistent.
\<close>

section \<open>Model\<close>

type_synonym part_sizes = "Part \<Rightarrow> u64"

definition RELA_ENTRY_SIZE :: u64 where "RELA_ENTRY_SIZE = 24"

definition increment :: "Part \<Rightarrow> u64 \<Rightarrow> part_sizes \<Rightarrow> part_sizes" where
  "increment p n sizes = sizes(p := sizes p + n)"

definition has_dynamic_symbol :: "ValueFlags \<Rightarrow> bool" where
  "has_dynamic_symbol flags = (is_dynamic flags \<or> needs_export_dynamic flags \<and> is_interposable flags)"

definition allocate_got_reservation :: "ValueFlags \<Rightarrow> part_sizes \<Rightarrow> OutputKind \<Rightarrow> bool \<Rightarrow> part_sizes" where
  "allocate_got_reservation flags m output_kind relr_enabled =
     (let is_got_relr = is_got_relr_eligible flags (has_dynamic_symbol flags) relr_enabled output_kind;
          m = (if is_got_relr then increment GotRelrPart GOT_ENTRY_SIZE m else increment GotPart GOT_ENTRY_SIZE m);
          m = (if needs_plt flags then increment PltGotPart PLT_ENTRY_SIZE m else m)
      in if is_ifunc flags then increment RelaPltPart RELA_ENTRY_SIZE m
         else if has_dynamic_symbol flags then increment RelaDynGeneralPart RELA_ENTRY_SIZE m
         else if has_link_time_address flags \<and> is_position_independent output_kind then
           (if relr_enabled \<and> \<not> is_got_relr then increment RelrDynPart RELR_ENTRY_SIZE m
            else if \<not> relr_enabled then increment RelaDynRelativePart RELA_ENTRY_SIZE m
            else m)
         else m)"

definition allocate_ifunc_got :: "part_sizes \<Rightarrow> OutputKind \<Rightarrow> bool \<Rightarrow> part_sizes" where
  "allocate_ifunc_got m output_kind relr_enabled =
     (let m = increment GotPart GOT_ENTRY_SIZE m
      in if is_position_independent output_kind then
           (if relr_enabled then increment RelrDynPart RELR_ENTRY_SIZE m
            else increment RelaDynRelativePart RELA_ENTRY_SIZE m)
         else m)"

definition allocate_tls_offset :: "ValueFlags \<Rightarrow> part_sizes \<Rightarrow> OutputKind \<Rightarrow> part_sizes" where
  "allocate_tls_offset flags m output_kind =
     (let m = increment GotPart GOT_ENTRY_SIZE m
      in if is_interposable flags \<or> is_shared_object output_kind then increment RelaDynGeneralPart RELA_ENTRY_SIZE m
         else m)"

definition allocate_tls_module :: "ValueFlags \<Rightarrow> part_sizes \<Rightarrow> OutputKind \<Rightarrow> part_sizes" where
  "allocate_tls_module flags m output_kind =
     (let m = increment GotPart (GOT_ENTRY_SIZE * 2) m;
          m = (if \<not> is_executable output_kind \<or> is_dynamic flags then increment RelaDynGeneralPart RELA_ENTRY_SIZE m else m)
      in if has_dynamic_symbol flags then increment RelaDynGeneralPart RELA_ENTRY_SIZE m else m)"

definition allocate_resolution :: "ValueFlags \<Rightarrow> part_sizes \<Rightarrow> OutputKind \<Rightarrow> bool \<Rightarrow> part_sizes" where
  "allocate_resolution flags m output_kind relr_enabled =
     (let m = (if needs_got flags \<and> \<not> needs_tls_got flags then allocate_got_reservation flags m output_kind relr_enabled else m);
          m = (if needs_ifunc_got_for_address flags then allocate_ifunc_got m output_kind relr_enabled else m);
          m = (if needs_got_tls_offset flags then allocate_tls_offset flags m output_kind else m);
          m = (if needs_got_tls_module flags then allocate_tls_module flags m output_kind else m)
      in if needs_got_tls_descriptor flags then
           increment RelaDynGeneralPart RELA_ENTRY_SIZE (increment GotPart (GOT_ENTRY_SIZE * 2) m)
         else m)"

text \<open>\<open>NonZeroU64::new(..).unwrap()\<close>: the address of a table is never zero.\<close>

definition allocate_entries :: "Part \<Rightarrow> u64 \<Rightarrow> part_sizes \<Rightarrow> (u64 \<times> part_sizes) option" where
  "allocate_entries p n memory_offsets =
     (if memory_offsets p = 0 then None else Some (memory_offsets p, increment p n memory_offsets))"

definition allocate_got :: "u64 \<Rightarrow> part_sizes \<Rightarrow> (u64 \<times> part_sizes) option" where
  "allocate_got num_entries mo = allocate_entries GotPart (GOT_ENTRY_SIZE * num_entries) mo"

definition allocate_got_relr :: "part_sizes \<Rightarrow> (u64 \<times> part_sizes) option" where
  "allocate_got_relr mo = allocate_entries GotRelrPart GOT_ENTRY_SIZE mo"

definition allocate_plt :: "part_sizes \<Rightarrow> (u64 \<times> part_sizes) option" where
  "allocate_plt mo = allocate_entries PltGotPart PLT_ENTRY_SIZE mo"

definition num_tls_got_slots :: "ValueFlags \<Rightarrow> u64" where
  "num_tls_got_slots flags =
     (if needs_got_tls_offset flags then 1 else 0) + (if needs_got_tls_module flags then 2 else 0) +
     (if needs_got_tls_descriptor flags then 2 else 0)"

definition create_resolution ::
    "ValueFlags \<Rightarrow> u64 \<Rightarrow> u32 option \<Rightarrow> part_sizes \<Rightarrow> bool \<Rightarrow> OutputKind \<Rightarrow> (Resolution \<times> part_sizes) option" where
  "create_resolution flags raw dynsym mo relr_enabled output_kind =
     (let is_got_relr = is_got_relr_eligible flags (has_dynamic_symbol flags) relr_enabled output_kind;
          res = \<lparr>raw_value = raw, dynamic_symbol_index = dynsym, res_flags = flags,
                 got_address = None, plt_address = None\<rparr>
      in if needs_plt flags then
           do { (plt, mo) \<leftarrow> allocate_plt mo;
                let num_got_entries = (if needs_ifunc_got_for_address flags then 2 else 1);
                (ga, mo) \<leftarrow> (if is_got_relr \<and> num_got_entries = 1 then allocate_got_relr mo
                              else allocate_got num_got_entries mo);
                Some (res\<lparr>plt_address := Some plt, raw_value := (if is_dynamic flags then plt else raw),
                          got_address := Some ga\<rparr>, mo) }
         else if needs_tls_got flags then
           do { (ga, mo) \<leftarrow> allocate_got (num_tls_got_slots flags) mo; Some (res\<lparr>got_address := Some ga\<rparr>, mo) }
         else if needs_got flags then
           do { (ga, mo) \<leftarrow> (if is_got_relr then allocate_got_relr mo else allocate_got 1 mo);
                Some (res\<lparr>got_address := Some ga\<rparr>, mo) }
         else Some (res, mo))"

text \<open>
  The symbols of a file with their final flags, raw values and dynamic symbols: layout reserves for
  each of them (\<open>finalise_symbol_sizes\<close>), then creates their resolutions in the same order, and the
  writer processes those in order again. The tables it gets have the reserved sizes.
\<close>

record alloc_symbol =
  as_flags :: ValueFlags
  as_raw_value :: u64
  as_dynsym :: "u32 option"

definition finalise_symbol_sizes :: "OutputKind \<Rightarrow> bool \<Rightarrow> alloc_symbol list \<Rightarrow> part_sizes \<Rightarrow> part_sizes" where
  "finalise_symbol_sizes kind relr_enabled syms sizes =
     fold (\<lambda>s m. allocate_resolution (as_flags s) m kind relr_enabled) syms sizes"

fun create_resolutions :: "OutputKind \<Rightarrow> bool \<Rightarrow> alloc_symbol list \<Rightarrow> part_sizes \<Rightarrow> (Resolution list \<times> part_sizes) option" where
  "create_resolutions kind relr_enabled [] mo = Some ([], mo)"
| "create_resolutions kind relr_enabled (s # syms) mo =
     do { (res, mo) \<leftarrow> create_resolution (as_flags s) (as_raw_value s) (as_dynsym s) mo relr_enabled kind;
          (rs, mo) \<leftarrow> create_resolutions kind relr_enabled syms mo;
          Some (res # rs, mo) }"

fun process_resolutions :: "arch_tables \<Rightarrow> bool \<Rightarrow> Resolution list \<Rightarrow> TableWriter \<Rightarrow> (table_error, TableWriter) outcome" where
  "process_resolutions A relr_enabled [] tw = Ok tw"
| "process_resolutions A relr_enabled (res # rs) tw =
     bind_outcome (process_resolution A relr_enabled res tw) (process_resolutions A relr_enabled rs)"

definition new_table :: "u64 \<Rightarrow> u64 \<Rightarrow> 'a table" where
  "new_table num_bytes entry_bytes = \<lparr>taken = [], left = unat num_bytes div unat entry_bytes\<rparr>"

definition table_writer_new :: "OutputKind \<Rightarrow> u64 \<Rightarrow> u64 \<Rightarrow> part_sizes \<Rightarrow> bool \<Rightarrow> TableWriter" where
  "table_writer_new kind tls_start tls_end sizes pack_relative_relocs =
     \<lparr>tw_output_kind = kind,
      tw_got = new_table (sizes GotPart) GOT_ENTRY_SIZE,
      tw_got_relr = new_table (sizes GotRelrPart) GOT_ENTRY_SIZE,
      tw_plt_got = new_table (sizes PltGotPart) PLT_ENTRY_SIZE,
      tw_rela_plt = new_table (sizes RelaPltPart) RELA_ENTRY_SIZE,
      tw_tls_start = tls_start, tw_tls_end = tls_end,
      tw_rela_dyn_relative = new_table (sizes RelaDynRelativePart) RELA_ENTRY_SIZE,
      tw_rela_dyn_general = new_table (sizes RelaDynGeneralPart) RELA_ENTRY_SIZE,
      tw_relr_dyn =
        (let t = new_table (sizes RelrDynPart) RELR_ENTRY_SIZE
         in if pack_relative_relocs \<and> left t \<noteq> 0 then Some t else None),
      tw_current_relr_dyn = None, tw_relr_writer = NoRun\<rparr>"

text \<open>
  The check that everything reserved was used. It does not look at \<open>plt_got\<close> and \<open>rela_plt\<close>; here the
  error is the table with the excess.
\<close>

definition validate_empty :: "TableWriter \<Rightarrow> (Part, unit) outcome" where
  "validate_empty tw =
     (if left (tw_got tw) \<noteq> 0 then Error GotPart
      else if left (tw_got_relr tw) \<noteq> 0 then Error GotRelrPart
      else if left (tw_rela_dyn_relative tw) \<noteq> 0 then Error RelaDynRelativePart
      else if left (tw_rela_dyn_general tw) \<noteq> 0 then Error RelaDynGeneralPart
      else if (case tw_relr_dyn tw of Some t \<Rightarrow> left t \<noteq> 0 | None \<Rightarrow> False) then Error RelrDynPart
      else Ok ())"

section \<open>What a step of the writer consumes\<close>

definition entry_size :: "Part \<Rightarrow> u64" where
  "entry_size p =
     (case p of GotPart \<Rightarrow> GOT_ENTRY_SIZE | GotRelrPart \<Rightarrow> GOT_ENTRY_SIZE | PltGotPart \<Rightarrow> PLT_ENTRY_SIZE
      | RelrDynPart \<Rightarrow> RELR_ENTRY_SIZE | _ \<Rightarrow> RELA_ENTRY_SIZE)"

definition one :: "Part \<Rightarrow> Part \<Rightarrow> nat" where
  "one p q = (if q = p then 1 else 0)"

text \<open>How many entries of a table have been split off.\<close>

definition part_used :: "TableWriter \<Rightarrow> Part \<Rightarrow> nat" where
  "part_used tw p =
     (case p of
        GotPart \<Rightarrow> length (taken (tw_got tw))
      | GotRelrPart \<Rightarrow> length (taken (tw_got_relr tw))
      | PltGotPart \<Rightarrow> length (taken (tw_plt_got tw))
      | RelaPltPart \<Rightarrow> length (taken (tw_rela_plt tw))
      | RelaDynRelativePart \<Rightarrow> length (taken (tw_rela_dyn_relative tw))
      | RelaDynGeneralPart \<Rightarrow> length (taken (tw_rela_dyn_general tw))
      | RelrDynPart \<Rightarrow> (case tw_relr_dyn tw of None \<Rightarrow> 0 | Some t \<Rightarrow> length (taken t)))"

definition consumes :: "TableWriter \<Rightarrow> TableWriter \<Rightarrow> (Part \<Rightarrow> nat) \<Rightarrow> bool" where
  "consumes tw tw' n =
     ((\<forall>p. part_left tw p = part_left tw' p + n p \<and> part_used tw' p = part_used tw p + n p) \<and> tw_output_kind tw' = tw_output_kind tw \<and>
      tw_tls_start tw' = tw_tls_start tw \<and> tw_tls_end tw' = tw_tls_end tw \<and>
      (tw_relr_dyn tw' = None \<longleftrightarrow> tw_relr_dyn tw = None))"

text \<open>
  A step meets the budget \<open>n\<close>: when it succeeds it has consumed precisely \<open>n\<close>, and it runs out of a
  table only if less than \<open>n\<close> was left of it.
\<close>

definition meets :: "(table_error, TableWriter) outcome \<Rightarrow> TableWriter \<Rightarrow> (Part \<Rightarrow> nat) \<Rightarrow> bool" where
  "meets m tw n =
     (case m of
        Ok tw' \<Rightarrow> consumes tw tw' n
      | Error (InsufficientAllocation p) \<Rightarrow> part_left tw p < n p
      | Error _ \<Rightarrow> True
      | Panicked \<Rightarrow> part_left tw RelaPltPart < n RelaPltPart)"

lemma consumes_refl: "consumes tw tw (\<lambda>_. 0)"
  by (simp add: consumes_def)

lemma meets_Ok: "meets (Ok tw) tw (\<lambda>_. 0)"
  by (simp add: meets_def consumes_refl)

lemma meets_bind:
  assumes "meets m tw na" "\<And>tw'. m = Ok tw' \<Longrightarrow> consumes tw tw' na \<Longrightarrow> meets (f tw') tw' nb"
  shows "meets (bind_outcome m f) tw (\<lambda>p. na p + nb p)"
proof (cases m)
  case (Ok tw')
  then have c: "consumes tw tw' na" and m2: "meets (f tw') tw' nb" using assms by (simp_all add: meets_def)
  then have l: "part_left tw p = part_left tw' p + na p" for p by (simp add: consumes_def)
  show ?thesis using m2 c l unfolding Ok meets_def
    by (auto simp: consumes_def split: outcome.splits table_error.splits)
next
  case (Error e)
  then show ?thesis using assms(1) by (auto simp: meets_def split: table_error.splits)
next
  case Panicked
  then show ?thesis using assms(1) by (simp add: meets_def)
qed

lemma meets_Error [simp]: "(\<And>p. e \<noteq> InsufficientAllocation p) \<Longrightarrow> meets (Error e) tw n"
  by (auto simp: meets_def split: table_error.splits)

text \<open>Storing a value consumes nothing.\<close>

lemma part_left_set [simp]:
  "part_left (set_got_entry v tw) = part_left tw" "part_left (set_got_relr_entry v tw) = part_left tw"
  by (auto simp: part_left_def set_got_entry_def set_got_relr_entry_def set_last_def split: Part.splits)

lemma part_used_set [simp]:
  "part_used (set_got_entry v tw) = part_used tw" "part_used (set_got_relr_entry v tw) = part_used tw"
  by (auto simp: part_used_def set_got_entry_def set_got_relr_entry_def set_last_def split: Part.splits)

lemma fields_set [simp]:
  "tw_output_kind (set_got_entry v tw) = tw_output_kind tw" "tw_output_kind (set_got_relr_entry v tw) = tw_output_kind tw"
  "tw_tls_start (set_got_entry v tw) = tw_tls_start tw" "tw_tls_start (set_got_relr_entry v tw) = tw_tls_start tw"
  "tw_tls_end (set_got_entry v tw) = tw_tls_end tw" "tw_tls_end (set_got_relr_entry v tw) = tw_tls_end tw"
  "tw_relr_dyn (set_got_entry v tw) = tw_relr_dyn tw" "tw_relr_dyn (set_got_relr_entry v tw) = tw_relr_dyn tw"
  by (simp_all add: set_got_entry_def set_got_relr_entry_def)

lemma consumes_set [simp]:
  "consumes tw (set_got_entry v tw') n = consumes tw tw' n" "consumes tw (set_got_relr_entry v tw') n = consumes tw tw' n"
  "consumes (set_got_entry v tw) tw' n = consumes tw tw' n" "consumes (set_got_relr_entry v tw) tw' n = consumes tw tw' n"
  by (simp_all add: consumes_def)

lemma meets_set [simp]:
  "meets m (set_got_entry v tw) n = meets m tw n" "meets m (set_got_relr_entry v tw) n = meets m tw n"
  by (simp_all add: meets_def split: outcome.splits table_error.splits)

lemma meets_Ok_set [simp]:
  "meets (Ok (set_got_entry v tw)) tw (\<lambda>_. 0)" "meets (Ok (set_got_relr_entry v tw)) tw (\<lambda>_. 0)"
  by (simp_all add: meets_def consumes_refl)

lemma meets_take:
  "meets (take_next_got_entry tw) tw (one GotPart)"
  "meets (take_next_got_relr_entry tw) tw (one GotRelrPart)"
  "meets (write_rela_dyn_general place dynsym ty addend tw) tw (one RelaDynGeneralPart)"
  "meets (write_ifunc_relocation A res tw) tw (one RelaPltPart)"
  by (auto simp: meets_def take_next_got_entry_def take_next_got_relr_entry_def write_rela_dyn_general_def
      write_ifunc_relocation_def take_entry_def consumes_def part_left_def part_used_def one_def split: Part.splits option.splits)

lemma meets_take_set [simp]:
  "meets (write_rela_dyn_general place dynsym ty addend (set_got_entry v tw)) tw (one RelaDynGeneralPart)"
  "meets (write_rela_dyn_general place dynsym ty addend (set_got_relr_entry v tw)) tw (one RelaDynGeneralPart)"
  "meets (write_ifunc_relocation A res (set_got_entry v tw)) tw (one RelaPltPart)"
  "meets (write_ifunc_relocation A res (set_got_relr_entry v tw)) tw (one RelaPltPart)"
  using meets_take(3) [of _ _ _ _ "set_got_entry v tw"] meets_take(3) [of _ _ _ _ "set_got_relr_entry v tw"]
    meets_take(4) [of _ _ "set_got_entry v tw"] meets_take(4) [of _ _ "set_got_relr_entry v tw"] by simp_all

lemmas general_relocs = write_dynamic_symbol_relocation_def write_dtpmod_relocation_def
  write_tls_descriptor_relocation_def write_dtpoff_relocation_def write_tpoff_relocation_def

definition relative_part :: "TableWriter \<Rightarrow> Part" where
  "relative_part tw = (if tw_relr_dyn tw = None then RelaDynRelativePart else RelrDynPart)"

lemma meets_flat:
  assumes "place mod 2 = 0" "f = set_got_entry \<or> f = set_got_relr_entry"
  shows "meets (bind_outcome (write_relr_entry_flat A place v tw) (\<lambda>(tw, value). Ok (f value tw))) tw (one (relative_part tw))"
proof (cases "tw_relr_dyn tw")
  case None
  then show ?thesis using assms
    by (auto simp: meets_def write_relr_entry_flat_def write_relative_rela_def take_entry_def consumes_def
        part_left_def part_used_def one_def relative_part_def set_got_entry_def set_got_relr_entry_def set_last_def split: Part.splits)
next
  case (Some t)
  then show ?thesis using assms
    by (auto simp: meets_def write_relr_entry_flat_def take_entry_def consumes_def part_left_def part_used_def one_def
        relative_part_def set_got_entry_def set_got_relr_entry_def set_last_def split: Part.splits)
qed

definition plt_total :: "arch_tables \<Rightarrow> bool" where
  "plt_total A = (\<forall>entry ga plt. length entry = unat PLT_ENTRY_SIZE \<longrightarrow> write_plt_entry A entry ga plt \<noteq> Panicked)"

lemma meets_plt: "plt_total A \<Longrightarrow> meets (tw_write_plt_entry A ga plt tw) tw (one PltGotPart)"
  by (auto simp: meets_def tw_write_plt_entry_def take_entry_def consumes_def part_left_def part_used_def one_def set_last_def
      plt_total_def split: Part.splits outcome.splits)

section \<open>Budgets\<close>

definition tls_offset_budget :: "ValueFlags \<Rightarrow> OutputKind \<Rightarrow> Part \<Rightarrow> nat" where
  "tls_offset_budget flags ok p =
     one GotPart p + (if is_interposable flags \<or> is_shared_object ok then one RelaDynGeneralPart p else 0)"

definition tls_module_budget :: "ValueFlags \<Rightarrow> OutputKind \<Rightarrow> Part \<Rightarrow> nat" where
  "tls_module_budget flags ok p =
     2 * one GotPart p + (if \<not> is_executable ok \<or> is_dynamic flags then one RelaDynGeneralPart p else 0) +
     (if has_dynamic_symbol flags then one RelaDynGeneralPart p else 0)"

definition tls_descriptor_budget :: "Part \<Rightarrow> nat" where
  "tls_descriptor_budget p = 2 * one GotPart p + one RelaDynGeneralPart p"

definition got_budget :: "ValueFlags \<Rightarrow> OutputKind \<Rightarrow> bool \<Rightarrow> Part \<Rightarrow> nat" where
  "got_budget flags ok relr p =
     (let is_got_relr = is_got_relr_eligible flags (has_dynamic_symbol flags) relr ok
      in one (if is_got_relr then GotRelrPart else GotPart) p +
         (if is_ifunc flags then one RelaPltPart p
          else if has_dynamic_symbol flags then one RelaDynGeneralPart p
          else if has_link_time_address flags \<and> is_position_independent ok \<and> \<not> is_got_relr then
            one (if relr then RelrDynPart else RelaDynRelativePart) p
          else 0))"

definition ifunc_budget :: "OutputKind \<Rightarrow> bool \<Rightarrow> Part \<Rightarrow> nat" where
  "ifunc_budget ok relr p =
     one GotPart p +
     (if is_position_independent ok then one (if relr then RelrDynPart else RelaDynRelativePart) p else 0)"

definition budget :: "ValueFlags \<Rightarrow> OutputKind \<Rightarrow> bool \<Rightarrow> Part \<Rightarrow> nat" where
  "budget flags ok relr p =
     (if needs_got flags \<and> \<not> needs_tls_got flags then
        got_budget flags ok relr p + (if needs_plt flags then one PltGotPart p else 0)
      else 0) +
     (if needs_ifunc_got_for_address flags then ifunc_budget ok relr p else 0) +
     (if needs_got_tls_offset flags then tls_offset_budget flags ok p else 0) +
     (if needs_got_tls_module flags then tls_module_budget flags ok p else 0) +
     (if needs_got_tls_descriptor flags then tls_descriptor_budget p else 0)"

text \<open>The reservation of layout is the budget, in bytes.\<close>

lemmas size_defs' = GOT_ENTRY_SIZE_def RELA_ENTRY_SIZE_def RELR_ENTRY_SIZE_def PLT_ENTRY_SIZE_def

lemma alloc_pieces:
  "allocate_got_reservation flags m ok relr p =
     m p + entry_size p * of_nat (got_budget flags ok relr p + (if needs_plt flags then one PltGotPart p else 0))"
  "allocate_ifunc_got m ok relr p = m p + entry_size p * of_nat (ifunc_budget ok relr p)"
  "allocate_tls_offset flags m ok p = m p + entry_size p * of_nat (tls_offset_budget flags ok p)"
  "allocate_tls_module flags m ok p = m p + entry_size p * of_nat (tls_module_budget flags ok p)"
  "increment RelaDynGeneralPart RELA_ENTRY_SIZE (increment GotPart (GOT_ENTRY_SIZE * 2) m) p =
     m p + entry_size p * of_nat (tls_descriptor_budget p)"
  subgoal by (cases p) (simp_all add: allocate_got_reservation_def got_budget_def increment_def one_def
      entry_size_def Let_def is_got_relr_eligible_def)
  subgoal by (cases p) (simp_all add: allocate_ifunc_got_def ifunc_budget_def increment_def one_def entry_size_def Let_def)
  subgoal by (cases p) (simp_all add: allocate_tls_offset_def tls_offset_budget_def increment_def one_def entry_size_def Let_def)
  subgoal by (cases p) (simp_all add: allocate_tls_module_def tls_module_budget_def increment_def one_def entry_size_def Let_def)
  subgoal by (cases p) (simp_all add: tls_descriptor_budget_def increment_def one_def entry_size_def)
  done

lemma allocate_resolution_budget:
  "allocate_resolution flags m ok relr p = m p + entry_size p * of_nat (budget flags ok relr p)"
  unfolding allocate_resolution_def budget_def Let_def
  by (simp add: alloc_pieces algebra_simps)

section \<open>The writer keeps to the budget\<close>

text \<open>
  Consistent flags and resolutions. What references ask for a PLT entry also ask for a GOT entry;
  thread-local symbols are not called; the second GOT entry of an ifunc comes with its PLT entry;
  ifuncs are defined in the output; a symbol has a dynamic symbol where it can be interposed, and
  a defined thread-local symbol of a shared object has an address.
\<close>

definition flags_ok :: "ValueFlags \<Rightarrow> bool" where
  "flags_ok flags =
     ((needs_plt flags \<longrightarrow> needs_got flags \<and> \<not> needs_tls_got flags) \<and>
      (needs_ifunc_got_for_address flags \<longrightarrow> is_ifunc flags \<and> needs_plt flags) \<and>
      (is_dynamic flags \<longrightarrow> \<not> is_ifunc flags \<and> is_interposable flags))"

definition tls_ok :: "OutputKind \<Rightarrow> ValueFlags \<Rightarrow> u64 \<Rightarrow> u32 option \<Rightarrow> bool" where
  "tls_ok ok flags raw dynsym =
     ((needs_got_tls_offset flags \<longrightarrow>
         (is_interposable flags \<longrightarrow> has_dynamic_symbol flags) \<and> (is_shared_object ok \<longrightarrow> has_dynamic_symbol flags \<or> raw \<noteq> 0)) \<and>
      (needs_got_tls_module flags \<longrightarrow> (has_dynamic_symbol flags \<longleftrightarrow> dynsym \<noteq> None \<and> is_interposable flags)))"

lemma meets_cong: "meets m tw n \<Longrightarrow> (\<And>p. n p = n' p) \<Longrightarrow> meets m tw n'"
  by (metis ext)

lemma meets_bind_eq:
  assumes "meets m tw na" "\<And>tw'. m = Ok tw' \<Longrightarrow> consumes tw tw' na \<Longrightarrow> meets (f tw') tw' nb"
    and "\<And>p. n p = na p + nb p"
  shows "meets (bind_outcome m f) tw n"
  using meets_cong [OF meets_bind [OF assms(1,2)]] assms(3) by simp

lemma consumes_kind: "consumes tw tw' n \<Longrightarrow> tw_output_kind tw' = tw_output_kind tw"
  by (simp add: consumes_def)

lemma meets_pure: "(\<And>e. m = Error e \<Longrightarrow> \<forall>p. e \<noteq> InsufficientAllocation p) \<Longrightarrow> m \<noteq> Panicked \<Longrightarrow>
    (\<And>a. m = Ok a \<Longrightarrow> meets (f a) tw n) \<Longrightarrow> meets (bind_outcome m f) tw n"
  by (cases m) simp_all

lemma meets_tls_offset:
  assumes "tls_ok (tw_output_kind tw) flags raw dynsym" "flags_ok flags" "needs_got_tls_offset flags"
    and "\<not> is_partial_link (tw_output_kind tw)"
    and res: "res_flags res = flags" "raw_value res = raw" "dynamic_symbol_index res = dynsym"
  shows "meets (process_got_tls_offset A res ga tw) tw (tls_offset_budget flags (tw_output_kind tw))"
  unfolding process_got_tls_offset_def
proof (rule meets_bind_eq [OF meets_take(1)])
  fix tw' assume "consumes tw tw' (one GotPart)"
  then have k: "tw_output_kind tw' = tw_output_kind tw" by (rule consumes_kind)
  have ex: "is_executable (tw_output_kind tw) \<longleftrightarrow> \<not> is_shared_object (tw_output_kind tw)"
    using assms(4) by (cases "tw_output_kind tw") auto
  let ?n = "\<lambda>p. if is_interposable flags \<or> is_shared_object (tw_output_kind tw) then one RelaDynGeneralPart p else 0"
  show "meets (let flags = res_flags res; address = raw_value res
       in if is_dynamic flags \<or> needs_export_dynamic flags \<and> is_interposable flags then
            bind_outcome (require_dynamic_symbol_index res) (\<lambda>i. write_tpoff_relocation A ga i 0 (set_got_entry 0 tw'))
          else if address = 0 then Ok (set_got_entry 0 tw')
          else if \<not> (tw_tls_start tw' \<le> address \<and> address \<le> tw_tls_end tw') then Error (GotTlsOffsetOutsideTls address)
          else if is_executable (tw_output_kind tw') then Ok (set_got_entry (address - tp_offset_start A) tw')
          else write_tpoff_relocation A ga 0 (sint (address - tw_tls_start tw')) tw') tw' ?n"
  proof (cases "has_dynamic_symbol flags")
    case True
    then have "is_interposable flags" using assms(2) by (auto simp: flags_ok_def has_dynamic_symbol_def)
    with True show ?thesis
      by (cases dynsym) (auto simp: res has_dynamic_symbol_def require_dynamic_symbol_index_def general_relocs)
  next
    case False
    then have "\<not> is_interposable flags" "is_shared_object (tw_output_kind tw) \<longrightarrow> raw \<noteq> 0"
      using assms(1,3) by (auto simp: tls_ok_def)
    with False ex k show ?thesis
      by (auto simp: res has_dynamic_symbol_def general_relocs intro!: meets_take(3) [THEN meets_cong])
  qed
qed (simp add: tls_offset_budget_def)

lemma meets_tls_module:
  assumes "tls_ok (tw_output_kind tw) flags raw dynsym" "needs_got_tls_module flags"
    and res: "res_flags res = flags" "dynamic_symbol_index res = dynsym"
  shows "meets (process_got_tls_mod_and_offset A res ga tw) tw (tls_module_budget flags (tw_output_kind tw))"
  unfolding process_got_tls_mod_and_offset_def
proof (rule meets_bind_eq [OF meets_take(1)])
  fix tw1 assume "consumes tw tw1 (one GotPart)"
  then have k: "tw_output_kind tw1 = tw_output_kind tw" by (rule consumes_kind)
  let ?m = "\<lambda>p. if \<not> is_executable (tw_output_kind tw) \<or> is_dynamic flags then one RelaDynGeneralPart p else 0"
  let ?d = "\<lambda>p. if has_dynamic_symbol flags then one RelaDynGeneralPart p else 0"
  let ?rest = "\<lambda>tw. case dynamic_symbol_index res of
         Some i \<Rightarrow>
           bind_outcome
             (if is_interposable (res_flags res) then write_dtpoff_relocation A (ga + GOT_ENTRY_SIZE) i tw else Ok tw)
             (\<lambda>tw. Ok (set_got_entry 0 tw))
       | None \<Rightarrow>
           bind_outcome (res_address res) (\<lambda>address.
             Ok (set_got_entry (address - tw_tls_start tw - get_dtv_offset A) tw))"
  have dyn: "has_dynamic_symbol flags \<longleftrightarrow> dynsym \<noteq> None \<and> is_interposable flags"
    using assms(1,2) by (simp add: tls_ok_def)
  have rest: "meets (?rest tw') tw' ?d" for tw'
  proof (cases "has_dynamic_symbol flags")
    case True
    then obtain i where "dynsym = Some i" "is_interposable flags" using dyn by blast
    then show ?thesis
      using True by (auto simp: res general_relocs intro!: meets_bind_eq [OF meets_take(3), where nb = "\<lambda>_. 0"])
  next
    case False
    then show ?thesis using dyn
      by (cases dynsym) (auto simp: res res_address_def split: if_splits)
  qed
  show "meets (bind_outcome
       (if is_executable (tw_output_kind tw1) \<and> \<not> is_dynamic (res_flags res) then
          Ok (set_got_entry CURRENT_EXE_TLS_MOD tw1)
        else
          write_dtpmod_relocation A ga (case dynamic_symbol_index res of None \<Rightarrow> 0 | Some i \<Rightarrow> i)
            (set_got_entry 0 tw1)) (\<lambda>tw.
     bind_outcome (take_next_got_entry tw) ?rest)) tw1 (\<lambda>p. ?m p + (one GotPart p + ?d p))"
  proof (rule meets_bind_eq)
    show "meets (if is_executable (tw_output_kind tw1) \<and> \<not> is_dynamic (res_flags res) then
          Ok (set_got_entry CURRENT_EXE_TLS_MOD tw1)
        else
          write_dtpmod_relocation A ga (case dynamic_symbol_index res of None \<Rightarrow> 0 | Some i \<Rightarrow> i)
            (set_got_entry 0 tw1)) tw1 ?m"
      by (auto simp: k res general_relocs)
    show "meets (bind_outcome (take_next_got_entry tw') ?rest) tw' (\<lambda>p. one GotPart p + ?d p)" for tw'
      using meets_bind [OF meets_take(1) rest] .
  qed simp
qed (simp add: tls_module_budget_def)

lemma meets_tls_descriptor:
  "meets (process_got_tls_descriptor A res ga tw) tw tls_descriptor_budget"
  unfolding process_got_tls_descriptor_def
proof (rule meets_bind_eq [OF meets_take(1)])
  fix tw1
  let ?f = "\<lambda>tw. bind_outcome (ensure (\<not> is_static_executable (tw_output_kind tw)) StaticTlsDesc) (\<lambda>_.
       write_tls_descriptor_relocation A ga
         (case dynamic_symbol_index res of None \<Rightarrow> 0 | Some i \<Rightarrow> i)
         (if dynamic_symbol_index res = None then sint (raw_value res - tw_tls_start tw) else 0)
         (set_got_entry 0 tw))"
  have "meets (?f tw') tw' (one RelaDynGeneralPart)" for tw'
    by (auto simp: ensure_def general_relocs)
  from meets_bind [OF meets_take(1) this, of "set_got_entry 0 tw1"]
  show "meets (bind_outcome (take_next_got_entry (set_got_entry 0 tw1)) ?f) tw1 (\<lambda>p. one GotPart p + one RelaDynGeneralPart p)"
    by simp
qed (simp add: tls_descriptor_budget_def)

lemma meets_when: "(c \<Longrightarrow> meets m tw n) \<Longrightarrow> meets (if c then m else Ok tw) tw (\<lambda>p. if c then n p else 0)"
  by (simp add: meets_Ok)

lemma meets_tls_resolution:
  assumes "tls_ok (tw_output_kind tw) flags raw dynsym" "flags_ok flags" "\<not> is_partial_link (tw_output_kind tw)"
    and res: "res_flags res = flags" "raw_value res = raw" "dynamic_symbol_index res = dynsym"
  shows "meets (process_tls_resolution A res ga tw) tw
    (\<lambda>p. (if needs_got_tls_offset flags then tls_offset_budget flags (tw_output_kind tw) p else 0) +
         ((if needs_got_tls_module flags then tls_module_budget flags (tw_output_kind tw) p else 0) +
          (if needs_got_tls_descriptor flags then tls_descriptor_budget p else 0)))"
  unfolding process_tls_resolution_def Let_def res(1)
proof (rule meets_bind)
  show "meets (if needs_got_tls_offset flags then process_got_tls_offset A res ga tw else Ok tw) tw
      (\<lambda>p. if needs_got_tls_offset flags then tls_offset_budget flags (tw_output_kind tw) p else 0)"
    by (rule meets_when) (use assms in \<open>auto intro: meets_tls_offset\<close>)
next
  fix tw1
  assume "consumes tw tw1 (\<lambda>p. if needs_got_tls_offset flags then tls_offset_budget flags (tw_output_kind tw) p else 0)"
  then have k: "tw_output_kind tw1 = tw_output_kind tw" by (rule consumes_kind)
  let ?ga = "if needs_got_tls_offset flags then ga + GOT_ENTRY_SIZE else ga"
  show "meets (bind_outcome (if needs_got_tls_module flags then process_got_tls_mod_and_offset A res ?ga tw1 else Ok tw1)
        (\<lambda>tw. if needs_got_tls_descriptor flags
              then process_got_tls_descriptor A res (if needs_got_tls_module flags then ?ga + 2 * GOT_ENTRY_SIZE else ?ga) tw
              else Ok tw)) tw1
      (\<lambda>p. (if needs_got_tls_module flags then tls_module_budget flags (tw_output_kind tw) p else 0) +
            (if needs_got_tls_descriptor flags then tls_descriptor_budget p else 0))"
  proof (rule meets_bind)
    show "meets (if needs_got_tls_module flags then process_got_tls_mod_and_offset A res ?ga tw1 else Ok tw1) tw1
        (\<lambda>p. if needs_got_tls_module flags then tls_module_budget flags (tw_output_kind tw) p else 0)"
      using meets_tls_module [of tw1 flags raw dynsym res A ?ga] assms k by (intro meets_when) simp
  qed (rule meets_when, rule meets_tls_descriptor)
qed

text \<open>The table of packed relocations exists when it is enabled and something was reserved in it.\<close>

definition relr_ok :: "TableWriter \<Rightarrow> bool \<Rightarrow> (Part \<Rightarrow> nat) \<Rightarrow> bool" where
  "relr_ok tw relr n = ((tw_relr_dyn tw \<noteq> None \<longrightarrow> relr) \<and> (relr \<and> n RelrDynPart \<noteq> 0 \<longrightarrow> tw_relr_dyn tw \<noteq> None))"

lemma relative_part_eq:
  "relr_ok tw relr n \<Longrightarrow> (relr \<Longrightarrow> n RelrDynPart \<noteq> 0) \<Longrightarrow>
     relative_part tw = (if relr then RelrDynPart else RelaDynRelativePart)"
  by (cases relr; cases "tw_relr_dyn tw = None") (simp_all add: relr_ok_def relative_part_def)

lemma relr_ok_consumes: "relr_ok tw relr n \<Longrightarrow> consumes tw tw' m \<Longrightarrow> relr_ok tw' relr n"
  by (simp add: relr_ok_def consumes_def)

lemma meets_got_entry:
  assumes "flags_ok flags" "res_flags res = flags" "relr_ok tw relr n" "ga mod 2 = 0"
    and n: "got_budget flags (tw_output_kind tw) relr RelrDynPart \<le> n RelrDynPart"
    and g: "g = is_got_relr_eligible flags (has_dynamic_symbol flags) relr (tw_output_kind tw)"
  shows "meets (process_got_entry A g res ga tw) tw
    (\<lambda>p. if is_ifunc flags then one RelaPltPart p
         else if has_dynamic_symbol flags then one RelaDynGeneralPart p
         else if has_link_time_address flags \<and> is_position_independent (tw_output_kind tw) \<and> \<not> g then
           one (if relr then RelrDynPart else RelaDynRelativePart) p
         else 0)"
proof (cases "is_ifunc flags \<or> has_dynamic_symbol flags \<or> g")
  case True
  then show ?thesis
    using assms(1,2) g
    by (auto simp: process_got_entry_def Let_def has_dynamic_symbol_def flags_ok_def require_dynamic_symbol_index_def
        general_relocs is_got_relr_eligible_def split: option.splits)
next
  case False
  show ?thesis
  proof (cases "has_link_time_address flags \<and> is_position_independent (tw_output_kind tw)")
    case True
    with False n g have "relr \<Longrightarrow> n RelrDynPart \<noteq> 0" by (auto simp: got_budget_def Let_def one_def)
    from relative_part_eq [OF assms(3) this] meets_flat [OF assms(4), of set_got_entry A "raw_value res" tw]
    have flat: "meets (bind_outcome (write_relr_entry_flat A ga (raw_value res) tw) (\<lambda>(tw, value). Ok (set_got_entry value tw))) tw
        (one (if relr then RelrDynPart else RelaDynRelativePart))"
      by simp
    have entry: "process_got_entry A g res ga tw =
        bind_outcome (write_relr_entry_flat A ga (raw_value res) tw) (\<lambda>(tw, value). Ok (set_got_entry value tw))"
      using True False by (auto simp: process_got_entry_def Let_def has_dynamic_symbol_def assms(2))
    show ?thesis unfolding entry by (rule meets_cong [OF flat]) (use True False in simp)
  next
    case nl: False
    then show ?thesis using False by (auto simp: process_got_entry_def Let_def has_dynamic_symbol_def assms(2))
  qed
qed

lemma meets_ifunc_got:
  assumes "relr_ok tw relr n" "(ga + GOT_ENTRY_SIZE) mod 2 = 0"
    and n: "ifunc_budget (tw_output_kind tw) relr RelrDynPart \<le> n RelrDynPart"
  shows "meets (process_ifunc_got A res ga tw) tw (ifunc_budget (tw_output_kind tw) relr)"
  unfolding process_ifunc_got_def
proof (rule meets_bind_eq [OF meets_take(1)])
  fix tw' assume c: "consumes tw tw' (one GotPart)"
  have k: "tw_output_kind tw' = tw_output_kind tw" using c by (rule consumes_kind)
  have "is_position_independent (tw_output_kind tw) \<Longrightarrow> relr \<Longrightarrow> n RelrDynPart \<noteq> 0"
    using n by (auto simp: ifunc_budget_def one_def)
  then have rp: "is_position_independent (tw_output_kind tw) \<Longrightarrow>
      relative_part tw' = (if relr then RelrDynPart else RelaDynRelativePart)"
    using relative_part_eq [OF relr_ok_consumes [OF assms(1) c]] by blast
  show "meets (case plt_address res of None \<Rightarrow> Error MissingPltAddress
       | Some plt \<Rightarrow>
           if is_position_independent (tw_output_kind tw') then
             bind_outcome (write_relr_entry_flat A (ga + GOT_ENTRY_SIZE) plt tw') (\<lambda>(tw, value). Ok (set_got_entry value tw))
           else Ok (set_got_entry plt tw')) tw'
      (\<lambda>p. if is_position_independent (tw_output_kind tw) then one (if relr then RelrDynPart else RelaDynRelativePart) p else 0)"
    using meets_flat [OF assms(2), of set_got_entry A _ tw'] rp
    by (cases "plt_address res") (auto simp: k)
qed (simp add: ifunc_budget_def)

section \<open>Addresses\<close>

lemma create_resolution_fields:
  assumes "create_resolution flags raw dynsym mo relr ok = Some (res, mo')"
  shows "res_flags res = flags" "dynamic_symbol_index res = dynsym" "\<not> needs_plt flags \<Longrightarrow> raw_value res = raw"
    "plt_address res \<noteq> None \<longleftrightarrow> needs_plt flags" "got_address res \<noteq> None \<longleftrightarrow> needs_plt flags \<or> needs_tls_got flags \<or> needs_got flags"
  using assms unfolding create_resolution_def Let_def
  by (auto simp: allocate_plt_def allocate_got_def allocate_got_relr_def allocate_entries_def
      split: if_splits Option.bind_splits)

lemma needs_tls_got_iff:
  "needs_tls_got flags \<longleftrightarrow> needs_got_tls_offset flags \<or> needs_got_tls_module flags \<or> needs_got_tls_descriptor flags"
  by (simp add: needs_tls_got_def needs_got_tls_offset_def needs_got_tls_module_def needs_got_tls_descriptor_def)

lemmas tls_budgets = tls_offset_budget_def tls_module_budget_def tls_descriptor_budget_def

lemma budget_tls:
  assumes "flags_ok flags" "needs_tls_got flags"
  shows "budget flags ok relr GotPart = unat (num_tls_got_slots flags)" "budget flags ok relr GotRelrPart = 0"
    "budget flags ok relr PltGotPart = 0"
proof -
  have "\<not> needs_ifunc_got_for_address flags" using assms by (auto simp: flags_ok_def)
  then show "budget flags ok relr GotPart = unat (num_tls_got_slots flags)" "budget flags ok relr GotRelrPart = 0"
    "budget flags ok relr PltGotPart = 0"
    using assms(2) by (simp_all add: budget_def num_tls_got_slots_def tls_budgets one_def)
qed

lemma budget_got:
  fixes ok relr
  assumes "\<not> needs_tls_got flags" "needs_got flags"
  defines "g \<equiv> is_got_relr_eligible flags (has_dynamic_symbol flags) relr ok"
  shows "budget flags ok relr GotPart = (if g then 0 else 1) + (if needs_ifunc_got_for_address flags then 1 else 0)"
    "budget flags ok relr GotRelrPart = (if g then 1 else 0)"
    "budget flags ok relr PltGotPart = (if needs_plt flags then 1 else 0)"
  using assms(1,2) unfolding budget_def got_budget_def ifunc_budget_def g_def Let_def needs_tls_got_iff
  by (simp_all add: one_def)

lemma budget_none:
  assumes "flags_ok flags" "\<not> needs_tls_got flags" "\<not> needs_got flags"
  shows "budget flags ok relr p = 0"
  using assms by (auto simp: budget_def flags_ok_def needs_tls_got_iff)

lemma eligible_one_entry:
  "flags_ok flags \<Longrightarrow> is_got_relr_eligible flags d relr ok \<Longrightarrow> \<not> needs_ifunc_got_for_address flags"
  by (auto simp: flags_ok_def is_got_relr_eligible_def)

lemmas allocs = allocate_plt_def allocate_got_def allocate_got_relr_def allocate_entries_def increment_def entry_size_def

text \<open>Addresses advance by the budget, and an entry is given the next address of its table.\<close>

lemma create_resolution_addresses:
  assumes ok: "flags_ok flags" and c: "create_resolution flags raw dynsym mo relr ok = Some (res, mo')"
    and p: "p = GotPart \<or> p = GotRelrPart \<or> p = PltGotPart"
  shows "mo' p = mo p + entry_size p * of_nat (budget flags ok relr p)"
proof (cases "needs_tls_got flags")
  case True
  with ok have "\<not> needs_plt flags" by (auto simp: flags_ok_def)
  with True c p budget_tls [OF ok True, of ok relr] show ?thesis
    by (auto simp: create_resolution_def Let_def allocs split: if_splits Option.bind_splits)
next
  case nt: False
  show ?thesis
  proof (cases "needs_got flags")
    case True
    note b = budget_got [OF nt True, of ok relr]
    note e = eligible_one_entry [OF ok, of "has_dynamic_symbol flags" relr ok]
    have "needs_ifunc_got_for_address flags \<Longrightarrow> needs_plt flags" using ok by (simp add: flags_ok_def)
    with p c e show ?thesis
      unfolding create_resolution_def Let_def
      by (cases "is_got_relr_eligible flags (has_dynamic_symbol flags) relr ok";
          cases "needs_ifunc_got_for_address flags"; cases "needs_plt flags")
        (auto simp: b nt True allocs split: if_splits Option.bind_splits)
  next
    case False
    with ok nt c show ?thesis by (auto simp: budget_none create_resolution_def Let_def flags_ok_def)
  qed
qed

lemma create_resolution_got:
  assumes ok: "flags_ok flags" and c: "create_resolution flags raw dynsym mo relr ok = Some (res, mo')"
    and ga: "got_address res = Some ga"
  defines "g \<equiv> is_got_relr_eligible flags (has_dynamic_symbol flags) relr ok"
  shows "ga = (if g \<and> \<not> needs_tls_got flags then mo GotRelrPart else mo GotPart)"
proof (cases "needs_tls_got flags")
  case True
  with ok have "\<not> needs_plt flags" by (auto simp: flags_ok_def)
  with True c ga show ?thesis
    by (auto simp: create_resolution_def Let_def allocs split: if_splits Option.bind_splits)
next
  case nt: False
  note e = eligible_one_entry [OF ok, of "has_dynamic_symbol flags" relr ok]
  show ?thesis
    using c ga e nt unfolding create_resolution_def Let_def g_def
    by (cases "is_got_relr_eligible flags (has_dynamic_symbol flags) relr ok";
        cases "needs_ifunc_got_for_address flags"; cases "needs_plt flags")
      (auto simp: allocs split: if_splits Option.bind_splits)
qed

section \<open>One symbol\<close>

lemma even_add_entry: "(v :: u64) mod 2 = 0 \<Longrightarrow> (v + 8 * k) mod 2 = 0"
  by (simp add: even_iff_mod_2_eq_zero [symmetric])

lemma even_add_GOT: "v mod 2 = 0 \<Longrightarrow> (v + GOT_ENTRY_SIZE) mod 2 = 0"
  using even_add_entry [of v 1] by (simp add: GOT_ENTRY_SIZE_def)

lemma meets_process_resolution:
  assumes ok: "flags_ok flags" "tls_ok kind flags raw dynsym" "\<not> is_partial_link kind" "plt_total A"
    and tw: "tw_output_kind tw = kind" "relr_ok tw relr n" "budget flags kind relr RelrDynPart \<le> n RelrDynPart"
    and c: "create_resolution flags raw dynsym mo relr kind = Some (res, mo')"
    and aligned: "mo GotPart mod 2 = 0" "mo GotRelrPart mod 2 = 0"
  shows "meets (process_resolution A relr res tw) tw (budget flags kind relr)"
proof (cases "got_address res")
  case None
  then have "\<not> needs_tls_got flags" "\<not> needs_got flags" using create_resolution_fields(5) [OF c] by auto
  then have "budget flags kind relr = (\<lambda>_. 0)" using budget_none [OF ok(1)] by blast
  then show ?thesis using None by (simp add: process_resolution_def meets_Ok)
next
  case (Some ga)
  note fields = create_resolution_fields [OF c]
  show ?thesis
  proof (cases "needs_tls_got flags")
    case True
    then have np: "\<not> needs_plt flags" "\<not> needs_ifunc_got_for_address flags" using ok(1) by (auto simp: flags_ok_def)
    have eq: "process_resolution A relr res tw = process_tls_resolution A res ga tw"
      using True Some fields(1) by (auto simp: process_resolution_def needs_tls_got_iff Let_def)
    have t: "tls_ok (tw_output_kind tw) flags raw dynsym" "\<not> is_partial_link (tw_output_kind tw)"
      using ok tw(1) by simp_all
    show ?thesis unfolding eq
      by (rule meets_cong [OF meets_tls_resolution [OF t(1) ok(1) t(2) fields(1) fields(3) [OF np(1)] fields(2)]])
        (simp add: budget_def True np tw(1))
  next
    case False
    then have ng: "needs_got flags" using Some fields(5) ok(1) by (auto simp: flags_ok_def)
    let ?g = "is_got_relr_eligible flags (has_dynamic_symbol flags) relr kind"
    have even: "ga mod 2 = 0" using create_resolution_got [OF ok(1) c Some] aligned by auto
    have g: "?g = is_got_relr_eligible flags (has_dynamic_symbol flags) relr (tw_output_kind tw)" using tw(1) by simp
    note relr_le = le_trans [OF _ tw(3)]
    let ?entry = "\<lambda>p. if is_ifunc flags then one RelaPltPart p
         else if has_dynamic_symbol flags then one RelaDynGeneralPart p
         else if has_link_time_address flags \<and> is_position_independent kind \<and> \<not> ?g then
           one (if relr then RelrDynPart else RelaDynRelativePart) p
         else 0"
    let ?plt = "\<lambda>p. if needs_plt flags then one PltGotPart p else 0"
    let ?if = "\<lambda>p. if needs_ifunc_got_for_address flags then ifunc_budget kind relr p else 0"
    let ?s3 = "\<lambda>tw. if needs_ifunc_got_for_address flags then process_ifunc_got A res ga tw else Ok tw"
    let ?s2 = "\<lambda>tw. bind_outcome (case plt_address res of Some plt \<Rightarrow> tw_write_plt_entry A ga plt tw | None \<Rightarrow> Ok tw) ?s3"
    let ?s1 = "\<lambda>tw. bind_outcome (process_got_entry A ?g res ga tw) ?s2"
    have s3: "meets (?s3 t) t ?if" if t: "relr_ok t relr n" "tw_output_kind t = kind" for t
      using meets_ifunc_got [OF t(1) even_add_GOT [OF even], of A res] t(2) tw(3)
      by (intro meets_when) (auto simp: budget_def)
    have plt: "meets (case plt_address res of Some plt \<Rightarrow> tw_write_plt_entry A ga plt t | None \<Rightarrow> Ok t) t ?plt" for t
      using fields(4) meets_plt [OF ok(4)] by (cases "plt_address res") (auto simp: meets_Ok)
    have s2: "meets (?s2 t) t (\<lambda>p. ?plt p + ?if p)" if t: "relr_ok t relr n" "tw_output_kind t = kind" for t
      using t by (intro meets_bind [OF plt] s3) (auto intro: relr_ok_consumes dest: consumes_kind)
    have s1: "meets (?s1 t) t (\<lambda>p. ?entry p + (?plt p + ?if p))" if t: "relr_ok t relr n" "tw_output_kind t = kind" for t
    proof (rule meets_bind)
      have "got_budget flags (tw_output_kind t) relr RelrDynPart \<le> n RelrDynPart"
        using tw(3) t(2) False ng by (simp add: budget_def)
      from meets_got_entry [OF ok(1) fields(1) t(1) even this, of ?g A, unfolded t(2), OF refl]
      show "meets (process_got_entry A ?g res ga t) t ?entry" .
    qed (use t s2 in \<open>auto intro: relr_ok_consumes dest: consumes_kind\<close>)
    have eq: "process_resolution A relr res tw =
        bind_outcome (if ?g then take_next_got_relr_entry tw else take_next_got_entry tw) ?s1"
      using Some fields(1) False tw(1)
      by (simp add: process_resolution_def needs_tls_got_iff Let_def has_dynamic_symbol_def)
    show ?thesis unfolding eq
    proof (rule meets_bind_eq)
      fix t assume "consumes tw t (one (if ?g then GotRelrPart else GotPart))"
      with tw show "meets (?s1 t) t (\<lambda>p. ?entry p + (?plt p + ?if p))"
        by (intro s1) (auto intro: relr_ok_consumes dest: consumes_kind)
    next
      show "meets (if ?g then take_next_got_relr_entry tw else take_next_got_entry tw) tw
          (one (if ?g then GotRelrPart else GotPart))"
        by (simp add: meets_take)
      show "budget flags kind relr p = one (if ?g then GotRelrPart else GotPart) p + (?entry p + (?plt p + ?if p))" for p
        using False ng by (simp add: budget_def got_budget_def Let_def needs_tls_got_iff)
    qed
  qed
qed

section \<open>All symbols\<close>

definition total :: "OutputKind \<Rightarrow> bool \<Rightarrow> alloc_symbol list \<Rightarrow> Part \<Rightarrow> nat" where
  "total kind relr syms p = (\<Sum>s\<leftarrow>syms. budget (as_flags s) kind relr p)"

lemma total_simps [simp]:
  "total kind relr [] p = 0" "total kind relr (s # syms) p = budget (as_flags s) kind relr p + total kind relr syms p"
  "total kind relr (xs @ ys) p = total kind relr xs p + total kind relr ys p"
  by (simp_all add: total_def)

lemma one_le: "one p q \<le> 1"
  by (simp add: one_def)

lemma budget_le: "budget flags kind relr p \<le> 16"
proof -
  have "got_budget flags kind relr p \<le> 2" "ifunc_budget kind relr p \<le> 2" "tls_offset_budget flags kind p \<le> 2"
    "tls_module_budget flags kind p \<le> 4" "tls_descriptor_budget p \<le> 3"
    by (simp_all add: got_budget_def ifunc_budget_def tls_budgets one_def Let_def)
  then have "budget flags kind relr p \<le> 3 + 2 + 2 + 4 + 3"
    unfolding budget_def using one_le [of PltGotPart p] by (intro add_mono) auto
  then show ?thesis by simp
qed

lemma total_le: "total kind relr syms p \<le> 16 * length syms"
  by (induction syms) (use budget_le [of _ kind relr p] in \<open>auto intro: add_mono\<close>)

lemma sizes_total:
  "finalise_symbol_sizes kind relr syms m p = m p + entry_size p * of_nat (total kind relr syms p)"
proof (induction syms arbitrary: m)
  case Nil
  then show ?case by (simp add: finalise_symbol_sizes_def)
next
  case (Cons s syms)
  then show ?case by (simp add: finalise_symbol_sizes_def allocate_resolution_budget algebra_simps)
qed

lemma new_table_left:
  assumes "length syms < 2 ^ 32"
  shows "left (new_table (entry_size p * of_nat (total kind relr syms p)) (entry_size p) :: 'a table) = total kind relr syms p"
proof -
  have "total kind relr syms p < 2 ^ 36" using total_le [of kind relr syms p] assms by simp
  then have u: "unat (of_nat (total kind relr syms p) :: u64) = total kind relr syms p" by (simp add: unat_of_nat)
  have "unat (entry_size p) * total kind relr syms p < 2 ^ 64"
    using \<open>total kind relr syms p < 2 ^ 36\<close> by (cases p) (simp_all add: entry_size_def size_defs')
  then have "unat (entry_size p * of_nat (total kind relr syms p)) = unat (entry_size p) * total kind relr syms p"
    by (simp add: unat_word_ariths u)
  moreover have "unat (entry_size p) \<noteq> 0" by (cases p) (simp_all add: entry_size_def size_defs')
  ultimately show ?thesis by (simp add: new_table_def)
qed


lemma new_table_lefts:
  assumes "length syms < 2 ^ 32" and "sizes = finalise_symbol_sizes kind relr syms (\<lambda>_. 0)"
  shows "left (new_table (sizes GotPart) GOT_ENTRY_SIZE :: 'a table) = total kind relr syms GotPart"
    "left (new_table (sizes GotRelrPart) GOT_ENTRY_SIZE :: 'a table) = total kind relr syms GotRelrPart"
    "left (new_table (sizes PltGotPart) PLT_ENTRY_SIZE :: 'a table) = total kind relr syms PltGotPart"
    "left (new_table (sizes RelaPltPart) RELA_ENTRY_SIZE :: 'a table) = total kind relr syms RelaPltPart"
    "left (new_table (sizes RelaDynRelativePart) RELA_ENTRY_SIZE :: 'a table) = total kind relr syms RelaDynRelativePart"
    "left (new_table (sizes RelaDynGeneralPart) RELA_ENTRY_SIZE :: 'a table) = total kind relr syms RelaDynGeneralPart"
    "left (new_table (sizes RelrDynPart) RELR_ENTRY_SIZE :: 'a table) = total kind relr syms RelrDynPart"
proof -
  have e: "left (new_table (sizes q) (entry_size q) :: 'a table) = total kind relr syms q" for q
    unfolding assms(2) sizes_total using new_table_left [OF assms(1), of q] by simp
  show "left (new_table (sizes GotPart) GOT_ENTRY_SIZE :: 'a table) = total kind relr syms GotPart"
    "left (new_table (sizes GotRelrPart) GOT_ENTRY_SIZE :: 'a table) = total kind relr syms GotRelrPart"
    "left (new_table (sizes PltGotPart) PLT_ENTRY_SIZE :: 'a table) = total kind relr syms PltGotPart"
    "left (new_table (sizes RelaPltPart) RELA_ENTRY_SIZE :: 'a table) = total kind relr syms RelaPltPart"
    "left (new_table (sizes RelaDynRelativePart) RELA_ENTRY_SIZE :: 'a table) = total kind relr syms RelaDynRelativePart"
    "left (new_table (sizes RelaDynGeneralPart) RELA_ENTRY_SIZE :: 'a table) = total kind relr syms RelaDynGeneralPart"
    "left (new_table (sizes RelrDynPart) RELR_ENTRY_SIZE :: 'a table) = total kind relr syms RelrDynPart"
    using e [of GotPart] e [of GotRelrPart] e [of PltGotPart] e [of RelaPltPart] e [of RelaDynRelativePart]
      e [of RelaDynGeneralPart] e [of RelrDynPart] by (simp_all add: entry_size_def)
qed

lemma table_writer_new_parts:
  fixes tls_start tls_end
  assumes "length syms < 2 ^ 32" and "sizes = finalise_symbol_sizes kind relr syms (\<lambda>_. 0)"
  defines "tw \<equiv> table_writer_new kind tls_start tls_end sizes relr"
  shows "relr \<or> p \<noteq> RelrDynPart \<Longrightarrow> part_left tw p = total kind relr syms p" "part_used tw p = 0"
    "relr_ok tw relr (total kind relr syms)" "tw_output_kind tw = kind"
proof -
  note e = new_table_lefts [OF assms(1,2)]
  show "part_left tw p = total kind relr syms p" if "relr \<or> p \<noteq> RelrDynPart"
    using e that unfolding tw_def table_writer_new_def part_left_def
    by (cases p) (auto simp: Let_def)
  show "part_used tw p = 0"
    by (cases p) (auto simp: part_used_def tw_def table_writer_new_def new_table_def Let_def)
  show "relr_ok tw relr (total kind relr syms)"
    by (auto simp: e relr_ok_def tw_def table_writer_new_def Let_def)
qed (simp add: tw_def table_writer_new_def)

lemma budget_no_relr: "budget flags kind False RelrDynPart = 0"
  by (simp add: budget_def got_budget_def ifunc_budget_def tls_budgets one_def Let_def)

lemma total_no_relr: "total kind False syms RelrDynPart = 0"
  by (induction syms) (simp_all add: budget_no_relr)

definition symbol_ok :: "OutputKind \<Rightarrow> alloc_symbol \<Rightarrow> bool" where
  "symbol_ok kind s = (flags_ok (as_flags s) \<and> tls_ok kind (as_flags s) (as_raw_value s) (as_dynsym s))"

lemma create_even:
  assumes "flags_ok flags" "create_resolution flags raw dynsym mo relr kind = Some (res, mo')"
    "mo GotPart mod 2 = 0" "mo GotRelrPart mod 2 = 0"
  shows "mo' GotPart mod 2 = 0" "mo' GotRelrPart mod 2 = 0"
  using create_resolution_addresses [OF assms(1,2), of GotPart] create_resolution_addresses [OF assms(1,2), of GotRelrPart]
    assms(3,4) by (auto simp: entry_size_def GOT_ENTRY_SIZE_def even_add_entry)

lemma meets_process_resolutions:
  assumes "\<not> is_partial_link kind" "plt_total A"
  shows "create_resolutions kind relr syms mo = Some (rs, mo') \<Longrightarrow> list_all (symbol_ok kind) syms \<Longrightarrow>
    tw_output_kind tw = kind \<Longrightarrow> relr_ok tw relr n \<Longrightarrow> total kind relr syms RelrDynPart \<le> n RelrDynPart \<Longrightarrow>
    mo GotPart mod 2 = 0 \<Longrightarrow> mo GotRelrPart mod 2 = 0 \<Longrightarrow>
    meets (process_resolutions A relr rs tw) tw (total kind relr syms)"
proof (induction syms arbitrary: mo rs tw)
  case Nil
  then show ?case by (auto simp: meets_def consumes_def)
next
  case (Cons s syms)
  then obtain res mo1 rs' where c: "create_resolution (as_flags s) (as_raw_value s) (as_dynsym s) mo relr kind = Some (res, mo1)"
    and r: "create_resolutions kind relr syms mo1 = Some (rs', mo')" and rs: "rs = res # rs'"
    by (auto split: Option.bind_splits)
  have s: "flags_ok (as_flags s)" "tls_ok kind (as_flags s) (as_raw_value s) (as_dynsym s)" "list_all (symbol_ok kind) syms"
    using Cons.prems(2) by (auto simp: symbol_ok_def [of kind s])
  have first: "meets (process_resolution A relr res tw) tw (budget (as_flags s) kind relr)"
    by (rule meets_process_resolution [OF s(1,2) assms Cons.prems(3,4) _ c Cons.prems(6,7)]) (use Cons.prems(5) in simp)
  show ?case unfolding rs process_resolutions.simps
  proof (rule meets_bind_eq [OF first])
    fix tw' assume k: "consumes tw tw' (budget (as_flags s) kind relr)"
    show "meets (process_resolutions A relr rs' tw') tw' (total kind relr syms)"
      using Cons.IH [OF r s(3)] create_even [OF s(1) c Cons.prems(6,7)] consumes_kind [OF k]
        relr_ok_consumes [OF Cons.prems(4) k] Cons.prems(3,5) by simp
  qed simp
qed

lemma create_resolutions_split:
  "create_resolutions kind relr syms mo = Some (as @ res # bs, mo') \<Longrightarrow>
   \<exists>xs s ys mo1 mo2. syms = xs @ s # ys \<and> create_resolutions kind relr xs mo = Some (as, mo1) \<and>
     create_resolution (as_flags s) (as_raw_value s) (as_dynsym s) mo1 relr kind = Some (res, mo2)"
proof (induction as arbitrary: syms mo)
  case Nil
  then show ?case
    by (cases syms) (auto split: Option.bind_splits intro!: exI [of _ "[]"])
next
  case (Cons a as)
  then obtain s syms' mo1 where *: "syms = s # syms'"
      "create_resolution (as_flags s) (as_raw_value s) (as_dynsym s) mo relr kind = Some (a, mo1)"
      "create_resolutions kind relr syms' mo1 = Some (as @ res # bs, mo')"
    by (cases syms) (auto split: Option.bind_splits)
  from Cons.IH [OF *(3)] obtain xs s' ys mo2 mo3 where "syms' = xs @ s' # ys"
      "create_resolutions kind relr xs mo1 = Some (as, mo2)"
      "create_resolution (as_flags s') (as_raw_value s') (as_dynsym s') mo2 relr kind = Some (res, mo3)"
    by blast
  with * show ?case by (intro exI [of _ "s # xs"] exI [of _ s'] exI [of _ ys] exI [of _ mo2] exI [of _ mo3]) simp
qed

lemma create_resolutions_addresses:
  "create_resolutions kind relr syms mo = Some (rs, mo') \<Longrightarrow> list_all (symbol_ok kind) syms \<Longrightarrow>
   p = GotPart \<or> p = GotRelrPart \<or> p = PltGotPart \<Longrightarrow>
   mo' p = mo p + entry_size p * of_nat (total kind relr syms p)"
proof (induction syms arbitrary: mo rs)
  case (Cons s syms)
  then obtain res mo1 rs' where c: "create_resolution (as_flags s) (as_raw_value s) (as_dynsym s) mo relr kind = Some (res, mo1)"
    and r: "create_resolutions kind relr syms mo1 = Some (rs', mo')"
    by (auto split: Option.bind_splits)
  have "flags_ok (as_flags s)" using Cons.prems(2) by (simp add: symbol_ok_def)
  from create_resolution_addresses [OF this c Cons.prems(3)] Cons.IH [OF r _ Cons.prems(3)] Cons.prems(2)
  show ?case by (simp add: algebra_simps)
qed simp

end
