(* ===== verification/Relax_Choice.thy ===== *)
theory Relax_Choice
  imports Output_Kind Value_Flags Relax_Deltas Relax_Frame
begin

text \<open>
  The result of choosing a relaxation for a relocation (\<open>struct Relaxation\<close> of
  \<open>libjdxld/src/elf_<arch>.rs\<close>, the trait of \<open>platform.rs\<close>), which every architecture has in the
  same form, and the arguments of \<open>new_relaxation\<close>. The locale \<open>relaxation_choice\<close> is the interface
  between the choice and the rewriting: a relaxation is only chosen where the bytes before the
  relocation that it rewrites exist, and choosing does not panic for a relocation type that is known
  (some architectures look the type up again and unwrap).
\<close>

section \<open>Chosen relaxations\<close>

record 'k Relaxation =
  rx_kind :: 'k
  rx_rel_info :: RelocationKindInfo
  rx_mandatory :: bool

text \<open>\<open>SHF_EXECINSTR\<close> of the ELF specification, and \<open>contains\<close> on section flags.\<close>

type_synonym SectionFlags = u64

definition EXECINSTR :: SectionFlags where "EXECINSTR = 0x4"

definition sflags_contain :: "SectionFlags \<Rightarrow> SectionFlags \<Rightarrow> bool" where
  "sflags_contain s f = (s AND f = f)"

record PreviousRelocationInfo =
  prev_kind :: rtype
  prev_offset :: u64
  prev_symbol :: "nat option"
  prev_addend :: int

text \<open>
  What the writer knows when it asks for a relaxation: the relocation, the bytes of the section
  and the offset in it, the flags of the symbol, what is being linked, the flags of the section, the bytes deleted from
  it, the addresses of symbol and section, the addend, and the relocation before this one.
\<close>

record relax_query =
  q_relocation :: rtype
  q_section_bytes :: bytes
  q_offset :: nat
  q_flags :: ValueFlags
  q_output_kind :: OutputKind
  q_section_flags :: SectionFlags
  q_relax_deltas :: "SectionRelaxDeltas option"
  q_sym_addr :: u64
  q_section_address :: u64
  q_rel_addend :: int
  q_previous :: "PreviousRelocationInfo option"

text \<open>One step of the writer: choose, and rewrite when something was chosen.\<close>

definition relax_step ::
    "(relax_query \<Rightarrow> 'k Relaxation option option) \<Rightarrow> ('k \<Rightarrow> relax_state \<Rightarrow> relax_state option) \<Rightarrow>
     relax_query \<Rightarrow> int \<Rightarrow> relax_state option" where
  "relax_step pick ap q ad =
     do { c \<leftarrow> pick q;
          case c of None \<Rightarrow> Some (q_section_bytes q, q_offset q, ad)
          | Some r \<Rightarrow> ap (rx_kind r) (q_section_bytes q, q_offset q, ad) }"

locale relaxation_choice = relaxation ap win
  for ap :: "'k \<Rightarrow> relax_state \<Rightarrow> relax_state option" and win :: "'k \<Rightarrow> nat \<times> nat" +
  fixes pick :: "relax_query \<Rightarrow> 'k Relaxation option option" and known :: "rtype \<Rightarrow> bool"
  assumes choice_total: "known (q_relocation q) \<Longrightarrow> q_offset q \<le> length (q_section_bytes q) \<Longrightarrow> pick q \<noteq> None"
    and choice_applies: "pick q = Some (Some r) \<Longrightarrow>
          q_offset q + snd (win (rx_kind r)) \<le> length (q_section_bytes q) \<Longrightarrow>
          ap (rx_kind r) (q_section_bytes q, q_offset q, ad) \<noteq> None"
begin

lemma relax_step_safe:
  assumes "known (q_relocation q)" "q_offset q \<le> length (q_section_bytes q)"
    and "\<And>r. pick q = Some (Some r) \<Longrightarrow> q_offset q + snd (win (rx_kind r)) \<le> length (q_section_bytes q)"
  shows "\<exists>bs' off' ad'. relax_step pick ap q ad = Some (bs', off', ad') \<and> length bs' = length (q_section_bytes q) \<and>
           (\<forall>i < length (q_section_bytes q).
              (\<forall>r. pick q = Some (Some r) \<longrightarrow> \<not> in_window (win (rx_kind r)) (q_offset q) i) \<longrightarrow>
              bs' ! i = q_section_bytes q ! i)"
proof -
  obtain c where c: "pick q = Some c" using choice_total [OF assms(1,2)] by blast
  show ?thesis
  proof (cases c)
    case None
    with c show ?thesis by (simp add: relax_step_def)
  next
    case (Some r)
    with c have cr: "pick q = Some (Some r)" by simp
    obtain bs' off' ad' where ap: "ap (rx_kind r) (q_section_bytes q, q_offset q, ad) = Some (bs', off', ad')"
      using choice_applies [OF cr assms(3) [OF cr], of ad] by (metis not_None_eq prod.exhaust)
    then have "relax_step pick ap q ad = Some (bs', off', ad')" by (simp add: relax_step_def cr)
    with apply_length [OF ap] apply_frame [OF ap] cr show ?thesis by blast
  qed
qed

end

end
