(* ===== verification/Elf_X86_64.thy ===== *)
theory Elf_X86_64
  imports Arch_X86_64 Relax_Choice Platform
begin

text \<open>
  x86-64 in the linker proper (\<open>libjdxld/src/elf_x86_64.rs\<close>): which relocations are refused, the
  entry of the procedure linkage table, the classes of GNU properties, the padding, and the
  choice of a relaxation from the bytes around a relocation. The lemmas connect the choice with
  the rewriting of \<open>Arch_X86_64\<close>.
\<close>

section \<open>Relocations that are refused\<close>

definition x86_is_disallowed_for_interposable_symbols :: "rtype \<Rightarrow> bool" where
  "x86_is_disallowed_for_interposable_symbols r_type =
     (r_type \<in> set [''R_X86_64_32'', ''R_X86_64_32S'', ''R_X86_64_PC32'', ''R_X86_64_8'', ''R_X86_64_16'',
        ''R_X86_64_PC8'', ''R_X86_64_PC16''])"

definition x86_is_disallowed_in_shared_object :: "rtype \<Rightarrow> bool" where
  "x86_is_disallowed_in_shared_object r_type =
     (r_type \<in> set [''R_X86_64_32'', ''R_X86_64_32S'', ''R_X86_64_8'', ''R_X86_64_16''])"

section \<open>The procedure linkage table\<close>

definition x86_PLT_ENTRY_TEMPLATE :: bytes where
  "x86_PLT_ENTRY_TEMPLATE =
     [0xf3, 0x0f, 0x1e, 0xfa, 0xf2, 0xff, 0x25, 0x0, 0x0, 0x0, 0x0, 0x0f, 0x1f, 0x44, 0x0, 0x0]"

definition x86_write_plt_entry :: "bytes \<Rightarrow> u64 \<Rightarrow> u64 \<Rightarrow> (plt_error, bytes) outcome" where
  "x86_write_plt_entry plt_entry got_address plt_address =
     bind_outcome (of_panic (copy_template x86_PLT_ENTRY_TEMPLATE plt_entry)) (\<lambda>entry.
       let offset = got_address - (plt_address + 0xb)
       in bind_outcome (ensure (- (2 ^ 31) \<le> sint offset \<and> sint offset < 2 ^ 31) PltTooFar) (\<lambda>_.
            of_panic (splice 7 (to_le 4 offset) entry)))"

section \<open>Properties and padding\<close>

definition x86_get_property_class :: "u32 \<Rightarrow> PropertyClass option" where
  "x86_get_property_class t =
     (if 0xc0000002 \<le> t \<and> t \<le> 0xc0007fff then Some PropertyAnd
      else if 0xc0008000 \<le> t \<and> t \<le> 0xc000ffff then Some PropertyOr
      else if 0xc0010000 \<le> t \<and> t \<le> 0xc0017fff then Some PropertyAndOr
      else if 0xb0000000 \<le> t \<and> t \<le> 0xb0007fff then Some PropertyAnd
      else if 0xb0008000 \<le> t \<and> t \<le> 0xb000ffff then Some PropertyOr
      else None)"

definition x86_fill_nop_padding :: "bytes \<Rightarrow> bytes" where
  "x86_fill_nop_padding buf = replicate (length buf) 0xcc"

definition x86_fill_section_padding :: "bytes \<Rightarrow> SectionFlags \<Rightarrow> bytes" where
  "x86_fill_section_padding buf section_flags =
     (if sflags_contain section_flags EXECINSTR then x86_fill_nop_padding buf
      else replicate (length buf) 0)"

section \<open>The choice of a relaxation\<close>

text \<open>\<open>section_bytes.get(offset - k..offset - k + n)\<close>: nothing when it is out of range.\<close>

definition get_before :: "bytes \<Rightarrow> nat \<Rightarrow> nat \<Rightarrow> nat \<Rightarrow> bytes option" where
  "get_before bs off k n = do { p \<leftarrow> before off k; slice p (p + n) bs }"

datatype TlsGdForm = Regular | Large | RegularNoPlt

definition identify :: "bytes \<Rightarrow> nat \<Rightarrow> TlsGdForm option" where
  "identify bs offset =
     (if get_before bs offset 4 4 = Some [0x66, 0x48, 0x8d, 0x3d]
         \<and> slice (offset + 4) (offset + 8) bs = Some [0x66, 0x66, 0x48, 0xe8] then Some Regular
      else if get_before bs offset 4 4 = Some [0x66, 0x48, 0x8d, 0x3d]
         \<and> slice (offset + 4) (offset + 8) bs = Some [0x66, 0x48, 0xff, 0x15] then Some RegularNoPlt
      else if get_before bs offset 3 3 = Some [0x48, 0x8d, 0x3d]
         \<and> slice (offset + 4) (offset + 6) bs = Some [0x48, 0xb8]
         \<and> slice (offset + 14) (offset + 19) bs = Some [0x48, 0x01, 0xd8, 0xff, 0xd0] then Some Large
      else None)"

definition x86_rel_info :: "rtype \<Rightarrow> RelocationKindInfo" where
  "x86_rel_info r = the (x86_relocation_from_raw r)"

definition x86_relaxed :: "X86_64Relaxation \<Rightarrow> rtype \<Rightarrow> bool \<Rightarrow> X86_64Relaxation Relaxation option" where
  "x86_relaxed k r m = Some \<lparr>rx_kind = k, rx_rel_info = x86_rel_info r, rx_mandatory = m\<rparr>"

text \<open>
  The guard of the forms with a four-byte prefix: it reads the byte before the prefix for the
  \<open>CODE_4\<close> relocation, and holds whenever three bytes precede the relocation.
\<close>

definition code4_guard :: "bool \<Rightarrow> bytes \<Rightarrow> nat \<Rightarrow> bool option" where
  "code4_guard code4 bs offset =
     (if code4 \<and> 4 \<le> offset then do { b \<leftarrow> index bs (offset - 4); Some (b = 0xd5 \<or> 3 \<le> offset) }
      else Some (3 \<le> offset))"

text \<open>\<open>R_X86_64_REX_GOTPCRELX\<close> and \<open>R_X86_64_CODE_4_GOTPCRELX\<close>.\<close>

definition x86_relax_rex_gotpcrelx ::
    "rtype \<Rightarrow> bytes \<Rightarrow> nat \<Rightarrow> bool \<Rightarrow> bool \<Rightarrow> bool \<Rightarrow> OutputKind \<Rightarrow> X86_64Relaxation Relaxation option option" where
  "x86_relax_rex_gotpcrelx rk bs offset absolute absolute_address interposable output_kind =
     do { b1 \<leftarrow> index_before bs offset 2;
          rex \<leftarrow> index_before bs offset 3;
          Some (if rex \<noteq> 0x48 \<and> rex \<noteq> 0x4c then None
            else if absolute \<or> absolute_address then
              let inst_offset = (if rk = ''R_X86_64_REX_GOTPCRELX'' then 3 else 4);
                  mandatory = is_static_executable output_kind \<and> absolute
              in if b1 = 0x8b then x86_relaxed (RexMovIndirectToAbsolute inst_offset) ''R_X86_64_32'' mandatory
                 else if b1 = 0x2b then x86_relaxed (RexSubIndirectToAbsolute inst_offset) ''R_X86_64_32'' mandatory
                 else if b1 = 0x3b then x86_relaxed (RexCmpIndirectToAbsolute inst_offset) ''R_X86_64_32'' mandatory
                 else None
            else if \<not> interposable \<and> b1 = 0x8b then
              x86_relaxed MovIndirectToLea ''R_X86_64_PC32'' (is_static_executable output_kind)
            else None) }"

definition x86_relax_gotpcrelx ::
    "bytes \<Rightarrow> nat \<Rightarrow> bool \<Rightarrow> bool \<Rightarrow> bool \<Rightarrow> OutputKind \<Rightarrow> X86_64Relaxation Relaxation option" where
  "x86_relax_gotpcrelx bs offset absolute absolute_address interposable output_kind =
     (case index_before bs offset 2 of
        None \<Rightarrow> None
      | Some b \<Rightarrow>
          if b = 0x8b \<and> (absolute \<or> absolute_address) then
            x86_relaxed MovIndirectToAbsolute ''R_X86_64_32'' (is_static_executable output_kind)
          else if b = 0x8b \<and> \<not> interposable then
            x86_relaxed MovIndirectToLea ''R_X86_64_PC32'' (is_static_executable output_kind)
          else if \<not> interposable then
            let mandatory = is_static_executable output_kind \<and> is_position_independent output_kind
            in if get_before bs offset 2 2 = Some [0xff, 0x15] then
                 x86_relaxed CallIndirectToRelative ''R_X86_64_PC32'' mandatory
               else if get_before bs offset 2 2 = Some [0xff, 0x25] then
                 x86_relaxed JmpIndirectToRelative ''R_X86_64_PC32'' mandatory
               else None
          else None)"

definition x86_relax_gottpoff :: "rtype \<Rightarrow> bytes \<Rightarrow> nat \<Rightarrow> OutputKind \<Rightarrow> X86_64Relaxation Relaxation option" where
  "x86_relax_gottpoff rk bs offset output_kind =
     (let inst_offset = (if rk = ''R_X86_64_GOTTPOFF'' then 3 else 4);
          b = get_before bs offset 3 2
      in if b = Some [0x48, 0x8b] \<or> b = Some [0x4c, 0x8b] then
           x86_relaxed (RexMovIndirectToAbsolute inst_offset) ''R_X86_64_TPOFF32'' (is_static_executable output_kind)
         else if b = Some [0x48, 0x03] \<or> b = Some [0x4c, 0x03] then
           x86_relaxed (RexAddIndirectToAbsolute inst_offset) ''R_X86_64_TPOFF32'' False
         else None)"

definition x86_relax_code6_gottpoff :: "bytes \<Rightarrow> nat \<Rightarrow> OutputKind \<Rightarrow> X86_64Relaxation Relaxation option" where
  "x86_relax_code6_gottpoff bs offset output_kind =
     (case get_before bs offset 6 5 of
        Some [p, l5, l4, l3, opc] \<Rightarrow>
          if p = 0x62 \<and> (opc = 0x1 \<or> opc = 0x3) \<and> l5 AND 0x47 = 0x44 \<and> l4 AND 0x87 = 0x84 \<and> l3 AND 0x14 \<noteq> 0 then
            x86_relaxed (RexAddIndirectToAbsolute 6) ''R_X86_64_TPOFF32'' (is_static_executable output_kind)
          else None
      | _ \<Rightarrow> None)"

definition x86_relax_tlsgd :: "bytes \<Rightarrow> nat \<Rightarrow> bool \<Rightarrow> OutputKind \<Rightarrow> X86_64Relaxation Relaxation option" where
  "x86_relax_tlsgd bs offset interposable output_kind =
     (case identify bs offset of
        None \<Rightarrow> None
      | Some form \<Rightarrow>
          if \<not> interposable then
            x86_relaxed (if form = Large then TlsGdToLocalExecLarge else TlsGdToLocalExec) ''R_X86_64_TPOFF32''
              (is_static_executable output_kind)
          else if form = Large then None
          else x86_relaxed TlsGdToInitialExec ''R_X86_64_GOTTPOFF'' False)"

definition x86_relax_tlsld :: "bytes \<Rightarrow> nat \<Rightarrow> OutputKind \<Rightarrow> X86_64Relaxation Relaxation option" where
  "x86_relax_tlsld bs offset output_kind =
     (if get_before bs offset 3 3 = Some [0x48, 0x8d, 0x3d] then
        (case slice (offset + 4) (offset + 6) bs of
           Some [a, b] \<Rightarrow>
             if a = 0xe8 then x86_relaxed TlsLdToLocalExec ''R_X86_64_NONE'' (is_static_executable output_kind)
             else if a = 0x48 \<and> b = 0xb8 then x86_relaxed TlsLdToLocalExec64 ''R_X86_64_NONE'' False
             else if a = 0xff \<and> b = 0x15 then
               x86_relaxed TlsLdToLocalExecNoPlt ''R_X86_64_NONE'' (is_static_executable output_kind)
             else None
         | _ \<Rightarrow> None)
      else None)"

text \<open>\<open>R_X86_64_GOTPC32_TLSDESC\<close> applied to a \<open>lea\<close>.\<close>

definition x86_relax_tlsdesc ::
    "bytes \<Rightarrow> nat \<Rightarrow> X86_64Relaxation \<Rightarrow> rtype \<Rightarrow> OutputKind \<Rightarrow> X86_64Relaxation Relaxation option" where
  "x86_relax_tlsdesc bs offset k r output_kind =
     (let b = get_before bs offset 3 2
      in if b = Some [0x48, 0x8d] \<or> b = Some [0x4c, 0x8d] then x86_relaxed k r (is_static_executable output_kind)
         else None)"

definition x86_relax_by_type ::
    "rtype \<Rightarrow> bytes \<Rightarrow> nat \<Rightarrow> bool \<Rightarrow> bool \<Rightarrow> bool \<Rightarrow> OutputKind \<Rightarrow> X86_64Relaxation Relaxation option option" where
  "x86_relax_by_type rk bs offset absolute absolute_address interposable output_kind =
     (if rk = ''R_X86_64_REX_GOTPCRELX'' \<or> rk = ''R_X86_64_CODE_4_GOTPCRELX'' then
        do { g \<leftarrow> code4_guard (rk = ''R_X86_64_CODE_4_GOTPCRELX'') bs offset;
             if g then x86_relax_rex_gotpcrelx rk bs offset absolute absolute_address interposable output_kind
             else Some None }
      else if rk = ''R_X86_64_GOTPCRELX'' then
        Some (x86_relax_gotpcrelx bs offset absolute absolute_address interposable output_kind)
      else if rk = ''R_X86_64_GOTPCREL'' \<and> \<not> interposable \<and> 2 \<le> offset then
        Some (if index bs (offset - 2) = Some 0x8b then x86_relaxed MovIndirectToLea ''R_X86_64_PC32'' False
              else None)
      else if rk = ''R_X86_64_GOTTPOFF'' \<or> rk = ''R_X86_64_CODE_4_GOTTPOFF'' then
        (if is_executable output_kind \<and> \<not> interposable then
           do { g \<leftarrow> code4_guard (rk = ''R_X86_64_CODE_4_GOTTPOFF'') bs offset;
                Some (if g then x86_relax_gottpoff rk bs offset output_kind else None) }
         else Some None)
      else if rk = ''R_X86_64_CODE_6_GOTTPOFF'' \<and> is_executable output_kind \<and> \<not> interposable \<and> 6 \<le> offset then
        Some (x86_relax_code6_gottpoff bs offset output_kind)
      else if rk = ''R_X86_64_PLT32'' \<and> \<not> interposable then
        Some (x86_relaxed X86NoOp ''R_X86_64_PC32'' (is_static_executable output_kind))
      else if rk = ''R_X86_64_PLTOFF64'' \<and> \<not> interposable then
        Some (x86_relaxed X86NoOp ''R_X86_64_GOTOFF64'' (is_static_executable output_kind))
      else if rk = ''R_X86_64_TLSGD'' \<and> is_executable output_kind then
        Some (x86_relax_tlsgd bs offset interposable output_kind)
      else if rk = ''R_X86_64_TLSLD'' \<and> is_executable output_kind then
        Some (x86_relax_tlsld bs offset output_kind)
      else if (rk = ''R_X86_64_GOTPC32_TLSDESC'' \<or> rk = ''R_X86_64_CODE_4_GOTPC32_TLSDESC'')
              \<and> is_executable output_kind then
        do { g \<leftarrow> (if interposable then Some False
                   else code4_guard (rk = ''R_X86_64_CODE_4_GOTPC32_TLSDESC'') bs offset);
             Some (if g then
                     x86_relax_tlsdesc bs offset
                       (TlsDescToLocalExec (if rk = ''R_X86_64_GOTPC32_TLSDESC'' then 3 else 4))
                       ''R_X86_64_TPOFF32'' output_kind
                   else if rk = ''R_X86_64_GOTPC32_TLSDESC'' then
                     x86_relax_tlsdesc bs offset TlsDescToInitialExec ''R_X86_64_GOTTPOFF'' output_kind
                   else None) }
      else if rk = ''R_X86_64_TLSDESC_CALL'' \<and> is_executable output_kind then
        Some (x86_relaxed SkipTlsDescCall ''R_X86_64_NONE'' (is_static_executable output_kind))
      else Some None)"

definition x86_new_relaxation :: "relax_query \<Rightarrow> X86_64Relaxation Relaxation option option" where
  "x86_new_relaxation q =
     (let flags = q_flags q;
          is_known_address = has_link_time_address flags;
          absolute = is_absolute flags \<and> \<not> is_dynamic flags;
          absolute_address = is_known_address \<and> has_fixed_load_address (q_output_kind q)
      in if is_ifunc flags then
           Some (if q_relocation q = ''R_X86_64_PC32'' then x86_relaxed X86NoOp ''R_X86_64_PLT32'' True else None)
         else if \<not> sflags_contain (q_section_flags q) EXECINSTR then Some None
         else x86_relax_by_type (q_relocation q) (q_section_bytes q) (q_offset q) absolute absolute_address
                (is_interposable flags) (q_output_kind q))"

section \<open>A chosen relaxation can be applied\<close>

text \<open>How many bytes before the relocation a relaxation reads or writes.\<close>

fun x86_need :: "X86_64Relaxation \<Rightarrow> nat" where
  "x86_need MovIndirectToLea = 2"
| "x86_need MovIndirectToAbsolute = 2"
| "x86_need (RexAddIndirectToAbsolute i) = (if i = 6 then 5 else 3)"
| "x86_need CallIndirectToRelative = 2"
| "x86_need JmpIndirectToRelative = 2"
| "x86_need X86NoOp = 0"
| "x86_need SkipTlsDescCall = 0"
| "x86_need TlsGdToLocalExec = 4"
| "x86_need TlsGdToInitialExec = 4"
| "x86_need _ = 3"

lemma index_before_Some [simp]:
  "0 < k \<Longrightarrow> k \<le> off \<Longrightarrow> off \<le> length bs \<Longrightarrow> index_before bs off k = Some (bs ! (off - k))"
  by (simp add: index_before_def before_def index_def)

lemma store_before_Some [simp]:
  "0 < k \<Longrightarrow> k \<le> off \<Longrightarrow> off \<le> length bs \<Longrightarrow> store_before bs off k v = Some (bs[off - k := v])"
  by (simp add: store_before_def before_def store_def)

lemma splice_before_Some:
  "k \<le> off \<Longrightarrow> off + length ys \<le> length bs + k \<Longrightarrow>
     splice_before bs off k ys = Some (take (off - k) bs @ ys @ drop (off - k + length ys) bs)"
  by (simp add: splice_before_def before_def splice_def)

lemma op_mod_rm_Some: "2 \<le> off \<Longrightarrow> off \<le> length bs \<Longrightarrow> \<exists>s. op_mod_rm opc base bs off = Some s"
  by (simp add: op_mod_rm_def)

lemma rex_op_mod_rm_Some: "3 \<le> off \<Longrightarrow> off \<le> length bs \<Longrightarrow> \<exists>s. rex_op_mod_rm i opc base bs off = Some s"
  by (simp add: rex_op_mod_rm_bytes)

lemma x86_rex_add_Some:
  "x86_need (RexAddIndirectToAbsolute i) \<le> off \<Longrightarrow> off \<le> length bs \<Longrightarrow> \<exists>s. x86_rex_add i bs off = Some s"
  using rex_op_mod_rm_Some [of off bs] op_mod_rm_Some [of off]
  by (auto simp: x86_rex_add_def split: if_splits)

lemma x86_apply_total:
  assumes "x86_need k \<le> off" "off + snd (x86_window k) \<le> length bs"
  shows "\<exists>s. x86_apply k (bs, off, ad) = Some s"
proof -
  have ob: "off \<le> length bs" using assms(2) by simp
  show ?thesis
  proof (cases k)
    case (RexAddIndirectToAbsolute i)
    then show ?thesis using x86_rex_add_Some [of i off bs] assms(1) ob by simp
  next
    case SkipTlsDescCall
    then show ?thesis using assms by (simp add: splice_def)
  qed (use assms ob rex_op_mod_rm_Some op_mod_rm_Some in
        \<open>simp_all add: x86_tlsdesc_to_le_def x86_tlsdesc_to_ie_def Let_def splice_before_Some\<close>)
qed

lemma get_before_Some: "get_before bs off k n = Some ys \<Longrightarrow> k \<le> off"
  by (auto simp: get_before_def before_def split: if_splits)

lemma identify_need: "identify bs off = Some form \<Longrightarrow> (if form = Large then 3 else 4) \<le> off"
  by (auto simp: identify_def dest: get_before_Some split: if_splits)

lemmas x86_choice_defs = x86_relax_rex_gotpcrelx_def x86_relax_gotpcrelx_def x86_relax_gottpoff_def
  x86_relax_code6_gottpoff_def x86_relax_tlsgd_def x86_relax_tlsld_def x86_relax_tlsdesc_def

lemma code4_guard_True: "code4_guard c bs off = Some True \<Longrightarrow> 3 \<le> off"
  by (auto simp: code4_guard_def split: if_splits bind_splits)

lemma code4_guard_total: "off \<le> length bs \<Longrightarrow> \<exists>g. code4_guard c bs off = Some g"
  by (auto simp: code4_guard_def index_def)

lemma relaxed_need:
  "x86_relax_rex_gotpcrelx rk bs off a aa ip ok = Some (Some r) \<Longrightarrow> 3 \<le> off \<Longrightarrow> x86_need (rx_kind r) \<le> off"
  "x86_relax_gotpcrelx bs off a aa ip ok = Some r \<Longrightarrow> x86_need (rx_kind r) \<le> off"
  "x86_relax_gottpoff rk bs off ok = Some r \<Longrightarrow> x86_need (rx_kind r) \<le> off"
  "x86_relax_code6_gottpoff bs off ok = Some r \<Longrightarrow> 6 \<le> off \<Longrightarrow> x86_need (rx_kind r) \<le> off"
  "x86_relax_tlsgd bs off ip ok = Some r \<Longrightarrow> x86_need (rx_kind r) \<le> off"
  "x86_relax_tlsld bs off ok = Some r \<Longrightarrow> x86_need (rx_kind r) \<le> off"
  "x86_relax_tlsdesc bs off k ty ok = Some r \<Longrightarrow> x86_need k \<le> 3 \<Longrightarrow> x86_need (rx_kind r) \<le> off"
  subgoal by (auto simp: x86_relax_rex_gotpcrelx_def x86_relaxed_def Let_def split: if_splits bind_splits)
  subgoal by (auto simp: x86_relax_gotpcrelx_def x86_relaxed_def Let_def index_before_def before_def
        dest: get_before_Some split: if_splits option.splits bind_splits)
  subgoal by (auto simp: x86_relax_gottpoff_def x86_relaxed_def Let_def dest: get_before_Some split: if_splits)
  subgoal by (auto simp: x86_relax_code6_gottpoff_def x86_relaxed_def split: if_splits option.splits list.splits)
  subgoal by (auto simp: x86_relax_tlsgd_def x86_relaxed_def dest!: identify_need split: if_splits option.splits)
  subgoal by (auto simp: x86_relax_tlsld_def x86_relaxed_def dest!: get_before_Some split: if_splits option.splits list.splits)
  subgoal by (auto simp: x86_relax_tlsdesc_def x86_relaxed_def Let_def dest!: get_before_Some split: if_splits)
  done

text \<open>Walking down a chain of conditions that ends in a known result.\<close>

lemma if_chainE: "(if b then x else y) = z \<Longrightarrow> (b \<Longrightarrow> x = z \<Longrightarrow> P) \<Longrightarrow> (y = z \<Longrightarrow> P) \<Longrightarrow> P"
  by (simp split: if_splits)

lemma guarded_Some:
  "do { g \<leftarrow> c; if g then x else Some None } = Some (Some r) \<Longrightarrow> c = Some True \<and> x = Some (Some r)"
  "do { g \<leftarrow> c; Some (if g then y else z) } = Some (Some r) \<Longrightarrow> c = Some True \<and> y = Some r \<or> c = Some False \<and> z = Some r"
  by (auto split: bind_splits if_splits)

lemma x86_relax_by_type_need:
  "x86_relax_by_type rk bs off a aa ip ok = Some (Some r) \<Longrightarrow> x86_need (rx_kind r) \<le> off"
  unfolding x86_relax_by_type_def
  by (elim if_chainE)
    (auto dest!: guarded_Some relaxed_need code4_guard_True simp: x86_relaxed_def split: if_splits)

lemma bind_total: "\<exists>x. m = Some x \<Longrightarrow> (\<And>x. m = Some x \<Longrightarrow> \<exists>y. f x = Some y) \<Longrightarrow> \<exists>y. do { x \<leftarrow> m; f x } = Some y"
  by auto

lemma if_total: "(b \<Longrightarrow> \<exists>y. s = Some y) \<Longrightarrow> \<exists>y. t = Some y \<Longrightarrow> \<exists>y. (if b then s else t) = Some y"
  by simp

lemma x86_relax_rex_gotpcrelx_total:
  "off \<le> length bs \<Longrightarrow> 3 \<le> off \<Longrightarrow> \<exists>c. x86_relax_rex_gotpcrelx rk bs off a aa ip ok = Some c"
  by (simp add: x86_relax_rex_gotpcrelx_def)

lemma x86_relax_by_type_total:
  "off \<le> length bs \<Longrightarrow> \<exists>c. x86_relax_by_type rk bs off a aa ip ok = Some c"
  unfolding x86_relax_by_type_def
  by (intro if_total bind_total code4_guard_total x86_relax_rex_gotpcrelx_total)
    (auto dest: code4_guard_True code4_guard_total)

interpretation x86_choice: relaxation_choice x86_apply x86_window x86_new_relaxation "\<lambda>_. True"
proof unfold_locales
  fix q :: relax_query assume "q_offset q \<le> length (q_section_bytes q)"
  from x86_relax_by_type_total [OF this] show "x86_new_relaxation q \<noteq> None"
    by (simp add: x86_new_relaxation_def Let_def)
next
  fix q :: relax_query and r ad
  assume "x86_new_relaxation q = Some (Some r)"
    and w: "q_offset q + snd (x86_window (rx_kind r)) \<le> length (q_section_bytes q)"
  then have "x86_need (rx_kind r) \<le> q_offset q"
    by (auto simp: x86_new_relaxation_def Let_def x86_relaxed_def dest: x86_relax_by_type_need split: if_splits)
  from x86_apply_total [OF this w] show "x86_apply (rx_kind r) (q_section_bytes q, q_offset q, ad) \<noteq> None"
    by (metis option.distinct(1))
qed

end
