(* ===== verification/Got_Exact.thy ===== *)
theory Got_Exact
  imports Got_Alloc Elf_X86_64
begin

text \<open>
  The agreement of layout and the table writer over all the symbols of a file, and its instance for
  x86-64, whose PLT writer never panics.
\<close>

section \<open>The tables of x86-64\<close>

definition x86_tables :: "u64 \<Rightarrow> arch_tables" where
  "x86_tables tls_end_address =
     \<lparr>get_dynamic_relocation_type = x86_64_r_type, write_plt_entry = x86_write_plt_entry,
      get_dtv_offset = 0, tp_offset_start = tls_end_address\<rparr>"

lemma x86_plt_total: "plt_total (x86_tables tls)"
  by (auto simp: plt_total_def x86_tables_def x86_write_plt_entry_def PLT_ENTRY_SIZE_def x86_PLT_ENTRY_TEMPLATE_def
      copy_template_def of_panic_def ensure_def splice_def Let_def)

section \<open>Agreement\<close>

text \<open>
  C28. Layout and the writer agree. The tables are created with the sizes that layout reserved for
  a list of symbols; processing the resolutions that were created for these symbols then never runs
  out of a table and never panics on an exhausted one. When every symbol was processed, every table
  is used up exactly, and the check at the end passes. Flags are assumed consistent (\<open>symbol_ok\<close>),
  the tables even, and the PLT writer of the architecture total on entries of the right size.
\<close>

theorem got_allocation_exact:
  assumes "list_all (symbol_ok kind) syms" "\<not> is_partial_link kind" "plt_total A" "length syms < 2 ^ 32"
    and "create_resolutions kind relr syms mo = Some (rs, mo')" "mo GotPart mod 2 = 0" "mo GotRelrPart mod 2 = 0"
  shows "case process_resolutions A relr rs
             (table_writer_new kind tls_start tls_end (finalise_symbol_sizes kind relr syms (\<lambda>_. 0)) relr) of
           Ok tw' \<Rightarrow> (\<forall>p. part_left tw' p = 0) \<and> validate_empty tw' = Ok ()
         | Error (InsufficientAllocation p) \<Rightarrow> False
         | Error e \<Rightarrow> True
         | Panicked \<Rightarrow> False"
proof -
  let ?tw = "table_writer_new kind tls_start tls_end (finalise_symbol_sizes kind relr syms (\<lambda>_. 0)) relr"
  note new = table_writer_new_parts [OF assms(4) refl, where kind = kind and relr = relr]
  have left: "part_left ?tw p = total kind relr syms p" for p
  proof (cases "relr \<or> p \<noteq> RelrDynPart")
    case False
    then show ?thesis by (simp add: total_no_relr part_left_def table_writer_new_def)
  qed (rule new(1))
  have "meets (process_resolutions A relr rs ?tw) ?tw (total kind relr syms)"
    by (rule meets_process_resolutions [OF assms(2,3,5,1) new(4,3) order_refl assms(6,7)])
  moreover have "validate_empty tw' = Ok ()" if "\<And>p. part_left tw' p = 0" for tw'
    using that [of GotPart] that [of GotRelrPart] that [of RelaDynRelativePart] that [of RelaDynGeneralPart] that [of RelrDynPart]
    by (auto simp: validate_empty_def part_left_def split: option.splits)
  ultimately show ?thesis
    by (auto simp: meets_def consumes_def left split: outcome.splits table_error.splits)
qed

definition example_symbols :: "alloc_symbol list" where
  "example_symbols =
     [\<lparr>as_flags = DYNAMIC OR GOT OR PLT, as_raw_value = 0, as_dynsym = Some 1\<rparr>,
      \<lparr>as_flags = NON_INTERPOSABLE OR GOT, as_raw_value = 0x1000, as_dynsym = None\<rparr>,
      \<lparr>as_flags = NON_INTERPOSABLE OR GOT_TLS_OFFSET OR GOT_TLS_MODULE, as_raw_value = 0x2008, as_dynsym = None\<rparr>]"

definition example_offsets :: part_sizes where
  "example_offsets p = (case p of GotPart \<Rightarrow> 0x3000 | GotRelrPart \<Rightarrow> 0x4000 | PltGotPart \<Rightarrow> 0x1800 | _ \<Rightarrow> 0)"

definition example_resolutions :: "Resolution list" where
  "example_resolutions =
     [\<lparr>raw_value = 0x1800, dynamic_symbol_index = Some 1, res_flags = DYNAMIC OR GOT OR PLT,
       got_address = Some 0x3000, plt_address = Some 0x1800\<rparr>,
      \<lparr>raw_value = 0x1000, dynamic_symbol_index = None, res_flags = NON_INTERPOSABLE OR GOT,
       got_address = Some 0x4000, plt_address = None\<rparr>,
      \<lparr>raw_value = 0x2008, dynamic_symbol_index = None, res_flags = NON_INTERPOSABLE OR GOT_TLS_OFFSET OR GOT_TLS_MODULE,
       got_address = Some 0x3008, plt_address = None\<rparr>]"

lemma example_symbols_ok: "list_all (symbol_ok SharedObject) example_symbols"
  by code_simp

lemma example_created:
  "map_option fst (create_resolutions SharedObject True example_symbols example_offsets) = Some example_resolutions"
  by code_simp

lemma example_create:
  obtains mo' where "create_resolutions SharedObject True example_symbols example_offsets = Some (example_resolutions, mo')"
  using example_created by (cases "create_resolutions SharedObject True example_symbols example_offsets") auto

lemma example_even: "example_offsets GotPart mod 2 = 0" "example_offsets GotRelrPart mod 2 = 0"
  by (simp_all add: example_offsets_def)

theorem got_allocation_exact_witness:
  "list_all (symbol_ok SharedObject) example_symbols \<and>
   (case process_resolutions (x86_tables 0x2010) True example_resolutions
           (table_writer_new SharedObject 0x2000 0x2010 (finalise_symbol_sizes SharedObject True example_symbols (\<lambda>_. 0)) True) of
      Ok tw' \<Rightarrow> (\<forall>p. part_left tw' p = 0) \<and> validate_empty tw' = Ok () \<and> length (taken (tw_got tw')) = 4
    | _ \<Rightarrow> False)"
proof -
  let ?tw = "table_writer_new SharedObject 0x2000 0x2010 (finalise_symbol_sizes SharedObject True example_symbols (\<lambda>_. 0)) True"
  obtain mo' where c: "create_resolutions SharedObject True example_symbols example_offsets = Some (example_resolutions, mo')"
    by (rule example_create)
  have n: "length example_symbols < 2 ^ 32" by (simp add: example_symbols_def)
  note e = got_allocation_exact [OF example_symbols_ok _ x86_plt_total n c example_even, of "0x2010" "0x2000" "0x2010"]
  have r: "case process_resolutions (x86_tables 0x2010) True example_resolutions ?tw of
      Ok tw' \<Rightarrow> length (taken (tw_got tw')) = 4 | _ \<Rightarrow> False"
    by code_simp
  then obtain tw' where "process_resolutions (x86_tables 0x2010) True example_resolutions ?tw = Ok tw'"
    "length (taken (tw_got tw')) = 4"
    by (cases "process_resolutions (x86_tables 0x2010) True example_resolutions ?tw") simp_all
  with e example_symbols_ok show ?thesis by simp
qed

text \<open>
  C29. The address that layout gave to a symbol's GOT entry is the address of the slot that the
  writer fills for it: when the writer reaches a symbol, the GOT address of its resolution is the
  start of the table (the RELR part of the GOT for symbols relocated by \<open>.relr.dyn\<close>) plus the size of
  the entries written so far.
\<close>

theorem got_address_is_slot:
  assumes "list_all (symbol_ok kind) syms" "\<not> is_partial_link kind" "plt_total A" "length syms < 2 ^ 32"
    and "create_resolutions kind relr syms mo = Some (as @ res # bs, mo')" "mo GotPart mod 2 = 0" "mo GotRelrPart mod 2 = 0"
    and "process_resolutions A relr as
           (table_writer_new kind tls_start tls_end (finalise_symbol_sizes kind relr syms (\<lambda>_. 0)) relr) = Ok tw"
    and "got_address res = Some ga"
  shows "ga = (if is_got_relr_eligible (res_flags res) (has_dynamic_symbol (res_flags res)) relr kind \<and> \<not> needs_tls_got (res_flags res)
               then mo GotRelrPart + GOT_ENTRY_SIZE * of_nat (length (taken (tw_got_relr tw)))
               else mo GotPart + GOT_ENTRY_SIZE * of_nat (length (taken (tw_got tw))))"
proof -
  let ?tw = "table_writer_new kind tls_start tls_end (finalise_symbol_sizes kind relr syms (\<lambda>_. 0)) relr"
  note new = table_writer_new_parts [OF assms(4) refl, where kind = kind and relr = relr]
  obtain xs s ys mo1 mo2 where syms: "syms = xs @ s # ys" and xs: "create_resolutions kind relr xs mo = Some (as, mo1)"
    and c: "create_resolution (as_flags s) (as_raw_value s) (as_dynsym s) mo1 relr kind = Some (res, mo2)"
    using create_resolutions_split [OF assms(5)] by blast
  have ok: "list_all (symbol_ok kind) xs" "flags_ok (as_flags s)"
    using assms(1) unfolding syms by (simp_all add: symbol_ok_def [of kind s])
  have "meets (process_resolutions A relr as ?tw) ?tw (total kind relr xs)"
    by (rule meets_process_resolutions [OF assms(2,3) xs ok(1) new(4,3) _ assms(6,7)]) (simp add: syms)
  then have used: "part_used tw p = total kind relr xs p" for p
    using new(2) [of _ _ p] by (simp add: assms(8) meets_def consumes_def)
  have mo1: "mo1 p = mo p + entry_size p * of_nat (part_used tw p)" if "p = GotPart \<or> p = GotRelrPart" for p
    using create_resolutions_addresses [OF xs ok(1), of p] that used by auto
  from create_resolution_got [OF ok(2) c assms(9)] create_resolution_fields(1) [OF c] mo1 [of GotPart] mo1 [of GotRelrPart]
  show ?thesis by (simp add: entry_size_def part_used_def)
qed


theorem got_address_is_slot_witness:
  "process_resolutions (x86_tables 0x2010) True (take 2 example_resolutions)
     (table_writer_new SharedObject 0x2000 0x2010 (finalise_symbol_sizes SharedObject True example_symbols (\<lambda>_. 0)) True) \<noteq> Panicked \<and>
   got_address (example_resolutions ! 2) = Some (example_offsets GotPart + GOT_ENTRY_SIZE * of_nat 1)"
proof -
  let ?tw = "table_writer_new SharedObject 0x2000 0x2010 (finalise_symbol_sizes SharedObject True example_symbols (\<lambda>_. 0)) True"
  obtain mo' where c: "create_resolutions SharedObject True example_symbols example_offsets = Some (example_resolutions, mo')"
    by (rule example_create)
  have split: "take 2 example_resolutions @ example_resolutions ! 2 # [] = example_resolutions"
    by (simp add: example_resolutions_def)
  have n: "length example_symbols < 2 ^ 32" by (simp add: example_symbols_def)
  have "case process_resolutions (x86_tables 0x2010) True (take 2 example_resolutions) ?tw of
      Ok tw \<Rightarrow> length (taken (tw_got tw)) = 1 | _ \<Rightarrow> False"
    by code_simp
  then obtain tw where tw: "process_resolutions (x86_tables 0x2010) True (take 2 example_resolutions) ?tw = Ok tw"
    "length (taken (tw_got tw)) = 1"
    by (cases "process_resolutions (x86_tables 0x2010) True (take 2 example_resolutions) ?tw") simp_all
  have ga: "got_address (example_resolutions ! 2) = Some 0x3008" by (simp add: example_resolutions_def)
  have tls: "needs_tls_got (res_flags (example_resolutions ! 2))" by code_simp
  have c': "create_resolutions SharedObject True example_symbols example_offsets =
      Some (take 2 example_resolutions @ example_resolutions ! 2 # [], mo')"
    unfolding split by (rule c)
  from got_address_is_slot [OF example_symbols_ok _ x86_plt_total n c' example_even tw(1) ga] tls tw ga
  show ?thesis by simp
qed

end
