(* ===== verification/X86_64_Exec.thy ===== *)
theory X86_64_Exec
  imports Elf_X86_64 Reloc_Write
begin

text \<open>
  What the relaxed x86-64 instructions do. The instructions that the relaxations of GOT references
  read and write are given a small semantics after the instruction set manual: an instruction at an
  address, with the memory, has an effect (a register set to a value, an operation with a value, a
  transfer of control). The property of this theory ties the choice of a relaxation
  (\<open>new_relaxation\<close>), the rewriting of the bytes (\<open>apply\<close>) and the relocation of the new instruction
  (\<open>write_to_buffer\<close>) together: the effect is the one of the original instruction.
\<close>

section \<open>Effects of instructions\<close>

datatype x86_alu = AluAdd | AluSub | AluCmp

text \<open>Operations carry the operand size (64 bits or 32) and the register number.\<close>

datatype x86_effect =
    SetReg bool nat u64
  | Alu x86_alu bool nat u64
  | CallTo u64
  | JmpTo u64

definition sext32 :: "bytes \<Rightarrow> u64" where
  "sext32 ds = signed_take_bit 31 (from_le ds)"

text \<open>Values of 32-bit operations have their upper half cleared.\<close>

definition opsize :: "bool \<Rightarrow> u64 \<Rightarrow> u64" where
  "opsize wide v = (if wide then v else take_bit 32 v)"

text \<open>\<open>mod = 00\<close>, \<open>rm = 101\<close> is the operand relative to the next instruction; \<open>mod = 11\<close> a register.\<close>

definition rip_relative :: "u8 \<Rightarrow> bool" where
  "rip_relative m = (drop_bit 6 m = 0 \<and> take_bit 3 m = 5)"

definition register_direct :: "u8 \<Rightarrow> u8 \<Rightarrow> bool" where
  "register_direct ext m = (drop_bit 6 m = 3 \<and> take_bit 3 (drop_bit 3 m) = ext)"

definition exec_modrm :: "(u64 \<Rightarrow> u64) \<Rightarrow> bool \<Rightarrow> u8 \<Rightarrow> u64 \<Rightarrow> u8 \<Rightarrow> u8 \<Rightarrow> u64 \<Rightarrow> x86_effect option" where
  "exec_modrm mem wide rex next_ip opc m d =
     (if opc = 0x8b \<and> rip_relative m then Some (SetReg wide (reg_operand rex m) (opsize wide (mem (next_ip + d))))
      else if opc = 0x8d \<and> rip_relative m then Some (SetReg wide (reg_operand rex m) (opsize wide (next_ip + d)))
      else if opc = 0x03 \<and> rip_relative m then Some (Alu AluAdd wide (reg_operand rex m) (opsize wide (mem (next_ip + d))))
      else if opc = 0x2b \<and> rip_relative m then Some (Alu AluSub wide (reg_operand rex m) (opsize wide (mem (next_ip + d))))
      else if opc = 0x3b \<and> rip_relative m then Some (Alu AluCmp wide (reg_operand rex m) (opsize wide (mem (next_ip + d))))
      else if opc = 0xc7 \<and> register_direct 0 m then Some (SetReg wide (rm_operand rex m) (opsize wide d))
      else if opc = 0x81 \<and> register_direct 0 m then Some (Alu AluAdd wide (rm_operand rex m) (opsize wide d))
      else if opc = 0x81 \<and> register_direct 5 m then Some (Alu AluSub wide (rm_operand rex m) (opsize wide d))
      else if opc = 0x81 \<and> register_direct 7 m then Some (Alu AluCmp wide (rm_operand rex m) (opsize wide d))
      else None)"

text \<open>
  The instruction in seven bytes with a REX.W prefix, or in six: \<open>call\<close> and \<open>jmp\<close> through memory,
  the direct \<open>call\<close> with an (ignored) address-size prefix, the direct \<open>jmp\<close> followed by a \<open>nop\<close>, and
  the 32-bit forms without a prefix.
\<close>

definition exec_rex :: "(u64 \<Rightarrow> u64) \<Rightarrow> u64 \<Rightarrow> bytes \<Rightarrow> x86_effect option" where
  "exec_rex mem ip i =
     (if length i = 7 \<and> drop_bit 4 (i ! 0) = 4 \<and> bit (i ! 0) 3 then
        exec_modrm mem True (i ! 0) (ip + 7) (i ! 1) (i ! 2) (sext32 (drop 3 i))
      else None)"

definition exec_plain :: "(u64 \<Rightarrow> u64) \<Rightarrow> u64 \<Rightarrow> bytes \<Rightarrow> x86_effect option" where
  "exec_plain mem ip i =
     (if length i \<noteq> 6 then None
      else if i ! 0 = 0xff \<and> i ! 1 = 0x15 then Some (CallTo (mem (ip + 6 + sext32 (drop 2 i))))
      else if i ! 0 = 0xff \<and> i ! 1 = 0x25 then Some (JmpTo (mem (ip + 6 + sext32 (drop 2 i))))
      else if i ! 0 = 0x67 \<and> i ! 1 = 0xe8 then Some (CallTo (ip + 6 + sext32 (drop 2 i)))
      else if i ! 0 = 0xe9 \<and> i ! 5 = 0x90 then Some (JmpTo (ip + 5 + sext32 (take 4 (drop 1 i))))
      else exec_modrm mem False 0 (ip + 6) (i ! 0) (i ! 1) (sext32 (drop 2 i)))"

section \<open>Relocating the chosen instruction\<close>

text \<open>
  The value of a relocation against address \<open>s\<close> for the kinds that the relaxations leave, and the
  section after relaxing and relocating: what the writer does for one relocation.
\<close>

definition x86_reloc_value :: "RelocationKind \<Rightarrow> u64 \<Rightarrow> int \<Rightarrow> u64 \<Rightarrow> u64" where
  "x86_reloc_value k s ad place = (if k = Relative \<or> k = GotRelative then s + word_of_int ad - place else s + word_of_int ad)"

definition x86_relax_and_write ::
    "X86_64Relaxation Relaxation \<Rightarrow> bytes \<Rightarrow> nat \<Rightarrow> int \<Rightarrow> u64 \<Rightarrow> u64 \<Rightarrow> bytes option" where
  "x86_relax_and_write r bs off ad s section_address =
     (case x86_apply (rx_kind r) (bs, off, ad) of
        None \<Rightarrow> None
      | Some (bs', off', ad') \<Rightarrow>
          (case write_to_buffer (\<lambda>_. []) (rx_rel_info r)
                  (x86_reloc_value (ri_kind (rx_rel_info r)) s ad' (section_address + of_nat off')) (drop off' bs') of
             Ok tail \<Rightarrow> Some (take off' bs' @ tail)
           | _ \<Rightarrow> None))"

text \<open>The reference through the GOT as it is without a relaxation.\<close>

definition x86_unrelaxed :: "rtype \<Rightarrow> X86_64Relaxation Relaxation" where
  "x86_unrelaxed rk = \<lparr>rx_kind = X86NoOp, rx_rel_info = x86_rel_info rk, rx_mandatory = False\<rparr>"

definition instruction_at :: "nat \<Rightarrow> bytes \<Rightarrow> nat \<Rightarrow> bytes" where
  "instruction_at n bs off = take (n + 4) (drop (off - n) bs)"

section \<open>Helper lemmas\<close>

lemma x86_rel_infos:
  "ri_kind (x86_rel_info ''R_X86_64_PC32'') = Relative" "ri_size (x86_rel_info ''R_X86_64_PC32'') = ByteSize 4"
  "ri_alignment (x86_rel_info ''R_X86_64_PC32'') = 1" "ri_range (x86_rel_info ''R_X86_64_PC32'') = range_new (- (2 ^ 31)) (2 ^ 31)"
  "ri_kind (x86_rel_info ''R_X86_64_32'') = Absolute" "ri_size (x86_rel_info ''R_X86_64_32'') = ByteSize 4"
  "ri_alignment (x86_rel_info ''R_X86_64_32'') = 1" "ri_range (x86_rel_info ''R_X86_64_32'') = range_new 0 (2 ^ 32)"
  by code_simp+

lemma x86_got_infos:
  assumes "rk = ''R_X86_64_REX_GOTPCRELX'' \<or> rk = ''R_X86_64_GOTPCRELX''"
  shows "ri_kind (x86_rel_info rk) = GotRelative" "ri_size (x86_rel_info rk) = ByteSize 4"
    "ri_alignment (x86_rel_info rk) = 1" "ri_range (x86_rel_info rk) = range_new (- (2 ^ 31)) (2 ^ 31)"
proof -
  have "x86_rel_info ''R_X86_64_REX_GOTPCRELX'' = x86_rel_info ''R_X86_64_GOTPCRELX''" by code_simp
  moreover have "ri_kind (x86_rel_info ''R_X86_64_GOTPCRELX'') = GotRelative"
    "ri_size (x86_rel_info ''R_X86_64_GOTPCRELX'') = ByteSize 4" "ri_alignment (x86_rel_info ''R_X86_64_GOTPCRELX'') = 1"
    "ri_range (x86_rel_info ''R_X86_64_GOTPCRELX'') = range_new (- (2 ^ 31)) (2 ^ 31)"
    by code_simp+
  ultimately show "ri_kind (x86_rel_info rk) = GotRelative" "ri_size (x86_rel_info rk) = ByteSize 4"
    "ri_alignment (x86_rel_info rk) = 1" "ri_range (x86_rel_info rk) = range_new (- (2 ^ 31)) (2 ^ 31)"
    using assms by auto
qed

text \<open>A successful step has stored the four bytes of the value, which was in range.\<close>

lemma relax_and_write_eq:
  assumes "x86_apply (rx_kind r) (bs, off, ad) = Some (bsn, offn, adn)"
    and "ri_size (rx_rel_info r) = ByteSize 4" "ri_alignment (rx_rel_info r) = 1"
    and "ri_kind (rx_rel_info r) \<in> {Relative, GotRelative, Absolute}"
    and "v = x86_reloc_value (ri_kind (rx_rel_info r)) s adn (sa + of_nat offn)"
  shows "x86_relax_and_write r bs off ad s sa =
    (if range_contains (ri_range (rx_rel_info r)) (sint v) \<and> 4 \<le> length bsn - offn
     then Some (take offn bsn @ to_le 4 v @ drop (offn + 4) bsn) else None)"
proof -
  have nu: "\<not> is_uleb_pair (ri_kind (rx_rel_info r))" using assms(4) by (auto simp: is_uleb_pair_def)
  have "is_multiple_of v 1" by (simp add: is_multiple_of_def)
  then have "write_to_buffer (\<lambda>_. []) (rx_rel_info r) v (drop offn bsn) =
      (if \<not> range_contains (ri_range (rx_rel_info r)) (sint v) then Error (OutOfBounds (sint v) (ri_range (rx_rel_info r)))
       else if 4 \<le> length bsn - offn then Ok (to_le 4 v @ drop (offn + 4) bsn) else Error OutsideSection)"
    unfolding write_to_buffer_bytes [OF assms(2) _ nu, simplified] by (simp add: assms(3) add.commute)
  then show ?thesis by (simp add: x86_relax_and_write_def assms(1,5))
qed

lemma relax_and_write_Some:
  assumes "x86_relax_and_write r bs off ad s sa = Some out" "x86_apply (rx_kind r) (bs, off, ad) = Some (bs1, off1, ad1)"
    and "ri_size (rx_rel_info r) = ByteSize 4" "ri_alignment (rx_rel_info r) = 1"
    and "ri_kind (rx_rel_info r) \<in> {Relative, GotRelative, Absolute}"
  defines "v \<equiv> x86_reloc_value (ri_kind (rx_rel_info r)) s ad1 (sa + of_nat off1)"
  shows "range_contains (ri_range (rx_rel_info r)) (sint v)" "off1 + 4 \<le> length bs1"
    "out = take off1 bs1 @ to_le 4 v @ drop (off1 + 4) bs1"
  using assms(1) relax_and_write_eq [OF assms(2-5), of v s sa] by (auto simp: v_def split: if_splits)

lemma sext32_to_le: "sext32 (to_le 4 v) = signed_take_bit 31 v"
  by (simp add: sext32_def from_le_to_le_take signed_take_bit_take_bit)

lemma sext32_signed: "range_contains (range_new (- (2 ^ 31)) (2 ^ 31)) (sint v) \<Longrightarrow> sext32 (to_le 4 v) = v"
  unfolding sext32_to_le by (rule signed_take_bit_id) (simp_all add: range_contains_def range_new_def)

lemma sext32_low: "v < 2 ^ 31 \<Longrightarrow> sext32 (to_le 4 v) = (v :: u64)"
proof -
  assume "v < 2 ^ 31"
  then have "uint v < 2 ^ 31" by (simp add: word_less_def)
  have ge: "- (2 ^ n) \<le> uint v" for n by (rule order_trans [of _ 0]) simp_all
  have "sint v = uint v"
    unfolding sint_uint using ge [of 63] \<open>uint v < 2 ^ 31\<close> by (intro signed_take_bit_int_eq_self) simp_all
  with \<open>uint v < 2 ^ 31\<close> ge [of 31] show ?thesis
    unfolding sext32_to_le by (intro signed_take_bit_id) simp_all
qed

lemma sext32_take: "take_bit 32 (sext32 (to_le 4 v)) = take_bit 32 (v :: u64)"
proof (rule bit_word_eqI)
  fix n
  show "bit (take_bit 32 (sext32 (to_le 4 v))) n \<longleftrightarrow> bit (take_bit 32 v) n"
    by (cases "n = 31") (auto simp: sext32_to_le bit_take_bit_iff bit_signed_take_bit_iff min_def)
qed

lemma instruction_parts:
  fixes v :: u64
  assumes "n \<le> off" "off + 4 \<le> length b"
  defines "i \<equiv> instruction_at n (take off b @ to_le 4 v @ drop (off + 4) b) off"
  shows "length i = n + 4" "\<And>k. k < n \<Longrightarrow> i ! k = b ! (off - n + k)" "drop n i = to_le 4 v"
  using assms unfolding i_def instruction_at_def by (auto simp: nth_append)

lemma rip_relative_not_direct: "rip_relative m \<Longrightarrow> \<not> register_direct ext m"
  by (auto simp: rip_relative_def register_direct_def)

text \<open>The original instruction reads the GOT slot.\<close>

lemma unrelaxed_instruction:
  assumes rk: "rk = ''R_X86_64_REX_GOTPCRELX'' \<or> rk = ''R_X86_64_GOTPCRELX''"
    and w: "x86_relax_and_write (x86_unrelaxed rk) bs off (- 4) got sa = Some bs0"
  defines "d \<equiv> got - 4 - (sa + of_nat off)"
  shows "off + 4 \<le> length bs" "bs0 = take off bs @ to_le 4 d @ drop (off + 4) bs" "sext32 (to_le 4 d) = d"
  using relax_and_write_Some [OF w, of bs off "- 4"] x86_got_infos [OF rk] sext32_signed
  by (auto simp: x86_unrelaxed_def x86_reloc_value_def d_def)

lemma mov_lea_relocated:
  assumes "x86_relax_and_write r bs off (- 4) s sa = Some bs'" "rx_kind r = MovIndirectToLea"
    "rx_rel_info r = x86_rel_info ''R_X86_64_PC32''" "2 \<le> off" "off \<le> length bs"
  defines "d \<equiv> s - 4 - (sa + of_nat off)" and "b \<equiv> bs[off - 2 := 0x8d]"
  shows "bs' = take off b @ to_le 4 d @ drop (off + 4) b" "sext32 (to_le 4 d) = d"
  using relax_and_write_Some [OF assms(1), of b off "- 4"] assms(2-5) sext32_signed
  by (auto simp: x86_rel_infos x86_reloc_value_def d_def b_def)

lemma absolute_relocated:
  assumes "x86_relax_and_write r bs off (- 4) s sa = Some bs'" "x86_apply (rx_kind r) (bs, off, - 4) = Some (b, off, 0)"
    "rx_rel_info r = x86_rel_info ''R_X86_64_32''"
  shows "bs' = take off b @ to_le 4 s @ drop (off + 4) b"
  using relax_and_write_Some [OF assms(1,2)] assms(3)
  by (auto simp: x86_rel_infos x86_reloc_value_def)

lemma nth_before:
  assumes "2 \<le> off" "off \<le> length bs"
  shows "bs[off - 2 := v] ! (off - 2) = v" "bs[off - 2 := v] ! (off - 1) = bs ! (off - 1)"
    "3 \<le> off \<Longrightarrow> bs[off - 2 := v] ! (off - 3) = bs ! (off - 3)"
  using assms by (auto simp: nth_list_update)

lemma rex_48_4c: "rex = 0x48 \<or> rex = 0x4c \<Longrightarrow> drop_bit 4 rex = (4 :: u8) \<and> bit rex 3 \<and> \<not> bit rex 0"
  by auto

lemma exec_rex_at:
  fixes d :: u64
  assumes "3 \<le> off" "off + 4 \<le> length b" "drop_bit 4 (b ! (off - 3)) = 4" "bit (b ! (off - 3)) 3"
  shows "exec_rex mem (sa + of_nat off - 3) (instruction_at 3 (take off b @ to_le 4 d @ drop (off + 4) b) off) =
    exec_modrm mem True (b ! (off - 3)) (sa + of_nat off + 4) (b ! (off - 2)) (b ! (off - 1)) (sext32 (to_le 4 d))"
proof -
  note p = instruction_parts [OF assms(1,2), where v = d]
  have "off - 3 + 1 = off - 2" "off - 3 + 2 = off - 1" using assms(1) by auto
  with p(2) [of 0] p(2) [of 1] p(2) [of 2] p(1,3) assms(3,4) show ?thesis by (simp add: exec_rex_def algebra_simps)
qed

lemma exec_plain_at:
  fixes d :: u64
  assumes "2 \<le> off" "off + 4 \<le> length b" "b ! (off - 2) = 0x8b \<or> b ! (off - 2) = 0x8d \<or> b ! (off - 2) = 0xc7"
  shows "exec_plain mem (sa + of_nat off - 2) (instruction_at 2 (take off b @ to_le 4 d @ drop (off + 4) b) off) =
    exec_modrm mem False 0 (sa + of_nat off + 4) (b ! (off - 2)) (b ! (off - 1)) (sext32 (to_le 4 d))"
proof -
  note p = instruction_parts [OF assms(1,2), where v = d]
  let ?i = "instruction_at 2 (take off b @ to_le 4 d @ drop (off + 4) b) off"
  have "off - 2 + 1 = off - 1" using assms(1) by auto
  with p(2) [of 0] p(2) [of 1] have "?i ! 0 = b ! (off - 2)" "?i ! 1 = b ! (off - 1)" by simp_all
  moreover have "b ! (off - 2) \<noteq> 0xff" "b ! (off - 2) \<noteq> 0x67" "b ! (off - 2) \<noteq> 0xe9" using assms(3) by auto
  moreover have "sa + of_nat off - 2 + 6 = sa + of_nat off + 4" by simp
  ultimately show ?thesis using p(1,3) unfolding exec_plain_def by (simp add: algebra_simps)
qed

section \<open>The chosen relaxations\<close>

lemma rex_choice:
  assumes "x86_relax_rex_gotpcrelx ''R_X86_64_REX_GOTPCRELX'' bs off a aa itp ok = Some (Some r)" "3 \<le> off" "off \<le> length bs"
  obtains "bs ! (off - 3) = 0x48 \<or> bs ! (off - 3) = 0x4c" "bs ! (off - 2) = 0x8b" "rx_kind r = MovIndirectToLea"
      "rx_rel_info r = x86_rel_info ''R_X86_64_PC32''"
  | opc base ext :: u8 where "bs ! (off - 3) = 0x48 \<or> bs ! (off - 3) = 0x4c"
      "(bs ! (off - 2), rx_kind r, opc, base, ext) \<in>
         {(0x8b, RexMovIndirectToAbsolute 3, 0xc7, 0xc0, 0), (0x2b, RexSubIndirectToAbsolute 3, 0x81, 0xe8, 5),
          (0x3b, RexCmpIndirectToAbsolute 3, 0x81, 0xf8, 7)}"
      "rx_rel_info r = x86_rel_info ''R_X86_64_32''"
  using assms unfolding x86_relax_rex_gotpcrelx_def
  by (auto simp: x86_relaxed_def Let_def split: if_splits)

lemma plain_choice:
  assumes "x86_relax_gotpcrelx bs off a aa itp ok = Some r" "off \<le> length bs"
  obtains "2 \<le> off" "bs ! (off - 2) = 0x8b" "rx_kind r = MovIndirectToLea" "rx_rel_info r = x86_rel_info ''R_X86_64_PC32''"
  | "2 \<le> off" "bs ! (off - 2) = 0x8b" "rx_kind r = MovIndirectToAbsolute" "rx_rel_info r = x86_rel_info ''R_X86_64_32''"
  | "2 \<le> off" "get_before bs off 2 2 = Some [0xff, 0x15]" "rx_kind r = CallIndirectToRelative"
      "rx_rel_info r = x86_rel_info ''R_X86_64_PC32''"
  | "2 \<le> off" "get_before bs off 2 2 = Some [0xff, 0x25]" "rx_kind r = JmpIndirectToRelative"
      "rx_rel_info r = x86_rel_info ''R_X86_64_PC32''"
  using assms unfolding x86_relax_gotpcrelx_def
  by (auto simp: x86_relaxed_def Let_def index_before_def before_def index_def split: if_splits option.splits)

lemma rex_absolute_effect:
  fixes ext :: u8
  assumes "(opc0, k, opc, base, ext) \<in>
         {(0x8b, RexMovIndirectToAbsolute 3, 0xc7, 0xc0, 0), (0x2b, RexSubIndirectToAbsolute 3, 0x81, 0xe8, 5),
          (0x3b, RexCmpIndirectToAbsolute 3, 0x81, 0xf8, 7)}"
    and "rex = 0x48 \<or> rex = 0x4c" "rip_relative m" "mem (n + d) = s"
  shows "exec_modrm mem True (rex_reg_to_rm 3 rex) n opc (mod_rm_direct base m) s = exec_modrm mem True rex n opc0 m d"
    "exec_modrm mem True rex n opc0 m d \<noteq> None" "drop_bit 4 (rex_reg_to_rm 3 rex) = 4" "bit (rex_reg_to_rm 3 rex) 3"
proof -
  have e: "(base, ext) \<in> {(0xc0, 0), (0xe8, 5), (0xf8, 7)}" using assms(1) by auto
  note f = mod_rm_direct_fields [OF e, of m]
  have "rm_operand (rex_reg_to_rm 3 rex) (mod_rm_direct base m) = reg_operand rex m"
    using f rex_reg_to_rm_bits [of rex] rex_48_4c [OF assms(2)] by (simp del: bit_0 add: rm_operand_def reg_operand_def)
  moreover have "register_direct x (mod_rm_direct base m) \<longleftrightarrow> x = ext" for x using f by (auto simp: register_direct_def)
  moreover have "\<not> rip_relative (mod_rm_direct base m)" using f by (simp add: rip_relative_def)
  ultimately show "exec_modrm mem True (rex_reg_to_rm 3 rex) n opc (mod_rm_direct base m) s = exec_modrm mem True rex n opc0 m d"
    using assms(1,3,4) by (elim insertE) (simp_all add: exec_modrm_def)
  show "exec_modrm mem True rex n opc0 m d \<noteq> None" using assms(1,3) by (elim insertE) (simp_all add: exec_modrm_def)
  show "drop_bit 4 (rex_reg_to_rm 3 rex) = 4" "bit (rex_reg_to_rm 3 rex) 3"
    using assms(2) by (auto simp: rex_reg_to_rm_def shr_def)
qed

lemma rex_equiv:
  assumes c: "x86_relax_rex_gotpcrelx ''R_X86_64_REX_GOTPCRELX'' bs off a aa itp ok = Some (Some r)" "3 \<le> off"
    and w0: "x86_relax_and_write (x86_unrelaxed ''R_X86_64_REX_GOTPCRELX'') bs off (- 4) got sa = Some bs0"
    and w: "x86_relax_and_write r bs off (- 4) s sa = Some bs'"
    and m: "rip_relative (bs ! (off - 1))" "mem got = s"
    and low: "rx_kind r \<noteq> MovIndirectToLea \<Longrightarrow> s < 2 ^ 31"
  defines "ip \<equiv> sa + of_nat off - 3"
  shows "exec_rex mem ip (instruction_at 3 bs' off) = exec_rex mem ip (instruction_at 3 bs0 off) \<and>
    exec_rex mem ip (instruction_at 3 bs0 off) \<noteq> None"
proof -
  let ?d = "got - 4 - (sa + of_nat off)" and ?n = "sa + of_nat off + 4"
  note u = unrelaxed_instruction [OF disjI1 [OF refl] w0]
  have len: "off \<le> length bs" using u(1) by simp
  have got: "?n + ?d = got" by simp
  have rex: "bs ! (off - 3) = 0x48 \<or> bs ! (off - 3) = 0x4c" by (rule rex_choice [OF c len]) auto
  have r0: "exec_rex mem ip (instruction_at 3 bs0 off) =
      exec_modrm mem True (bs ! (off - 3)) ?n (bs ! (off - 2)) (bs ! (off - 1)) ?d"
    using exec_rex_at [OF c(2) u(1)] rex_48_4c [OF rex] u(2,3) by (simp add: ip_def)
  show ?thesis
  proof (rule rex_choice [OF c len])
    assume op: "bs ! (off - 2) = 0x8b" and k: "rx_kind r = MovIndirectToLea" "rx_rel_info r = x86_rel_info ''R_X86_64_PC32''"
    have "2 \<le> off" using c(2) by simp
    note l = mov_lea_relocated [OF w k this len] and nth = nth_before [OF this len]
    have "exec_rex mem ip (instruction_at 3 bs' off) =
        exec_modrm mem True (bs ! (off - 3)) ?n 0x8d (bs ! (off - 1)) (s - 4 - (sa + of_nat off))"
      using exec_rex_at [OF c(2), of "bs[off - 2 := 0x8d]"] rex_48_4c [OF rex] u(1) l nth c(2) by (simp add: ip_def)
    also have "\<dots> = exec_modrm mem True (bs ! (off - 3)) ?n 0x8b (bs ! (off - 1)) ?d"
      using m got by (simp add: exec_modrm_def)
    finally show ?thesis using r0 op m by (simp add: exec_modrm_def)
  next
    fix opc base ext :: u8
    assume k: "(bs ! (off - 2), rx_kind r, opc, base, ext) \<in>
         {(0x8b, RexMovIndirectToAbsolute 3, 0xc7, 0xc0, 0), (0x2b, RexSubIndirectToAbsolute 3, 0x81, 0xe8, 5),
          (0x3b, RexCmpIndirectToAbsolute 3, 0x81, 0xf8, 7)}"
      and i: "rx_rel_info r = x86_rel_info ''R_X86_64_32''"
    let ?b = "bs[off - 3 := rex_reg_to_rm 3 (bs ! (off - 3)), off - 2 := opc, off - 1 := mod_rm_direct base (bs ! (off - 1))]"
    have "x86_apply (rx_kind r) (bs, off, - 4) = Some (?b, off, 0)"
      using k rex_op_mod_rm_bytes [OF c(2) len] by auto
    note b = absolute_relocated [OF w this i]
    have nth: "?b ! (off - 3) = rex_reg_to_rm 3 (bs ! (off - 3))" "?b ! (off - 2) = opc"
      "?b ! (off - 1) = mod_rm_direct base (bs ! (off - 1))"
      using c(2) len by (simp_all add: nth_list_update)
    have "rx_kind r \<noteq> MovIndirectToLea" using k by auto
    with low have s: "sext32 (to_le 4 s) = s" using sext32_low by blast
    have "mem (?n + ?d) = s" using got m by simp
    note eff = rex_absolute_effect [where mem = mem and n = ?n and d = ?d, OF k rex m(1) this]
    have "exec_rex mem ip (instruction_at 3 bs' off) =
        exec_modrm mem True (rex_reg_to_rm 3 (bs ! (off - 3))) ?n opc (mod_rm_direct base (bs ! (off - 1))) s"
      using exec_rex_at [OF c(2), of ?b] nth u(1) eff(3,4) s by (simp add: b ip_def)
    with eff(1,2) r0 show ?thesis by simp
  qed
qed

lemma get_before_2:
  assumes "get_before bs off 2 2 = Some [x, y]" "2 \<le> off" "off \<le> length bs"
  shows "bs ! (off - 2) = x" "bs ! (off - 1) = y"
proof -
  have "off - 2 + 2 - (off - 2) = 2" by simp
  then have "take 2 (drop (off - 2) bs) = [x, y]"
    using assms unfolding get_before_def before_def slice_def by (simp split: if_splits)
  then have "take 2 (drop (off - 2) bs) ! 0 = x" "take 2 (drop (off - 2) bs) ! 1 = y" by simp_all
  then show "bs ! (off - 2) = x" "bs ! (off - 1) = y" using assms by (simp_all add: Suc_diff_Suc numeral_2_eq_2)
qed

lemma call_equiv:
  assumes w: "x86_relax_and_write r bs off (- 4) s sa = Some bs'" and k: "rx_kind r = CallIndirectToRelative"
    and i: "rx_rel_info r = x86_rel_info ''R_X86_64_PC32''" and len: "2 \<le> off" "off + 4 \<le> length bs"
  shows "exec_plain mem (sa + of_nat off - 2) (instruction_at 2 bs' off) = Some (CallTo s)"
proof -
  let ?b = "take (off - 2) bs @ [0x67, 0xe8] @ drop off bs" and ?d = "s - 4 - (sa + of_nat off)"
  have "off - 2 + 2 = off" using len by simp
  then have "x86_apply (rx_kind r) (bs, off, - 4) = Some (?b, off, - 4)"
    using k len splice_before_Some [of 2 off "[0x67, 0xe8]" bs] by simp
  note a = relax_and_write_Some [OF w this]
  have b: "bs' = take off ?b @ to_le 4 ?d @ drop (off + 4) ?b" and d: "sext32 (to_le 4 ?d) = ?d"
    using a sext32_signed by (simp_all add: i x86_rel_infos x86_reloc_value_def)
  have lb: "length ?b = length bs" using len by simp
  then have lb4: "off + 4 \<le> length ?b" using len by simp
  note p = instruction_parts [OF len(1) lb4, where v = ?d, folded b]
  have "off - 2 + 1 = off - 1" using len by auto
  with len have "?b ! (off - 2 + 0) = 0x67" "?b ! (off - 2 + 1) = 0xe8" by (simp_all add: nth_append)
  with p(2) [of 0] p(2) [of 1] p(1,3) d show ?thesis by (simp add: exec_plain_def)
qed

lemma jmp_equiv:
  assumes w: "x86_relax_and_write r bs off (- 4) s sa = Some bs'" and k: "rx_kind r = JmpIndirectToRelative"
    and i: "rx_rel_info r = x86_rel_info ''R_X86_64_PC32''" and len: "2 \<le> off" "off + 4 \<le> length bs"
  shows "exec_plain mem (sa + of_nat off - 2) (instruction_at 2 bs' off) = Some (JmpTo s)"
proof -
  obtain o' where o: "off = o' + 2" using len(1) by (metis add.commute le_Suc_ex)
  let ?b = "take o' bs @ [0xe9, 0, 0, 0, 0, 0x90] @ drop (o' + 6) bs" and ?d = "s - 4 - (sa + of_nat (o' + 1))"
  have six: "Suc (Suc (Suc (Suc (Suc (Suc o'))))) = o' + 6" by simp
  have "x86_apply (rx_kind r) (bs, off, - 4) = Some (?b, o' + 1, - 4)"
    using k len splice_before_Some [of 2 off "[0xe9, 0, 0, 0, 0, 0x90]" bs] by (simp add: o six)
  note a = relax_and_write_Some [OF w this]
  have b: "bs' = take (o' + 1) ?b @ to_le 4 ?d @ drop (o' + 1 + 4) ?b" and d: "sext32 (to_le 4 ?d) = ?d"
    using a sext32_signed by (simp_all add: i x86_rel_infos x86_reloc_value_def)
  have ob: "o' \<le> length bs" using len o by simp
  have "take (o' + 1) ?b = take o' bs @ [0xe9]" using ob by (simp add: min_absorb2)
  moreover have "drop (o' + 1 + 4) ?b = 0x90 # drop (o' + 6) bs" using ob by simp
  ultimately have "bs' = take o' bs @ 0xe9 # to_le 4 ?d @ 0x90 # drop (o' + 6) bs" using b by simp
  then have "instruction_at 2 bs' off = 0xe9 # to_le 4 ?d @ [0x90]"
    using ob by (simp add: instruction_at_def o min_absorb2)
  then show ?thesis using d by (simp add: exec_plain_def nth_append o)
qed

lemma plain_mov_equiv:
  assumes w: "x86_relax_and_write r bs off (- 4) s sa = Some bs'" and len: "2 \<le> off" "off + 4 \<le> length bs"
    and k: "rx_kind r = MovIndirectToLea \<and> rx_rel_info r = x86_rel_info ''R_X86_64_PC32'' \<or>
            rx_kind r = MovIndirectToAbsolute \<and> rx_rel_info r = x86_rel_info ''R_X86_64_32''"
    and m: "rip_relative (bs ! (off - 1))"
  shows "exec_plain mem (sa + of_nat off - 2) (instruction_at 2 bs' off) =
    Some (SetReg False (reg_operand 0 (bs ! (off - 1))) (take_bit 32 s))"
proof -
  have len': "off \<le> length bs" using len by simp
  show ?thesis
  proof (cases "rx_kind r = MovIndirectToLea")
    case True
    then have i: "rx_rel_info r = x86_rel_info ''R_X86_64_PC32''" using k by auto
    note l = mov_lea_relocated [OF w True i len(1) len'] and nth = nth_before [OF len(1) len', of "0x8d"]
    have "exec_plain mem (sa + of_nat off - 2) (instruction_at 2 bs' off) =
        exec_modrm mem False 0 (sa + of_nat off + 4) 0x8d (bs ! (off - 1)) (s - 4 - (sa + of_nat off))"
      using exec_plain_at [OF len(1), of "bs[off - 2 := 0x8d]"] len l nth by simp
    then show ?thesis using m by (simp add: exec_modrm_def opsize_def)
  next
    case False
    then have ka: "rx_kind r = MovIndirectToAbsolute" and i: "rx_rel_info r = x86_rel_info ''R_X86_64_32''" using k by auto
    let ?b = "bs[off - 2 := 0xc7, off - 1 := mod_rm_direct 0xc0 (bs ! (off - 1))]"
    have "x86_apply (rx_kind r) (bs, off, - 4) = Some (?b, off, 0)" using ka len len' by (simp add: op_mod_rm_def)
    note b = absolute_relocated [OF w this i]
    have nth: "?b ! (off - 2) = 0xc7" "?b ! (off - 1) = mod_rm_direct 0xc0 (bs ! (off - 1))"
      using len by (simp_all add: nth_list_update)
    have e: "(0xc0 :: u8, 0 :: u8) \<in> {(0xc0, 0), (0xe8, 5), (0xf8, 7)}" by simp
    note f = mod_rm_direct_fields [OF e, of "bs ! (off - 1)"]
    have "exec_plain mem (sa + of_nat off - 2) (instruction_at 2 bs' off) =
        exec_modrm mem False 0 (sa + of_nat off + 4) 0xc7 (mod_rm_direct 0xc0 (bs ! (off - 1))) (sext32 (to_le 4 s))"
      using exec_plain_at [OF len(1), of ?b] nth len unfolding b by simp
    also have "\<dots> = Some (SetReg False (reg_operand 0 (bs ! (off - 1))) (take_bit 32 s))"
      using f by (simp add: exec_modrm_def register_direct_def rm_operand_def reg_operand_def opsize_def sext32_take)
    finally show ?thesis .
  qed
qed

lemma plain_equiv:
  assumes c: "x86_relax_gotpcrelx bs off a aa itp ok = Some r"
    and w0: "x86_relax_and_write (x86_unrelaxed ''R_X86_64_GOTPCRELX'') bs off (- 4) got sa = Some bs0"
    and w: "x86_relax_and_write r bs off (- 4) s sa = Some bs'"
    and m: "rip_relative (bs ! (off - 1))" "mem got = s"
  defines "ip \<equiv> sa + of_nat off - 2"
  shows "exec_plain mem ip (instruction_at 2 bs' off) = exec_plain mem ip (instruction_at 2 bs0 off) \<and>
    exec_plain mem ip (instruction_at 2 bs0 off) \<noteq> None"
proof -
  let ?d = "got - 4 - (sa + of_nat off)"
  note u = unrelaxed_instruction [OF disjI2 [OF refl] w0]
  have len: "off \<le> length bs" using u(1) by simp
  have branch: "exec_plain mem ip (instruction_at 2 bs0 off) = Some (if y = 0x15 then CallTo s else JmpTo s)"
    if g: "get_before bs off 2 2 = Some [0xff, y]" "2 \<le> off" "y = 0x15 \<or> y = 0x25" for y
  proof -
    note p = instruction_parts [OF g(2) u(1), where v = ?d, folded u(2)]
    have "off - 2 + 1 = off - 1" using g(2) by auto
    with p(2) [of 0] p(2) [of 1] get_before_2 [OF g(1,2) len] p(1,3) u(3) g(3) m(2)
    show ?thesis by (auto simp: exec_plain_def ip_def)
  qed
  have mov: "exec_plain mem ip (instruction_at 2 bs0 off) = Some (SetReg False (reg_operand 0 (bs ! (off - 1))) (take_bit 32 s))"
    if "bs ! (off - 2) = 0x8b" "2 \<le> off"
    using exec_plain_at [OF that(2) u(1), where d = ?d, folded u(2)] that u(3) m by (simp add: exec_modrm_def opsize_def ip_def)
  show ?thesis
    by (rule plain_choice [OF c len])
      (use plain_mov_equiv [OF w _ u(1) _ m(1)] mov branch call_equiv [OF w _ _ _ u(1)] jmp_equiv [OF w _ _ _ u(1)]
        in \<open>auto simp: ip_def\<close>)
qed

text \<open>
  C13. Relaxing a reference through the GOT does not change what the program does. For the relocations
  \<open>R_X86_64_REX_GOTPCRELX\<close> and \<open>R_X86_64_GOTPCRELX\<close>, whatever relaxation \<open>new_relaxation\<close> chooses: once
  the rewritten instruction is relocated against the symbol's address \<open>s\<close>, it has the effect that the
  original instruction has when it is relocated against a GOT slot that holds \<open>s\<close> - the same register
  gets the same value, is operated on with the same value, or control goes to \<open>s\<close>. The 64-bit forms
  with an immediate need \<open>s < 2^31\<close>: their immediate is sign-extended.
\<close>

theorem x86_got_relaxation_equivalent:
  assumes "x86_new_relaxation q = Some (Some r)"
    and "q_relocation q = ''R_X86_64_REX_GOTPCRELX'' \<or> q_relocation q = ''R_X86_64_GOTPCRELX''"
    and "x86_relax_and_write (x86_unrelaxed (q_relocation q)) (q_section_bytes q) (q_offset q) (- 4) got sa = Some bs0"
    and "x86_relax_and_write r (q_section_bytes q) (q_offset q) (- 4) s sa = Some bs'"
    and "rip_relative (q_section_bytes q ! (q_offset q - 1))" "mem got = s"
    and "q_relocation q = ''R_X86_64_GOTPCRELX'' \<or> rx_kind r = MovIndirectToLea \<or> s < 2 ^ 31"
  shows "if q_relocation q = ''R_X86_64_REX_GOTPCRELX''
    then exec_rex mem (sa + of_nat (q_offset q) - 3) (instruction_at 3 bs' (q_offset q)) =
           exec_rex mem (sa + of_nat (q_offset q) - 3) (instruction_at 3 bs0 (q_offset q)) \<and>
         exec_rex mem (sa + of_nat (q_offset q) - 3) (instruction_at 3 bs0 (q_offset q)) \<noteq> None
    else exec_plain mem (sa + of_nat (q_offset q) - 2) (instruction_at 2 bs' (q_offset q)) =
           exec_plain mem (sa + of_nat (q_offset q) - 2) (instruction_at 2 bs0 (q_offset q)) \<and>
         exec_plain mem (sa + of_nat (q_offset q) - 2) (instruction_at 2 bs0 (q_offset q)) \<noteq> None"
proof -
  let ?a = "is_absolute (q_flags q) \<and> \<not> is_dynamic (q_flags q)"
    and ?aa = "has_link_time_address (q_flags q) \<and> has_fixed_load_address (q_output_kind q)"
  have c: "x86_relax_by_type (q_relocation q) (q_section_bytes q) (q_offset q) ?a ?aa
      (is_interposable (q_flags q)) (q_output_kind q) = Some (Some r)"
    using assms(1,2) by (auto simp: x86_new_relaxation_def Let_def split: if_splits)
  show ?thesis
  proof (cases "q_relocation q = ''R_X86_64_REX_GOTPCRELX''")
    case True
    with c have g: "code4_guard False (q_section_bytes q) (q_offset q) = Some True"
      and x: "x86_relax_rex_gotpcrelx ''R_X86_64_REX_GOTPCRELX'' (q_section_bytes q) (q_offset q) ?a ?aa
          (is_interposable (q_flags q)) (q_output_kind q) = Some (Some r)"
      by (auto simp: x86_relax_by_type_def dest!: guarded_Some)
    have "s < 2 ^ 31" if "rx_kind r \<noteq> MovIndirectToLea" using assms(7) True that by simp
    from rex_equiv [where mem = mem, OF x code4_guard_True [OF g] assms(3) [unfolded True] assms(4-6) this] True show ?thesis by simp
  next
    case False
    with assms(2) have g: "q_relocation q = ''R_X86_64_GOTPCRELX''" by simp
    with c have "x86_relax_gotpcrelx (q_section_bytes q) (q_offset q) ?a ?aa
        (is_interposable (q_flags q)) (q_output_kind q) = Some r"
      by (simp add: x86_relax_by_type_def)
    from plain_equiv [where mem = mem, OF this assms(3) [unfolded g] assms(4-6)] g show ?thesis by simp
  qed
qed


definition example_query :: relax_query where
  "example_query =
     \<lparr>q_relocation = ''R_X86_64_REX_GOTPCRELX'', q_section_bytes = [0x90, 0x4c, 0x8b, 0x0d, 0, 0, 0, 0, 0xc3], q_offset = 4,
      q_flags = NON_INTERPOSABLE, q_output_kind = SharedObject, q_section_flags = EXECINSTR, q_relax_deltas = None,
      q_sym_addr = 0x5000, q_section_address = 0x1000, q_rel_addend = - 4, q_previous = None\<rparr>"

theorem x86_got_relaxation_equivalent_witness:
  "exec_rex (\<lambda>a. if a = 0x3000 then 0x5000 else 0) 0x1001 [0x4c, 0x8d, 0x0d, 0xf8, 0x3f, 0, 0] =
     exec_rex (\<lambda>a. if a = 0x3000 then 0x5000 else 0) 0x1001 [0x4c, 0x8b, 0x0d, 0xf8, 0x1f, 0, 0] \<and>
   exec_rex (\<lambda>a. if a = 0x3000 then 0x5000 else 0) 0x1001 [0x4c, 0x8b, 0x0d, 0xf8, 0x1f, 0, 0] \<noteq> None"
proof -
  let ?r = "\<lparr>rx_kind = MovIndirectToLea, rx_rel_info = x86_rel_info ''R_X86_64_PC32'', rx_mandatory = False\<rparr>"
  have c: "x86_new_relaxation example_query = Some (Some ?r)" by code_simp
  have w0: "x86_relax_and_write (x86_unrelaxed (q_relocation example_query)) (q_section_bytes example_query)
      (q_offset example_query) (- 4) 0x3000 0x1000 = Some [0x90, 0x4c, 0x8b, 0x0d, 0xf8, 0x1f, 0, 0, 0xc3]"
  proof (subst relax_and_write_eq)
    show "x86_apply (rx_kind (x86_unrelaxed (q_relocation example_query))) (q_section_bytes example_query, q_offset example_query, - 4) =
      Some (q_section_bytes example_query, 4, - 4)" by code_simp
    show "0x1ff8 = x86_reloc_value (ri_kind (rx_rel_info (x86_unrelaxed (q_relocation example_query)))) 0x3000 (- 4)
      (0x1000 + of_nat 4)" by code_simp
  qed code_simp+
  have w: "x86_relax_and_write ?r (q_section_bytes example_query) (q_offset example_query) (- 4) 0x5000 0x1000 =
      Some [0x90, 0x4c, 0x8d, 0x0d, 0xf8, 0x3f, 0, 0, 0xc3]"
  proof (subst relax_and_write_eq)
    show "x86_apply (rx_kind ?r) (q_section_bytes example_query, q_offset example_query, - 4) =
      Some ([0x90, 0x4c, 0x8d, 0x0d, 0, 0, 0, 0, 0xc3], 4, - 4)" by code_simp
    show "0x3ff8 = x86_reloc_value (ri_kind (rx_rel_info ?r)) 0x5000 (- 4) (0x1000 + of_nat 4)" by code_simp
  qed code_simp+
  have m: "rip_relative (q_section_bytes example_query ! (q_offset example_query - 1))" by code_simp
  have rk: "q_relocation example_query = ''R_X86_64_REX_GOTPCRELX''" "q_offset example_query = 4"
    by (simp_all add: example_query_def)
  show ?thesis
    using x86_got_relaxation_equivalent [OF c disjI1 [OF rk(1)] w0 w m, of "\<lambda>a. if a = 0x3000 then 0x5000 else 0"]
    by (simp add: rk instruction_at_def)
qed

text \<open>
  The relocation type chosen for the 64-bit forms with an immediate checks for an unsigned value: an
  address in \<open>[2^31, 2^32)\<close> is accepted, and the register gets a different value.
\<close>

lemma x86_rex_absolute_sign:
  "\<exists>bs'. x86_relax_and_write \<lparr>rx_kind = RexMovIndirectToAbsolute 3, rx_rel_info = x86_rel_info ''R_X86_64_32'', rx_mandatory = False\<rparr>
       [0x48, 0x8b, 0x05, 0, 0, 0, 0] 3 (- 4) 0x80000000 0x1000 = Some bs' \<and>
     exec_rex mem 0x1000 bs' = Some (SetReg True 0 0xffffffff80000000)"
proof -
  have "x86_relax_and_write \<lparr>rx_kind = RexMovIndirectToAbsolute 3, rx_rel_info = x86_rel_info ''R_X86_64_32'', rx_mandatory = False\<rparr>
       [0x48, 0x8b, 0x05, 0, 0, 0, 0] 3 (- 4) 0x80000000 0x1000 = Some [0x48, 0xc7, 0xc0, 0, 0, 0, 0x80]"
    by (subst relax_and_write_eq [where offn = 3 and v = "0x80000000" and adn = 0 and
        bsn = "[0x48, 0xc7, 0xc0, 0, 0, 0, 0]"]) code_simp+
  moreover have "exec_rex mem 0x1000 [0x48, 0xc7, 0xc0, 0, 0, 0, 0x80] = Some (SetReg True 0 0xffffffff80000000)" by code_simp
  ultimately show ?thesis by blast
qed

end
