(* ===== verification/Elf_AArch64.thy ===== *)
theory Elf_AArch64
  imports Arch_AArch64 AArch64_Relocs Relax_Choice Platform
begin

text \<open>
  AArch64 in the linker proper (\<open>libjdxld/src/elf_aarch64.rs\<close>): the PLT entry, the thunk that extends
  the range of a branch, and the choice of relaxations. Debug assertions (that the PLT precedes the
  GOT, that a TLS descriptor sequence is the expected one) and the points where tests inject faults
  are not part of the model.
\<close>

section \<open>Tables\<close>

definition aarch64_is_disallowed_for_interposable_symbols :: "rtype \<Rightarrow> bool" where
  "aarch64_is_disallowed_for_interposable_symbols r =
     (r \<in> {''R_AARCH64_ABS32'', ''R_AARCH64_ABS16'', ''R_AARCH64_ADD_ABS_LO12_NC'', ''R_AARCH64_LDST8_ABS_LO12_NC'',
           ''R_AARCH64_LDST32_ABS_LO12_NC'', ''R_AARCH64_LDST64_ABS_LO12_NC'', ''R_AARCH64_PREL16'',
           ''R_AARCH64_PREL32'', ''R_AARCH64_PREL64''})"

definition aarch64_is_disallowed_in_shared_object :: "rtype \<Rightarrow> bool" where
  "aarch64_is_disallowed_in_shared_object r = (r \<in> {''R_AARCH64_ABS32'', ''R_AARCH64_ABS16''})"

definition aarch64_PLT_ENTRY_TEMPLATE :: bytes where
  "aarch64_PLT_ENTRY_TEMPLATE =
     [0x10, 0x00, 0x00, 0x90, 0x11, 0x02, 0x40, 0xf9, 0x20, 0x02, 0x1f, 0xd6, 0x1f, 0x20, 0x03, 0xd5]"

definition aarch64_THUNK_TEMPLATE :: bytes where
  "aarch64_THUNK_TEMPLATE = [0x10, 0x00, 0x00, 0x90, 0x10, 0x02, 0x00, 0x91, 0x00, 0x02, 0x1f, 0xd6]"

definition MIN_BRANCH_RANGE :: u64 where "MIN_BRANCH_RANGE = 128 * 1024 * 1024"

definition aarch64_get_property_class :: "u32 \<Rightarrow> PropertyClass option" where
  "aarch64_get_property_class t = (if t = 0xc0000000 then Some PropertyAnd else None)"

section \<open>PLT entries and thunks\<close>

text \<open>Writing a value into the instruction at offset \<open>a\<close> of a piece of code.\<close>

definition write_insn_at :: "AArch64Instruction \<Rightarrow> u64 \<Rightarrow> nat \<Rightarrow> bytes \<Rightarrow> bytes option" where
  "write_insn_at i v a code =
     do { w \<leftarrow> slice a (a + 4) code; w' \<leftarrow> aarch64_write_to_value i v False w; splice a w' code }"

definition aarch64_write_plt_entry :: "bytes \<Rightarrow> u64 \<Rightarrow> u64 \<Rightarrow> (plt_error, bytes) outcome" where
  "aarch64_write_plt_entry plt_entry got_address plt_address =
     bind_outcome (of_panic (copy_template aarch64_PLT_ENTRY_TEMPLATE plt_entry)) (\<lambda>entry.
       let plt_page_address = plt_address AND NOT PAGE_MASK_4KB;
           offset = got_address - plt_page_address
       in bind_outcome (ensure (offset < shl 1 32) PltTooFar) (\<lambda>_.
            of_panic (do { entry \<leftarrow> write_insn_at Adr (offset div SIZE_4KB) 0 entry;
                           write_insn_at LdrRegister ((offset AND PAGE_MASK_4KB) div 8) 4 entry })))"

text \<open>Division of \<open>i64\<close> values, which truncates towards zero.\<close>

definition i64_div :: "int \<Rightarrow> int \<Rightarrow> int" where
  "i64_div a b = (if (a < 0) = (b < 0) then \<bar>a\<bar> div \<bar>b\<bar> else - (\<bar>a\<bar> div \<bar>b\<bar>))"

definition aarch64_write_thunk :: "u64 \<Rightarrow> u64 \<Rightarrow> bytes \<Rightarrow> bytes option" where
  "aarch64_write_thunk thunk_address target_address buf =
     do { buf \<leftarrow> copy_template aarch64_THUNK_TEMPLATE buf;
          let thunk_page = thunk_address AND NOT PAGE_MASK_4KB;
          let target_page = target_address AND NOT PAGE_MASK_4KB;
          let page_diff = wrap_i64 (sint target_page - sint thunk_page);
          let page_count = (word_of_int (i64_div page_diff (uint SIZE_4KB)) AND 0x1FFFFF);
          buf \<leftarrow> write_insn_at Adr page_count 0 buf;
          write_insn_at Add (target_address AND PAGE_MASK_4KB) 4 buf }"

section \<open>Choosing relaxations\<close>

definition aarch64_rel_info :: "rtype \<Rightarrow> RelocationKindInfo" where
  "aarch64_rel_info r = the (aarch64_relocation_type_from_raw r)"

definition aarch64_relaxed :: "AArch64Relaxation \<Rightarrow> rtype \<Rightarrow> bool \<Rightarrow> AArch64Relaxation Relaxation option" where
  "aarch64_relaxed k r m = Some \<lparr>rx_kind = k, rx_rel_info = aarch64_rel_info r, rx_mandatory = m\<rparr>"

text \<open>ADRP and ADD of one register, the second one at the relocation.\<close>

definition adrp_add_pair :: "bytes \<Rightarrow> nat \<Rightarrow> bool" where
  "adrp_add_pair bs offset =
     (case do { p \<leftarrow> before offset 4; a \<leftarrow> slice p offset bs; b \<leftarrow> slice offset (offset + 4) bs; Some (a, b) } of
        None \<Rightarrow> False
      | Some (adrp_bytes, add_bytes) \<Rightarrow>
          let adrp_instr = (from_le adrp_bytes :: u64); add_instr = (from_le add_bytes :: u64)
          in ucast adrp_instr AND 0x9f000000 = (0x90000000 :: u32) \<and>
             ucast add_instr AND 0xffc00000 = (0x91000000 :: u32) \<and>
             extract_bit_range adrp_instr 0 5 = extract_bit_range add_instr 0 5 \<and>
             extract_bit_range adrp_instr 0 5 = extract_bit_range add_instr 5 10)"

definition aarch64_relax_add :: "relax_query \<Rightarrow> AArch64Relaxation Relaxation option" where
  "aarch64_relax_add q =
     (case q_previous q of
        None \<Rightarrow> None
      | Some prev \<Rightarrow>
          if prev_kind prev = ''R_AARCH64_ADR_PREL_PG_HI21'' \<and> prev_offset prev + 4 = of_nat (q_offset q) \<and> prev_addend prev = 0
             \<and> adrp_add_pair (q_section_bytes q) (q_offset q) then
            let add_place = q_section_address q + of_nat (q_offset q);
                diff = sint (q_sym_addr q + word_of_int (q_rel_addend q) - add_place)
            in if range_contains (bits_range 21 Signed) diff then
                 aarch64_relaxed AdrpAddToNopAdr ''R_AARCH64_ADR_PREL_LO21'' False
               else None
          else None)"

definition aarch64_relax_tlsdesc :: "rtype \<Rightarrow> bool \<Rightarrow> bool \<Rightarrow> AArch64Relaxation Relaxation option" where
  "aarch64_relax_tlsdesc rk interposable mandatory =
     (if rk = ''R_AARCH64_TLSDESC_ADR_PAGE21'' \<or> rk = ''R_AARCH64_TLSDESC_LD64_LO12'' then
        aarch64_relaxed AaReplaceWithNop ''R_AARCH64_NONE'' mandatory
      else if rk = ''R_AARCH64_TLSDESC_ADD_LO12'' then
        (if interposable then aarch64_relaxed AdrpX0 ''R_AARCH64_TLSIE_ADR_GOTTPREL_PAGE21'' mandatory
         else aarch64_relaxed MovzX0Lsl16 ''R_AARCH64_TLSLE_MOVW_TPREL_G1'' mandatory)
      else if interposable then aarch64_relaxed LdrX0 ''R_AARCH64_TLSIE_LD64_GOTTPREL_LO12_NC'' mandatory
      else aarch64_relaxed MovkX0 ''R_AARCH64_TLSLE_MOVW_TPREL_G0_NC'' mandatory)"

definition aarch64_relax_by_type :: "relax_query \<Rightarrow> RelocationKindInfo \<Rightarrow> AArch64Relaxation Relaxation option" where
  "aarch64_relax_by_type q relocation =
     (let rk = q_relocation q; flags = q_flags q; interposable = is_interposable flags; ok = q_output_kind q
      in if (rk = ''R_AARCH64_CALL26'' \<or> rk = ''R_AARCH64_JUMP26'') \<and> \<not> interposable then
           Some \<lparr>rx_kind = AaNoOp, rx_rel_info = relocation\<lparr>ri_kind := Relative\<rparr>, rx_mandatory = is_static_executable ok\<rparr>
         else if rk \<in> {''R_AARCH64_TLSDESC_ADR_PAGE21'', ''R_AARCH64_TLSDESC_LD64_LO12'',
                       ''R_AARCH64_TLSDESC_ADD_LO12'', ''R_AARCH64_TLSDESC_CALL''} \<and> is_executable ok then
           aarch64_relax_tlsdesc rk interposable (is_static_executable ok)
         else if rk = ''R_AARCH64_TLSIE_ADR_GOTTPREL_PAGE21'' \<and> is_executable ok \<and> \<not> interposable then
           aarch64_relaxed MovzXnLsl16 ''R_AARCH64_TLSLE_MOVW_TPREL_G1'' False
         else if rk = ''R_AARCH64_TLSIE_LD64_GOTTPREL_LO12_NC'' \<and> is_executable ok \<and> \<not> interposable then
           aarch64_relaxed MovkXn ''R_AARCH64_TLSLE_MOVW_TPREL_G0_NC'' False
         else if rk = ''R_AARCH64_ADD_ABS_LO12_NC'' \<and> \<not> interposable \<and> has_link_time_address flags \<and> q_sym_addr q \<noteq> 0 then
           aarch64_relax_add q
         else None)"

definition aarch64_new_relaxation :: "relax_query \<Rightarrow> AArch64Relaxation Relaxation option option" where
  "aarch64_new_relaxation q =
     do { relocation \<leftarrow> aarch64_relocation_type_from_raw (q_relocation q);
          Some (if is_ifunc (q_flags q) then
                  (if q_relocation q = ''R_AARCH64_CALL26'' \<or> q_relocation q = ''R_AARCH64_JUMP26'' then
                     Some \<lparr>rx_kind = AaNoOp, rx_rel_info = relocation\<lparr>ri_kind := PltRelative\<rparr>, rx_mandatory = True\<rparr>
                   else None)
                else if \<not> sflags_contain (q_section_flags q) EXECINSTR then None
                else aarch64_relax_by_type q relocation) }"

section \<open>A chosen relaxation can be applied\<close>

lemma adrp_add_pairD: "adrp_add_pair bs off \<Longrightarrow> 4 \<le> off \<and> off + 4 \<le> length bs"
  by (auto simp: adrp_add_pair_def before_def slice_def split: option.splits bind_splits if_splits)

lemma aarch64_choice_need:
  "aarch64_new_relaxation q = Some (Some r) \<Longrightarrow> rx_kind r = AdrpAddToNopAdr \<Longrightarrow> adrp_add_pair (q_section_bytes q) (q_offset q)"
  by (auto simp: aarch64_new_relaxation_def aarch64_relax_by_type_def aarch64_relax_tlsdesc_def aarch64_relax_add_def
      aarch64_relaxed_def Let_def split: bind_splits if_splits option.splits)

lemma aarch64_apply_total:
  assumes "off + 4 \<le> length bs" "k = AdrpAddToNopAdr \<Longrightarrow> 4 \<le> off"
  shows "aarch64_apply k (bs, off, ad) \<noteq> None"
  using assms by (cases k) (auto simp: splice_def slice_def index_def store_def before_def u32_from_slice_def Let_def)

interpretation aarch64_choice: relaxation_choice aarch64_apply aarch64_window aarch64_new_relaxation
    "\<lambda>r. aarch64_relocation_type_from_raw r \<noteq> None"
proof unfold_locales
  fix q :: relax_query assume "aarch64_relocation_type_from_raw (q_relocation q) \<noteq> None"
  then show "aarch64_new_relaxation q \<noteq> None" by (auto simp: aarch64_new_relaxation_def)
next
  fix q :: relax_query and r ad
  assume "aarch64_new_relaxation q = Some (Some r)"
    and "q_offset q + snd (aarch64_window (rx_kind r)) \<le> length (q_section_bytes q)"
  with aarch64_choice_need [of q r] adrp_add_pairD
  show "aarch64_apply (rx_kind r) (q_section_bytes q, q_offset q, ad) \<noteq> None"
    by (intro aarch64_apply_total) (auto simp: aarch64_window_def split: if_splits)
qed

end
