(* ===== verification/AArch64_Exec.thy ===== *)
theory AArch64_Exec
  imports Elf_AArch64 Reloc_Write
begin

text \<open>
  What the code that the linker makes for AArch64 does: a small semantics of the instructions in PLT
  entries and thunks and of the ADRP/ADD pair, after the architecture manual. The properties are
  that a thunk ends at its target, that a PLT entry ends at the address stored in its GOT slot, and
  that the relaxed ADRP/ADD pair leaves the same value in the register.
\<close>

section \<open>Instructions\<close>

text \<open>
  Program counter and registers x0 to x30. Register 31 is the stack pointer in some of the
  instructions and zero in the others; an instruction that names it has no step here.
\<close>

type_synonym aa_state = "u64 \<times> (nat \<Rightarrow> u64)"

definition aa_rd :: "u32 \<Rightarrow> nat" where "aa_rd w = unat (take_bit 5 w)"
definition aa_rn :: "u32 \<Rightarrow> nat" where "aa_rn w = unat (take_bit 5 (drop_bit 5 w))"

definition aa_imm12 :: "u32 \<Rightarrow> u64" where "aa_imm12 w = take_bit 12 (drop_bit 10 (ucast w))"

definition aa_adr_imm :: "u32 \<Rightarrow> u64" where
  "aa_adr_imm w = signed_take_bit 20 (push_bit 2 (take_bit 19 (drop_bit 5 (ucast w))) OR take_bit 2 (drop_bit 29 (ucast w)))"

definition aa_set :: "aa_state \<Rightarrow> u32 \<Rightarrow> u64 \<Rightarrow> aa_state option" where
  "aa_set s w v = (if aa_rd w = 31 then None else Some (fst s + 4, (snd s)(aa_rd w := v)))"

definition aa_get :: "aa_state \<Rightarrow> u32 \<Rightarrow> u64 option" where
  "aa_get s w = (if aa_rn w = 31 then None else Some (snd s (aa_rn w)))"

definition aa_step :: "(u64 \<Rightarrow> u64) \<Rightarrow> aa_state \<Rightarrow> u32 \<Rightarrow> aa_state option" where
  "aa_step mem s w =
     (let pc = fst s
      in if w AND 0x9f000000 = 0x90000000 then aa_set s w ((pc AND NOT 0xfff) + push_bit 12 (aa_adr_imm w))
         else if w AND 0x9f000000 = 0x10000000 then aa_set s w (pc + aa_adr_imm w)
         else if w AND 0xffc00000 = 0x91000000 then do { v \<leftarrow> aa_get s w; aa_set s w (v + aa_imm12 w) }
         else if w AND 0xffc00000 = 0xf9400000 then do { v \<leftarrow> aa_get s w; aa_set s w (mem (v + 8 * aa_imm12 w)) }
         else if w AND 0xfffffc1f = 0xd61f0000 then do { v \<leftarrow> aa_get s w; Some (v, snd s) }
         else if w = 0xd503201f then Some (pc + 4, snd s)
         else None)"

fun aa_run :: "(u64 \<Rightarrow> u64) \<Rightarrow> aa_state \<Rightarrow> u32 list \<Rightarrow> aa_state option" where
  "aa_run mem s [] = Some s"
| "aa_run mem s (w # ws) = do { s' \<leftarrow> aa_step mem s w; aa_run mem s' ws }"

definition word_at :: "bytes \<Rightarrow> nat \<Rightarrow> u32" where
  "word_at code a = getw 4 (drop a code)"

section \<open>Written instructions\<close>

lemma bit_opcode_masks:
  "bit (0x9f000000 :: u32) k \<longleftrightarrow> 24 \<le> k \<and> k < 29 \<or> k = 31"
  "bit (0xffc00000 :: u32) k \<longleftrightarrow> 22 \<le> k \<and> k < 32"
proof -
  have split: "(\<forall>k < 32. bit (w :: u32) k = P k) \<Longrightarrow> (\<And>k. P k \<Longrightarrow> k < 32) \<Longrightarrow> bit w k \<longleftrightarrow> P k"
    for w P
    using bit_imp_le_length [of w k] by auto
  have list: "(\<forall>k < 32. Q k) \<longleftrightarrow> list_all Q [0..<32]" for Q :: "nat \<Rightarrow> bool"
    by (auto simp: list_all_iff)
  show "bit (0x9f000000 :: u32) k \<longleftrightarrow> 24 \<le> k \<and> k < 29 \<or> k = 31"
    by (rule split) (unfold list, code_simp, auto)
  show "bit (0xffc00000 :: u32) k \<longleftrightarrow> 22 \<le> k \<and> k < 32"
    by (rule split) (unfold list, code_simp, auto)
qed

lemma adr_written:
  assumes "aarch64_write_to_value Adr v neg b = Some b'" "4 \<le> length b" "v < 2 ^ 21" "field_clear (aarch64_segs Adr) b"
  shows "aa_adr_imm (getw 4 b') = signed_take_bit 20 v" "getw 4 b' AND 0x9f000000 = (getw 4 b AND 0x9f000000 :: u32)"
    "aa_rd (getw 4 b') = aa_rd (getw 4 b)" "length b' = length b"
proof -
  have pre: "aarch64_pre Adr v b" using assms by (simp add: aarch64_pre_def seg_width_def)
  have e: "encoded (aarch64_segs Adr) v b b'"
    using adr_encodes [OF assms(2-4), of neg] assms(1) by simp
  have keep: "bit (getw 4 b' :: u32) k \<longleftrightarrow> bit (getw 4 b :: u32) k" if "k < 5 \<or> 24 \<le> k \<and> k < 29 \<or> k = 31" for k
    using e that by (auto simp: encoded_def byte_simps)
  have lo: "bit (getw 4 b' :: u32) (29 + i) \<longleftrightarrow> bit v i" if "i < 2" for i
    using e that by (auto simp: encoded_def byte_simps)
  have hi: "bit (getw 4 b' :: u32) (5 + i) \<longleftrightarrow> bit v (i + 2)" if "i < 19" for i
    using e that by (auto simp: encoded_def byte_simps)
  have "bit (push_bit 2 (take_bit 19 (drop_bit 5 (ucast (getw 4 b' :: u32)))) OR
      take_bit 2 (drop_bit 29 (ucast (getw 4 b' :: u32))) :: u64) i \<longleftrightarrow> bit v i" if "i \<le> 20" for i
  proof (cases "i < 2")
    case True
    then show ?thesis using lo [of i] by (auto simp: bit_or_iff bit_push_bit_iff bit_take_bit_iff bit_drop_bit_eq bit_unsigned_iff)
  next
    case False
    with that have "i - 2 < 19" "i - 2 + 2 = i" by auto
    with hi [of "i - 2"] False show ?thesis
      by (auto simp: bit_or_iff bit_push_bit_iff bit_take_bit_iff bit_drop_bit_eq bit_unsigned_iff)
  qed
  then show "aa_adr_imm (getw 4 b') = signed_take_bit 20 v"
    unfolding aa_adr_imm_def by (intro bit_word_eqI) (auto simp: bit_signed_take_bit_iff min_def)
  show "getw 4 b' AND 0x9f000000 = (getw 4 b AND 0x9f000000 :: u32)"
    by (rule bit_word_eqI) (unfold bit_and_iff bit_opcode_masks, use keep in auto)
  have "take_bit 5 (getw 4 b' :: u32) = take_bit 5 (getw 4 b)"
    by (rule bit_word_eqI) (auto simp: bit_take_bit_iff keep)
  then show "aa_rd (getw 4 b') = aa_rd (getw 4 b)" by (simp add: aa_rd_def)
  show "length b' = length b" using aarch64_field.wr_length [OF pre assms(1)] .
qed

lemma imm12_written:
  assumes "aarch64_write_to_value i v neg b = Some b'" "i = Add \<or> i = LdrRegister" "4 \<le> length b" "v < 2 ^ 12"
    and "field_clear [(0, 0, 10, 12)] b"
  shows "aa_imm12 (getw 4 b') = v" "getw 4 b' AND 0xffc00000 = (getw 4 b AND 0xffc00000 :: u32)"
    "aa_rd (getw 4 b') = aa_rd (getw 4 b)" "aa_rn (getw 4 b') = aa_rn (getw 4 b)" "length b' = length b"
proof -
  have pre: "aarch64_pre i v b" using assms by (auto simp: aarch64_pre_def seg_width_def)
  have e: "encoded [(0, 0, 10, 12)] v b b'"
    using or_field_encodes [OF assms(3,4), of 10] assms(1,2,5) by auto
  have keep: "bit (getw 4 b' :: u32) k \<longleftrightarrow> bit (getw 4 b :: u32) k" if "k < 10 \<or> 22 \<le> k" for k
    using e that by (auto simp: encoded_def byte_simps)
  have "bit (getw 4 b' :: u32) (10 + k) \<longleftrightarrow> bit v k" if "k < 12" for k
    using e that by (auto simp: encoded_def byte_simps)
  moreover have "\<not> bit v k" if "12 \<le> k" for k using bit_of_bounded [OF assms(4), of k] that by auto
  ultimately have "bit (aa_imm12 (getw 4 b')) k \<longleftrightarrow> bit v k" for k
    by (cases "k < 12") (simp_all add: aa_imm12_def bit_take_bit_iff bit_drop_bit_eq bit_unsigned_iff)
  then show "aa_imm12 (getw 4 b') = v" by (intro bit_word_eqI)
  show "getw 4 b' AND 0xffc00000 = (getw 4 b AND 0xffc00000 :: u32)"
    by (rule bit_word_eqI) (unfold bit_and_iff bit_opcode_masks, use keep in auto)
  have "take_bit 5 (getw 4 b' :: u32) = take_bit 5 (getw 4 b)"
    "take_bit 5 (drop_bit 5 (getw 4 b' :: u32)) = take_bit 5 (drop_bit 5 (getw 4 b))"
    by (rule bit_word_eqI, use keep in \<open>auto simp: bit_take_bit_iff bit_drop_bit_eq\<close>)+
  then show "aa_rd (getw 4 b') = aa_rd (getw 4 b)" "aa_rn (getw 4 b') = aa_rn (getw 4 b)"
    by (simp_all add: aa_rd_def aa_rn_def)
  show "length b' = length b" using aarch64_field.wr_length [OF pre assms(1)] .
qed

text \<open>Writing into the word between a prefix and a suffix of a piece of code.\<close>

lemma write_insn_at_mid:
  assumes "aarch64_write_to_value i v False w = Some w'" "length w = 4" "length w' = 4"
  shows "write_insn_at i v (length xs) (xs @ w @ ys) = Some (xs @ w' @ ys)"
  using assms by (simp add: write_insn_at_def slice_def splice_def)

lemma word_at_mid: "length w = 4 \<Longrightarrow> word_at (xs @ w @ ys) (length xs) = getw 4 w"
  by (simp add: word_at_def getw_def)

section \<open>Pages\<close>

lemma PAGE_MASK: "PAGE_MASK_4KB = mask 12" "SIZE_4KB = 4096"
  by code_simp+

lemma page_split: "(a AND NOT (mask 12)) + (a AND mask 12) = (a :: u64)"
  by (subst disjunctive_add_eq_or) (auto simp: bit_eq_iff bit_simps)

lemma page_diff_dvd: "4096 dvd sint ((a AND NOT (mask 12)) - (b AND NOT (mask 12)) :: u64)"
proof -
  have "x AND NOT (mask 12) = push_bit 12 (drop_bit 12 (x :: u64))" for x by (auto simp: bit_eq_iff bit_simps)
  then have page: "x AND NOT (mask 12) = 4096 * drop_bit 12 (x :: u64)" for x by (simp add: push_bit_eq_mult mult.commute)
  define z where "z = drop_bit 12 a - drop_bit 12 b"
  have d: "(a AND NOT (mask 12)) - (b AND NOT (mask 12)) = 4096 * z"
    unfolding page z_def by (simp add: algebra_simps)
  have "uint (4096 * z) = (4096 * uint z) mod 2 ^ 64" by (simp add: uint_word_ariths)
  then have "4096 dvd uint (4096 * z)" using dvd_mod [of 4096 "4096 * uint z" "2 ^ 64"] by simp
  moreover have "uint (4096 * z) = sint (4096 * z) mod 2 ^ 64"
    using uint_sint [of "4096 * z"] unfolding take_bit_eq_mod by simp
  ultimately have "4096 dvd sint (4096 * z) mod 2 ^ 64" by simp
  then have "4096 dvd sint (4096 * z)" using dvd_mod_iff [of 4096 "2 ^ 64" "sint (4096 * z)"] by simp
  then show ?thesis unfolding d .
qed

lemma i64_div_dvd: "0 < b \<Longrightarrow> b dvd a \<Longrightarrow> i64_div a b = a div b"
  by (auto simp: i64_div_def abs_if dvd_neg_div)

lemma pages_back:
  fixes d :: u64
  assumes "4096 dvd sint d" "- (2 ^ 32) \<le> sint d" "sint d < 2 ^ 32"
  defines "p \<equiv> word_of_int (sint d div 4096) AND 0x1FFFFF"
  shows "push_bit 12 (signed_take_bit 20 p) = d" "p < 2 ^ 21"
proof -
  obtain q where q: "sint d = 4096 * q" using assms(1) by (rule dvdE)
  have bounds: "- (2 ^ 20) \<le> q" "q < 2 ^ 20" using assms(2,3) q by simp_all
  have m: "(0x1FFFFF :: u64) = mask 21" by code_simp
  have p: "p = take_bit 21 (word_of_int q)" using q by (simp add: p_def m take_bit_eq_mask)
  have "sint (word_of_int q :: u64) = q" using bounds by (simp add: sint_sbintrunc' signed_take_bit_int_eq_self)
  then have "signed_take_bit 20 (word_of_int q :: u64) = word_of_int q"
    using bounds by (intro signed_take_bit_id) simp_all
  then have "signed_take_bit 20 p = word_of_int q" by (simp add: p signed_take_bit_take_bit)
  moreover have "push_bit 12 (word_of_int q :: u64) = word_of_int (sint d)"
    by (simp add: push_bit_eq_mult q mult.commute)
  ultimately show "push_bit 12 (signed_take_bit 20 p) = d" by simp
  show "p < 2 ^ 21"
    using and_mask_less_size [of 21 "word_of_int q :: u64"] by (simp add: p take_bit_eq_mask word_size)
qed

section \<open>Thunks\<close>

lemma bit24_and:
  "w AND 0xffc00000 = 0x91000000 \<or> w AND 0xffc00000 = 0xf9400000 \<Longrightarrow>
    w AND 0x9f000000 \<noteq> 0x90000000 \<and> w AND 0x9f000000 \<noteq> (0x10000000 :: u32)"
proof -
  assume a: "w AND 0xffc00000 = 0x91000000 \<or> w AND 0xffc00000 = 0xf9400000"
  have "bit (w AND 0xffc00000) 24" using a by (elim disjE) simp_all
  then have "bit (w AND 0x9f000000) 24" by (simp add: bit_and_iff)
  moreover have "\<not> bit (0x90000000 :: u32) 24" "\<not> bit (0x10000000 :: u32) 24" by simp_all
  ultimately show ?thesis by metis
qed

lemma aa_steps:
  "w AND 0x9f000000 = 0x90000000 \<Longrightarrow> aa_rd w \<noteq> 31 \<Longrightarrow>
     aa_step mem (pc, x) w = Some (pc + 4, x(aa_rd w := (pc AND NOT (mask 12)) + push_bit 12 (aa_adr_imm w)))"
  "w AND 0xffc00000 = 0x91000000 \<Longrightarrow> aa_rd w \<noteq> 31 \<Longrightarrow> aa_rn w \<noteq> 31 \<Longrightarrow>
     aa_step mem (pc, x) w = Some (pc + 4, x(aa_rd w := x (aa_rn w) + aa_imm12 w))"
  "w AND 0xffc00000 = 0xf9400000 \<Longrightarrow> aa_rd w \<noteq> 31 \<Longrightarrow> aa_rn w \<noteq> 31 \<Longrightarrow>
     aa_step mem (pc, x) w = Some (pc + 4, x(aa_rd w := mem (x (aa_rn w) + 8 * aa_imm12 w)))"
  "aa_step mem (pc, x) 0xd61f0200 = Some (x 16, x)" "aa_step mem (pc, x) 0xd61f0220 = Some (x 17, x)"
proof -
  have r: "aa_rn 0xd61f0200 = 16" "aa_rn 0xd61f0220 = 17" by code_simp+
  show "aa_step mem (pc, x) 0xd61f0200 = Some (x 16, x)" "aa_step mem (pc, x) 0xd61f0220 = Some (x 17, x)"
    by (simp_all add: aa_step_def aa_get_def r)
qed (use bit24_and [of w] in \<open>simp_all add: aa_step_def aa_get_def aa_set_def mask_numeral\<close>)

lemma wrap_sint_diff: "wrap_i64 (sint a - sint b) = sint (a - b :: u64)"
  by (simp add: wrap_i64_def sint_word_ariths)

lemma template_words:
  "field_clear (aarch64_segs Adr) [0x10, 0, 0, 0x90]" "field_clear [(0, 0, 10, 12)] [0x10, 2, 0, 0x91]"
  "field_clear [(0, 0, 10, 12)] [0x11, 2, 0x40, 0xf9]"
  "(getw 4 [0x10, 0, 0, 0x90] :: u32) = 0x90000010" "(getw 4 [0x10, 2, 0, 0x91] :: u32) = 0x91000210"
  "(getw 4 [0x11, 2, 0x40, 0xf9] :: u32) = 0xf9400211" "(getw 4 [0, 2, 0x1f, 0xd6] :: u32) = 0xd61f0200"
  "(getw 4 [0x20, 2, 0x1f, 0xd6] :: u32) = 0xd61f0220"
  by code_simp+

lemma write_total:
  assumes "length b = 4" "aarch64_pre i v b"
  shows "\<exists>b'. aarch64_write_to_value i v False b = Some b' \<and> length b' = 4"
  using aarch64_wr_encodes [OF assms(2), of False] aarch64_field.wr_length [OF assms(2)] assms(1) by metis

lemma low_page_bits: "a AND mask 12 < (2 ^ 12 :: u64)"
  using and_mask_less_size [of 12 a] by (simp add: word_size)

text \<open>
  C30. A range-extension thunk ends at its target: the code that \<open>write_thunk\<close> makes for a thunk and
  a target whose pages are less than 4 GiB apart, run from the thunk's address, continues at the
  target and has changed nothing but the scratch register x16.
\<close>

theorem aarch64_thunk_reaches_target:
  assumes "length buf = 12"
    and "- (2 ^ 32) \<le> sint ((target AND NOT PAGE_MASK_4KB) - (thunk AND NOT PAGE_MASK_4KB))"
    and "sint ((target AND NOT PAGE_MASK_4KB) - (thunk AND NOT PAGE_MASK_4KB)) < 2 ^ 32"
  shows "\<exists>code. aarch64_write_thunk thunk target buf = Some code \<and>
    aa_run mem (thunk, x) [word_at code 0, word_at code 4, word_at code 8] = Some (target, x(16 := target))"
proof -
  let ?d = "(target AND NOT (mask 12)) - (thunk AND NOT (mask 12))" and ?lo = "target AND mask 12"
  let ?p = "word_of_int (sint ?d div 4096) AND 0x1FFFFF :: u64"
  note pages = pages_back [OF page_diff_dvd, of target thunk]
  have p: "push_bit 12 (signed_take_bit 20 ?p) = ?d" "?p < 2 ^ 21"
    using pages assms(2,3) by (simp_all add: PAGE_MASK)
  obtain w0 where w0: "aarch64_write_to_value Adr ?p False [0x10, 0, 0, 0x90] = Some w0" "length w0 = 4"
    using write_total [of "[0x10, 0, 0, 0x90]" Adr ?p] p(2) template_words(1) by (auto simp: aarch64_pre_def seg_width_def)
  obtain w1 where w1: "aarch64_write_to_value Add ?lo False [0x10, 2, 0, 0x91] = Some w1" "length w1 = 4"
    using write_total [of "[0x10, 2, 0, 0x91]" Add ?lo] low_page_bits [of target] template_words(2)
    by (auto simp: aarch64_pre_def seg_width_def)
  let ?code = "w0 @ w1 @ [0, 2, 0x1f, 0xd6]"
  have "write_insn_at Adr ?p 0 aarch64_THUNK_TEMPLATE = Some (w0 @ [0x10, 2, 0, 0x91] @ [0, 2, 0x1f, 0xd6])"
    using write_insn_at_mid [OF w0(1) _ w0(2), of "[]"] by (simp add: aarch64_THUNK_TEMPLATE_def)
  moreover have "write_insn_at Add ?lo 4 (w0 @ [0x10, 2, 0, 0x91] @ [0, 2, 0x1f, 0xd6]) = Some ?code"
    using write_insn_at_mid [OF w1(1) _ w1(2), of w0 "[0, 2, 0x1f, 0xd6]"] w0(2) by simp
  moreover have "i64_div (wrap_i64 (sint (target AND NOT (mask 12)) - sint (thunk AND NOT (mask 12)))) 4096 = sint ?d div 4096"
    unfolding wrap_sint_diff by (rule i64_div_dvd [OF _ page_diff_dvd]) simp
  ultimately have code: "aarch64_write_thunk thunk target buf = Some ?code"
    using assms(1) by (simp add: aarch64_write_thunk_def copy_template_def PAGE_MASK aarch64_THUNK_TEMPLATE_def)
  have words: "word_at ?code 0 = getw 4 w0" "word_at ?code 4 = getw 4 w1" "word_at ?code 8 = 0xd61f0200"
    using word_at_mid [OF w0(2), of "[]"] word_at_mid [OF w1(2), of w0] word_at_mid [of "[0, 2, 0x1f, 0xd6]" "w0 @ w1" "[]"]
      w0(2) w1(2) template_words(7) by simp_all
  have r: "aa_rd 0x90000010 = 16" "aa_rd 0x91000210 = 16" "aa_rn 0x91000210 = 16" by code_simp+
  note a = adr_written [OF w0(1) _ p(2) template_words(1)] and i = imm12_written [OF w1(1) _ _ low_page_bits template_words(2)]
  have target: "(thunk AND NOT (mask 12)) + ?d + ?lo = target" using page_split [of target] by simp
  have "aa_run mem (thunk, x) [getw 4 w0, getw 4 w1, 0xd61f0200] = Some (target, x(16 := target))"
    using a i p(1) target by (simp add: aa_steps template_words r)
  with code words show ?thesis by auto
qed

theorem aarch64_thunk_reaches_target_witness:
  "\<exists>code. aarch64_write_thunk 0x10000 0x8012345 (replicate 12 0) = Some code \<and>
    aa_run (\<lambda>_. 0) (0x10000, \<lambda>_. 0) [word_at code 0, word_at code 4, word_at code 8] = Some (0x8012345, (\<lambda>_. 0)(16 := 0x8012345))"
proof -
  have "sint ((0x8012345 AND NOT PAGE_MASK_4KB) - (0x10000 AND NOT PAGE_MASK_4KB)) = 0x8002000" by code_simp
  then show ?thesis using aarch64_thunk_reaches_target [of "replicate 12 0" "0x8012345" "0x10000"] by simp
qed

section \<open>PLT entries\<close>

lemma plt_pages:
  fixes got plt :: u64
  defines "off \<equiv> got - (plt AND NOT (mask 12))"
  shows "off AND mask 12 = got AND mask 12" "(plt AND NOT (mask 12)) + (off AND NOT (mask 12)) = got AND NOT (mask 12)"
proof -
  let ?s = "push_bit 12 (drop_bit 12 plt + drop_bit 12 off)"
  have page: "x AND NOT (mask 12) = push_bit 12 (drop_bit 12 x)" for x :: u64 by (auto simp: bit_eq_iff bit_simps)
  have sum: "(plt AND NOT (mask 12)) + (off AND NOT (mask 12)) = ?s"
    unfolding page by (simp add: push_bit_eq_mult algebra_simps)
  have "got = (plt AND NOT (mask 12)) + ((off AND NOT (mask 12)) + (off AND mask 12))"
    unfolding page_split by (simp add: off_def)
  then have "got = ?s + (off AND mask 12)" using sum by (simp add: add.assoc)
  also have "\<dots> = ?s OR (off AND mask 12)" by (rule disjunctive_add_eq_or) (auto simp: bit_eq_iff bit_simps)
  finally have got: "bit got k \<longleftrightarrow> bit ?s k \<or> bit (off AND mask 12) k" for k by (simp add: bit_or_iff)
  show "off AND mask 12 = got AND mask 12" by (rule bit_word_eqI) (auto simp: bit_and_iff got bit_push_bit_iff bit_mask_iff)
  show "(plt AND NOT (mask 12)) + (off AND NOT (mask 12)) = got AND NOT (mask 12)"
    unfolding sum by (rule bit_word_eqI) (auto simp: bit_and_iff bit_not_iff got bit_push_bit_iff bit_mask_iff)
qed

lemma scaled_back: "got mod 8 = 0 \<Longrightarrow> 8 * ((got AND mask 12) div 8) = got AND (mask 12 :: u64)"
proof -
  assume "got mod 8 = 0"
  then have "take_bit 3 got = 0" by (simp add: take_bit_eq_mod)
  then have "\<not> bit got k" if "k < 3" for k using that by (metis bit_take_bit_iff bit_0_eq bot_apply bot_bool_def)
  then have "bit got k \<Longrightarrow> 3 \<le> k" for k using not_less by blast
  then have "push_bit 3 (drop_bit 3 (got AND mask 12)) = got AND mask 12"
    by (intro bit_word_eqI) (force simp: bit_simps)
  then show ?thesis by (simp add: push_bit_eq_mult drop_bit_eq_div mult.commute)
qed

lemma page_count:
  fixes off :: u64
  assumes "off < 2 ^ 32"
  shows "off div 4096 < 2 ^ 21" "push_bit 12 (signed_take_bit 20 (off div 4096)) = off AND NOT (mask 12)"
proof -
  have d: "off div 4096 = drop_bit 12 off" by (simp add: drop_bit_eq_div)
  have b: "bit off k \<Longrightarrow> k < 32" for k using bit_of_bounded [OF assms] .
  have "take_bit 20 (drop_bit 12 off) = drop_bit 12 off"
    by (rule bit_word_eqI) (auto simp: bit_simps dest: b)
  then have t: "take_bit 20 (off div 4096) = off div 4096" by (simp add: d)
  have "off div 4096 < 2 ^ 20"
    using and_mask_less_size [of 20 "off div 4096"] t by (simp add: take_bit_eq_mask word_size)
  then show "off div 4096 < 2 ^ 21" by (rule less_trans) simp
  have "signed_take_bit 20 (off div 4096) = off div 4096"
    by (rule bit_word_eqI) (auto simp: d bit_simps min_def dest: b)
  then show "push_bit 12 (signed_take_bit 20 (off div 4096)) = off AND NOT (mask 12)"
    by (auto simp: d bit_eq_iff bit_simps)
qed

text \<open>
  C31. A PLT entry continues where its GOT slot points: when \<open>write_plt_entry\<close> succeeds for a slot
  that is a multiple of 8, the entry, run from its address, continues at the address stored in the
  slot, and has changed nothing but the scratch registers x16 and x17. It fails when the slot is not
  within 4 GiB after the entry's page, and does not panic.
\<close>

theorem aarch64_plt_entry_reaches_slot:
  assumes "length entry = 16" "got mod 8 = 0"
  shows "if got - (plt AND NOT PAGE_MASK_4KB) < 2 ^ 32
    then \<exists>code. aarch64_write_plt_entry entry got plt = Ok code \<and>
      aa_run mem (plt, x) [word_at code 0, word_at code 4, word_at code 8] =
        Some (mem got, x(16 := got AND NOT PAGE_MASK_4KB, 17 := mem got))
    else aarch64_write_plt_entry entry got plt = Error PltTooFar"
proof (cases "got - (plt AND NOT PAGE_MASK_4KB) < 2 ^ 32")
  case False
  then show ?thesis
    using assms(1) by (simp add: aarch64_write_plt_entry_def copy_template_def aarch64_PLT_ENTRY_TEMPLATE_def Let_def shl_def)
next
  case True
  let ?off = "got - (plt AND NOT (mask 12))" and ?lo = "got AND mask 12"
  have p: "?off div 4096 < 2 ^ 21" "push_bit 12 (signed_take_bit 20 (?off div 4096)) = ?off AND NOT (mask 12)"
    using page_count [of ?off] True by (simp_all add: PAGE_MASK)
  have "?lo div 8 \<le> ?lo" by (simp add: word_le_nat_alt unat_div)
  with low_page_bits [of got] have lo: "?lo div 8 < 2 ^ 12" by (rule le_less_trans [rotated])
  obtain w0 where w0: "aarch64_write_to_value Adr (?off div 4096) False [0x10, 0, 0, 0x90] = Some w0" "length w0 = 4"
    using write_total [of "[0x10, 0, 0, 0x90]" Adr "?off div 4096"] p(1) template_words(1)
    by (auto simp: aarch64_pre_def seg_width_def)
  obtain w1 where w1: "aarch64_write_to_value LdrRegister (?lo div 8) False [0x11, 2, 0x40, 0xf9] = Some w1" "length w1 = 4"
    using write_total [of "[0x11, 2, 0x40, 0xf9]" LdrRegister "?lo div 8"] lo template_words(3)
    by (auto simp: aarch64_pre_def seg_width_def)
  let ?tail = "[0x20, 2, 0x1f, 0xd6] @ [0x1f, 0x20, 3, 0xd5]"
  let ?code = "w0 @ w1 @ ?tail"
  have "write_insn_at Adr (?off div 4096) 0 aarch64_PLT_ENTRY_TEMPLATE = Some (w0 @ [0x11, 2, 0x40, 0xf9] @ ?tail)"
    using write_insn_at_mid [OF w0(1) _ w0(2), of "[]"] by (simp add: aarch64_PLT_ENTRY_TEMPLATE_def)
  moreover have "write_insn_at LdrRegister (?lo div 8) 4 (w0 @ [0x11, 2, 0x40, 0xf9] @ ?tail) = Some ?code"
    using write_insn_at_mid [OF w1(1) _ w1(2), of w0 ?tail] w0(2) by simp
  ultimately have code: "aarch64_write_plt_entry entry got plt = Ok ?code"
    using assms(1) True plt_pages(1) [of got plt]
    by (simp add: aarch64_write_plt_entry_def copy_template_def PAGE_MASK aarch64_PLT_ENTRY_TEMPLATE_def Let_def shl_def)
  have words: "word_at ?code 0 = getw 4 w0" "word_at ?code 4 = getw 4 w1" "word_at ?code 8 = 0xd61f0220"
    using word_at_mid [OF w0(2), of "[]"] word_at_mid [OF w1(2), of w0]
      word_at_mid [of "[0x20, 2, 0x1f, 0xd6]" "w0 @ w1" "[0x1f, 0x20, 3, 0xd5]"] w0(2) w1(2) template_words(8) by simp_all
  have r: "aa_rd 0x90000010 = 16" "aa_rd 0xf9400211 = 17" "aa_rn 0xf9400211 = 16" by code_simp+
  note a = adr_written [OF w0(1) _ p(1) template_words(1)] and i = imm12_written [OF w1(1) _ _ lo template_words(3)]
  have slot: "(got AND NOT (mask 12)) + 8 * (?lo div 8) = got"
    using page_split [of got] scaled_back [OF assms(2)] by simp
  have "aa_run mem (plt, x) [getw 4 w0, getw 4 w1, 0xd61f0220] = Some (mem got, x(16 := got AND NOT (mask 12), 17 := mem got))"
    using a i p(2) slot plt_pages(2) [of plt got] by (simp add: aa_steps template_words r)
  with code words True show ?thesis by (auto simp: PAGE_MASK)
qed

theorem aarch64_plt_entry_reaches_slot_witness:
  "\<exists>code. aarch64_write_plt_entry (replicate 16 0) 0x20f8 0x1010 = Ok code \<and>
    aa_run (\<lambda>a. if a = 0x20f8 then 0x4444 else 0) (0x1010, \<lambda>_. 0) [word_at code 0, word_at code 4, word_at code 8] =
      Some (0x4444, (\<lambda>_. 0)(16 := 0x20f8 AND NOT PAGE_MASK_4KB, 17 := 0x4444))"
proof -
  have "(0x20f8 - (0x1010 AND NOT PAGE_MASK_4KB) :: u64) < 2 ^ 32" by code_simp
  then show ?thesis
    using aarch64_plt_entry_reaches_slot [of "replicate 16 0" "0x20f8" "0x1010" "\<lambda>a. if a = 0x20f8 then 0x4444 else 0"] by simp
qed

section \<open>ADRP and ADD relaxed to ADR\<close>

lemma adr_lo21_info:
  "aarch64_rel_info ''R_AARCH64_ADR_PREL_LO21'' =
     \<lparr>ri_kind = Relative, ri_size = bit_mask_aarch64 0 21 Adr, ri_mask = None,
      ri_range = range_new (- (2 ^ 20)) (2 ^ 20), ri_alignment = 1, ri_bias = 0, ri_thunkable = False\<rparr>"
  by code_simp

lemma adr_word:
  assumes "r < 32"
  shows "field_clear (aarch64_segs Adr) [of_nat r, 0, 0, 0x10]" "aa_rd (getw 4 [of_nat r, 0, 0, 0x10]) = r"
    "getw 4 [of_nat r, 0, 0, 0x10] AND 0x9f000000 = (0x10000000 :: u32)"
proof -
  have "list_all (\<lambda>r. field_clear (aarch64_segs Adr) [of_nat r, 0, 0, 0x10] \<and> aa_rd (getw 4 [of_nat r, 0, 0, 0x10]) = r \<and>
      getw 4 [of_nat r, 0, 0, 0x10] AND 0x9f000000 = (0x10000000 :: u32)) [0..<32]"
    by code_simp
  with assms show "field_clear (aarch64_segs Adr) [of_nat r, 0, 0, 0x10]" "aa_rd (getw 4 [of_nat r, 0, 0, 0x10]) = r"
    "getw 4 [of_nat r, 0, 0, 0x10] AND 0x9f000000 = (0x10000000 :: u32)"
    by (auto simp: list_all_iff)
qed

lemma aa_step_adr:
  "w AND 0x9f000000 = 0x10000000 \<Longrightarrow> aa_rd w \<noteq> 31 \<Longrightarrow> aa_step mem (pc, x) w = Some (pc + 4, x(aa_rd w := pc + aa_adr_imm w))"
  by (simp add: aa_step_def aa_set_def)

lemma nop_word: "(getw 4 [0x1f, 0x20, 3, 0xd5] :: u32) = 0xd503201f" "aa_step mem (pc, x) 0xd503201f = Some (pc + 4, x)"
  by code_simp (simp add: aa_step_def)

lemma byte_bit_prefix: "k < 8 * length b \<Longrightarrow> byte_bit (b @ rest) k \<longleftrightarrow> byte_bit b k"
  by (auto simp: byte_bit_def nth_append)

text \<open>A relocated ADR computes any address that passes the check.\<close>

lemma adr_relocated:
  assumes "length b = 4" "r < 31" "b = [of_nat r, 0, 0, 0x10]" "- (2 ^ 20) \<le> sint v" "sint v < 2 ^ 20"
  shows "\<exists>b'. write_to_buffer uleb (aarch64_rel_info ''R_AARCH64_ADR_PREL_LO21'') v (b @ rest) = Ok b' \<and>
    aa_step mem (pc, x) (word_at b' 0) = Some (pc + 4, x(r := pc + v))"
proof -
  let ?e = "extract_bit_range v 0 21"
  have r: "r < 32" using assms(2) by simp
  have e: "?e < 2 ^ 21" using extract_bit_range_fits [of 0 21 v] by simp
  have f: "field_clear (aarch64_segs Adr) (b @ rest)"
    using adr_word(1) [OF r, folded assms(3)] assms(1) byte_bit_prefix [of _ b rest] by (auto simp: field_clear_def)
  have g: "getw 4 (b @ rest) = (getw 4 b :: u32)" using assms(1) by (simp add: getw_def)
  obtain b' where b': "aarch64_write_to_value Adr ?e (sint v < 0) (b @ rest) = Some b'"
    using adr_encodes [OF _ e f, of "sint v < 0"] assms(1) by auto
  note a = adr_written [OF b' _ e f]
  have "signed_take_bit 20 ?e = signed_take_bit 20 v"
    by (rule bit_word_eqI) (auto simp: bit_signed_take_bit_iff bit_extract_bit_range)
  also have "\<dots> = v" using assms(4,5) by (intro signed_take_bit_id) auto
  finally have imm: "aa_adr_imm (getw 4 b') = v" using a(1) assms(1) by simp
  have "write_to_buffer uleb (aarch64_rel_info ''R_AARCH64_ADR_PREL_LO21'') v (b @ rest) = Ok b'"
    using b' assms(4,5) by (simp add: adr_lo21_info write_to_buffer_def write_sized_def bit_mask_aarch64_def bit_mask_new_def
        verify_def is_multiple_of_def range_contains_def range_new_def ensure_def del: aarch64_write_to_value.simps)
  moreover have "aa_step mem (pc, x) (getw 4 b') = Some (pc + 4, x(r := pc + v))"
    using a(2,3) adr_word(2,3) [OF r, folded assms(3)] imm assms(1,2) by (simp add: aa_step_adr g)
  ultimately show ?thesis by (auto simp: word_at_def)
qed

lemma pair_register:
  assumes "adrp_add_pair bs off"
  shows "ucast (extract_bit_range (ucast (word_at bs (off - 4))) 0 5) = (of_nat (aa_rd (word_at bs (off - 4))) :: u8)"
    "aa_rd (word_at bs (off - 4)) < 32"
proof -
  let ?w = "word_at bs (off - 4)"
  have "take_bit 5 ?w < 2 ^ 5" using and_mask_less_size [of 5 ?w] by (simp add: take_bit_eq_mask word_size)
  then show "aa_rd ?w < 32" by (simp add: aa_rd_def word_less_nat_alt)
  have "(of_nat (aa_rd ?w) :: u8) = ucast (take_bit 5 ?w)" by (simp add: aa_rd_def)
  also have "\<dots> = ucast (extract_bit_range (ucast ?w) 0 5 :: u64)"
    by (rule bit_word_eqI) (auto simp: bit_unsigned_iff bit_take_bit_iff bit_extract_bit_range)
  finally show "ucast (extract_bit_range (ucast ?w) 0 5) = (of_nat (aa_rd ?w) :: u8)" by simp
qed

lemma pair_applied:
  assumes "adrp_add_pair bs off"
  defines "r \<equiv> aa_rd (word_at bs (off - 4))"
  shows "aarch64_apply AdrpAddToNopAdr (bs, off, ad) =
    Some (take (off - 4) bs @ [0x1f, 0x20, 3, 0xd5] @ [of_nat r, 0, 0, 0x10] @ drop (off + 4) bs, off, ad)"
proof -
  obtain o' where o: "off = o' + 4" using adrp_add_pairD [OF assms(1)] by (metis add.commute le_Suc_ex)
  have len: "o' + 8 \<le> length bs" using adrp_add_pairD [OF assms(1)] o by simp
  have w: "slice o' (o' + 4) bs = Some (take 4 (drop o' bs))" using len by (simp add: slice_def)
  have u: "u32_from_slice (take 4 (drop o' bs)) = Some (word_at bs o')"
    using len by (simp add: u32_from_slice_def word_at_def getw_def)
  have four: "Suc (Suc (Suc (Suc o'))) = o' + 4" by simp
  have s1: "splice o' [0x1f, 0x20, 3, 0xd5] bs = Some (take o' bs @ [0x1f, 0x20, 3, 0xd5] @ drop (o' + 4) bs)"
    using len by (simp add: splice_def four)
  have s2: "splice (o' + 4) ys (take o' bs @ [0x1f, 0x20, 3, 0xd5] @ drop (o' + 4) bs) =
      Some (take o' bs @ [0x1f, 0x20, 3, 0xd5] @ ys @ drop (o' + 8) bs)" if "length ys = 4" for ys
  proof -
    have "4 + o' \<le> length bs - 4" using len by simp
    with len that show ?thesis by (simp add: splice_def min_absorb2 take_Cons' drop_Cons' add.commute)
  qed
  show ?thesis
    using pair_register(1) [OF assms(1)] w u s1 s2 unfolding r_def
    by (simp add: o before_def Let_def add.commute [of 8])
qed

lemma pair_opcodes:
  assumes "adrp_add_pair bs off"
  shows "word_at bs (off - 4) AND 0x9f000000 = 0x90000000" "word_at bs off AND 0xffc00000 = 0x91000000"
    "aa_rd (word_at bs off) = aa_rd (word_at bs (off - 4))" "aa_rn (word_at bs off) = aa_rd (word_at bs (off - 4))"
proof -
  obtain o' where o: "off = o' + 4" using adrp_add_pairD [OF assms] by (metis add.commute le_Suc_ex)
  have w: "slice o' (o' + 4) bs = Some (take 4 (drop o' bs))" "slice (o' + 4) (o' + 4 + 4) bs = Some (take 4 (drop (o' + 4) bs))"
    using adrp_add_pairD [OF assms] o by (simp_all add: slice_def)
  let ?a = "from_le (take 4 (drop o' bs)) :: u64" and ?b = "from_le (take 4 (drop (o' + 4) bs)) :: u64"
  have p: "ucast ?a AND 0x9f000000 = (0x90000000 :: u32)" "ucast ?b AND 0xffc00000 = (0x91000000 :: u32)"
    "extract_bit_range ?a 0 5 = extract_bit_range ?b 0 5" "extract_bit_range ?a 0 5 = extract_bit_range ?b 5 10"
    using assms w by (auto simp: adrp_add_pair_def before_def o Let_def add.commute [of 8])
  have u: "ucast ?a = word_at bs o'" "ucast ?b = word_at bs (o' + 4)"
    by (rule bit_word_eqI; simp add: word_at_def getw_def bit_from_le bit_unsigned_iff)+
  have e: "bit ?a k \<longleftrightarrow> bit ?b k" "bit ?a k \<longleftrightarrow> bit ?b (k + 5)" if "k < 5" for k
    using arg_cong [OF p(3), of "\<lambda>w. bit w k"] arg_cong [OF p(4), of "\<lambda>w. bit w k"] that by (simp_all add: bit_extract_bit_range add.commute)
  have "bit (word_at bs o') k \<longleftrightarrow> bit ?a k" "bit (word_at bs (o' + 4)) k \<longleftrightarrow> bit ?b k" if "k < 32" for k
    unfolding u [symmetric] using that by (simp_all add: bit_unsigned_iff)
  then have "take_bit 5 (word_at bs (o' + 4)) = take_bit 5 (word_at bs o')"
    "take_bit 5 (drop_bit 5 (word_at bs (o' + 4))) = take_bit 5 (word_at bs o')"
    using e by (auto intro!: bit_word_eqI simp: bit_take_bit_iff bit_drop_bit_eq add.commute)
  then show "word_at bs (off - 4) AND 0x9f000000 = 0x90000000" "word_at bs off AND 0xffc00000 = 0x91000000"
    "aa_rd (word_at bs off) = aa_rd (word_at bs (off - 4))" "aa_rn (word_at bs off) = aa_rd (word_at bs (off - 4))"
    using p(1,2) unfolding u by (simp_all add: o aa_rd_def aa_rn_def)
qed

text \<open>The rows of the two relocations of a pair, and the pair after them.\<close>

lemma pair_infos:
  "aarch64_rel_info ''R_AARCH64_ADR_PREL_PG_HI21'' =
     \<lparr>ri_kind = Relative, ri_size = bit_mask_aarch64 12 33 Adr, ri_mask = Some (SymbolPlusAddendAndPosition PAGE_MASK_4KB),
      ri_range = range_new (- (2 ^ 32)) (2 ^ 32), ri_alignment = 1, ri_bias = 0, ri_thunkable = False\<rparr>"
  "aarch64_rel_info ''R_AARCH64_ADD_ABS_LO12_NC'' =
     \<lparr>ri_kind = AbsoluteLowPart, ri_size = bit_mask_aarch64 0 12 Add, ri_mask = None,
      ri_range = no_check, ri_alignment = 1, ri_bias = 0, ri_thunkable = False\<rparr>"
  by code_simp+

lemma page_distance:
  fixes s p :: u64
  assumes "- (2 ^ 20) \<le> sint (s - (p + 4))" "sint (s - (p + 4)) < 2 ^ 20"
  defines "d \<equiv> (s AND NOT (mask 12)) - (p AND NOT (mask 12))"
  shows "- (2 ^ 32) \<le> sint d" "sint d < 2 ^ 32"
proof -
  let ?z = "sint (s - (p + 4)) + 4 - uint (s AND mask 12) + uint (p AND mask 12)"
  have low: "uint (a AND mask 12) < 4096" for a :: u64
    using low_page_bits [of a] by (simp add: word_less_def)
  have sp: "a AND NOT (mask 12) = a - (a AND mask 12)" for a :: u64 using page_split [of a] by (simp add: eq_diff_eq)
  have "d = (s - (p + 4)) + 4 - (s AND mask 12) + (p AND mask 12)" unfolding d_def sp by simp
  also have "\<dots> = word_of_int ?z" by simp
  finally have "d = word_of_int ?z" .
  moreover have "- (2 ^ 32) \<le> u + 4 - v + w \<and> u + 4 - v + w < 2 ^ 32"
    if "- (2 ^ 20) \<le> u" "u < 2 ^ 20" "0 \<le> v" "v < 4096" "0 \<le> w" "w < 4096" for u v w :: int
    using that by simp
  from this [OF assms(1,2) uint_ge_0 low uint_ge_0 low] have z: "- (2 ^ 32) \<le> ?z" "?z < 2 ^ 32" by simp_all
  moreover have "sint (word_of_int z :: u64) = z" if "- (2 ^ 32) \<le> z" "z < 2 ^ 32" for z
    using that by (simp add: sint_sbintrunc' signed_take_bit_int_eq_self)
  ultimately have "sint d = ?z" by metis
  with z show "- (2 ^ 32) \<le> sint d" "sint d < 2 ^ 32" by simp_all
qed

lemma page_diff_low: "k < 12 \<Longrightarrow> \<not> bit ((a AND NOT (mask 12)) - (b AND NOT (mask 12)) :: u64) k"
proof -
  assume k: "k < 12"
  have page: "x AND NOT (mask 12) = push_bit 12 (drop_bit 12 x)" for x :: u64 by (auto simp: bit_eq_iff bit_simps)
  have "(a AND NOT (mask 12)) - (b AND NOT (mask 12)) = push_bit 12 (drop_bit 12 a - drop_bit 12 b)"
    unfolding page by (simp add: push_bit_eq_mult algebra_simps)
  with k show ?thesis by (simp add: bit_push_bit_iff)
qed

lemma page_rebuilt:
  assumes "signed_take_bit 32 d = d" "\<And>k. k < 12 \<Longrightarrow> \<not> bit d k"
  shows "push_bit 12 (signed_take_bit 20 (extract_bit_range d 12 33)) = (d :: u64)"
proof -
  have "push_bit 12 (signed_take_bit 20 (extract_bit_range d 12 33)) = signed_take_bit 32 d"
  proof (rule bit_word_eqI)
    fix k assume k: "k < LENGTH(64)"
    show "bit (push_bit 12 (signed_take_bit 20 (extract_bit_range d 12 33))) k \<longleftrightarrow> bit (signed_take_bit 32 d) k"
    proof (cases "k < 12")
      case True
      then show ?thesis using assms(2) [of k] by (simp add: bit_push_bit_iff bit_signed_take_bit_iff)
    next
      case False
      then have "12 + min 20 (k - 12) = min 32 k" "min 20 (k - 12) < 21" "k - 12 < 64" using k by auto
      with False k show ?thesis by (simp add: bit_push_bit_iff bit_signed_take_bit_iff bit_extract_bit_range)
    qed
  qed
  with assms(1) show ?thesis by simp
qed

lemma pair_computes:
  fixes s p :: u64
  assumes "adrp_add_pair bs off" "aa_rd (word_at bs (off - 4)) \<noteq> 31"
    and "- (2 ^ 20) \<le> sint (s - (p + 4))" "sint (s - (p + 4)) < 2 ^ 20" "sint s \<noteq> 2 ^ 63 - 1"
    and "field_clear (aarch64_segs Adr) (drop (off - 4) bs)" "field_clear (aarch64_segs Add) (drop off bs)"
  shows "\<exists>a b. write_to_buffer uleb (aarch64_rel_info ''R_AARCH64_ADR_PREL_PG_HI21'')
        ((s AND NOT PAGE_MASK_4KB) - (p AND NOT PAGE_MASK_4KB)) (drop (off - 4) bs) = Ok a \<and>
      write_to_buffer uleb (aarch64_rel_info ''R_AARCH64_ADD_ABS_LO12_NC'') s (drop off bs) = Ok b \<and>
      aa_run mem (p, x) [word_at a 0, word_at b 0] = Some (p + 8, x(aa_rd (word_at bs (off - 4)) := s))"
proof -
  let ?d = "(s AND NOT (mask 12)) - (p AND NOT (mask 12))"
  let ?p = "extract_bit_range ?d 12 33" and ?lo = "extract_bit_range s 0 12"
  have len: "4 \<le> length (drop (off - 4) bs)" "4 \<le> length (drop off bs)" using adrp_add_pairD [OF assms(1)] by auto
  have fits: "?p < 2 ^ 21" "?lo < 2 ^ 12" using extract_bit_range_fits [of 12 33 ?d] extract_bit_range_fits [of 0 12 s] by simp_all
  have rng: "- (2 ^ 32) \<le> sint ?d" "sint ?d < 2 ^ 32" using page_distance [OF assms(3,4)] by simp_all
  have sx: "signed_take_bit 32 ?d = ?d" using rng by (intro signed_take_bit_id) simp_all
  have low: "\<not> bit ?d k" if "k < 12" for k
    using page_diff_low [OF that, of s p] .
  have page: "push_bit 12 (signed_take_bit 20 ?p) = ?d"
    by (rule page_rebuilt [OF sx low])
  have lo: "?lo = s AND mask 12" by (rule bit_word_eqI) (auto simp: bit_extract_bit_range bit_and_iff bit_mask_iff)
  obtain a where a: "aarch64_write_to_value Adr ?p (sint ?d < 0) (drop (off - 4) bs) = Some a"
    using adr_encodes [OF len(1) fits(1) assms(6), of "sint ?d < 0"] by auto
  have clear: "field_clear [(0, 0, 10, 12)] (drop off bs)" using assms(7) by simp
  have "aarch64_pre Add ?lo (drop off bs)" using len(2) fits(2) assms(7) by (simp add: aarch64_pre_def seg_width_def)
  then obtain b where b: "aarch64_write_to_value Add ?lo (sint s < 0) (drop off bs) = Some b"
    using aarch64_field.wr_encodes by blast
  note A = adr_written [OF a len(1) fits(1) assms(6)] and B = imm12_written [OF b _ len(2) fits(2) clear]
  note O = pair_opcodes [OF assms(1), unfolded word_at_def]
  have "write_to_buffer uleb (aarch64_rel_info ''R_AARCH64_ADR_PREL_PG_HI21'') ?d (drop (off - 4) bs) = Ok a"
    using a rng by (simp add: pair_infos write_to_buffer_def write_sized_def bit_mask_aarch64_def bit_mask_new_def
        verify_def is_multiple_of_def range_contains_def range_new_def ensure_def del: aarch64_write_to_value.simps)
  moreover have "- (2 ^ 63) \<le> sint s \<and> sint s < 2 ^ 63 - 1"
    using assms(5) sint_range_size [of s] by (simp add: word_size)
  then have "write_to_buffer uleb (aarch64_rel_info ''R_AARCH64_ADD_ABS_LO12_NC'') s (drop off bs) = Ok b"
    using b by (simp add: pair_infos write_to_buffer_def write_sized_def bit_mask_aarch64_def bit_mask_new_def
        verify_def is_multiple_of_def range_contains_def no_check_def range_new_def ensure_def del: aarch64_write_to_value.simps)
  moreover have "aa_run mem (p, x) [getw 4 a, getw 4 b] = Some (p + 8, x(aa_rd (getw 4 (drop (off - 4) bs)) := s))"
  proof -
    have "(p AND NOT (mask 12)) + ?d + ?lo = s" using page_split [of s] lo by simp
    with A B O page assms(2) show ?thesis by (simp add: aa_steps word_at_def add.assoc)
  qed
  ultimately show ?thesis by (auto simp: word_at_def PAGE_MASK)
qed

text \<open>
  C32. The relaxation of an ADRP/ADD pair to NOP/ADR computes what the pair computes. When
  \<open>new_relaxation\<close> chooses it for a relocation without addend, the register is not number 31 and the
  immediates of the two instructions are clear, then both ways to finish the two instructions
  succeed and have the same effect: to relocate the pair (ADRP with the page distance, ADD with the
  symbol's address), and to rewrite it to NOP/ADR and relocate the ADR with the distance. Run from the
  address of the first instruction, each leaves the symbol's address in the register and changes
  nothing else. Register 31 is zero for ADRP and the stack pointer for ADD; the code does not exclude
  it. The one address left out is the greatest signed number, which is outside the range "no check".
\<close>

theorem aarch64_adrp_add_relaxed:
  assumes "aarch64_new_relaxation q = Some (Some r)" "rx_kind r = AdrpAddToNopAdr" "q_rel_addend q = 0"
    and "aa_rd (word_at (q_section_bytes q) (q_offset q - 4)) \<noteq> 31"
    and "field_clear (aarch64_segs Adr) (drop (q_offset q - 4) (q_section_bytes q))"
    and "field_clear (aarch64_segs Add) (drop (q_offset q) (q_section_bytes q))"
    and "q_sym_addr q \<noteq> 0x7fffffffffffffff"
  defines "place \<equiv> q_section_address q + of_nat (q_offset q)"
    and "rd \<equiv> aa_rd (word_at (q_section_bytes q) (q_offset q - 4))"
  shows "(\<exists>bs off tail. aarch64_apply (rx_kind r) (q_section_bytes q, q_offset q, 0) = Some (bs, off, 0) \<and> off = q_offset q \<and>
      write_to_buffer uleb (rx_rel_info r) (q_sym_addr q - place) (drop off bs) = Ok tail \<and>
      aa_run mem (place - 4, x) [word_at bs (off - 4), word_at tail 0] = Some (place + 4, x(rd := q_sym_addr q))) \<and>
    (\<exists>adrp add. write_to_buffer uleb (aarch64_rel_info ''R_AARCH64_ADR_PREL_PG_HI21'')
        ((q_sym_addr q AND NOT PAGE_MASK_4KB) - (place - 4 AND NOT PAGE_MASK_4KB))
        (drop (q_offset q - 4) (q_section_bytes q)) = Ok adrp \<and>
      write_to_buffer uleb (aarch64_rel_info (q_relocation q)) (q_sym_addr q) (drop (q_offset q) (q_section_bytes q)) = Ok add \<and>
      aa_run mem (place - 4, x) [word_at adrp 0, word_at add 0] = Some (place + 4, x(rd := q_sym_addr q)))"
proof -
  let ?bs = "q_section_bytes q" and ?off = "q_offset q" and ?v = "q_sym_addr q - place"
  have add: "aarch64_relax_add q = Some r" and rel: "q_relocation q = ''R_AARCH64_ADD_ABS_LO12_NC''"
    using assms(1,2) by (auto simp: aarch64_new_relaxation_def aarch64_relax_by_type_def aarch64_relax_tlsdesc_def
        aarch64_relaxed_def Let_def split: bind_splits if_splits)
  then have pair: "adrp_add_pair ?bs ?off" and info: "rx_rel_info r = aarch64_rel_info ''R_AARCH64_ADR_PREL_LO21''"
    and rng: "range_contains (bits_range 21 Signed) (sint ?v)"
    using assms(3) by (auto simp: aarch64_relax_add_def aarch64_relaxed_def Let_def place_def split: option.splits if_splits)
  have b21: "bits_range 21 Signed = range_new (- (2 ^ 20)) (2 ^ 20)" by code_simp
  then have lim: "- (2 ^ 20) \<le> sint ?v" "sint ?v < 2 ^ 20" using rng by (simp_all add: range_contains_def range_new_def)
  let ?bs' = "take (?off - 4) ?bs @ [0x1f, 0x20, 3, 0xd5] @ [of_nat rd, 0, 0, 0x10] @ drop (?off + 4) ?bs"
  have l: "length (take (?off - 4) ?bs) = ?off - 4" "4 \<le> ?off" using adrp_add_pairD [OF pair] by auto
  have d: "drop ?off ?bs' = [of_nat rd, 0, 0, 0x10] @ drop (?off + 4) ?bs" using l by simp
  have rd: "rd < 31" using pair_register(2) [OF pair] assms(4) unfolding rd_def by simp
  obtain tail where t: "write_to_buffer uleb (rx_rel_info r) ?v (drop ?off ?bs') = Ok tail"
    "aa_step mem (place, x) (word_at tail 0) = Some (place + 4, x(rd := place + ?v))"
    using adr_relocated [OF _ rd refl lim, of uleb "drop (?off + 4) ?bs" mem place x] unfolding d info by auto
  have "word_at ?bs' (?off - 4) = 0xd503201f"
    using word_at_mid [of "[0x1f, 0x20, 3, 0xd5]" "take (?off - 4) ?bs"] l(1) nop_word(1) by simp
  then have run: "aa_run mem (place - 4, x) [word_at ?bs' (?off - 4), word_at tail 0] = Some (place + 4, x(rd := q_sym_addr q))"
    using t(2) by (simp add: nop_word(2))
  have max: "sint (q_sym_addr q) \<noteq> 2 ^ 63 - 1"
  proof
    assume "sint (q_sym_addr q) = 2 ^ 63 - 1"
    then have "sint (q_sym_addr q) = sint (0x7fffffffffffffff :: u64)" by simp
    with assms(7) show False using signed_word_eqI by blast
  qed
  have orig: "\<exists>adrp add. write_to_buffer uleb (aarch64_rel_info ''R_AARCH64_ADR_PREL_PG_HI21'')
        ((q_sym_addr q AND NOT PAGE_MASK_4KB) - (place - 4 AND NOT PAGE_MASK_4KB)) (drop (?off - 4) ?bs) = Ok adrp \<and>
      write_to_buffer uleb (aarch64_rel_info (q_relocation q)) (q_sym_addr q) (drop ?off ?bs) = Ok add \<and>
      aa_run mem (place - 4, x) [word_at adrp 0, word_at add 0] = Some (place + 4, x(rd := q_sym_addr q))"
    using pair_computes [OF pair assms(4) _ _ _ assms(5,6), of "q_sym_addr q" "place - 4" uleb mem x] lim max
    unfolding rel rd_def by (simp add: add.commute [of 4] del: aa_run.simps)
  with pair_applied [OF pair, of 0, folded rd_def] assms(2) t(1) run orig show ?thesis by fastforce
qed

text \<open>The recognised pairs include one whose ADD writes the stack pointer.\<close>

lemma adrp_add_pair_sp: "adrp_add_pair [0x1f, 0, 0, 0x90, 0xff, 3, 0, 0x91] 4"
  by code_simp

definition example_pair_query :: relax_query where
  "example_pair_query =
     \<lparr>q_relocation = ''R_AARCH64_ADD_ABS_LO12_NC'', q_section_bytes = [3, 0, 0, 0x90, 0x63, 0, 0, 0x91], q_offset = 4,
      q_flags = NON_INTERPOSABLE, q_output_kind = SharedObject, q_section_flags = EXECINSTR, q_relax_deltas = None,
      q_sym_addr = 0x5008, q_section_address = 0x1000, q_rel_addend = 0,
      q_previous = Some \<lparr>prev_kind = ''R_AARCH64_ADR_PREL_PG_HI21'', prev_offset = 0, prev_symbol = None, prev_addend = 0\<rparr>\<rparr>"

theorem aarch64_adrp_add_relaxed_witness:
  "(\<exists>bs off tail. aarch64_apply AdrpAddToNopAdr ([3, 0, 0, 0x90, 0x63, 0, 0, 0x91], 4, 0) = Some (bs, off, 0) \<and>
      write_to_buffer (\<lambda>_. []) (aarch64_rel_info ''R_AARCH64_ADR_PREL_LO21'') 0x4004 (drop off bs) = Ok tail \<and>
      aa_run (\<lambda>_. 0) (0x1000, \<lambda>_. 0) [word_at bs (off - 4), word_at tail 0] = Some (0x1008, (\<lambda>_. 0)(3 := 0x5008))) \<and>
   (\<exists>adrp add. write_to_buffer (\<lambda>_. []) (aarch64_rel_info ''R_AARCH64_ADR_PREL_PG_HI21'') 0x4000
        [3, 0, 0, 0x90, 0x63, 0, 0, 0x91] = Ok adrp \<and>
      write_to_buffer (\<lambda>_. []) (aarch64_rel_info ''R_AARCH64_ADD_ABS_LO12_NC'') 0x5008 [0x63, 0, 0, 0x91] = Ok add \<and>
      aa_run (\<lambda>_. 0) (0x1000, \<lambda>_. 0) [word_at adrp 0, word_at add 0] = Some (0x1008, (\<lambda>_. 0)(3 := 0x5008)))"
proof -
  let ?r = "\<lparr>rx_kind = AdrpAddToNopAdr, rx_rel_info = aarch64_rel_info ''R_AARCH64_ADR_PREL_LO21'', rx_mandatory = False\<rparr>"
  have c: "aarch64_new_relaxation example_pair_query = Some (Some ?r)" by code_simp
  have rd: "aa_rd (word_at (q_section_bytes example_pair_query) (q_offset example_pair_query - 4)) = 3" by code_simp
  have clear: "field_clear (aarch64_segs Adr) (drop (q_offset example_pair_query - 4) (q_section_bytes example_pair_query))"
    "field_clear (aarch64_segs Add) (drop (q_offset example_pair_query) (q_section_bytes example_pair_query))" by code_simp+
  have page: "(0x5008 AND NOT PAGE_MASK_4KB) - (0x1000 AND NOT PAGE_MASK_4KB) = 0x4000" by code_simp
  from aarch64_adrp_add_relaxed [OF c _ _ _ clear, of "\<lambda>_. []" "\<lambda>_. 0" "\<lambda>_. 0"] rd page show ?thesis
    by (auto simp: example_pair_query_def)
qed

end
