(* ===== verification/Reloc_Apply.thy ===== *)
theory Reloc_Apply
  imports Table_Writer Relax_Choice Reloc_Write
begin

text \<open>
  Applying the relocations of a section (\<open>apply_relocations\<close>, \<open>apply_relocation\<close> and their helpers in
  \<open>libjdxld/src/elf_writer.rs\<close>; the addresses of a resolution and the page masks in
  \<open>libjdxld/src/elf.rs\<close>). What an architecture provides (\<open>trait Arch\<close>) is a record, and so is what the
  writer looks up in the finished layout; both are arguments. Tracing, statistics and debug assertions
  are left out.
\<close>

section \<open>What the writer is given\<close>

record relocation =
  rel_offset :: u64
  rel_type :: rtype
  rel_symbol :: "nat option"
  rel_addend :: int

datatype apply_error =
    UnsupportedRelocationType rtype
  | AbsoluteInPic
  | DisallowedInSharedObject
  | DisallowedForInterposable
  | UnsupportedAbsolute
  | MissingResolution nat
  | RelocError reloc_error
  | TableError table_error
  | NoGotAddress
  | NoPltAddress
  | UnexpectedLow12Addend
  | MissingHighRelocation
  | UnsupportedHighRelocation
  | MissingPreviousRelocation
  | PairOffsetsDiffer
  | UnexpectedPairType
  | ThunkNotAllocated
  | BranchOutOfRange int
  | UnsupportedDebugKind RelocationKind
  | NoDebugResolution
  | NoMergedString

text \<open>
  The methods of \<open>trait Arch\<close> that are used here. \<open>ar_thunk_config\<close> is the part that holds the
  functions which get thunk blocks of their own, when the architecture has thunks at all.
\<close>

record 'k arch_ops =
  ar_relocation_from_raw :: "rtype \<Rightarrow> RelocationKindInfo option"
  ar_disallowed_for_interposable :: "rtype \<Rightarrow> bool"
  ar_disallowed_in_shared_object :: "rtype \<Rightarrow> bool"
  ar_new_relaxation :: "relax_query \<Rightarrow> 'k Relaxation option option"
  ar_apply :: "'k \<Rightarrow> relax_state \<Rightarrow> relax_state option"
  ar_next_modifier :: "'k \<Rightarrow> RelocationModifier"
  ar_fill_nop_padding :: "bytes \<Rightarrow> bytes option"
  ar_high_part_relocations :: "rtype list"
  ar_local_entry_offset :: "u8 \<Rightarrow> u64"
  ar_thunk_config :: "nat option"
  ar_tables :: arch_tables

text \<open>
  The finished layout as seen from one object. By symbol of the object: the merged resolution, the
  flags, the canonical definition, the section that defines it (its address if it was loaded, and the
  bytes deleted from it) with the value in it, and the merged string that symbol and addend denote.
  For debug information: what became of the section that defines it.
  By canonical definition: whether it is undefined, and its \<open>st_other\<close>. The merged strings appear twice
  because the low half of a RISC-V pair passes a different slice of the part ids to the lookup.
\<close>

datatype debug_slot = MergeStringsSlot | DiscardedSlot | OtherSlot

record link_env =
  le_output_kind :: OutputKind
  le_relax :: bool
  le_got_base :: u64
  le_tls_start :: u64
  le_tls_end :: u64
  le_tlsld_got_entry :: "u64 option"
  le_merged_resolution :: "nat \<Rightarrow> Resolution option"
  le_flags :: "nat \<Rightarrow> ValueFlags"
  le_definition :: "nat \<Rightarrow> nat"
  le_is_undefined :: "nat \<Rightarrow> bool"
  le_st_other :: "nat \<Rightarrow> u8"
  le_symbol_section :: "nat \<Rightarrow> (u64 option \<times> SectionRelaxDeltas option) option"
  le_symbol_value :: "nat \<Rightarrow> u64"
  le_merged_string :: "nat \<Rightarrow> int \<Rightarrow> (apply_error, u64 option) outcome"
  le_merged_string_sliced :: "nat \<Rightarrow> int \<Rightarrow> (apply_error, u64 option) outcome"
  le_section_slot :: "nat \<Rightarrow> debug_slot option"
  le_thunk_block_id :: nat
  le_thunk_block_addresses :: "nat \<Rightarrow> nat \<Rightarrow> u64 option"
  le_uleb :: "u64 \<Rightarrow> bytes"

record SectionInfo =
  si_address :: u64
  si_writable :: bool
  si_flags :: SectionFlags
  si_part_id :: nat

record RelocationCache =
  rc_previous :: "relocation option"
  rc_high_part_symbols :: "u64 \<Rightarrow> relocation option"

definition map_error :: "('e \<Rightarrow> 'f) \<Rightarrow> ('e, 'a) outcome \<Rightarrow> ('f, 'a) outcome" where
  "map_error f m = (case m of Ok a \<Rightarrow> Ok a | Error e \<Rightarrow> Error (f e) | Panicked \<Rightarrow> Panicked)"

definition with_context :: "'a option \<Rightarrow> 'e \<Rightarrow> ('e, 'a) outcome" where
  "with_context m e = (case m of Some a \<Rightarrow> Ok a | None \<Rightarrow> Error e)"

section \<open>Page masks\<close>

record PageMaskValue =
  pm_symbol_plus_addend :: u64
  pm_got_entry :: u64
  pm_place :: u64
  pm_got :: u64

definition default_mask :: PageMaskValue where
  "default_mask = \<lparr>pm_symbol_plus_addend = - 1, pm_got_entry = - 1, pm_place = - 1, pm_got = - 1\<rparr>"

definition get_page_mask :: "PageMask option \<Rightarrow> PageMaskValue" where
  "get_page_mask m =
     (case m of
        None \<Rightarrow> default_mask
      | Some (SymbolPlusAddendAndPosition k) \<Rightarrow> default_mask\<lparr>pm_symbol_plus_addend := NOT k, pm_place := NOT k\<rparr>
      | Some (GotEntryAndPosition k) \<Rightarrow> default_mask\<lparr>pm_got_entry := NOT k, pm_place := NOT k\<rparr>
      | Some (GotBase k) \<Rightarrow> default_mask\<lparr>pm_got := NOT k\<rparr>
      | Some (Position k) \<Rightarrow> default_mask\<lparr>pm_place := NOT k\<rparr>)"

section \<open>Addresses of a resolution\<close>

definition res_got_address :: "Resolution \<Rightarrow> (apply_error, u64) outcome" where
  "res_got_address r = with_context (got_address r) NoGotAddress"

definition got_address_for_relocation :: "Resolution \<Rightarrow> (apply_error, u64) outcome" where
  "got_address_for_relocation r =
     bind_outcome (res_got_address r) (\<lambda>a.
       Ok (if needs_ifunc_got_for_address (res_flags r) then a + GOT_ENTRY_SIZE else a))"

definition tlsgd_got_address :: "Resolution \<Rightarrow> (apply_error, u64) outcome" where
  "tlsgd_got_address r =
     bind_outcome (res_got_address r) (\<lambda>a.
       Ok (if needs_got_tls_offset (res_flags r) then a + GOT_ENTRY_SIZE else a))"

definition tls_descriptor_got_address :: "Resolution \<Rightarrow> (apply_error, u64) outcome" where
  "tls_descriptor_got_address r =
     bind_outcome (res_got_address r) (\<lambda>a.
       let a1 = (if needs_got_tls_offset (res_flags r) then a + GOT_ENTRY_SIZE else a)
       in Ok (if needs_got_tls_module (res_flags r) then a1 + 2 * GOT_ENTRY_SIZE else a1))"

definition res_plt_address :: "Resolution \<Rightarrow> (apply_error, u64) outcome" where
  "res_plt_address r = with_context (plt_address r) NoPltAddress"

definition value_with_addend ::
    "(nat \<Rightarrow> int \<Rightarrow> (apply_error, u64 option) outcome) \<Rightarrow> Resolution \<Rightarrow> int \<Rightarrow> nat \<Rightarrow> (apply_error, u64) outcome" where
  "value_with_addend merged r addend symbol_index =
     (if is_ifunc (res_flags r) then bind_outcome (res_plt_address r) (\<lambda>a. Ok (a + word_of_int addend))
      else if raw_value r = 0 then
        bind_outcome (merged symbol_index addend) (\<lambda>m.
          case m of Some a \<Rightarrow> Ok a | None \<Rightarrow> Ok (raw_value r + word_of_int addend))
      else Ok (raw_value r + word_of_int addend))"

definition section_resolution :: "link_env \<Rightarrow> nat \<Rightarrow> Resolution option" where
  "section_resolution env symbol_index =
     do { (address, relax_deltas) \<leftarrow> le_symbol_section env symbol_index;
          section_address \<leftarrow> address;
          Some \<lparr>raw_value = section_address + opt_input_to_output relax_deltas (le_symbol_value env symbol_index),
                dynamic_symbol_index = None, res_flags = 0, got_address = None, plt_address = None\<rparr> }"

definition symbol_resolution :: "link_env \<Rightarrow> nat \<Rightarrow> Resolution option" where
  "symbol_resolution env symbol_index =
     (case le_merged_resolution env symbol_index of
        Some r \<Rightarrow> Some r
      | None \<Rightarrow> section_resolution env symbol_index)"

definition get_resolution :: "link_env \<Rightarrow> relocation \<Rightarrow> (apply_error, Resolution \<times> nat) outcome" where
  "get_resolution env rel =
     bind_outcome (with_context (rel_symbol rel) UnsupportedAbsolute) (\<lambda>symbol_index.
     bind_outcome (with_context (symbol_resolution env symbol_index) (MissingResolution symbol_index)) (\<lambda>r.
       Ok (r, symbol_index)))"

section \<open>The value of a relocation\<close>

definition get_pair_subtraction_relocation_value ::
    "link_env \<Rightarrow> relocation \<Rightarrow> Resolution \<Rightarrow> nat \<Rightarrow> int \<Rightarrow> relocation \<Rightarrow> rtype \<Rightarrow> (apply_error, u64) outcome" where
  "get_pair_subtraction_relocation_value env rel resolution symbol_index addend set_rel expected =
     bind_outcome (ensure (rel_offset set_rel = rel_offset rel) PairOffsetsDiffer) (\<lambda>_.
     bind_outcome (ensure (rel_type set_rel = expected) UnexpectedPairType) (\<lambda>_.
     bind_outcome (get_resolution env set_rel) (\<lambda>(set_resolution, set_symbol).
     bind_outcome (value_with_addend (le_merged_string env) set_resolution (rel_addend set_rel) set_symbol) (\<lambda>set_value.
     bind_outcome (value_with_addend (le_merged_string env) resolution addend symbol_index) (\<lambda>sub_value.
       Ok (set_value - sub_value))))))"

text \<open>
  The high half that a \<open>PCREL_LO12\<close> relocation refers to: the one recorded at that output offset, else
  the first of the relocations still to come.
\<close>

definition find_high_part ::
    "'k arch_ops \<Rightarrow> RelocationCache \<Rightarrow> relocation list \<Rightarrow> SectionRelaxDeltas option \<Rightarrow> u64 \<Rightarrow> relocation option" where
  "find_high_part A cache rest relax_deltas hi_offset =
     (case rc_high_part_symbols cache hi_offset of
        Some r \<Rightarrow> Some r
      | None \<Rightarrow>
          find (\<lambda>r. rel_type r \<in> set (ar_high_part_relocations A) \<and>
                    opt_input_to_output relax_deltas (rel_offset r) = hi_offset) rest)"

definition riscv_low12_value ::
    "'k arch_ops \<Rightarrow> link_env \<Rightarrow> RelocationCache \<Rightarrow> relocation list \<Rightarrow> SectionRelaxDeltas option \<Rightarrow>
     u64 \<Rightarrow> u64 \<Rightarrow> Resolution \<Rightarrow> nat \<Rightarrow> int \<Rightarrow> (apply_error, u64) outcome" where
  "riscv_low12_value A env cache rest relax_deltas section_address bias resolution symbol_index addend =
     bind_outcome (ensure (addend = 0) UnexpectedLow12Addend) (\<lambda>_.
     bind_outcome (value_with_addend (le_merged_string env) resolution addend symbol_index) (\<lambda>label_address.
     let hi_offset = label_address - section_address
     in bind_outcome (with_context (find_high_part A cache rest relax_deltas hi_offset) MissingHighRelocation) (\<lambda>hi_rel.
        bind_outcome (with_context (ar_relocation_from_raw A (rel_type hi_rel))
                        (UnsupportedRelocationType (rel_type hi_rel))) (\<lambda>hi_info.
        let addend = rel_addend hi_rel
        in bind_outcome (get_resolution env hi_rel) (\<lambda>(resolution, symbol_index).
           let place = section_address + hi_offset
           in case ri_kind hi_info of
                Relative \<Rightarrow>
                  bind_outcome (value_with_addend (le_merged_string_sliced env) resolution addend symbol_index)
                    (\<lambda>v. Ok (v + bias - place))
              | GotRelative \<Rightarrow>
                  bind_outcome (got_address_for_relocation resolution) (\<lambda>v. Ok (v + word_of_int addend + bias - place))
              | TlsGd \<Rightarrow>
                  bind_outcome (tlsgd_got_address resolution) (\<lambda>v. Ok (v + word_of_int addend + bias - place))
              | TlsLd \<Rightarrow>
                  bind_outcome (of_panic (le_tlsld_got_entry env)) (\<lambda>v. Ok (v + word_of_int addend + bias - place))
              | GotTpOff \<Rightarrow>
                  bind_outcome (res_got_address resolution) (\<lambda>v. Ok (v + word_of_int addend + bias - place))
              | _ \<Rightarrow> Error UnsupportedHighRelocation)))))"

text \<open>An \<open>Absolute\<close> relocation, which may need a dynamic relocation: the value stored, and the tables.\<close>

definition ALLOC :: SectionFlags where "ALLOC = 0x2"

definition write_absolute_relocation ::
    "'k arch_ops \<Rightarrow> link_env \<Rightarrow> SectionInfo \<Rightarrow> Resolution \<Rightarrow> u64 \<Rightarrow> int \<Rightarrow> nat \<Rightarrow> TableWriter \<Rightarrow>
     (apply_error, TableWriter \<times> u64) outcome" where
  "write_absolute_relocation A env section_info resolution place addend symbol_index tw =
     (let plain = value_with_addend (le_merged_string env) resolution addend symbol_index; flags = res_flags resolution
      in if \<not> sflags_contain (si_flags section_info) ALLOC then bind_outcome plain (\<lambda>v. Ok (tw, v))
         else if is_dynamic flags \<and> is_absolute flags \<and> \<not> si_writable section_info then Ok (tw, 0)
         else if is_interposable flags \<and> si_writable section_info then
           map_error TableError
             (bind_outcome (require_dynamic_symbol_index resolution) (\<lambda>i.
              bind_outcome (write_dynamic_symbol_relocation (ar_tables A) place addend i DynAbsolute tw) (\<lambda>tw. Ok (tw, 0))))
         else if is_ifunc flags \<and> si_writable section_info \<and> is_position_independent (tw_output_kind tw) then
           map_error TableError
             (bind_outcome
                (write_ifunc_relocation_for_data (ar_tables A) place (wrap_i64 (sint (raw_value resolution) + addend)) tw)
                (\<lambda>tw. Ok (tw, 0)))
         else if is_position_independent (tw_output_kind tw) \<and> \<not> is_absolute flags then
           bind_outcome plain (\<lambda>address.
             map_error TableError (write_address_relocation (ar_tables A) place address tw))
         else bind_outcome plain (\<lambda>v. Ok (tw, v)))"

text \<open>
  What the value of a relocation is computed from, besides resolution and relocation: the place, and
  the addend left by the relaxation.
\<close>

definition reloc_value ::
    "'k arch_ops \<Rightarrow> link_env \<Rightarrow> SectionInfo \<Rightarrow> RelocationCache \<Rightarrow> relocation list \<Rightarrow> SectionRelaxDeltas option \<Rightarrow>
     relocation \<Rightarrow> Resolution \<Rightarrow> nat \<Rightarrow> RelocationKindInfo \<Rightarrow> u64 \<Rightarrow> int \<Rightarrow> TableWriter \<Rightarrow>
     (apply_error, TableWriter \<times> u64) outcome" where
  "reloc_value A env section_info cache rest relax_deltas rel resolution symbol_index rel_info place addend tw =
     (let m = get_page_mask (ri_mask rel_info);
          bias = ri_bias rel_info;
          ad = word_of_int addend;
          branch_local_entry =
            (if is_ppc64_branch (ri_size rel_info)
             then ar_local_entry_offset A (le_st_other env (le_definition env symbol_index)) else 0);
          symbol_value = value_with_addend (le_merged_string env) resolution addend symbol_index;
          pure = (\<lambda>v. bind_outcome v (\<lambda>x. Ok (tw, x)));
          from_got = (\<lambda>v. pure (bind_outcome v (\<lambda>a. Ok ((a + ad + bias AND pm_got_entry m) - (place AND pm_place m)))));
          in_got = (\<lambda>v. pure (bind_outcome v (\<lambda>a. Ok (a + ad + bias AND pm_got_entry m))));
          from_got_base = (\<lambda>v. pure (bind_outcome v (\<lambda>a. Ok ((a + ad + bias AND pm_got_entry m) - (le_got_base env AND pm_got m)))));
          loong = (\<lambda>v. pure (bind_outcome v (\<lambda>a. Ok (highest_relocation_with_bias (a + ad) place))));
          tlsld = of_panic (le_tlsld_got_entry env)
      in case ri_kind rel_info of
           Absolute \<Rightarrow> write_absolute_relocation A env section_info resolution place addend symbol_index tw
         | AbsoluteSet \<Rightarrow> pure symbol_value
         | AbsoluteSetWord6 \<Rightarrow> pure symbol_value
         | AbsoluteAddition \<Rightarrow> pure symbol_value
         | AbsoluteAdditionWord6 \<Rightarrow> pure symbol_value
         | AbsoluteSubtraction \<Rightarrow> pure symbol_value
         | AbsoluteSubtractionWord6 \<Rightarrow> pure symbol_value
         | AbsoluteLowPart \<Rightarrow> pure (bind_outcome symbol_value (\<lambda>v. Ok (v AND pm_symbol_plus_addend m)))
         | Relative \<Rightarrow>
             pure (bind_outcome symbol_value (\<lambda>v.
               Ok ((v + branch_local_entry + bias AND pm_symbol_plus_addend m) - (place AND pm_place m))))
         | RelativeLoongArchHigh \<Rightarrow>
             pure (bind_outcome symbol_value (\<lambda>v. Ok (highest_relocation_with_bias v place)))
         | RelativeRiscVLow12 \<Rightarrow>
             pure (riscv_low12_value A env cache rest relax_deltas (si_address section_info) bias resolution symbol_index addend)
         | PairSubtractionULEB128 expected \<Rightarrow>
             pure (bind_outcome (with_context (rc_previous cache) MissingPreviousRelocation) (\<lambda>set_rel.
               get_pair_subtraction_relocation_value env rel resolution symbol_index addend set_rel expected))
         | GotRelative \<Rightarrow> from_got (got_address_for_relocation resolution)
         | GotRelativeLoongArch64 \<Rightarrow> loong (got_address_for_relocation resolution)
         | GotRelGotBase \<Rightarrow> from_got_base (got_address_for_relocation resolution)
         | Got \<Rightarrow>
             pure (bind_outcome
               (if needs_got_tls_module (res_flags resolution) then tlsgd_got_address resolution
                else got_address_for_relocation resolution) (\<lambda>a. Ok (a + bias AND pm_got_entry m)))
         | SymRelGotBase \<Rightarrow>
             pure (bind_outcome symbol_value (\<lambda>v.
               Ok ((v + bias AND pm_symbol_plus_addend m) - (le_got_base env AND pm_got m))))
         | PltRelGotBase \<Rightarrow>
             pure (bind_outcome (res_plt_address resolution) (\<lambda>a. Ok (a + bias - (le_got_base env AND pm_got m))))
         | PltRelative \<Rightarrow>
             pure (bind_outcome (res_plt_address resolution) (\<lambda>a. Ok (a + ad + bias - (place AND pm_place m))))
         | TlsGd \<Rightarrow> from_got (tlsgd_got_address resolution)
         | TlsGdGot \<Rightarrow> in_got (tlsgd_got_address resolution)
         | TlsGdGotBase \<Rightarrow> from_got_base (tlsgd_got_address resolution)
         | TlsLd \<Rightarrow> from_got tlsld
         | TlsLdGot \<Rightarrow> in_got tlsld
         | TlsLdGotBase \<Rightarrow> from_got_base tlsld
         | DtpOff \<Rightarrow>
             pure (Ok (raw_value resolution + ad + bias -
               (if le_output_kind env = SharedObject then le_tls_start env else le_tls_end env)))
         | GotTpOff \<Rightarrow> from_got (res_got_address resolution)
         | GotTpOffLoongArch64 \<Rightarrow> loong (res_got_address resolution)
         | GotTpOffGot \<Rightarrow> in_got (res_got_address resolution)
         | GotTpOffGotBase \<Rightarrow> from_got_base (res_got_address resolution)
         | TpOff \<Rightarrow>
             pure (if le_is_undefined env (le_definition env symbol_index) then Ok (ad + bias)
                   else Ok (raw_value resolution + ad + bias - tp_offset_start (ar_tables A)))
         | TlsDesc \<Rightarrow> from_got (tls_descriptor_got_address resolution)
         | TlsDescLoongArch64 \<Rightarrow> loong (tls_descriptor_got_address resolution)
         | TlsDescGot \<Rightarrow> in_got (tls_descriptor_got_address resolution)
         | TlsDescGotBase \<Rightarrow> from_got_base (tls_descriptor_got_address resolution)
         | NoRelocation \<Rightarrow> Ok (tw, 0)
         | TlsDescCall \<Rightarrow> Ok (tw, 0)
         | AlignmentReloc \<Rightarrow> Panicked)"

section \<open>Thunks\<close>

definition maybe_get_thunk_for_relocation ::
    "'k arch_ops \<Rightarrow> link_env \<Rightarrow> SectionInfo \<Rightarrow> RelocationKindInfo \<Rightarrow> nat \<Rightarrow> u64 \<Rightarrow> u64 \<Rightarrow> (apply_error, u64 option) outcome" where
  "maybe_get_thunk_for_relocation A env section_info rel_info symbol_index place value =
     (case ar_thunk_config A of
        None \<Rightarrow> Ok None
      | Some primary \<Rightarrow>
          if \<not> ri_thunkable rel_info then Ok None
          else if range_contains (ri_range rel_info) (sint value) then Ok None
          else
            let thunk_id = (if si_part_id section_info = primary then le_thunk_block_id env else 0)
            in case le_thunk_block_addresses env thunk_id (le_definition env symbol_index) of
                 Some thunk_address \<Rightarrow>
                   if thunk_address = 0 then Error ThunkNotAllocated
                   else
                     let m = get_page_mask (ri_mask rel_info)
                     in Ok (Some ((thunk_address + ri_bias rel_info AND pm_symbol_plus_addend m) - (place AND pm_place m)))
               | None \<Rightarrow> Error (BranchOutOfRange (range_overrun (ri_range rel_info) (sint value))))"

section \<open>Applying one relocation\<close>

definition adjusts_content :: "RelocationKind \<Rightarrow> bool" where
  "adjusts_content k =
     (k \<in> {AbsoluteAddition, AbsoluteAdditionWord6, AbsoluteSubtraction, AbsoluteSetWord6, AbsoluteSubtractionWord6})"

text \<open>\<open>write_to_buffer(value, &mut out[offset..])\<close>\<close>

definition write_at :: "link_env \<Rightarrow> RelocationKindInfo \<Rightarrow> u64 \<Rightarrow> nat \<Rightarrow> bytes \<Rightarrow> (apply_error, bytes) outcome" where
  "write_at env rel_info value offset out =
     (if length out < offset then Panicked
      else bind_outcome (map_error RelocError (write_to_buffer (le_uleb env) rel_info value (drop offset out)))
             (\<lambda>tail. Ok (take offset out @ tail)))"

text \<open>The relaxation chosen for a relocation, unless relaxing is off and it is optional.\<close>

definition choose_relaxation ::
    "'k arch_ops \<Rightarrow> link_env \<Rightarrow> SectionInfo \<Rightarrow> RelocationCache \<Rightarrow> SectionRelaxDeltas option \<Rightarrow> relocation \<Rightarrow>
     Resolution \<Rightarrow> nat \<Rightarrow> nat \<Rightarrow> bytes \<Rightarrow> (apply_error, 'k Relaxation option) outcome" where
  "choose_relaxation A env section_info cache relax_deltas rel resolution symbol_index offset out =
     bind_outcome
       (of_panic (ar_new_relaxation A
          \<lparr>q_relocation = rel_type rel, q_section_bytes = out, q_offset = offset, q_flags = le_flags env symbol_index,
           q_output_kind = le_output_kind env, q_section_flags = si_flags section_info, q_relax_deltas = relax_deltas,
           q_sym_addr = raw_value resolution, q_section_address = si_address section_info, q_rel_addend = rel_addend rel,
           q_previous =
             (case rc_previous cache of
                Some p \<Rightarrow>
                  if rel_symbol p = rel_symbol rel
                  then Some \<lparr>prev_kind = rel_type p, prev_offset = rel_offset p, prev_symbol = rel_symbol p,
                             prev_addend = rel_addend p\<rparr>
                  else None
              | None \<Rightarrow> None)\<rparr>))
       (\<lambda>r. Ok (case r of Some x \<Rightarrow> if le_relax env \<or> rx_mandatory x then Some x else None | None \<Rightarrow> None))"

text \<open>The part after the resolution is known: relax, compute the value, redirect to a thunk, and store.\<close>

definition apply_resolved ::
    "'k arch_ops \<Rightarrow> link_env \<Rightarrow> SectionInfo \<Rightarrow> RelocationCache \<Rightarrow> relocation list \<Rightarrow> SectionRelaxDeltas option \<Rightarrow>
     relocation \<Rightarrow> RelocationKindInfo \<Rightarrow> Resolution \<Rightarrow> nat \<Rightarrow> nat \<Rightarrow> bytes \<times> TableWriter \<Rightarrow>
     (apply_error, (bytes \<times> TableWriter) \<times> RelocationModifier) outcome" where
  "apply_resolved A env section_info cache rest relax_deltas rel raw_info resolution symbol_index offset st =
     (case st of (out, tw) \<Rightarrow>
     bind_outcome (choose_relaxation A env section_info cache relax_deltas rel resolution symbol_index offset out)
       (\<lambda>relaxation.
     bind_outcome
       (case relaxation of
          Some r \<Rightarrow>
            bind_outcome (of_panic (ar_apply A (rx_kind r) (out, offset, rel_addend rel))) (\<lambda>(out, offset, addend).
              Ok (out, offset, addend, rx_rel_info r, ar_next_modifier A (rx_kind r)))
        | None \<Rightarrow> Ok (out, offset, rel_addend rel, raw_info, Normal))
       (\<lambda>(out, offset, addend, rel_info, next_modifier).
     let place = si_address section_info + word_of_nat offset
     in bind_outcome
          (reloc_value A env section_info cache rest relax_deltas rel resolution symbol_index rel_info place addend tw)
          (\<lambda>(tw, value).
     bind_outcome
       (if adjusts_content (ri_kind rel_info)
        then map_error RelocError (adjust_value_based_on_content rel_info value out offset) else Ok value)
       (\<lambda>value.
     bind_outcome (maybe_get_thunk_for_relocation A env section_info rel_info symbol_index place value) (\<lambda>thunked.
     bind_outcome (write_at env rel_info (case thunked of Some v \<Rightarrow> v | None \<Rightarrow> value) offset out) (\<lambda>out.
       Ok ((out, tw), next_modifier))))))))"

definition apply_relocation ::
    "'k arch_ops \<Rightarrow> link_env \<Rightarrow> SectionInfo \<Rightarrow> RelocationCache \<Rightarrow> relocation list \<Rightarrow> SectionRelaxDeltas option \<Rightarrow>
     relocation \<Rightarrow> u64 \<Rightarrow> bytes \<times> TableWriter \<Rightarrow> (apply_error, (bytes \<times> TableWriter) \<times> RelocationModifier) outcome" where
  "apply_relocation A env section_info cache rest relax_deltas rel offset_in_section st =
     (case st of (out, tw) \<Rightarrow>
     let r_type = rel_type rel; offset = unat offset_in_section; kind_of = le_output_kind env
     in bind_outcome (with_context (ar_relocation_from_raw A r_type) (UnsupportedRelocationType r_type)) (\<lambda>raw_info.
        if ri_kind raw_info = NoRelocation then Ok (st, Normal)
        else if ri_kind raw_info = AlignmentReloc then
          let removed = (case relax_deltas of Some d \<Rightarrow> ucast (delta_bytes_at d (rel_offset rel)) | None \<Rightarrow> 0);
              padding = unat (word_of_int (rel_addend rel) :: u64) - unat (removed :: u64)
          in bind_outcome (of_panic (do { pad \<leftarrow> slice offset (offset + padding) out;
                                          filled \<leftarrow> ar_fill_nop_padding A pad;
                                          splice offset filled out }))
               (\<lambda>out. Ok ((out, tw), Normal))
        else if ri_kind raw_info = Relative \<and> rel_symbol rel = None then
          if is_position_independent kind_of then Error AbsoluteInPic
          else
            bind_outcome
              (write_at env raw_info (word_of_int (rel_addend rel) - (si_address section_info + offset_in_section)) offset out)
              (\<lambda>out. Ok ((out, tw), Normal))
        else if ri_kind raw_info = Absolute \<and> is_shared_object kind_of \<and> ar_disallowed_in_shared_object A r_type then
          Error DisallowedInSharedObject
        else
          bind_outcome (get_resolution env rel) (\<lambda>(resolution, symbol_index).
            let flags = le_flags env symbol_index
            in if is_position_independent kind_of \<and> (is_interposable flags \<or> is_dynamic flags) \<and>
                  \<not> needs_copy_relocation flags \<and> \<not> needs_plt flags \<and> ar_disallowed_for_interposable A r_type
               then Error DisallowedForInterposable
               else apply_resolved A env section_info cache rest relax_deltas rel raw_info resolution symbol_index offset st)))"

section \<open>The relocations of a section\<close>

definition cache_high_part ::
    "'k arch_ops \<Rightarrow> SectionRelaxDeltas option \<Rightarrow> relocation \<Rightarrow> RelocationCache \<Rightarrow> RelocationCache" where
  "cache_high_part A relax_deltas rel cache =
     (if rel_type rel \<in> set (ar_high_part_relocations A)
      then cache\<lparr>rc_high_part_symbols :=
             (rc_high_part_symbols cache)(opt_input_to_output relax_deltas (rel_offset rel) \<mapsto> rel)\<rparr>
      else cache)"

definition cursor_translate :: "RelaxCursor option \<Rightarrow> u64 \<Rightarrow> RelaxCursor option \<times> u64" where
  "cursor_translate c x = (case c of Some k \<Rightarrow> map_prod Some id (translate k x) | None \<Rightarrow> (None, x))"

fun apply_relocations_from ::
    "'k arch_ops \<Rightarrow> link_env \<Rightarrow> SectionInfo \<Rightarrow> SectionRelaxDeltas option \<Rightarrow> RelocationModifier \<Rightarrow> RelocationCache \<Rightarrow>
     RelaxCursor option \<Rightarrow> relocation list \<Rightarrow> bytes \<times> TableWriter \<Rightarrow> (apply_error, bytes \<times> TableWriter) outcome" where
  "apply_relocations_from A env section_info relax_deltas modifier cache cursor [] st = Ok st"
| "apply_relocations_from A env section_info relax_deltas modifier cache cursor (rel # rels) st =
     (let cache = cache_high_part A relax_deltas rel cache
      in if modifier = SkipNextRelocation then
           apply_relocations_from A env section_info relax_deltas Normal (cache\<lparr>rc_previous := Some rel\<rparr>) cursor rels st
         else
           case cursor_translate cursor (rel_offset rel) of (cursor, offset_in_section) \<Rightarrow>
             bind_outcome (apply_relocation A env section_info cache rels relax_deltas rel offset_in_section st)
               (\<lambda>(st, modifier).
                  apply_relocations_from A env section_info relax_deltas modifier (cache\<lparr>rc_previous := Some rel\<rparr>) cursor rels st))"

definition empty_cache :: RelocationCache where
  "empty_cache = \<lparr>rc_previous = None, rc_high_part_symbols = Map.empty\<rparr>"

definition apply_relocations ::
    "'k arch_ops \<Rightarrow> link_env \<Rightarrow> SectionInfo \<Rightarrow> SectionRelaxDeltas option \<Rightarrow> relocation list \<Rightarrow> bytes \<times> TableWriter \<Rightarrow>
     (apply_error, bytes \<times> TableWriter) outcome" where
  "apply_relocations A env section_info relax_deltas rels st =
     apply_relocations_from A env section_info relax_deltas Normal empty_cache
       (map_option deltas_cursor relax_deltas) rels st"

section \<open>Debug information\<close>

text \<open>
  Sections that are not loaded: the value is never relative to a place, and a symbol that was dropped
  gives a tombstone, which differs where zero ends a list.
\<close>

definition debug_value ::
    "link_env \<Rightarrow> RelocationCache \<Rightarrow> relocation \<Rightarrow> Resolution \<Rightarrow> nat \<Rightarrow> RelocationKindInfo \<Rightarrow> bytes \<Rightarrow> (apply_error, u64) outcome" where
  "debug_value env cache rel resolution symbol_index rel_info out =
     (let addend = rel_addend rel; plain = value_with_addend (le_merged_string env) resolution addend symbol_index
      in if ri_kind rel_info \<in> {Absolute, AbsoluteSet, AbsoluteAdditionWord6} then plain
         else if ri_kind rel_info \<in> {AbsoluteAddition, AbsoluteSubtraction, AbsoluteSetWord6, AbsoluteSubtractionWord6} then
           bind_outcome plain (\<lambda>value.
             map_error RelocError (adjust_value_based_on_content rel_info value out (unat (rel_offset rel))))
         else
           case ri_kind rel_info of
             DtpOff \<Rightarrow> Ok (raw_value resolution - le_tls_end env + word_of_int addend)
           | PairSubtractionULEB128 expected \<Rightarrow>
               bind_outcome (with_context (rc_previous cache) MissingPreviousRelocation) (\<lambda>set_rel.
                 get_pair_subtraction_relocation_value env rel resolution symbol_index addend set_rel expected)
           | k \<Rightarrow> if k = Relative \<and> ri_size rel_info = ByteSize 0 then Ok 0 else Error (UnsupportedDebugKind k))"

definition apply_debug_relocation ::
    "'k arch_ops \<Rightarrow> link_env \<Rightarrow> u64 \<Rightarrow> RelocationCache \<Rightarrow> relocation \<Rightarrow> bytes \<Rightarrow> (apply_error, bytes) outcome" where
  "apply_debug_relocation A env tombstone cache rel out =
     bind_outcome (with_context (rel_symbol rel) UnsupportedAbsolute) (\<lambda>symbol_index.
     bind_outcome (with_context (ar_relocation_from_raw A (rel_type rel)) (UnsupportedRelocationType (rel_type rel))) (\<lambda>rel_info.
     bind_outcome
       (case symbol_resolution env symbol_index of
          Some resolution \<Rightarrow> debug_value env cache rel resolution symbol_index rel_info out
        | None \<Rightarrow>
            (case le_section_slot env symbol_index of
               Some MergeStringsSlot \<Rightarrow>
                 bind_outcome (le_merged_string env symbol_index (rel_addend rel)) (\<lambda>m. with_context m NoMergedString)
             | Some DiscardedSlot \<Rightarrow> Ok tombstone
             | Some OtherSlot \<Rightarrow> Error NoDebugResolution
             | None \<Rightarrow> Ok tombstone))
       (\<lambda>value. write_at env rel_info value (unat (rel_offset rel)) out)))"

definition debug_tombstone :: "string \<Rightarrow> u64" where
  "debug_tombstone section_name = (if section_name = ''.debug_loc'' \<or> section_name = ''.debug_ranges'' then 1 else 0)"

fun apply_debug_relocations_from ::
    "'k arch_ops \<Rightarrow> link_env \<Rightarrow> u64 \<Rightarrow> RelocationCache \<Rightarrow> relocation list \<Rightarrow> bytes \<Rightarrow> (apply_error, bytes) outcome" where
  "apply_debug_relocations_from A env tombstone cache [] out = Ok out"
| "apply_debug_relocations_from A env tombstone cache (rel # rels) out =
     bind_outcome (apply_debug_relocation A env tombstone cache rel out) (\<lambda>out.
       apply_debug_relocations_from A env tombstone (cache\<lparr>rc_previous := Some rel\<rparr>) rels out)"

definition apply_debug_relocations ::
    "'k arch_ops \<Rightarrow> link_env \<Rightarrow> string \<Rightarrow> relocation list \<Rightarrow> bytes \<Rightarrow> (apply_error, bytes) outcome" where
  "apply_debug_relocations A env section_name rels out =
     apply_debug_relocations_from A env (debug_tombstone section_name) empty_cache rels out"

end
