(* ===== verification/Elf_RiscV64.thy ===== *)
theory Elf_RiscV64
  imports Reloc_Apply Alignment
begin

text \<open>
  RISC-V in the linker proper (\<open>libjdxld/src/elf_riscv64.rs\<close>): the PLT entry, the merging of the
  \<open>e_flags\<close>, the choice of relaxations, and the scan that decides which bytes of a section are deleted.
  The scan and the writer meet in the relocation \<open>R_RISCV_ALIGN\<close>: the scan says how much of the
  padding goes, the writer fills in the rest.
\<close>

section \<open>Tables\<close>

definition riscv_PLT_ENTRY_TEMPLATE :: bytes where
  "riscv_PLT_ENTRY_TEMPLATE =
     [0x17, 0x0e, 0x0, 0x0, 0x03, 0x3e, 0x0e, 0x0, 0x67, 0x03, 0x0e, 0x0, 0x73, 0x0, 0x10, 0x0]"

definition riscv_is_disallowed_for_interposable_symbols :: "rtype \<Rightarrow> bool" where
  "riscv_is_disallowed_for_interposable_symbols r = (r = ''R_RISCV_32'')"

definition riscv_write_plt_entry :: "bytes \<Rightarrow> u64 \<Rightarrow> u64 \<Rightarrow> (plt_error, bytes) outcome" where
  "riscv_write_plt_entry plt_entry got plt =
     of_panic (do { entry \<leftarrow> copy_template riscv_PLT_ENTRY_TEMPLATE plt_entry;
                    w \<leftarrow> slice 0 8 entry;
                    w' \<leftarrow> riscv_write_to_value UiType (got - plt) False w;
                    splice 0 w' entry })"

definition RISCV_TLS_DTV_OFFSET :: u64 where "RISCV_TLS_DTV_OFFSET = 0x800"

definition riscv_high_part_relocations :: "rtype list" where
  "riscv_high_part_relocations =
     [''R_RISCV_HI20'', ''R_RISCV_PCREL_HI20'', ''R_RISCV_GOT_HI20'', ''R_RISCV_TLS_GOT_HI20'',
      ''R_RISCV_TLS_GD_HI20'', ''R_RISCV_TPREL_HI20'']"

section \<open>File flags\<close>

text \<open>
  The float ABI field and the two flags of the psABI that every input has to agree on
  (\<open>EF_RISCV_FLOAT_ABI\<close> is \<open>0x6\<close>, \<open>EF_RISCV_RVE\<close> is \<open>0x8\<close>, \<open>EF_RISCV_RV64ILP32\<close> is \<open>0x20\<close>).
\<close>

datatype eflags_error = FloatAbiMismatch | RveMismatch | Ilp32Mismatch

definition riscv_float_abi :: "u32 \<Rightarrow> u32" where "riscv_float_abi f = f AND 0x6"
definition riscv_rve :: "u32 \<Rightarrow> bool" where "riscv_rve f = (f AND 0x8 = 0x8)"
definition riscv_rv64ilp32 :: "u32 \<Rightarrow> bool" where "riscv_rv64ilp32 f = (f AND 0x20 = 0x20)"

text \<open>\<open>Itertools::all_equal_value().is_ok()\<close>, which fails on an empty iterator.\<close>

definition all_equal_value :: "'a list \<Rightarrow> bool" where
  "all_equal_value xs = (case xs of [] \<Rightarrow> False | x # ys \<Rightarrow> list_all (\<lambda>y. y = x) ys)"

definition riscv_merge_eflags :: "u32 list \<Rightarrow> (eflags_error, u32) outcome" where
  "riscv_merge_eflags fs =
     (if fs = [] then Ok 0
      else
        let or_eflags = foldl (OR) 0 fs
        in bind_outcome (ensure (all_equal_value (map riscv_float_abi fs)) FloatAbiMismatch) (\<lambda>_.
           bind_outcome (ensure (all_equal_value (map riscv_rve fs)) RveMismatch) (\<lambda>_.
           bind_outcome (ensure (all_equal_value (map riscv_rv64ilp32 fs)) Ilp32Mismatch) (\<lambda>_. Ok or_eflags))))"

section \<open>Padding\<close>

text \<open>Four-byte \<open>nop\<close>s, and one \<open>c.nop\<close> in two bytes that remain; an odd byte is left alone.\<close>

fun riscv_fill_nop_padding :: "bytes \<Rightarrow> bytes" where
  "riscv_fill_nop_padding (a # b # c # d # rest) = [0x13, 0x00, 0x00, 0x00] @ riscv_fill_nop_padding rest"
| "riscv_fill_nop_padding (a # b # rest) = [0x01, 0x00] @ rest"
| "riscv_fill_nop_padding rest = rest"

section \<open>Choosing relaxations\<close>

definition is_jalr_deleted :: "bytes \<Rightarrow> nat \<Rightarrow> bool" where
  "is_jalr_deleted section_bytes offset =
     (if length section_bytes < offset + 8 then True
      else
        let auipc_word = (getw 4 (drop offset section_bytes) :: u32);
            auipc_rd = (shr auipc_word 7 AND 0x1f);
            next_word = (getw 4 (drop (offset + 4) section_bytes) :: u32)
        in \<not> (next_word AND 0x7f = 0x67 \<and> shr next_word 15 AND 0x1f = auipc_rd))"

definition riscv_rel_info :: "rtype \<Rightarrow> RelocationKindInfo" where
  "riscv_rel_info r = the (riscv_relocation_type_from_raw r)"

definition riscv_relaxed :: "RiscV64Relaxation \<Rightarrow> RelocationKindInfo \<Rightarrow> bool \<Rightarrow> RiscV64Relaxation Relaxation option" where
  "riscv_relaxed k ri m = Some \<lparr>rx_kind = k, rx_rel_info = ri, rx_mandatory = m\<rparr>"

definition riscv_relax_call :: "relax_query \<Rightarrow> RelocationKindInfo \<Rightarrow> RiscV64Relaxation Relaxation option" where
  "riscv_relax_call q relocation =
     (let m = is_static_executable (q_output_kind q)
      in if q_sym_addr q \<noteq> 0 then
           if is_jalr_deleted (q_section_bytes q) (q_offset q) then
             riscv_relaxed CallToJal (riscv_rel_info ''R_RISCV_JAL'') m
           else riscv_relaxed RvNoOp (relocation\<lparr>ri_kind := Relative\<rparr>) m
         else riscv_relaxed RvReplaceWithNop (riscv_rel_info ''R_RISCV_NONE'') m)"

definition riscv_relax_hi20 :: "relax_query \<Rightarrow> RiscV64Relaxation Relaxation option" where
  "riscv_relax_hi20 q =
     (case q_relax_deltas q of
        None \<Rightarrow> None
      | Some d \<Rightarrow>
          let input_offset = output_to_input_offset d (word_of_nat (q_offset q))
          in if has_delta_at d input_offset then riscv_relaxed Hi20Delete (riscv_rel_info ''R_RISCV_NONE'') False
             else if has_delta_at d (input_offset + 2) then riscv_relaxed Hi20ToCLui clui_rel_info False
             else None)"

definition riscv_relax_lo12 :: "relax_query \<Rightarrow> RelocationKindInfo \<Rightarrow> RiscV64Relaxation Relaxation option" where
  "riscv_relax_lo12 q relocation =
     (case q_relax_deltas q of
        None \<Rightarrow> None
      | Some d \<Rightarrow>
          let input_offset = output_to_input_offset d (word_of_nat (q_offset q)); off = q_offset q
          in if 4 \<le> input_offset \<and> delta_bytes_at d (input_offset - 4) = 4 \<and> off + 4 \<le> length (q_section_bytes q) then
               let word = (getw 4 (drop off (q_section_bytes q)) :: u32);
                   rd = (shr word 7 AND 0x1f); rs1 = (shr word 15 AND 0x1f)
               in if rd = rs1 then riscv_relaxed Lo12Rs1ToZero relocation False else None
             else None)"

definition riscv_new_relaxation :: "relax_query \<Rightarrow> RiscV64Relaxation Relaxation option option" where
  "riscv_new_relaxation q =
     do { relocation \<leftarrow> riscv_relocation_type_from_raw (q_relocation q);
          let rk = q_relocation q;
          Some (if \<not> sflags_contain (q_section_flags q) EXECINSTR then None
                else if rk \<in> {''R_RISCV_CALL'', ''R_RISCV_CALL_PLT''} \<and> \<not> is_interposable (q_flags q) then
                  riscv_relax_call q relocation
                else if rk = ''R_RISCV_HI20'' then riscv_relax_hi20 q
                else if rk \<in> {''R_RISCV_LO12_I'', ''R_RISCV_LO12_S''} then riscv_relax_lo12 q relocation
                else None) }"

text \<open>The instance of \<open>trait Arch\<close>; where the TLS block starts is up to the layout.\<close>

definition riscv_ops :: "u64 \<Rightarrow> RiscV64Relaxation arch_ops" where
  "riscv_ops tls_start_aligned =
     \<lparr>ar_relocation_from_raw = riscv_relocation_type_from_raw,
      ar_disallowed_for_interposable = riscv_is_disallowed_for_interposable_symbols,
      ar_disallowed_in_shared_object = (\<lambda>_. False),
      ar_new_relaxation = riscv_new_relaxation,
      ar_apply = riscv_apply,
      ar_next_modifier = riscv_next_modifier,
      ar_fill_nop_padding = (\<lambda>buf. Some (riscv_fill_nop_padding buf)),
      ar_high_part_relocations = riscv_high_part_relocations,
      ar_local_entry_offset = (\<lambda>_. 0),
      ar_thunk_config = None,
      ar_tables =
        \<lparr>get_dynamic_relocation_type = riscv64_r_type, write_plt_entry = riscv_write_plt_entry,
         get_dtv_offset = RISCV_TLS_DTV_OFFSET, tp_offset_start = tls_start_aligned\<rparr>\<rparr>"

section \<open>Deciding deletions\<close>

record RelaxSymbolInfo =
  rs_output_address :: u64
  rs_interposable :: bool

record collect_state =
  co_raw :: "(u64 \<times> u32) list"
  co_margin :: "u64 option"
  co_prev_call :: "(u64 \<times> nat) option"
  co_prev_hi20 :: "(u64 \<times> nat \<times> int) option"
  co_cumulative :: u64

text \<open>\<open>u64::next_power_of_two\<close>; beyond \<open>2 ^ 63\<close> it wraps to zero.\<close>

definition next_power_of_two :: "u64 \<Rightarrow> u64" where
  "next_power_of_two x = 2 ^ length (takeWhile (\<lambda>k. 2 ^ k < unat x) [0..<64])"

definition forget :: "collect_state \<Rightarrow> collect_state" where
  "forget s = s\<lparr>co_prev_call := None, co_prev_hi20 := None\<rparr>"

definition push_delta :: "u64 \<Rightarrow> u32 \<Rightarrow> collect_state \<Rightarrow> collect_state" where
  "push_delta off n s = s\<lparr>co_raw := co_raw s @ [(off, n)], co_cumulative := co_cumulative s + ucast n\<rparr>"

definition lower_margin :: "u64 \<Rightarrow> collect_state \<Rightarrow> collect_state" where
  "lower_margin margin s =
     s\<lparr>co_margin := Some (case co_margin s of None \<Rightarrow> margin | Some m \<Rightarrow> min m margin)\<rparr>"

text \<open>The bytes that earlier passes deleted strictly before an offset.\<close>

definition existing_before :: "SectionRelaxDeltas option \<Rightarrow> u64 \<Rightarrow> u64" where
  "existing_before existing off =
     (case existing of
        None \<Rightarrow> 0
      | Some d \<Rightarrow>
          let idx = partition_point (\<lambda>e. input_offset e < off) (deltas d)
          in if idx = 0 then 0 else cumulative_deleted (deltas d ! (idx - 1)))"

definition existing_at :: "SectionRelaxDeltas option \<Rightarrow> u64 \<Rightarrow> bool" where
  "existing_at existing off = (case existing of None \<Rightarrow> False | Some d \<Rightarrow> has_delta_at d off)"

text \<open>\<open>next_multiple_of\<close> panics when the alignment wrapped to zero.\<close>

definition collect_align ::
    "u64 \<Rightarrow> SectionRelaxDeltas option \<Rightarrow> relocation \<Rightarrow> collect_state \<Rightarrow> collect_state option" where
  "collect_align section_output_address existing rel s =
     (let addend = (word_of_int (rel_addend rel) :: u64); input_off = rel_offset rel
      in if addend = 0 \<or> existing_at existing input_off then Some (forget s)
         else
           let output_offset = input_off - existing_before existing input_off - co_cumulative s;
               p = section_output_address + output_offset;
               alignment = next_power_of_two addend;
               desired = next_multiple_of p alignment;
               actual = p + addend
           in if alignment = 0 then None
              else Some (forget (if desired < actual then push_delta input_off (ucast (actual - desired)) s else s)))"

definition relax_hi20_margin :: "u64 \<Rightarrow> u64" where
  "relax_hi20_margin value =
     (let hi20 = shr (value + 0x800) 12; hi20_signed = sint hi20
      in if 31 < hi20_signed then word_of_int (hi20_signed - 31) * 0x1000
         else if hi20_signed < - 32 then - 1
         else 0x1000)"

definition collect_call ::
    "u64 \<Rightarrow> (nat \<Rightarrow> RelaxSymbolInfo option) \<Rightarrow> u64 \<Rightarrow> nat \<Rightarrow> collect_state \<Rightarrow> collect_state" where
  "collect_call section_output_address resolve call_offset sym_idx s =
     (case resolve sym_idx of
        None \<Rightarrow> s
      | Some info \<Rightarrow>
          if rs_interposable info then s
          else
            let distance = wrap_i64 (sint (rs_output_address info) - sint (section_output_address + call_offset))
            in if distance_fits_jal distance then push_delta (call_offset + 4) 4 s
               else lower_margin (word_of_int \<bar>distance\<bar> - word_of_int \<bar>snd JAL_RANGE\<bar>) s)"

definition collect_hi20 ::
    "bytes \<Rightarrow> SectionRelaxDeltas option \<Rightarrow> (nat \<Rightarrow> RelaxSymbolInfo option) \<Rightarrow> relocation \<Rightarrow> collect_state \<Rightarrow> collect_state" where
  "collect_hi20 section_bytes existing resolve rel s =
     (case co_prev_hi20 s of
        None \<Rightarrow> s
      | Some (hi20_offset, sym_idx, addend) \<Rightarrow>
          if rel_offset rel = hi20_offset \<and> \<not> (existing_at existing hi20_offset \<or> existing_at existing (hi20_offset + 2)) then
            (case resolve sym_idx of
               None \<Rightarrow> s
             | Some info \<Rightarrow>
                 let off = unat hi20_offset
                 in if rs_interposable info \<or> length section_bytes < off + 4 then s
                    else
                      let lui_word = (getw 4 (drop off section_bytes) :: u32);
                          rd = (shr lui_word 7 AND 0x1f);
                          value = rs_output_address info + word_of_int addend
                      in if hi20_is_zero value then push_delta hi20_offset 4 s
                         else if rd_valid_for_clui rd then
                           if hi20_fits_clui value then push_delta (hi20_offset + 2) 2 s
                           else lower_margin (relax_hi20_margin value) s
                         else s)
          else s)"

definition collect_relax ::
    "u64 \<Rightarrow> bytes \<Rightarrow> SectionRelaxDeltas option \<Rightarrow> (nat \<Rightarrow> RelaxSymbolInfo option) \<Rightarrow> relocation \<Rightarrow> collect_state \<Rightarrow> collect_state" where
  "collect_relax section_output_address section_bytes existing resolve rel s =
     forget
       (case co_prev_call s of
          Some (call_offset, sym_idx) \<Rightarrow>
            if rel_offset rel = call_offset \<and> \<not> existing_at existing (call_offset + 4)
            then collect_call section_output_address resolve call_offset sym_idx s
            else collect_hi20 section_bytes existing resolve rel s
        | None \<Rightarrow> collect_hi20 section_bytes existing resolve rel s)"

definition collect_step ::
    "u64 \<Rightarrow> bytes \<Rightarrow> SectionRelaxDeltas option \<Rightarrow> (nat \<Rightarrow> RelaxSymbolInfo option) \<Rightarrow> relocation \<Rightarrow>
     collect_state \<Rightarrow> collect_state option" where
  "collect_step section_output_address section_bytes existing resolve rel s =
     (if rel_type rel = ''R_RISCV_ALIGN'' then collect_align section_output_address existing rel s
      else if rel_type rel \<in> {''R_RISCV_CALL'', ''R_RISCV_CALL_PLT''} then
        Some (s\<lparr>co_prev_call := map_option (\<lambda>i. (rel_offset rel, i)) (rel_symbol rel), co_prev_hi20 := None\<rparr>)
      else if rel_type rel = ''R_RISCV_HI20'' then
        Some (s\<lparr>co_prev_hi20 := map_option (\<lambda>i. (rel_offset rel, i, rel_addend rel)) (rel_symbol rel), co_prev_call := None\<rparr>)
      else if rel_type rel = ''R_RISCV_RELAX'' then
        Some (collect_relax section_output_address section_bytes existing resolve rel s)
      else Some (forget s))"

fun collect_from ::
    "u64 \<Rightarrow> bytes \<Rightarrow> SectionRelaxDeltas option \<Rightarrow> (nat \<Rightarrow> RelaxSymbolInfo option) \<Rightarrow> relocation list \<Rightarrow>
     collect_state \<Rightarrow> collect_state option" where
  "collect_from section_output_address section_bytes existing resolve [] s = Some s"
| "collect_from section_output_address section_bytes existing resolve (rel # rels) s =
     do { s' \<leftarrow> collect_step section_output_address section_bytes existing resolve rel s;
          collect_from section_output_address section_bytes existing resolve rels s' }"

definition collect_start :: collect_state where
  "collect_start = \<lparr>co_raw = [], co_margin = None, co_prev_call = None, co_prev_hi20 = None, co_cumulative = 0\<rparr>"

definition riscv_collect_relaxation_deltas ::
    "u64 \<Rightarrow> bytes \<Rightarrow> relocation list \<Rightarrow> SectionRelaxDeltas option \<Rightarrow> (nat \<Rightarrow> RelaxSymbolInfo option) \<Rightarrow>
     ((u64 \<times> u32) list \<times> u64 option) option" where
  "riscv_collect_relaxation_deltas section_output_address section_bytes rels existing resolve =
     do { s \<leftarrow> collect_from section_output_address section_bytes existing resolve rels collect_start;
          Some (co_raw s, co_margin s) }"

section \<open>A chosen relaxation can be applied\<close>

lemma riscv_apply_total: "off + snd (riscv_window k) \<le> length bs \<Longrightarrow> riscv_apply k (bs, off, ad) \<noteq> None"
  by (cases k) (auto simp: riscv_window_def splice_def slice_def index_def u32_from_slice_def Let_def)

interpretation riscv_choice: relaxation_choice riscv_apply riscv_window riscv_new_relaxation
    "\<lambda>r. riscv_relocation_type_from_raw r \<noteq> None"
proof unfold_locales
  fix q :: relax_query assume "riscv_relocation_type_from_raw (q_relocation q) \<noteq> None"
  then show "riscv_new_relaxation q \<noteq> None" by (auto simp: riscv_new_relaxation_def Let_def)
next
  fix q :: relax_query and r ad
  assume "q_offset q + snd (riscv_window (rx_kind r)) \<le> length (q_section_bytes q)"
  then show "riscv_apply (rx_kind r) (q_section_bytes q, q_offset q, ad) \<noteq> None" by (rule riscv_apply_total)
qed

section \<open>The deletions of a scan are in order\<close>

text \<open>
  What an assembler guarantees of the relocations of a section: they come in order, the bytes that
  an \<open>ALIGN\<close> covers and the instructions that a \<open>RELAX\<close> allows to shorten do not overlap with what
  follows, and code and padding have even length. Every address of the section is below \<open>2 ^ 63\<close>.
\<close>

definition rel_span :: "relocation option \<Rightarrow> relocation \<Rightarrow> nat" where
  "rel_span p r =
     (if rel_type r = ''R_RISCV_ALIGN'' then unat (word_of_int (rel_addend r) :: u64)
      else if rel_type r = ''R_RISCV_RELAX'' then
        (case p of
           Some c \<Rightarrow> if rel_type c \<in> {''R_RISCV_CALL'', ''R_RISCV_CALL_PLT''} then 8
                     else if rel_type c = ''R_RISCV_HI20'' then 4 else 0
         | None \<Rightarrow> 0)
      else 0)"

fun spaced :: "nat \<Rightarrow> nat \<Rightarrow> relocation option \<Rightarrow> relocation list \<Rightarrow> bool" where
  "spaced base lo p [] = True"
| "spaced base lo p (r # rs) =
     (let o' = unat (rel_offset r)
      in lo \<le> o' \<and> even o' \<and> even (rel_span p r) \<and> rel_span p r < 2 ^ 32 \<and> base + o' + rel_span p r < 2 ^ 63 \<and>
         spaced base (o' + rel_span p r) (Some r) rs)"

definition sum_deleted :: "(u64 \<times> u32) list \<Rightarrow> u64" where
  "sum_deleted raw = sum_list (map (\<lambda>(off, n). ucast n) raw)"

definition scan_inv :: "nat \<Rightarrow> relocation option \<Rightarrow> collect_state \<Rightarrow> bool" where
  "scan_inv lo p s \<longleftrightarrow>
     raw_ok (co_raw s) \<and> (\<forall>(off, n) \<in> set (co_raw s). unat off + unat n \<le> lo \<and> even (unat n)) \<and>
     co_cumulative s = sum_deleted (co_raw s) \<and>
     (\<forall>off i. co_prev_call s = Some (off, i) \<longrightarrow>
        (\<exists>c. p = Some c \<and> rel_type c \<in> {''R_RISCV_CALL'', ''R_RISCV_CALL_PLT''} \<and> rel_offset c = off)) \<and>
     (\<forall>off i ad. co_prev_hi20 s = Some (off, i, ad) \<longrightarrow>
        (\<exists>c. p = Some c \<and> rel_type c = ''R_RISCV_HI20'' \<and> rel_offset c = off))"

lemma raw_ok_from_append:
  "raw_ok_from lo (raw @ [(off, n)]) \<longleftrightarrow>
     raw_ok_from lo raw \<and> lo \<le> unat off \<and> (\<forall>(o', n') \<in> set raw. unat o' + unat n' \<le> unat off) \<and> 0 < n \<and>
     unat off + unat n < 2 ^ 64"
  by (induction lo raw rule: raw_ok_from.induct) auto

lemma scan_inv_push:
  assumes "scan_inv lo p s" "lo \<le> unat off" "0 < n" "even (unat n)" "unat off + unat n \<le> hi" "hi < 2 ^ 63"
  shows "scan_inv hi p' (forget (push_delta off n s))"
proof -
  have ok: "raw_ok (co_raw s)" and bd: "\<forall>(o', n') \<in> set (co_raw s). unat o' + unat n' \<le> lo \<and> even (unat n')"
    and cum: "co_cumulative s = sum_deleted (co_raw s)"
    using assms(1) by (simp_all add: scan_inv_def)
  have "raw_ok (co_raw s @ [(off, n)])"
    using ok bd assms(2-) by (fastforce simp: raw_ok_def raw_ok_from_append)
  moreover have "\<forall>(o', n') \<in> set (co_raw s @ [(off, n)]). unat o' + unat n' \<le> hi \<and> even (unat n')"
    using bd assms(2,4,5) by fastforce
  ultimately show ?thesis
    using cum by (simp add: scan_inv_def forget_def push_delta_def sum_deleted_def)
qed

lemma scan_inv_weaken: "scan_inv lo p s \<Longrightarrow> lo \<le> hi \<Longrightarrow> scan_inv hi p' (forget s)"
  by (fastforce simp: scan_inv_def forget_def)

lemma scan_inv_margin: "scan_inv lo p (lower_margin m s) = scan_inv lo p s"
  by (simp add: scan_inv_def lower_margin_def)

lemma unat_ucast_u32: "unat (ucast (n :: u32) :: u64) = unat n"
proof -
  have "unat n < 2 ^ 64" by (rule less_le_trans [OF unsigned_less]) simp
  then show ?thesis by (simp add: unsigned_ucast_eq take_bit_nat_eq_self)
qed

lemma sum_deleted_bound:
  "raw_ok_from lo raw \<Longrightarrow> lo \<le> hi \<Longrightarrow> hi < 2 ^ 64 \<Longrightarrow>
     \<forall>(off, n) \<in> set raw. unat off + unat n \<le> hi \<and> even (unat n) \<Longrightarrow>
     lo + unat (sum_deleted raw) \<le> hi \<and> even (unat (sum_deleted raw))"
proof (induction lo raw rule: raw_ok_from.induct)
  case (1 lo)
  then show ?case by (simp add: sum_deleted_def)
next
  case (2 lo off n raw)
  then have ih: "unat off + unat n + unat (sum_deleted raw) \<le> hi \<and> even (unat (sum_deleted raw))" by auto
  have "sum_deleted ((off, n) # raw) = ucast n + sum_deleted raw" by (simp add: sum_deleted_def)
  moreover have u: "unat (ucast n :: u64) = unat n" by (rule unat_ucast_u32)
  moreover have "unat (ucast n + sum_deleted raw :: u64) = unat n + unat (sum_deleted raw)"
    using ih "2.prems"(3) u by (simp add: unat_word_ariths)
  moreover have "even (unat n)" "lo \<le> unat off" using 2 by auto
  ultimately show ?case using ih by auto
qed

lemma next_power_of_two_spec:
  assumes "0 < x" "unat x < 2 ^ 32"
  obtains k where "k \<le> 32" "next_power_of_two x = 2 ^ k" "unat x \<le> 2 ^ k"
proof -
  define k where "k = length (takeWhile (\<lambda>k. (2 :: nat) ^ k < unat x) [0..<64])"
  have "k \<le> 32"
  proof (rule ccontr)
    assume "\<not> k \<le> 32"
    then have "32 < k" by simp
    then have "2 ^ ([0..<64] ! 32) < unat x" unfolding k_def
      by (metis (mono_tags, lifting) nth_mem set_takeWhileD takeWhile_nth)
    with assms(2) show False by simp
  qed
  moreover have "\<not> (2 :: nat) ^ ([0..<64] ! k) < unat x"
    unfolding k_def by (rule nth_length_takeWhile) (use \<open>k \<le> 32\<close> in \<open>simp add: k_def\<close>)
  ultimately show thesis using that [of k] by (simp add: next_power_of_two_def k_def not_less)
qed

lemma ceil_mult: "0 < m \<Longrightarrow> (m * q + m - 1) div m = q" for m :: nat
  by (rule div_nat_eqI) (auto simp: algebra_simps)

lemma ceil_rem: "0 < r \<Longrightarrow> r < m \<Longrightarrow> (q * m + r + m - 1) div m = q + 1" for m :: nat
  by (rule div_nat_eqI) (auto simp: algebra_simps)

lemma next_multiple_of_nat:
  assumes "k \<le> 32" "unat p < 2 ^ 63"
  shows "unat (next_multiple_of p (2 ^ k)) = (unat p + 2 ^ k - 1) div 2 ^ k * 2 ^ k"
proof -
  let ?m = "2 ^ k :: nat"
  have m: "unat (2 ^ k :: u64) = ?m" "?m \<le> 2 ^ 32" "0 < ?m"
    using assms(1) power_increasing [of k 32 "2 :: nat"] by (simp_all add: unat_exp)
  have r: "unat (p mod 2 ^ k) = unat p mod ?m" by (simp add: unat_mod m(1))
  show ?thesis
  proof (cases "unat p mod ?m = 0")
    case True
    then have "p mod 2 ^ k = 0" using r by (simp add: unat_eq_zero)
    moreover obtain q where "unat p = ?m * q" using True by (auto elim: dvdE)
    moreover have "(?m * q + ?m - 1) div ?m = q" using m(3) by (rule ceil_mult)
    ultimately show ?thesis by (simp add: next_multiple_of_def mult.commute)
  next
    case False
    then have z: "p mod 2 ^ k \<noteq> 0" using r by (metis unat_0)
    have le: "unat p mod ?m \<le> ?m" by (simp add: less_imp_le)
    have "p mod 2 ^ k \<le> 2 ^ k" unfolding word_le_nat_alt r m(1) by (rule le)
    then have d: "unat (2 ^ k - p mod 2 ^ k) = ?m - unat p mod ?m" by (simp add: unat_sub m(1) r)
    have "unat (p + (2 ^ k - p mod 2 ^ k)) = unat p + (?m - unat p mod ?m)"
      using assms(2) m(2) by (simp add: unat_word_ariths d)
    moreover have "unat p + (?m - unat p mod ?m) = (unat p + ?m - 1) div ?m * ?m"
    proof -
      define q r' where "q = unat p div ?m" and "r' = unat p mod ?m"
      have p: "unat p = q * ?m + r'" unfolding q_def r'_def by (rule div_mult_mod_eq [symmetric])
      have r': "0 < r'" "r' < ?m" using False m(3) by (simp_all add: r'_def)
      have "(q * ?m + r' + ?m - 1) div ?m = q + 1"
        using r' by (rule ceil_rem)
      with p r' show ?thesis by (simp add: r'_def [symmetric])
    qed
    ultimately show ?thesis using z by (simp add: next_multiple_of_def Let_def)
  qed
qed

lemma ceil_bounds:
  fixes m P :: nat
  assumes "0 < m"
  shows "P \<le> (P + m - 1) div m * m" "(P + m - 1) div m * m < P + m" "m dvd (P + m - 1) div m * m"
proof -
  have "(P + m - 1) div m * m + (P + m - 1) mod m = P + m - 1" by (rule div_mult_mod_eq)
  moreover have "(P + m - 1) mod m < m" using assms by simp
  ultimately show "P \<le> (P + m - 1) div m * m" "(P + m - 1) div m * m < P + m" using assms by linarith+
qed simp

lemma even_of_power: "even n \<Longrightarrow> 0 < n \<Longrightarrow> n \<le> 2 ^ k \<Longrightarrow> 2 ^ k dvd D \<Longrightarrow> even D" for n D :: nat
  by (cases k) auto

text \<open>
  One \<open>ALIGN\<close>: it removes some of its padding, and when the padding is long enough for the alignment
  the code behind what is left starts at a multiple of it.
\<close>

definition scan_place :: "u64 \<Rightarrow> collect_state \<Rightarrow> relocation \<Rightarrow> nat" where
  "scan_place base s r = unat base + (unat (rel_offset r) - unat (sum_deleted (co_raw s)))"

definition removes :: "relocation \<Rightarrow> u32 \<Rightarrow> (u64 \<times> u32) list" where
  "removes r n = (if n = 0 then [] else [(rel_offset r, n)])"

lemma unat_scan_place:
  assumes "scan_inv lo p s" "lo \<le> unat (rel_offset r)" "even (unat (rel_offset r))" "unat base + unat (rel_offset r) < 2 ^ 63"
    "even (unat base)"
  shows "unat (base + (rel_offset r - co_cumulative s)) = scan_place base s r" "even (scan_place base s r)"
    "scan_place base s r \<le> unat base + unat (rel_offset r)"
proof -
  have b: "unat (sum_deleted (co_raw s)) \<le> unat (rel_offset r) \<and> even (unat (sum_deleted (co_raw s)))"
    using sum_deleted_bound [of 0 "co_raw s" "unat (rel_offset r)"] assms(1,2) unsigned_less [of "rel_offset r"]
    by (fastforce simp: scan_inv_def raw_ok_def)
  then have "co_cumulative s \<le> rel_offset r" using assms(1) by (simp add: scan_inv_def word_le_nat_alt)
  then have "unat (rel_offset r - co_cumulative s) = unat (rel_offset r) - unat (sum_deleted (co_raw s))"
    using assms(1) by (simp add: unat_sub scan_inv_def)
  then show "unat (base + (rel_offset r - co_cumulative s)) = scan_place base s r"
    using assms(4) by (simp add: unat_word_ariths scan_place_def)
  show "even (scan_place base s r)" "scan_place base s r \<le> unat base + unat (rel_offset r)"
    using b assms(3,5) by (simp_all add: scan_place_def)
qed

lemma collect_align_step:
  fixes r :: relocation
  defines "n \<equiv> (word_of_int (rel_addend r) :: u64)"
  assumes inv: "scan_inv lo p s" and sp: "spaced (unat base) lo p (r # rs)" and t: "rel_type r = ''R_RISCV_ALIGN''"
    and base: "even (unat base)"
  obtains s' removed where "collect_align base None r s = Some s'"
    "scan_inv (unat (rel_offset r) + rel_span p r) (Some r) s'" "co_raw s' = co_raw s @ removes r removed" "unat removed \<le> unat n"
    "unat (next_power_of_two n) \<le> unat n + 2 \<Longrightarrow> 0 < n \<Longrightarrow>
       unat (next_power_of_two n) dvd scan_place base s r + unat n - unat removed"
proof (cases "n = 0")
  case True
  have "collect_align base None r s = Some (forget s)" using True by (simp add: collect_align_def n_def)
  moreover have "scan_inv (unat (rel_offset r) + rel_span p r) (Some r) (forget s)"
    using inv sp by (auto intro: scan_inv_weaken simp: Let_def)
  moreover have "co_raw (forget s) = co_raw s @ removes r 0" by (simp add: forget_def removes_def)
  ultimately show thesis using that [of "forget s" 0] True by simp
next
  case False
  have span: "rel_span p r = unat n" using t by (simp add: rel_span_def n_def)
  have off: "lo \<le> unat (rel_offset r)" "even (unat (rel_offset r))" "even (unat n)" "unat n < 2 ^ 32"
    "unat base + unat (rel_offset r) + unat n < 2 ^ 63"
    using sp by (simp_all add: Let_def span)
  have n0: "0 < n" using False by (simp add: word_gt_0)
  obtain k where k: "k \<le> 32" "next_power_of_two n = 2 ^ k" "unat n \<le> 2 ^ k"
    by (rule next_power_of_two_spec [OF n0 off(4)])
  define P where "P = scan_place base s r"
  define pl where "pl = base + (rel_offset r - co_cumulative s)"
  have "unat base + unat (rel_offset r) < 2 ^ 63" using off(5) by simp
  note place = unat_scan_place [OF inv off(1,2) this base]
  have pl: "unat pl = P" "even P" "P \<le> unat base + unat (rel_offset r)" using place by (simp_all add: P_def pl_def)
  define D where "D = (P + 2 ^ k - 1) div 2 ^ k * 2 ^ k"
  have D: "P \<le> D" "D < P + 2 ^ k" "2 ^ k dvd D" unfolding D_def using ceil_bounds [of "2 ^ k" P] by simp_all
  have evD: "even D" using even_of_power [OF off(3) _ k(3) D(3)] False by (simp add: unat_gt_0)
  have des: "unat (next_multiple_of pl (2 ^ k)) = D"
    using next_multiple_of_nat [OF k(1), of pl] pl off(5) by (simp add: D_def)
  have act: "unat (pl + n) = P + unat n" using pl off(5) by (simp add: unat_word_ariths)
  have unfold: "collect_align base None r s =
      Some (forget (if D < P + unat n then push_delta (rel_offset r) (ucast (pl + n - next_multiple_of pl (2 ^ k))) s else s))"
  proof -
    have "unat ((2 :: u64) ^ k) = 2 ^ k" using k(1) by (simp add: unat_exp)
    then have "(2 :: u64) ^ k \<noteq> 0" by (metis power_not_zero unat_0 zero_neq_numeral)
    then show ?thesis
      using False k(2) des act
      by (simp add: collect_align_def n_def [symmetric] existing_at_def existing_before_def pl_def [symmetric]
          word_less_nat_alt Let_def diff_diff_eq)
  qed
  show thesis
  proof (cases "D < P + unat n")
    case True
    define x where "x = (ucast (pl + n - next_multiple_of pl (2 ^ k)) :: u32)"
    have "unat (pl + n - next_multiple_of pl (2 ^ k)) = P + unat n - D"
      using True des act by (simp add: unat_sub word_le_nat_alt)
    moreover have "P + unat n - D < 2 ^ 32" using D(1) off(4) by linarith
    ultimately have x: "unat x = P + unat n - D" by (simp add: x_def unsigned_ucast_eq take_bit_nat_eq_self)
    have "scan_inv (unat (rel_offset r) + unat n) (Some r) (forget (push_delta (rel_offset r) x s))"
    proof (rule scan_inv_push [OF inv off(1)])
      have "x \<noteq> 0" using x True by auto
      then show "0 < x" by (simp add: word_gt_0)
      show "even (unat x)" using x pl(2) evD off(3) D(1) True by simp
      show "unat (rel_offset r) + unat x \<le> unat (rel_offset r) + unat n" using x D(1) by simp
      show "unat (rel_offset r) + unat n < 2 ^ 63" using off(5) by simp
    qed
    moreover have "co_raw (forget (push_delta (rel_offset r) x s)) = co_raw s @ removes r x"
      using x True by (auto simp: forget_def push_delta_def removes_def)
    moreover have "collect_align base None r s = Some (forget (push_delta (rel_offset r) x s))"
      using unfold True by (simp add: x_def)
    moreover have "P + unat n - unat x = D" using x D(1) True by simp
    ultimately show thesis
      using that [of "forget (push_delta (rel_offset r) x s)" x] x D span k by (simp add: P_def [symmetric] unat_exp)
  next
    case False
    have "scan_inv (unat (rel_offset r) + unat n) (Some r) (forget s)" using inv off(1) by (auto intro: scan_inv_weaken)
    moreover have "co_raw (forget s) = co_raw s @ removes r 0" by (simp add: forget_def removes_def)
    moreover have "2 ^ k dvd P + unat n" if "2 ^ k \<le> unat n + 2"
    proof -
      have "D \<le> P + unat n + 1" using D(2) that by linarith
      then have "D \<le> P + unat n" using pl(2) off(3) evD by presburger
      with False have "P + unat n = D" by simp
      with D(3) show ?thesis by simp
    qed
    ultimately show thesis using that [of "forget s" 0] unfold False span k by (simp add: P_def [symmetric] unat_exp)
  qed
qed

text \<open>A state that a relocation may lead to: the invariant holds, and deletions were only added from \<open>lo\<close> on.\<close>

definition scan_next :: "nat \<Rightarrow> nat \<Rightarrow> relocation \<Rightarrow> collect_state \<Rightarrow> collect_state \<Rightarrow> bool" where
  "scan_next lo hi r s s' \<longleftrightarrow>
     scan_inv hi (Some r) s' \<and> (\<exists>extra. co_raw s' = co_raw s @ extra \<and> (\<forall>(off, n) \<in> set extra. lo \<le> unat off))"

lemma scan_next_forget: "scan_inv lo p s \<Longrightarrow> lo \<le> hi \<Longrightarrow> scan_next lo hi r s (forget s)"
  using scan_inv_weaken [of lo p s hi "Some r"] by (simp add: scan_next_def forget_def)

lemma scan_next_margin: "scan_inv lo p s \<Longrightarrow> lo \<le> hi \<Longrightarrow> scan_next lo hi r s (forget (lower_margin m s))"
  using scan_inv_weaken [of lo p "lower_margin m s" hi "Some r"]
  by (simp add: scan_next_def forget_def scan_inv_margin) (simp add: lower_margin_def)

lemma scan_next_push:
  "scan_inv lo p s \<Longrightarrow> lo \<le> unat off \<Longrightarrow> 0 < n \<Longrightarrow> even (unat n) \<Longrightarrow> unat off + unat n \<le> hi \<Longrightarrow> hi < 2 ^ 63 \<Longrightarrow>
     scan_next lo hi r s (forget (push_delta off n s))"
  using scan_inv_push [of lo p s off n hi "Some r"] by (simp add: scan_next_def) (simp add: forget_def push_delta_def)

lemma unat_plus_small: "unat (a :: u64) + unat b < 2 ^ 63 \<Longrightarrow> unat (a + b) = unat a + unat b"
  by (simp add: unat_word_ariths)

lemma collect_call_next:
  assumes "scan_inv lo p s" "lo \<le> unat off" "unat off + 8 < 2 ^ 63"
  shows "scan_next lo (unat off + 8) r s (forget (collect_call base resolve off i s))"
proof -
  have "unat (off + 4) = unat off + 4" using assms(3) unat_plus_small [of off 4] by simp
  then show ?thesis
    using assms unfolding collect_call_def
    by (auto simp: Let_def split: option.split intro!: scan_next_forget scan_next_margin scan_next_push)
qed

lemma collect_hi20_next:
  assumes "scan_inv lo p s" "lo \<le> unat (rel_offset r)" "unat (rel_offset r) + rel_span p r < 2 ^ 63"
    "rel_type r = ''R_RISCV_RELAX''"
  shows "scan_next lo (unat (rel_offset r) + rel_span p r) r s (forget (collect_hi20 bytes existing resolve r s))"
proof (cases "co_prev_hi20 s")
  case None
  then show ?thesis using assms by (auto simp: collect_hi20_def intro: scan_next_forget)
next
  case (Some h)
  then obtain off i ad where h: "co_prev_hi20 s = Some (off, i, ad)" by (cases h) auto
  then obtain c where c: "p = Some c" "rel_type c = ''R_RISCV_HI20''" "rel_offset c = off"
    using assms(1) by (auto simp: scan_inv_def)
  have span: "rel_span p r = 4" using c assms(4) by (simp add: rel_span_def)
  have "unat (rel_offset r + 2) = unat (rel_offset r) + 2" using assms(3) span unat_plus_small [of "rel_offset r" 2] by simp
  then show ?thesis
    using assms span h unfolding collect_hi20_def
    by (auto simp: Let_def split: option.split intro!: scan_next_forget scan_next_margin scan_next_push)
qed

lemma collect_step_next:
  assumes inv: "scan_inv lo p s" and sp: "spaced (unat base) lo p (r # rs)" and base: "even (unat base)"
  obtains s' where "collect_step base bytes None resolve r s = Some s'" "scan_next lo (unat (rel_offset r) + rel_span p r) r s s'"
proof -
  have lo: "lo \<le> unat (rel_offset r)" "lo \<le> unat (rel_offset r) + rel_span p r" "unat (rel_offset r) + rel_span p r < 2 ^ 63"
    using sp by (auto simp: Let_def)
  consider (al) "rel_type r = ''R_RISCV_ALIGN''" | (call) "rel_type r \<in> {''R_RISCV_CALL'', ''R_RISCV_CALL_PLT''}"
    | (hi) "rel_type r = ''R_RISCV_HI20''" | (rx) "rel_type r = ''R_RISCV_RELAX''"
    | (other) "rel_type r \<notin> {''R_RISCV_ALIGN'', ''R_RISCV_CALL'', ''R_RISCV_CALL_PLT'', ''R_RISCV_HI20'', ''R_RISCV_RELAX''}"
    by blast
  then show thesis
  proof cases
    case al
    obtain s' removed where "collect_align base None r s = Some s'" "scan_inv (unat (rel_offset r) + rel_span p r) (Some r) s'"
      "co_raw s' = co_raw s @ removes r removed"
      using collect_align_step [OF inv sp al base] by metis
    with that [of s'] al lo show thesis by (auto simp: collect_step_def scan_next_def removes_def)
  next
    case call
    then show thesis using that [OF _ _] inv lo scan_inv_weaken [OF inv lo(2)]
      by (fastforce simp: collect_step_def scan_next_def scan_inv_def forget_def)
  next
    case hi
    then show thesis using that inv lo scan_inv_weaken [OF inv lo(2)]
      by (fastforce simp: collect_step_def scan_next_def scan_inv_def forget_def)
  next
    case rx
    have h: "scan_next lo (unat (rel_offset r) + rel_span p r) r s (forget (collect_hi20 bytes None resolve r s))"
      by (rule collect_hi20_next [OF inv lo(1,3) rx])
    have "scan_next lo (unat (rel_offset r) + rel_span p r) r s (collect_relax base bytes None resolve r s)"
    proof (cases "co_prev_call s")
      case None
      with h show ?thesis by (simp add: collect_relax_def)
    next
      case (Some x)
      then obtain off i where x: "co_prev_call s = Some (off, i)" by (cases x) auto
      then obtain c where c: "p = Some c" "rel_type c \<in> {''R_RISCV_CALL'', ''R_RISCV_CALL_PLT''}" "rel_offset c = off"
        using inv by (auto simp: scan_inv_def)
      have "rel_span p r = 8" using c rx by (auto simp: rel_span_def)
      with h x lo collect_call_next [OF inv, of "rel_offset r" r base resolve i] show ?thesis
        by (auto simp: collect_relax_def)
    qed
    with that rx show thesis by (simp add: collect_step_def)
  next
    case other
    with that scan_next_forget [OF inv lo(2)] show thesis by (simp add: collect_step_def)
  qed
qed

lemma collect_from_append:
  "collect_from base bytes existing resolve (xs @ ys) s =
     do { s' \<leftarrow> collect_from base bytes existing resolve xs s; collect_from base bytes existing resolve ys s' }"
  by (induction xs arbitrary: s) (auto split: bind_split)

lemma collect_from_next:
  assumes "scan_inv lo p s" "spaced (unat base) lo p (xs @ ys)" "even (unat base)"
  shows "\<exists>s' lo' p' extra. collect_from base bytes None resolve xs s = Some s' \<and> scan_inv lo' p' s' \<and> lo \<le> lo' \<and>
           spaced (unat base) lo' p' ys \<and> co_raw s' = co_raw s @ extra \<and> (\<forall>(off, n) \<in> set extra. lo \<le> unat off)"
  using assms
proof (induction xs arbitrary: lo p s)
  case Nil
  then show ?case by (auto intro!: exI [of _ lo] exI [of _ p])
next
  case (Cons r xs)
  obtain s1 where s1: "collect_step base bytes None resolve r s = Some s1"
    "scan_next lo (unat (rel_offset r) + rel_span p r) r s s1"
    using collect_step_next [OF Cons.prems(1) Cons.prems(2) [unfolded append_Cons] Cons.prems(3)] by blast
  obtain e1 where e1: "co_raw s1 = co_raw s @ e1" "\<forall>(off, n) \<in> set e1. lo \<le> unat off"
    using s1(2) by (auto simp: scan_next_def)
  have inv: "scan_inv (unat (rel_offset r) + rel_span p r) (Some r) s1" using s1(2) by (simp add: scan_next_def)
  have sp: "spaced (unat base) (unat (rel_offset r) + rel_span p r) (Some r) (xs @ ys)"
    and lo: "lo \<le> unat (rel_offset r) + rel_span p r"
    using Cons.prems(2) by (auto simp: Let_def)
  obtain s' lo' p' e2 where r: "collect_from base bytes None resolve xs s1 = Some s'" "scan_inv lo' p' s'"
    "unat (rel_offset r) + rel_span p r \<le> lo'" "spaced (unat base) lo' p' ys" "co_raw s' = co_raw s1 @ e2"
    "\<forall>(off, n) \<in> set e2. unat (rel_offset r) + rel_span p r \<le> unat off"
    using Cons.IH [OF inv sp Cons.prems(3)] by blast
  have "\<forall>(off, n) \<in> set (e1 @ e2). lo \<le> unat off" using e1(2) r(6) lo by fastforce
  with s1(1) r e1(1) lo show ?case
    by (intro exI [of _ s'] exI [of _ lo'] exI [of _ p'] exI [of _ "e1 @ e2"]) simp
qed

lemma scan_inv_start: "scan_inv 0 None collect_start"
  by (simp add: scan_inv_def collect_start_def raw_ok_def sum_deleted_def)

text \<open>The deletions of a section, as the map of the object keeps them: nothing when there are none.\<close>

definition deltas_of :: "(u64 \<times> u32) list \<Rightarrow> SectionRelaxDeltas option" where
  "deltas_of raw = (if raw = [] then None else Some (deltas_new raw))"

lemma deleted_before_split:
  assumes "\<forall>(off, n) \<in> set xs. off < x" "\<forall>(off, n) \<in> set ys. x \<le> off"
  shows "deleted_before (xs @ ys) x = sum_deleted xs"
proof -
  have "filter (\<lambda>(off, n). off < x) xs = xs" using assms(1) by (auto simp: filter_id_conv)
  moreover have "filter (\<lambda>(off, n). off < x) ys = []" using assms(2) by (auto simp: filter_empty_conv not_less)
  ultimately show ?thesis by (simp add: deleted_before_def sum_deleted_def)
qed

lemma opt_offset_deltas_of:
  "raw_ok raw \<Longrightarrow> opt_input_to_output (deltas_of raw) x = x - deleted_before raw x"
  using raw_ok_sorted [of 0 raw]
  by (auto simp: deltas_of_def opt_input_to_output_def input_to_output_spec raw_ok_def deleted_before_def)

lemma removed_deltas_of:
  "raw_ok raw \<Longrightarrow> (case deltas_of raw of Some d \<Rightarrow> delta_bytes_at d off | None \<Rightarrow> 0) = (case map_of raw off of None \<Rightarrow> 0 | Some n \<Rightarrow> n)"
  using raw_ok_sorted [of 0 raw] search_deltas(1) [of raw off] by (auto simp: deltas_of_def raw_ok_def)

text \<open>The scan as seen from one \<open>ALIGN\<close>: what was deleted before it, and what it removes itself.\<close>

lemma collect_align_spec:
  fixes r :: relocation
  defines "n \<equiv> (word_of_int (rel_addend r) :: u64)"
  assumes "r \<in> set rels" "rel_type r = ''R_RISCV_ALIGN''" "0 < n" "unat (next_power_of_two n) \<le> unat n + 2"
    and sp: "spaced (unat base) 0 None rels" and base: "even (unat base)"
  obtains raw m removed where "riscv_collect_relaxation_deltas base bytes rels None resolve = Some (raw, m)" "raw_ok raw"
    "map_of raw (rel_offset r) = (if removed = 0 then None else Some removed)" "unat removed \<le> unat n"
    "unat (deleted_before raw (rel_offset r)) \<le> unat (rel_offset r)"
    "unat (next_power_of_two n) dvd
       unat base + (unat (rel_offset r) - unat (deleted_before raw (rel_offset r))) + unat n - unat removed"
proof -
  obtain xs ys where rels: "rels = xs @ r # ys" using assms(2) split_list by metis
  obtain s1 lo1 p1 where s1: "collect_from base bytes None resolve xs collect_start = Some s1" "scan_inv lo1 p1 s1"
    "spaced (unat base) lo1 p1 (r # ys)"
    using collect_from_next [OF scan_inv_start sp [unfolded rels] base] by metis
  obtain s2 removed where s2: "collect_align base None r s1 = Some s2"
    "scan_inv (unat (rel_offset r) + rel_span p1 r) (Some r) s2" "co_raw s2 = co_raw s1 @ removes r removed"
    "unat removed \<le> unat n" "unat (next_power_of_two n) dvd scan_place base s1 r + unat n - unat removed"
    using collect_align_step [OF s1(2,3) assms(3) base] assms(4,5) unfolding n_def by metis
  have sp2: "spaced (unat base) (unat (rel_offset r) + rel_span p1 r) (Some r) (ys @ [])" using s1(3) by (simp add: Let_def)
  obtain s3 lo3 p3 extra where s3: "collect_from base bytes None resolve ys s2 = Some s3" "scan_inv lo3 p3 s3"
    "co_raw s3 = co_raw s2 @ extra" "\<forall>(off, k) \<in> set extra. unat (rel_offset r) + rel_span p1 r \<le> unat off"
    using collect_from_next [OF s2(2) sp2 base] by metis
  have span: "rel_span p1 r = unat n" using assms(3) by (simp add: rel_span_def n_def)
  have "0 < unat n" using assms(4) by (simp add: unat_gt_0 word_gt_0 [symmetric])
  have c: "collect_step base bytes None resolve r s1 = Some s2" using s2(1) assms(3) by (simp add: collect_step_def)
  have col: "riscv_collect_relaxation_deltas base bytes rels None resolve = Some (co_raw s3, co_margin s3)"
    by (simp add: riscv_collect_relaxation_deltas_def rels collect_from_append s1(1) c s3(1))
  have ok: "raw_ok (co_raw s3)" using s3(2) by (simp add: scan_inv_def)
  have raw: "co_raw s3 = co_raw s1 @ removes r removed @ extra" using s2(3) s3(3) by simp
  have late: "\<forall>(off, k) \<in> set extra. rel_offset r < off"
    using s3(4) span \<open>0 < unat n\<close> by (fastforce simp: word_less_nat_alt)
  have lo1: "lo1 \<le> unat (rel_offset r)" using s1(3) by (simp add: Let_def)
  have early: "off < rel_offset r" if "(off, k) \<in> set (co_raw s1)" for off k
  proof -
    have "unat off + unat k \<le> lo1" "0 < k"
      using that s1(2) raw_ok_above [of 0 "co_raw s1" off k] by (auto simp: scan_inv_def raw_ok_def)
    moreover have "0 < unat k" using \<open>0 < k\<close> by (simp add: unat_gt_0 word_gt_0)
    ultimately show ?thesis using lo1 by (simp add: word_less_nat_alt)
  qed
  have before: "deleted_before (co_raw s3) (rel_offset r) = sum_deleted (co_raw s1)"
    unfolding raw by (rule deleted_before_split) (use early late in \<open>auto simp: removes_def intro: less_imp_le split: if_splits\<close>)
  have "map_of (co_raw s3) (rel_offset r) = (if removed = 0 then None else Some removed)"
  proof -
    have "map_of (co_raw s1) (rel_offset r) = None" using early by (fastforce simp: map_of_eq_None_iff)
    moreover have "map_of extra (rel_offset r) = None" using late by (fastforce simp: map_of_eq_None_iff)
    ultimately show ?thesis unfolding raw by (simp add: map_add_def removes_def)
  qed
  moreover have "unat (sum_deleted (co_raw s1)) \<le> unat (rel_offset r)"
    using sum_deleted_bound [of 0 "co_raw s1" "unat (rel_offset r)"] s1(2) lo1 unsigned_less [of "rel_offset r"]
    by (fastforce simp: scan_inv_def raw_ok_def)
  ultimately show thesis
    using that [OF col ok] s2(4,5) before by (simp add: scan_place_def)
qed

section \<open>Alignment survives relaxation\<close>

lemma length_fill_nop_padding: "length (riscv_fill_nop_padding bs) = length bs"
  by (induction bs rule: riscv_fill_nop_padding.induct) simp_all

lemma riscv_align_info: "map_option ri_kind (riscv_relocation_type_from_raw ''R_RISCV_ALIGN'') = Some AlignmentReloc"
  by code_simp

lemma apply_align:
  assumes "rel_type r = ''R_RISCV_ALIGN''"
    and pad: "padding = unat (word_of_int (rel_addend r) :: u64)
                - unat (case relax_deltas of Some d \<Rightarrow> delta_bytes_at d (rel_offset r) | None \<Rightarrow> 0)"
    and "unat offset + padding \<le> length out"
  shows "apply_relocation (riscv_ops t) env si cache rest relax_deltas r offset (out, tw) =
    Ok ((take (unat offset) out @ riscv_fill_nop_padding (take padding (drop (unat offset) out)) @
         drop (unat offset + padding) out, tw), Normal)"
proof -
  obtain info where "riscv_relocation_type_from_raw ''R_RISCV_ALIGN'' = Some info" "ri_kind info = AlignmentReloc"
    using riscv_align_info by auto
  moreover have "unat (case relax_deltas of Some d \<Rightarrow> (ucast (delta_bytes_at d (rel_offset r)) :: u64) | None \<Rightarrow> 0) =
      unat (case relax_deltas of Some d \<Rightarrow> delta_bytes_at d (rel_offset r) | None \<Rightarrow> 0)"
    by (auto split: option.split simp: unat_ucast_u32)
  ultimately show ?thesis
    using assms
    by (simp add: apply_relocation_def riscv_ops_def with_context_def Let_def slice_def splice_def of_panic_def
        length_fill_nop_padding)
qed

text \<open>
  C33. \<open>R_RISCV_ALIGN\<close> keeps its promise in the first relaxation scan of a section, the one with no
  deletions from an earlier scan. Scan a section whose relocations are in order, at even offsets, with
  the bytes that may be deleted for one ending before the next and paddings even and below 4 GiB
  (\<open>spaced\<close>), at a base address that is even and a multiple of \<open>n.next_power_of_two()\<close> for an \<open>ALIGN\<close> in
  it with a padding of \<open>n\<close> bytes. The
  scan finishes with an ordered table of deletions, and wherever the section then ends up at another
  multiple of that power of two, applying the \<open>ALIGN\<close> at its translated offset fills what is left of the
  padding with \<open>nop\<close>s, changes nothing else, and the code behind it starts at a multiple of
  \<open>n.next_power_of_two()\<close>, provided that the padding has at most two bytes less than that, as an
  assembler emits it for code that may be compressed. Nothing is claimed after further scans: a later
  scan skips an \<open>ALIGN\<close> that has a deletion already, and \<open>riscv_align_second_pass\<close> below shows the
  alignment lost there.
\<close>

theorem riscv_align_honoured:
  fixes r :: relocation
  assumes "r \<in> set rels" "rel_type r = ''R_RISCV_ALIGN''"
    and n: "n = (word_of_int (rel_addend r) :: u64)" "0 < n" "unat (next_power_of_two n) \<le> unat n + 2"
    and "spaced (unat base) 0 None rels" "even (unat base)"
    and moved: "unat (next_power_of_two n) dvd unat base" "unat (next_power_of_two n) dvd unat (si_address si)"
  shows "\<exists>raw m offset padding.
      riscv_collect_relaxation_deltas base bytes rels None resolve = Some (raw, m) \<and> raw_ok raw \<and>
      offset = opt_input_to_output (deltas_of raw) (rel_offset r) \<and> padding \<le> unat n \<and>
      unat (next_power_of_two n) dvd unat (si_address si) + unat offset + padding \<and>
      (unat offset + padding \<le> length out \<longrightarrow>
         apply_relocation (riscv_ops t) env si cache rest (deltas_of raw) r offset (out, tw) =
         Ok ((take (unat offset) out @ riscv_fill_nop_padding (take padding (drop (unat offset) out)) @
              drop (unat offset + padding) out, tw), Normal))"
proof -
  obtain raw m removed where raw: "riscv_collect_relaxation_deltas base bytes rels None resolve = Some (raw, m)" "raw_ok raw"
    "map_of raw (rel_offset r) = (if removed = 0 then None else Some removed)" "unat removed \<le> unat n"
    "unat (deleted_before raw (rel_offset r)) \<le> unat (rel_offset r)"
    "unat (next_power_of_two n) dvd
       unat base + (unat (rel_offset r) - unat (deleted_before raw (rel_offset r))) + unat n - unat removed"
    using collect_align_spec [OF assms(1,2) n(2,3) [unfolded n(1)] assms(6,7), of bytes resolve] unfolding n(1) by metis
  define offset where "offset = opt_input_to_output (deltas_of raw) (rel_offset r)"
  have off: "unat offset = unat (rel_offset r) - unat (deleted_before raw (rel_offset r))"
    unfolding offset_def opt_offset_deltas_of [OF raw(2)] using raw(5) by (simp add: unat_sub word_le_nat_alt)
  have rem: "(case deltas_of raw of Some d \<Rightarrow> delta_bytes_at d (rel_offset r) | None \<Rightarrow> 0) = removed"
    using removed_deltas_of [OF raw(2), of "rel_offset r"] raw(3) by (auto split: if_splits)
  have sum: "unat base + unat offset + unat n - unat removed = unat base + (unat offset + (unat n - unat removed))"
    using raw(4) by simp
  have "unat (next_power_of_two n) dvd unat base + (unat offset + (unat n - unat removed))"
    using raw(6) unfolding off [symmetric] sum .
  then have "unat (next_power_of_two n) dvd unat offset + (unat n - unat removed)" using moved(1) dvd_add_right_iff by blast
  then have dv: "unat (next_power_of_two n) dvd unat (si_address si) + unat offset + (unat n - unat removed)"
    using moved(2) by (metis add.assoc dvd_add)
  have "apply_relocation (riscv_ops t) env si cache rest (deltas_of raw) r offset (out, tw) =
      Ok ((take (unat offset) out @ riscv_fill_nop_padding (take (unat n - unat removed) (drop (unat offset) out)) @
              drop (unat offset + (unat n - unat removed)) out, tw), Normal)"
    if "unat offset + (unat n - unat removed) \<le> length out"
    by (rule apply_align [OF assms(2) _ that]) (simp add: rem n(1))
  with raw(1,2) offset_def dv show ?thesis
    by (intro exI [of _ raw] exI [of _ m] exI [of _ offset] exI [of _ "unat n - unat removed"]) simp
qed

definition align_example :: "relocation list" where
  "align_example =
     [\<lparr>rel_offset = 0, rel_type = ''R_RISCV_CALL_PLT'', rel_symbol = Some 1, rel_addend = 0\<rparr>,
      \<lparr>rel_offset = 0, rel_type = ''R_RISCV_RELAX'', rel_symbol = None, rel_addend = 0\<rparr>,
      \<lparr>rel_offset = 8, rel_type = ''R_RISCV_ALIGN'', rel_symbol = None, rel_addend = 6\<rparr>]"

theorem riscv_align_honoured_witness:
  "\<exists>raw m offset padding.
      riscv_collect_relaxation_deltas 0x1000 [] align_example None (\<lambda>_. Some \<lparr>rs_output_address = 0x1100, rs_interposable = False\<rparr>) =
        Some (raw, m) \<and> raw_ok raw \<and>
      offset = opt_input_to_output (deltas_of raw) 8 \<and> padding \<le> 6 \<and> 8 dvd 0x1000 + unat offset + padding"
proof -
  let ?r = "align_example ! 2"
  have r: "?r \<in> set align_example" "rel_type ?r = ''R_RISCV_ALIGN''" "6 = (word_of_int (rel_addend ?r) :: u64)" "rel_offset ?r = 8"
    by (simp_all add: align_example_def)
  have p: "unat (next_power_of_two 6) = 8" "spaced (unat (0x1000 :: u64)) 0 None align_example"
    by (simp_all add: next_power_of_two_def upt_conv_Cons align_example_def rel_span_def)
  have n: "(0 :: u64) < 6" "unat (next_power_of_two 6) \<le> unat (6 :: u64) + 2" "even (unat (0x1000 :: u64))"
    "unat (next_power_of_two 6) dvd unat (0x1000 :: u64)"
    "unat (next_power_of_two 6) dvd unat (si_address \<lparr>si_address = 0x1000, si_writable = False, si_flags = 4, si_part_id = 0\<rparr>)"
    by (simp_all add: p(1))
  fix env cache rest and tw :: TableWriter and t out
  show ?thesis
    using riscv_align_honoured [OF r(1-3) n(1,2) p(2) n(3-5), of "[]"
        "\<lambda>_. Some \<lparr>rs_output_address = 0x1100, rs_interposable = False\<rparr>" out t env cache rest tw]
    unfolding p(1) r(4) by - (elim exE conjE, intro exI conjI, assumption+, simp_all)
qed

section \<open>Where alignment is lost\<close>

text \<open>
  A padding whose length is a power of two, as an assembler emits it for an alignment of twice that
  (two bytes for four-byte alignment of compressible code): all of it is deleted, and the code stays
  where the padding began.
\<close>

lemma riscv_align_two_bytes:
  "riscv_collect_relaxation_deltas 0x1000 [] [\<lparr>rel_offset = 2, rel_type = ''R_RISCV_ALIGN'', rel_symbol = None, rel_addend = 2\<rparr>]
     None (\<lambda>_. None) = Some ([(2, 2)], None)"
  by code_simp

text \<open>
  A call that only comes into range in the second pass: the \<open>ALIGN\<close> behind it is skipped because it
  has a deletion already, and the code that was at a multiple of eight moves down by four.
\<close>

lemma riscv_align_second_pass:
  "riscv_collect_relaxation_deltas 0x1000 [] align_example None
     (\<lambda>_. Some \<lparr>rs_output_address = 0x101002, rs_interposable = False\<rparr>) = Some ([(8, 6)], Some 3)"
  "riscv_collect_relaxation_deltas 0x1000 [] align_example (Some (deltas_new [(8, 6)]))
     (\<lambda>_. Some \<lparr>rs_output_address = 0x100ffe, rs_interposable = False\<rparr>) = Some ([(4, 4)], None)"
  "input_to_output_offset (merge_additional (deltas_new [(8, 6)]) [(4, 4)]) 14 = 4"
  by code_simp+

end
