(* ===== verification/RiscV64_Pair.thy ===== *)
theory RiscV64_Pair
  imports Elf_RiscV64
begin

text \<open>
  The two halves of a PC-relative address on RISC-V, through the whole relocation loop. The low half
  names not its target but the instruction that holds the high half, so the writer has to find the
  relocation there and compute its value again.
\<close>

section \<open>Storing an immediate\<close>

lemma holds_take_bit:
  assumes "i \<in> {UType, IType}" "holds (riscv_segs i) (take_bit 32 v) bs"
  shows "holds (riscv_segs i) v bs"
proof -
  have low: "bit (take_bit 32 v + c) k = bit (v + c) k" if "k < 32" for k and c :: u64
  proof -
    have "bit (take_bit 32 (take_bit 32 v + c)) k = bit (take_bit 32 (v + c)) k" by (simp only: take_bit_add_word)
    then show ?thesis using that by (simp add: bit_take_bit_iff)
  qed
  have seg: "seg_bit g (take_bit 32 v) k = seg_bit g v k" if "g \<in> set (riscv_segs i)" "seg_covers g k" for g k
    using that assms(1) low [where c = 0] low [where c = "0x800"] by (auto simp: seg_covers_def seg_bit_def)
  show ?thesis using assms(2) seg by (simp add: holds_def)
qed

lemma encoded_tail:
  assumes "encoded (riscv_segs i) v bs bs'" "i \<in> {UType, IType}" "4 \<le> j" "j < length bs"
  shows "bs' ! j = bs ! j"
proof (rule bit_word_eqI)
  fix b assume "b < LENGTH(8)"
  then have b: "(8 * j + b) div 8 = j" "(8 * j + b) mod 8 = b" by auto
  have "\<not> in_field (riscv_segs i) (8 * j + b)"
    using assms(2,3) by (auto simp: in_field_def seg_covers_def)
  then have "byte_bit bs' (8 * j + b) \<longleftrightarrow> byte_bit bs (8 * j + b)" using assms(1) by (simp add: encoded_def)
  then show "bit (bs' ! j) b = bit (bs ! j) b" using assms(1,4) b by (simp add: byte_bit_def encoded_def)
qed

lemma riscv_write_at:
  assumes "ri_size info = bit_mask_riscv 0 32 i" "i \<in> {UType, IType}" "\<not> is_uleb_pair (ri_kind info)"
    and "verify info v = Ok ()" "off + 4 \<le> length out"
  obtains out' where "write_at env info v off out = Ok out'" "length out' = length out"
    "holds (riscv_segs i) v (drop off out')" "\<And>j. j < length out \<Longrightarrow> j < off \<or> off + 4 \<le> j \<Longrightarrow> out' ! j = out ! j"
proof -
  have pre: "riscv_pre i (take_bit 32 v) (drop off out)" using assms(2,5) by (auto simp: riscv_pre_def riscv_bytes_def)
  obtain bs where bs: "riscv_write_to_value i (take_bit 32 v) (sint v < 0) (drop off out) = Some bs"
    "encoded (riscv_segs i) (take_bit 32 v) (drop off out) bs"
    using riscv_field.wr_encodes [OF pre, of "sint v < 0"] by blast
  have "write_to_buffer (le_uleb env) info v (drop off out) = Ok bs"
    using assms(1,3,4) bs(1) by (simp add: write_to_buffer_sized write_sized_def size_defs extract_bit_range_eq of_panic_def)
  then have w: "write_at env info v off out = Ok (take off out @ bs)"
    using assms(5) by (simp add: write_at_def map_error_def)
  have len: "length bs = length out - off" using bs(2) by (simp add: encoded_def)
  show thesis
  proof (rule that [OF w])
    show "length (take off out @ bs) = length out" using len assms(5) by simp
    show "holds (riscv_segs i) v (drop off (take off out @ bs))"
      using holds_take_bit [OF assms(2)] bs(2) assms(5) by (simp add: encoded_def)
    fix j assume "j < length out" "j < off \<or> off + 4 \<le> j"
    then show "(take off out @ bs) ! j = out ! j"
      using encoded_tail [OF bs(2) assms(2), of "j - off"] assms(5) by (auto simp: nth_append)
  qed
qed

lemma pair_value:
  assumes "- (2 ^ 31) \<le> sint v" "sint v < 2 ^ 31 - 2 ^ 11"
    and "holds (riscv_segs UType) v b1" "4 \<le> length b1" "holds (riscv_segs IType) v b2" "4 \<le> length b2"
  shows "lui_exec (getw 4 b1) + addi_imm (getw 4 b2) = v"
proof -
  have "sint (v + word_of_int 0x800) = sint v + 0x800" using assms(1,2) by (intro sint_add_small) auto
  then have "signed_take_bit 31 (v + 0x800) = v + 0x800" using assms(1,2) by (intro signed_take_bit_id) auto
  with lui_exec_holds [OF assms(3,4)] addi_imm_holds [OF assms(5,6)] hi_lo_sum [of 11 v] show ?thesis by simp
qed

section \<open>The cursor\<close>

definition cursor_opt :: "(u64 \<times> u32) list \<Rightarrow> u64 \<Rightarrow> RelaxCursor option \<Rightarrow> bool" where
  "cursor_opt raw x c = (case c of None \<Rightarrow> raw = [] | Some k \<Rightarrow> raw \<noteq> [] \<and> cursor_at (push_deltas 0 raw) x k)"

lemma cursor_opt_start: "cursor_opt raw 0 (map_option deltas_cursor (deltas_of raw))"
  by (simp add: cursor_opt_def deltas_of_def cursor_at_def deltas_cursor_def deltas_new_def)

lemma cursor_opt_translate:
  assumes "raw_ok raw" "cursor_opt raw x c" "x \<le> y"
  obtains c' where "cursor_translate c y = (c', opt_input_to_output (deltas_of raw) y)" "cursor_opt raw y c'"
proof (cases c)
  case None
  with assms that [of None] show thesis
    by (simp add: cursor_opt_def cursor_translate_def deltas_of_def opt_input_to_output_def)
next
  case (Some k)
  have "strictly_sorted (map fst raw)" using assms(1) raw_ok_sorted by (auto simp: raw_ok_def)
  moreover have "cursor_at (push_deltas 0 raw) y k" using assms(2,3) Some cursor_at_mono by (auto simp: cursor_opt_def)
  ultimately have "snd (translate k y) = y - deleted_before raw y" "cursor_at (push_deltas 0 raw) y (fst (translate k y))"
    using translate_spec by blast+
  with assms(1,2) Some that [of "Some (fst (translate k y))"] show thesis
    by (cases "translate k y") (simp add: cursor_opt_def cursor_translate_def opt_offset_deltas_of)
qed

section \<open>Relocations that only mark a place\<close>

lemma riscv_relax_info: "map_option ri_kind (riscv_relocation_type_from_raw ''R_RISCV_RELAX'') = Some NoRelocation"
  by code_simp

lemma apply_marker:
  "rel_type r = ''R_RISCV_RELAX'' \<Longrightarrow>
     apply_relocation (riscv_ops t) env si cache rest relax_deltas r off st = Ok (st, Normal)"
  using riscv_relax_info by (cases st) (auto simp: apply_relocation_def riscv_ops_def with_context_def Let_def)

lemma apply_markers:
  assumes "raw_ok raw" "cursor_opt raw x c" "sorted (x # map rel_offset (xs @ ys))" "\<forall>r \<in> set xs. rel_type r = ''R_RISCV_RELAX''"
  shows "\<exists>c' cache' x'. cursor_opt raw x' c' \<and> sorted (x' # map rel_offset ys) \<and>
    rc_high_part_symbols cache' = rc_high_part_symbols cache \<and>
    apply_relocations_from (riscv_ops t) env si (deltas_of raw) Normal cache c (xs @ ys) st =
    apply_relocations_from (riscv_ops t) env si (deltas_of raw) Normal cache' c' ys st"
  using assms(2-)
proof (induction xs arbitrary: x c cache)
  case Nil
  then show ?case by auto
next
  case (Cons r xs)
  have "x \<le> rel_offset r" using Cons.prems(2) by simp
  with assms(1) Cons.prems(1) obtain c1 where
    c1: "cursor_translate c (rel_offset r) = (c1, opt_input_to_output (deltas_of raw) (rel_offset r))" "cursor_opt raw (rel_offset r) c1"
    by (rule cursor_opt_translate)
  have r: "rel_type r = ''R_RISCV_RELAX''" using Cons.prems(3) by simp
  then have hp: "cache_high_part (riscv_ops t) (deltas_of raw) r cache = cache"
    by (simp add: cache_high_part_def riscv_ops_def riscv_high_part_relocations_def)
  have "\<exists>c' cache' x'. cursor_opt raw x' c' \<and> sorted (x' # map rel_offset ys) \<and>
      rc_high_part_symbols cache' = rc_high_part_symbols (cache\<lparr>rc_previous := Some r\<rparr>) \<and>
      apply_relocations_from (riscv_ops t) env si (deltas_of raw) Normal (cache\<lparr>rc_previous := Some r\<rparr>) c1 (xs @ ys) st =
      apply_relocations_from (riscv_ops t) env si (deltas_of raw) Normal cache' c' ys st"
    by (rule Cons.IH [OF c1(2)]) (use Cons.prems(2,3) in auto)
  then show ?case by (simp add: hp c1(1) apply_marker [OF r])
qed

section \<open>The two halves\<close>

definition pcrel_info :: "RelocationKind \<Rightarrow> RiscVInstruction \<Rightarrow> RelocationKindInfo" where
  "pcrel_info k i =
     \<lparr>ri_kind = k, ri_size = bit_mask_riscv 0 32 i, ri_mask = None, ri_range = range_new (- (2 ^ 31)) (2 ^ 32),
      ri_alignment = 1, ri_bias = 0, ri_thunkable = False\<rparr>"

lemma pcrel_rows:
  "riscv_relocation_type_from_raw ''R_RISCV_PCREL_HI20'' = Some (pcrel_info Relative UType)"
  "riscv_relocation_type_from_raw ''R_RISCV_PCREL_LO12_I'' = Some (pcrel_info RelativeRiscVLow12 IType)"
  by code_simp+

lemma pcrel_not_relaxed:
  "q_relocation q \<in> {''R_RISCV_PCREL_HI20'', ''R_RISCV_PCREL_LO12_I''} \<Longrightarrow> riscv_new_relaxation q = Some None"
  by (auto simp: riscv_new_relaxation_def pcrel_rows Let_def)

text \<open>A symbol that is neither an indirect function nor at address zero.\<close>

definition resolves_to :: "link_env \<Rightarrow> relocation \<Rightarrow> u64 \<Rightarrow> bool" where
  "resolves_to env r a \<longleftrightarrow>
     (\<exists>s res. rel_symbol r = Some s \<and> symbol_resolution env s = Some res \<and> \<not> is_ifunc (res_flags res) \<and>
              raw_value res = a \<and> a \<noteq> 0)"

lemma apply_pcrel_hi:
  assumes "rel_type hi = ''R_RISCV_PCREL_HI20''" "resolves_to env hi a"
  shows "apply_relocation (riscv_ops t) env si cache rest relax_deltas hi off (out, tw) =
    bind_outcome (write_at env (pcrel_info Relative UType) (a + word_of_int (rel_addend hi) - (si_address si + off)) (unat off) out)
      (\<lambda>out'. Ok ((out', tw), Normal))"
proof -
  obtain s res where r: "rel_symbol hi = Some s" "symbol_resolution env s = Some res" "\<not> is_ifunc (res_flags res)"
    "raw_value res = a" "a \<noteq> 0"
    using assms(2) by (auto simp: resolves_to_def)
  have "\<not> is_ppc64_branch (bit_mask_riscv 0 32 UType)" by (simp add: is_ppc64_branch_def size_defs)
  then show ?thesis
    using assms(1) r
    by (simp add: apply_relocation_def apply_resolved_def choose_relaxation_def riscv_ops_def pcrel_rows pcrel_not_relaxed
        with_context_def get_resolution_def of_panic_def reloc_value_def value_with_addend_def get_page_mask_def
        default_mask_def adjusts_content_def maybe_get_thunk_for_relocation_def Let_def
        riscv_is_disallowed_for_interposable_symbols_def pcrel_info_def algebra_simps)
qed

lemma apply_pcrel_lo:
  assumes lo: "rel_type lo = ''R_RISCV_PCREL_LO12_I''" "rel_addend lo = 0" "resolves_to env lo (si_address si + hi_off)"
    and hi: "rel_type hi = ''R_RISCV_PCREL_HI20''" "resolves_to env hi a"
    and found: "find_high_part (riscv_ops t) cache rest relax_deltas hi_off = Some hi"
  shows "apply_relocation (riscv_ops t) env si cache rest relax_deltas lo off (out, tw) =
    bind_outcome (write_at env (pcrel_info RelativeRiscVLow12 IType) (a + word_of_int (rel_addend hi) - (si_address si + hi_off)) (unat off) out)
      (\<lambda>out'. Ok ((out', tw), Normal))"
proof -
  obtain s res where r: "rel_symbol hi = Some s" "symbol_resolution env s = Some res" "\<not> is_ifunc (res_flags res)"
    "raw_value res = a" "a \<noteq> 0"
    using hi(2) by (auto simp: resolves_to_def)
  obtain l lres where l: "rel_symbol lo = Some l" "symbol_resolution env l = Some lres" "\<not> is_ifunc (res_flags lres)"
    "raw_value lres = si_address si + hi_off" "si_address si + hi_off \<noteq> 0"
    using lo(3) by (auto simp: resolves_to_def)
  have v: "riscv_low12_value (riscv_ops t) env cache rest relax_deltas (si_address si) 0 lres l 0 =
      Ok (a + word_of_int (rel_addend hi) - (si_address si + hi_off))"
    using r l hi(1) found
    by (simp add: riscv_low12_value_def value_with_addend_def ensure_def with_context_def get_resolution_def Let_def)
      (simp add: riscv_ops_def pcrel_rows pcrel_info_def value_with_addend_def algebra_simps)
  have "\<not> is_ppc64_branch (bit_mask_riscv 0 32 IType)" by (simp add: is_ppc64_branch_def size_defs)
  moreover have ops: "ar_relocation_from_raw (riscv_ops t) ''R_RISCV_PCREL_LO12_I'' = Some (pcrel_info RelativeRiscVLow12 IType)"
    "ar_new_relaxation (riscv_ops t) = riscv_new_relaxation" "ar_thunk_config (riscv_ops t) = None"
    "\<not> ar_disallowed_for_interposable (riscv_ops t) ''R_RISCV_PCREL_LO12_I''"
    by (simp_all add: riscv_ops_def pcrel_rows riscv_is_disallowed_for_interposable_symbols_def)
  ultimately show ?thesis
    using lo(1,2) l v
    by (simp add: apply_relocation_def apply_resolved_def choose_relaxation_def pcrel_not_relaxed
        with_context_def get_resolution_def of_panic_def reloc_value_def
        adjusts_content_def maybe_get_thunk_for_relocation_def Let_def pcrel_info_def)
qed

lemma pcrel_verify:
  "- (2 ^ 31) \<le> sint v \<Longrightarrow> sint v < 2 ^ 31 - 2 ^ 11 \<Longrightarrow> verify (pcrel_info k i) v = Ok ()"
  by (simp add: verify_Ok pcrel_info_def is_multiple_of_def range_contains_def range_new_def)

lemma pcrel_write:
  assumes "i \<in> {UType, IType}" "\<not> is_uleb_pair k" "- (2 ^ 31) \<le> sint v" "sint v < 2 ^ 31 - 2 ^ 11" "off + 4 \<le> length out"
  obtains out' where "write_at env (pcrel_info k i) v off out = Ok out'" "length out' = length out"
    "holds (riscv_segs i) v (drop off out')" "\<And>j. j < length out \<Longrightarrow> j < off \<or> off + 4 \<le> j \<Longrightarrow> out' ! j = out ! j"
  by (rule riscv_write_at [of "pcrel_info k i" i v off out env])
    (use assms pcrel_verify [OF assms(3,4)] in \<open>auto simp: pcrel_info_def\<close>)

lemma holds_take_4:
  assumes "holds (riscv_segs i) v bs" "i \<in> {UType, IType}" "take 4 bs' = take 4 bs"
  shows "holds (riscv_segs i) v bs'"
proof -
  have "byte_bit bs' k = byte_bit bs k" if "k < 32" for k
  proof -
    have k: "k div 8 < 4" using that by simp
    then have "take 4 bs' ! (k div 8) = bs' ! (k div 8)" "take 4 bs ! (k div 8) = bs ! (k div 8)" by simp_all
    moreover have "k div 8 < length bs' \<longleftrightarrow> k div 8 < length (take 4 bs')" "k div 8 < length bs \<longleftrightarrow> k div 8 < length (take 4 bs)"
      using k by auto
    ultimately show ?thesis unfolding byte_bit_def using assms(3) by metis
  qed
  then show ?thesis using assms(1,2) by (auto simp: holds_def seg_covers_def)
qed

text \<open>
  The range check of the high half admits distances that a sign-extended \<open>auipc\<close> cannot reach: for the
  distance \<open>2^31\<close> both writes succeed, and the two instructions add \<open>- 2^31\<close>.
\<close>

lemma pcrel_range_too_wide:
  "verify (pcrel_info Relative UType) (2 ^ 31) = Ok ()" "verify (pcrel_info RelativeRiscVLow12 IType) (2 ^ 31) = Ok ()"
  "riscv_write_to_value UType (2 ^ 31) False [0x17, 0x05, 0, 0] = Some [0x17, 0x05, 0, 0x80]"
  "riscv_write_to_value IType (2 ^ 31) False [0x13, 0x05, 0x05, 0] = Some [0x13, 0x05, 0x05, 0]"
  "lui_exec (getw 4 [0x17, 0x05, 0, 0x80]) + addi_imm (getw 4 [0x13, 0x05, 0x05, 0]) = - (2 ^ 31)"
  by (simp add: verify_Ok pcrel_info_def is_multiple_of_def range_contains_def range_new_def,
      simp add: verify_Ok pcrel_info_def is_multiple_of_def range_contains_def range_new_def, code_simp+)

text \<open>
  C34. The pair \<open>R_RISCV_PCREL_HI20\<close> and \<open>R_RISCV_PCREL_LO12_I\<close> through the relocation loop, with the
  markers that a compiler puts between them and any ordered deletions in the section: when the first
  instruction lies before the second one, both inside the section, the symbols are neither indirect
  functions nor at address zero, the second relocation has no addend and names the place where the
  first one is in the output, and the distance from that place to
  the symbol plus the addend of the first relocation is at least \<open>- 2^31\<close> and less than \<open>2^31 - 2^11\<close>, what
  the two instructions can add, the loop succeeds, and running them, \<open>auipc\<close> at its place and an I-type
  one on its result, gives the symbol plus the addend. Larger distances, up to \<open>2^32\<close>, also pass the
  range check of the code, and for those the pair computes another address (\<open>pcrel_range_too_wide\<close>).
\<close>

theorem riscv_pcrel_pair:
  assumes hi: "rel_type hi = ''R_RISCV_PCREL_HI20''" "resolves_to env hi a"
    and lo: "rel_type lo = ''R_RISCV_PCREL_LO12_I''" "rel_addend lo = 0" "resolves_to env lo (si_address si + hi_off)"
    and markers: "\<forall>r \<in> set (xs @ ys). rel_type r = ''R_RISCV_RELAX''" and order: "sorted (map rel_offset (hi # xs @ lo # ys))"
    and raw: "raw_ok raw" and off: "hi_off = opt_input_to_output (deltas_of raw) (rel_offset hi)"
    "lo_off = opt_input_to_output (deltas_of raw) (rel_offset lo)"
    and place: "unat hi_off + 4 \<le> unat lo_off" "unat lo_off + 4 \<le> length out"
    and target: "target = a + word_of_int (rel_addend hi)"
    and dist: "- (2 ^ 31) \<le> sint (target - (si_address si + hi_off))" "sint (target - (si_address si + hi_off)) < 2 ^ 31 - 2 ^ 11"
  shows "\<exists>out'. apply_relocations (riscv_ops t) env si (deltas_of raw) (hi # xs @ lo # ys) (out, tw) = Ok (out', tw) \<and>
    (si_address si + hi_off) + lui_exec (getw 4 (drop (unat hi_off) out')) + addi_imm (getw 4 (drop (unat lo_off) out')) = target"
proof -
  let ?v = "target - (si_address si + hi_off)" and ?A = "riscv_ops t"
  obtain c1 where c1: "cursor_translate (map_option deltas_cursor (deltas_of raw)) (rel_offset hi) = (c1, hi_off)"
    "cursor_opt raw (rel_offset hi) c1"
    using cursor_opt_translate [OF raw cursor_opt_start, of "rel_offset hi"] off(1) by auto
  have p1: "unat hi_off + 4 \<le> length out" using place by simp
  have side: "UType \<in> {UType, IType}" "IType \<in> {UType, IType}" "\<not> is_uleb_pair Relative" "\<not> is_uleb_pair RelativeRiscVLow12"
    by (simp_all add: is_uleb_pair_def)
  obtain out1 where out1: "write_at env (pcrel_info Relative UType) ?v (unat hi_off) out = Ok out1" "length out1 = length out"
    "holds (riscv_segs UType) ?v (drop (unat hi_off) out1)"
    using pcrel_write [OF side(1,3) dist p1] by metis
  have p2: "unat lo_off + 4 \<le> length out1" using place(2) out1(2) by simp
  obtain out2 where out2: "write_at env (pcrel_info RelativeRiscVLow12 IType) ?v (unat lo_off) out1 = Ok out2" "length out2 = length out1"
    "holds (riscv_segs IType) ?v (drop (unat lo_off) out2)" "\<And>j. j < length out1 \<Longrightarrow> j < unat lo_off \<Longrightarrow> out2 ! j = out1 ! j"
    using pcrel_write [OF side(2,4) dist p2] by metis
  define cache1 where "cache1 = (cache_high_part ?A (deltas_of raw) hi empty_cache)\<lparr>rc_previous := Some hi\<rparr>"
  have high: "rc_high_part_symbols cache1 = [hi_off \<mapsto> hi]"
    using hi(1) off(1) by (simp add: cache1_def cache_high_part_def riscv_ops_def riscv_high_part_relocations_def empty_cache_def)
  have first: "apply_relocations ?A env si (deltas_of raw) (hi # xs @ lo # ys) (out, tw) =
      apply_relocations_from ?A env si (deltas_of raw) Normal cache1 c1 (xs @ lo # ys) (out1, tw)"
    using out1(1) by (simp add: apply_relocations_def c1(1) apply_pcrel_hi [OF hi] cache1_def target)
  have "\<forall>r \<in> set xs. rel_type r = ''R_RISCV_RELAX''" "sorted (rel_offset hi # map rel_offset (xs @ lo # ys))"
    using markers order by simp_all
  from apply_markers [OF raw c1(2) this(2,1), of cache1 t env si "(out1, tw)"]
  obtain c2 cache2 x2 where m: "cursor_opt raw x2 c2" "sorted (x2 # map rel_offset (lo # ys))"
    "rc_high_part_symbols cache2 = rc_high_part_symbols cache1"
    "apply_relocations_from ?A env si (deltas_of raw) Normal cache1 c1 (xs @ lo # ys) (out1, tw) =
     apply_relocations_from ?A env si (deltas_of raw) Normal cache2 c2 (lo # ys) (out1, tw)" by blast
  obtain c3 where c3: "cursor_translate c2 (rel_offset lo) = (c3, lo_off)" "cursor_opt raw (rel_offset lo) c3"
    using cursor_opt_translate [OF raw m(1), of "rel_offset lo"] m(2) off(2) by auto
  have same: "cache_high_part ?A (deltas_of raw) lo cache2 = cache2"
    using lo(1) by (simp add: cache_high_part_def riscv_ops_def riscv_high_part_relocations_def)
  have found: "find_high_part ?A cache2 ys (deltas_of raw) hi_off = Some hi" using high m(3) by (simp add: find_high_part_def)
  have second: "apply_relocations_from ?A env si (deltas_of raw) Normal cache2 c2 (lo # ys) (out1, tw) =
      apply_relocations_from ?A env si (deltas_of raw) Normal (cache2\<lparr>rc_previous := Some lo\<rparr>) c3 ys (out2, tw)"
    using out2(1) by (simp add: same c3(1) apply_pcrel_lo [OF lo hi found] target)
  have "\<forall>r \<in> set ys. rel_type r = ''R_RISCV_RELAX''" "sorted (rel_offset lo # map rel_offset (ys @ []))"
    using markers order by (simp_all add: sorted_append)
  from apply_markers [OF raw c3(2) this(2,1), of "cache2\<lparr>rc_previous := Some lo\<rparr>" t env si "(out2, tw)"]
  have third: "apply_relocations_from ?A env si (deltas_of raw) Normal (cache2\<lparr>rc_previous := Some lo\<rparr>) c3 ys (out2, tw) = Ok (out2, tw)"
    by auto
  have "take 4 (drop (unat hi_off) out2) = take 4 (drop (unat hi_off) out1)"
    by (rule nth_equalityI) (use out2(2,4) place in auto)
  then have "holds (riscv_segs UType) ?v (drop (unat hi_off) out2)" by (intro holds_take_4 [OF out1(3)]) simp_all
  moreover have "4 \<le> length (drop (unat hi_off) out2)" "4 \<le> length (drop (unat lo_off) out2)" using place out1(2) out2(2) by simp_all
  ultimately have "lui_exec (getw 4 (drop (unat hi_off) out2)) + addi_imm (getw 4 (drop (unat lo_off) out2)) = ?v"
    using pair_value [OF dist] out2(3) by blast
  then have "(si_address si + hi_off) + lui_exec (getw 4 (drop (unat hi_off) out2)) + addi_imm (getw 4 (drop (unat lo_off) out2)) = target"
    by (simp add: algebra_simps)
  with first m(4) second third show ?thesis by auto
qed

definition example_resolution :: "u64 \<Rightarrow> Resolution" where
  "example_resolution a = \<lparr>raw_value = a, dynamic_symbol_index = None, res_flags = 0, got_address = None, plt_address = None\<rparr>"

definition example_env :: "(nat \<Rightarrow> Resolution option) \<Rightarrow> link_env" where
  "example_env symbols =
     \<lparr>le_output_kind = StaticExecutable Fixed, le_relax = True, le_got_base = 0, le_tls_start = 0, le_tls_end = 0,
      le_tlsld_got_entry = None, le_merged_resolution = symbols, le_flags = (\<lambda>_. 0), le_definition = id,
      le_is_undefined = (\<lambda>_. False), le_st_other = (\<lambda>_. 0), le_symbol_section = (\<lambda>_. None), le_symbol_value = (\<lambda>_. 0),
      le_merged_string = (\<lambda>_ _. Ok None), le_merged_string_sliced = (\<lambda>_ _. Ok None),
      le_section_slot = (\<lambda>_. None), le_thunk_block_id = 0,
      le_thunk_block_addresses = (\<lambda>_ _. None), le_uleb = (\<lambda>_. [])\<rparr>"

definition pair_env :: link_env where
  "pair_env = example_env [1 \<mapsto> example_resolution 0x20123, 2 \<mapsto> example_resolution 0x10000]"

definition example_section :: SectionInfo where
  "example_section = \<lparr>si_address = 0x10000, si_writable = False, si_flags = 6, si_part_id = 0\<rparr>"

definition pair_hi :: relocation where
  "pair_hi = \<lparr>rel_offset = 0, rel_type = ''R_RISCV_PCREL_HI20'', rel_symbol = Some 1, rel_addend = 4\<rparr>"

definition pair_lo :: relocation where
  "pair_lo = \<lparr>rel_offset = 4, rel_type = ''R_RISCV_PCREL_LO12_I'', rel_symbol = Some 2, rel_addend = 0\<rparr>"

theorem riscv_pcrel_pair_witness:
  "\<forall>t tw. \<exists>out'. apply_relocations (riscv_ops t) pair_env example_section None [pair_hi, pair_lo]
      ([0x17, 0x05, 0, 0, 0x13, 0x05, 0x05, 0], tw) = Ok (out', tw) \<and>
    0x10000 + lui_exec (getw 4 out') + addi_imm (getw 4 (drop 4 out')) = 0x20127"
proof (intro allI)
  fix t tw
  have r: "resolves_to pair_env pair_hi 0x20123" "resolves_to pair_env pair_lo (si_address example_section + 0)"
    by (simp_all add: resolves_to_def pair_env_def example_env_def pair_hi_def pair_lo_def symbol_resolution_def
        example_resolution_def example_section_def is_ifunc_def contains_def IFUNC_def)
  have f: "rel_type pair_hi = ''R_RISCV_PCREL_HI20''" "rel_type pair_lo = ''R_RISCV_PCREL_LO12_I''" "rel_addend pair_lo = 0"
    "\<forall>r \<in> set ([] @ []). rel_type r = ''R_RISCV_RELAX''" "sorted (map rel_offset (pair_hi # [] @ pair_lo # []))" "raw_ok []"
    "0 = opt_input_to_output (deltas_of []) (rel_offset pair_hi)" "4 = opt_input_to_output (deltas_of []) (rel_offset pair_lo)"
    "0x20127 = 0x20123 + (word_of_int (rel_addend pair_hi) :: u64)"
    "- (2 ^ 31) \<le> sint (0x20127 - (si_address example_section + 0))" "sint (0x20127 - (si_address example_section + 0)) < 2 ^ 31 - 2 ^ 11"
    by (simp_all add: pair_hi_def pair_lo_def raw_ok_def deltas_of_def opt_input_to_output_def example_section_def)
  show "\<exists>out'. apply_relocations (riscv_ops t) pair_env example_section None [pair_hi, pair_lo]
      ([0x17, 0x05, 0, 0, 0x13, 0x05, 0x05, 0], tw) = Ok (out', tw) \<and>
    0x10000 + lui_exec (getw 4 out') + addi_imm (getw 4 (drop 4 out')) = 0x20127"
    using riscv_pcrel_pair [OF f(1) r(1) f(2,3) r(2) f(4-8) _ _ f(9-11), of "[0x17, 0x05, 0, 0, 0x13, 0x05, 0x05, 0]" t tw]
    by (simp add: deltas_of_def example_section_def)
qed

end
