(* ===== verification/Reloc_Scan.thy ===== *)
theory Reloc_Scan
  imports Reloc_Apply Got_Alloc
begin

text \<open>
  Scanning the relocations of a section during layout (\<open>process_relocation\<close> and its parts in
  \<open>libjdxld/src/elf.rs\<close>, \<open>resolution_flags\<close> and \<open>needs_tlsld\<close> of \<open>layout.rs\<close>): what a relocation asks of its
  symbol, and the dynamic relocations that are reserved for it. The writer of \<open>Reloc_Apply\<close> makes its own
  decisions later; the properties here say that it finds what was asked for and uses up what was
  reserved.
\<close>

section \<open>What a kind of relocation asks for\<close>

fun reloc_resolution_flags :: "RelocationKind \<Rightarrow> ValueFlags" where
  "reloc_resolution_flags PltRelative = PLT OR GOT"
| "reloc_resolution_flags PltRelGotBase = PLT OR GOT"
| "reloc_resolution_flags Got = GOT"
| "reloc_resolution_flags GotRelGotBase = GOT"
| "reloc_resolution_flags GotRelative = GOT"
| "reloc_resolution_flags GotRelativeLoongArch64 = GOT"
| "reloc_resolution_flags GotTpOff = GOT_TLS_OFFSET"
| "reloc_resolution_flags GotTpOffLoongArch64 = GOT_TLS_OFFSET"
| "reloc_resolution_flags GotTpOffGot = GOT_TLS_OFFSET"
| "reloc_resolution_flags GotTpOffGotBase = GOT_TLS_OFFSET"
| "reloc_resolution_flags TlsGd = GOT_TLS_MODULE"
| "reloc_resolution_flags TlsGdGot = GOT_TLS_MODULE"
| "reloc_resolution_flags TlsGdGotBase = GOT_TLS_MODULE"
| "reloc_resolution_flags TlsDesc = GOT_TLS_DESCRIPTOR"
| "reloc_resolution_flags TlsDescLoongArch64 = GOT_TLS_DESCRIPTOR"
| "reloc_resolution_flags TlsDescGot = GOT_TLS_DESCRIPTOR"
| "reloc_resolution_flags TlsDescGotBase = GOT_TLS_DESCRIPTOR"
| "reloc_resolution_flags TlsDescCall = GOT_TLS_DESCRIPTOR"
| "reloc_resolution_flags TlsLd = 0"
| "reloc_resolution_flags TlsLdGot = 0"
| "reloc_resolution_flags TlsLdGotBase = 0"
| "reloc_resolution_flags Absolute = DIRECT"
| "reloc_resolution_flags AbsoluteSet = DIRECT"
| "reloc_resolution_flags AbsoluteSetWord6 = DIRECT"
| "reloc_resolution_flags AbsoluteAddition = DIRECT"
| "reloc_resolution_flags AbsoluteAdditionWord6 = DIRECT"
| "reloc_resolution_flags AbsoluteSubtraction = DIRECT"
| "reloc_resolution_flags AbsoluteSubtractionWord6 = DIRECT"
| "reloc_resolution_flags Relative = DIRECT"
| "reloc_resolution_flags RelativeRiscVLow12 = DIRECT"
| "reloc_resolution_flags RelativeLoongArchHigh = DIRECT"
| "reloc_resolution_flags DtpOff = DIRECT"
| "reloc_resolution_flags TpOff = DIRECT"
| "reloc_resolution_flags SymRelGotBase = DIRECT"
| "reloc_resolution_flags (PairSubtractionULEB128 _) = DIRECT"
| "reloc_resolution_flags NoRelocation = 0"
| "reloc_resolution_flags AbsoluteLowPart = 0"
| "reloc_resolution_flags AlignmentReloc = 0"

definition needs_tlsld :: "RelocationKind \<Rightarrow> bool" where
  "needs_tlsld k = (k \<in> {TlsLd, TlsLdGot, TlsLdGotBase})"

definition does_relocation_require_static_tls :: "RelocationKind \<Rightarrow> bool" where
  "does_relocation_require_static_tls k = (reloc_resolution_flags k = GOT_TLS_OFFSET)"

section \<open>State\<close>

datatype scan_error =
    ScanUnsupported rtype
  | ScanDisallowedInSharedObject
  | ScanCopyRelocationsDisabled
  | ScanReadOnlyAddress

text \<open>
  By symbol of the object: its canonical definition, and whether an undefined-symbol diagnostic is
  due for it with given flags. By canonical definition: the part it is in. The primary part of the thunk
  configuration is only there when a thunk layout is being built.
\<close>

record scan_env =
  sc_output_kind :: OutputKind
  sc_relax :: bool
  sc_relr_enabled :: bool
  sc_copy_relocations_allowed :: bool
  sc_definition :: "nat \<Rightarrow> nat"
  sc_emit_undefined :: "nat \<Rightarrow> ValueFlags \<Rightarrow> bool"
  sc_part_of :: "nat \<Rightarrow> nat"
  sc_thunk_part :: "nat option"

record scan_section =
  sn_flags :: SectionFlags
  sn_writable :: bool
  sn_bytes :: bytes
  sn_part_id :: nat
  sn_debug :: bool

record scan_state =
  sc_sizes :: part_sizes
  sc_relr :: RelrState
  sc_has_static_tls :: bool
  sc_uses_tlsld :: bool
  sc_flags :: "nat \<Rightarrow> ValueFlags"
  sc_symbol_requests :: "nat list"
  sc_copy_requests :: "nat list"
  sc_thunk_references :: "nat list"
  sc_undefined :: "nat list"

record ClassifiedSymbolRelocation =
  cl_local_symbol :: nat
  cl_symbol :: nat
  cl_flags :: ValueFlags
  cl_flags_to_add :: ValueFlags
  cl_rel_offset :: u64
  cl_r_type :: rtype
  cl_rel_kind :: RelocationKind
  cl_next_modifier :: RelocationModifier
  cl_section_is_writable :: bool

section \<open>Scanning one relocation\<close>

definition scan_query :: "scan_env \<Rightarrow> scan_section \<Rightarrow> relocation \<Rightarrow> ValueFlags \<Rightarrow> relax_query" where
  "scan_query env sn rel flags =
     \<lparr>q_relocation = rel_type rel, q_section_bytes = sn_bytes sn, q_offset = unat (rel_offset rel), q_flags = flags,
      q_output_kind = sc_output_kind env, q_section_flags = sn_flags sn, q_relax_deltas = None, q_sym_addr = 1,
      q_section_address = 0, q_rel_addend = 0, q_previous = None\<rparr>"

definition classify_symbol_relocation ::
    "'k arch_ops \<Rightarrow> scan_env \<Rightarrow> scan_section \<Rightarrow> relocation \<Rightarrow> nat \<Rightarrow> (nat \<Rightarrow> ValueFlags) \<Rightarrow>
     (scan_error, ClassifiedSymbolRelocation) outcome" where
  "classify_symbol_relocation A env sn rel local_symbol symbol_flags =
     (let symbol_id = sc_definition env local_symbol;
          flags = flags_merge (symbol_flags symbol_id) (symbol_flags local_symbol)
      in bind_outcome (of_panic (ar_new_relaxation A (scan_query env sn rel flags))) (\<lambda>choice.
         bind_outcome
           (case (case choice of Some r \<Rightarrow> if sc_relax env \<or> rx_mandatory r then Some r else None | None \<Rightarrow> None) of
              Some r \<Rightarrow> Ok (rx_rel_info r, ar_next_modifier A (rx_kind r))
            | None \<Rightarrow>
                bind_outcome (with_context (ar_relocation_from_raw A (rel_type rel)) (ScanUnsupported (rel_type rel)))
                  (\<lambda>ri. Ok (ri, Normal)))
           (\<lambda>(rel_info, next_modifier).
              Ok \<lparr>cl_local_symbol = local_symbol, cl_symbol = symbol_id, cl_flags = flags,
                  cl_flags_to_add = reloc_resolution_flags (ri_kind rel_info), cl_rel_offset = rel_offset rel,
                  cl_r_type = rel_type rel, cl_rel_kind = ri_kind rel_info, cl_next_modifier = next_modifier,
                  cl_section_is_writable = sn_writable sn\<rparr>)))"

definition scan_allocate :: "Part \<Rightarrow> u64 \<Rightarrow> scan_state \<Rightarrow> scan_state" where
  "scan_allocate p n s = s\<lparr>sc_sizes := increment p n (sc_sizes s)\<rparr>"

text \<open>The reservation of one relocation against an address that the loader has to move.\<close>

definition scan_address_relocation :: "scan_env \<Rightarrow> u64 \<Rightarrow> scan_state \<Rightarrow> scan_state" where
  "scan_address_relocation env off s =
     (if sc_relr_enabled env \<and> off mod 2 = 0 then
        (case relr_encode (sc_relr s) off of
           (st, _, NewEntry) \<Rightarrow> scan_allocate RelrDynPart RELR_ENTRY_SIZE (s\<lparr>sc_relr := st\<rparr>)
         | (st, _, UpdateEntry) \<Rightarrow> s\<lparr>sc_relr := st\<rparr>)
      else scan_allocate RelaDynRelativePart RELA_ENTRY_SIZE s)"

text \<open>The first part, which may change what is asked of the symbol.\<close>

definition materialize_dynamic ::
    "'k arch_ops \<Rightarrow> scan_env \<Rightarrow> scan_section \<Rightarrow> ClassifiedSymbolRelocation \<Rightarrow> scan_state \<Rightarrow>
     (scan_error, ValueFlags \<times> scan_state) outcome" where
  "materialize_dynamic A env sn cl s =
     (let flags = cl_flags cl; add = cl_flags_to_add cl; kind = cl_rel_kind cl
      in if \<not> sflags_contain (sn_flags sn) ALLOC then Ok (add, s)
         else if is_tls kind then
           Ok (add, s\<lparr>sc_has_static_tls := sc_has_static_tls s \<or> does_relocation_require_static_tls kind,
                      sc_uses_tlsld := sc_uses_tlsld s \<or> needs_tlsld kind\<rparr>)
         else if needs_direct add \<and> is_interposable flags then
           (if is_shared_object (sc_output_kind env) \<and> ar_disallowed_for_interposable A (cl_r_type cl) then
              Error ScanDisallowedInSharedObject
            else if cl_section_is_writable cl then Ok (add, scan_allocate RelaDynGeneralPart RELA_ENTRY_SIZE s)
            else if is_function flags then Ok ((add AND NOT DIRECT) OR PLT OR GOT, s)
            else if \<not> is_absolute flags then
              (if sc_copy_relocations_allowed env then Ok (add OR COPY_RELOCATION, s) else Error ScanCopyRelocationsDisabled)
            else Ok (add, s))
         else if is_ifunc flags \<and> kind = Absolute \<and> cl_section_is_writable cl \<and> is_position_independent (sc_output_kind env) then
           Ok (add, scan_allocate RelaDynGeneralPart RELA_ENTRY_SIZE s)
         else if is_position_independent (sc_output_kind env) \<and> kind = Absolute \<and> has_link_time_address flags then
           (if cl_section_is_writable cl then Ok (add, scan_address_relocation env (cl_rel_offset cl) s)
            else if \<not> sn_debug sn then Error ScanReadOnlyAddress
            else Ok (add, s))
         else Ok (add, s))"

definition materialize_relocation_requirements ::
    "'k arch_ops \<Rightarrow> scan_env \<Rightarrow> scan_section \<Rightarrow> ClassifiedSymbolRelocation \<Rightarrow> scan_state \<Rightarrow>
     (scan_error, ClassifiedSymbolRelocation \<times> scan_state) outcome" where
  "materialize_relocation_requirements A env sn cl s =
     bind_outcome (materialize_dynamic A env sn cl s) (\<lambda>(add, s).
       let relocation_needs_got = needs_got add; flags = cl_flags cl; kind = sc_output_kind env;
           add = (if is_ifunc flags \<and> \<not> is_static_executable kind then add OR GOT OR PLT else add);
           add = (if is_ifunc flags \<and> relocation_needs_got \<and> has_fixed_load_address kind
                  then add OR IFUNC_GOT_FOR_ADDRESS else add)
       in Ok (cl\<lparr>cl_flags_to_add := add\<rparr>, s))"

definition note_relocation_symbol_reference ::
    "scan_env \<Rightarrow> ClassifiedSymbolRelocation \<Rightarrow> scan_state \<Rightarrow> ValueFlags \<times> scan_state" where
  "note_relocation_symbol_reference env cl s =
     (let symbol_id = cl_symbol cl; previous = sc_flags s symbol_id;
          s = s\<lparr>sc_flags := (sc_flags s)(symbol_id := previous OR cl_flags_to_add cl)\<rparr>
      in if \<not> has_resolution previous then
           let s = (if is_ifunc (cl_flags cl) \<and> is_static_executable (sc_output_kind env)
                    then s\<lparr>sc_flags := (sc_flags s)(symbol_id := sc_flags s symbol_id OR GOT OR PLT)\<rparr> else s)
           in (previous, s\<lparr>sc_symbol_requests := sc_symbol_requests s @ [symbol_id]\<rparr>)
         else (previous, s))"

definition handle_thunk_extensions_for_relocation ::
    "'k arch_ops \<Rightarrow> scan_env \<Rightarrow> nat \<Rightarrow> ClassifiedSymbolRelocation \<Rightarrow> scan_state \<Rightarrow> scan_state" where
  "handle_thunk_extensions_for_relocation A env section_part_id cl s =
     (case (sc_thunk_part env, ar_relocation_from_raw A (cl_r_type cl)) of
        (Some primary, Some rel_info) \<Rightarrow>
          if \<not> ri_thunkable rel_info then s
          else if section_part_id = primary then
            s\<lparr>sc_flags := (sc_flags s)(cl_local_symbol cl := sc_flags s (cl_local_symbol cl) OR HAS_RANGE_LIMITED_REL)\<rparr>
          else if sc_part_of env (sc_definition env (cl_symbol cl)) = primary then
            s\<lparr>sc_thunk_references := sc_thunk_references s @ [sc_definition env (cl_symbol cl)]\<rparr>
          else s
      | _ \<Rightarrow> s)"

definition process_relocation ::
    "'k arch_ops \<Rightarrow> scan_env \<Rightarrow> scan_section \<Rightarrow> relocation \<Rightarrow> scan_state \<Rightarrow> (scan_error, RelocationModifier \<times> scan_state) outcome" where
  "process_relocation A env sn rel s =
     (case rel_symbol rel of
        None \<Rightarrow> Ok (Normal, s)
      | Some local_symbol \<Rightarrow>
          bind_outcome (classify_symbol_relocation A env sn rel local_symbol (sc_flags s)) (\<lambda>cl.
          bind_outcome (materialize_relocation_requirements A env sn cl s) (\<lambda>(cl, s).
            case note_relocation_symbol_reference env cl s of (previous, s) \<Rightarrow>
            let s = (if sn_debug sn then s else handle_thunk_extensions_for_relocation A env (sn_part_id sn) cl s);
                s = (if sc_emit_undefined env local_symbol (cl_flags cl)
                     then s\<lparr>sc_undefined := sc_undefined s @ [cl_symbol cl]\<rparr> else s);
                s = (if needs_copy_relocation (cl_flags_to_add cl) \<and> \<not> needs_copy_relocation previous
                     then s\<lparr>sc_copy_requests := sc_copy_requests s @ [cl_symbol cl]\<rparr> else s)
            in Ok (cl_next_modifier cl, s))))"

fun load_section_relocations_from ::
    "'k arch_ops \<Rightarrow> scan_env \<Rightarrow> scan_section \<Rightarrow> RelocationModifier \<Rightarrow> relocation list \<Rightarrow> scan_state \<Rightarrow> (scan_error, scan_state) outcome" where
  "load_section_relocations_from A env sn modifier [] s = Ok s"
| "load_section_relocations_from A env sn modifier (rel # rels) s =
     (if modifier = SkipNextRelocation then load_section_relocations_from A env sn Normal rels s
      else bind_outcome (process_relocation A env sn rel s) (\<lambda>(modifier, s).
             load_section_relocations_from A env sn modifier rels s))"

text \<open>Every section has a packing run of its own.\<close>

definition load_section_relocations ::
    "'k arch_ops \<Rightarrow> scan_env \<Rightarrow> scan_section \<Rightarrow> relocation list \<Rightarrow> scan_state \<Rightarrow> (scan_error, scan_state) outcome" where
  "load_section_relocations A env sn rels s =
     load_section_relocations_from A env (sn\<lparr>sn_debug := False\<rparr>) Normal rels (s\<lparr>sc_relr := NoRun\<rparr>)"

section \<open>What a scan never changes\<close>

text \<open>The bits that say what a symbol is, as opposed to what is asked of it.\<close>

definition same_nature :: "ValueFlags \<Rightarrow> ValueFlags \<Rightarrow> bool" where
  "same_nature f g \<longleftrightarrow> is_absolute f = is_absolute g \<and> is_dynamic f = is_dynamic g \<and> is_ifunc f = is_ifunc g \<and>
     is_interposable f = is_interposable g"

lemma contains_exp: "n < 32 \<Longrightarrow> contains s (2 ^ n) \<longleftrightarrow> bit (s :: ValueFlags) n"
proof -
  assume "n < 32"
  then have "s AND 2 ^ n = (if bit s n then 2 ^ n else 0)" "(2 :: ValueFlags) ^ n \<noteq> 0"
    by (auto intro!: bit_word_eqI simp: bit_simps)
  then show ?thesis by (simp add: contains_def)
qed

lemma flag_bits:
  "is_absolute f \<longleftrightarrow> bit f 0" "is_dynamic f \<longleftrightarrow> bit f 1" "is_ifunc f \<longleftrightarrow> bit f 2" "is_interposable f \<longleftrightarrow> \<not> bit f 3"
  "is_function f \<longleftrightarrow> bit f 5" "needs_direct f \<longleftrightarrow> bit f 6" "needs_got f \<longleftrightarrow> bit f 7" "needs_plt f \<longleftrightarrow> bit f 8"
  "needs_got_tls_module f \<longleftrightarrow> bit f 9" "needs_got_tls_offset f \<longleftrightarrow> bit f 10" "needs_got_tls_descriptor f \<longleftrightarrow> bit f 11"
  "needs_copy_relocation f \<longleftrightarrow> bit f 13" "needs_ifunc_got_for_address f \<longleftrightarrow> bit f 14"
  unfolding is_absolute_def is_dynamic_def is_ifunc_def is_interposable_def is_function_def needs_direct_def needs_got_def
    needs_plt_def needs_got_tls_offset_def needs_got_tls_module_def needs_got_tls_descriptor_def needs_copy_relocation_def
    needs_ifunc_got_for_address_def flag_defs
  by ((rule contains_exp, simp) | (rule arg_cong [where f = Not], rule contains_exp, simp))+

definition asks :: "ValueFlags \<Rightarrow> bool" where
  "asks f \<longleftrightarrow> (\<forall>n < 4. \<not> bit f n)"

lemma asks_or [simp]: "asks (f OR g) \<longleftrightarrow> asks f \<and> asks g"
  by (auto simp: asks_def bit_or_iff)

lemma asks_and [simp]: "asks f \<Longrightarrow> asks (f AND g)"
  by (simp add: asks_def bit_and_iff)

lemma asks_flags [simp]:
  "asks 0" "asks DIRECT" "asks GOT" "asks PLT" "asks GOT_TLS_MODULE" "asks GOT_TLS_OFFSET" "asks GOT_TLS_DESCRIPTOR"
  "asks COPY_RELOCATION" "asks IFUNC_GOT_FOR_ADDRESS" "asks HAS_RANGE_LIMITED_REL"
  by (simp_all only: asks_def flag_defs bit_exp_iff) (auto simp: bit_exp_iff)

lemma asks_kind [simp]: "asks (reloc_resolution_flags k)"
  by (cases k) simp_all

lemma same_nature_or: "asks f \<Longrightarrow> same_nature (g OR f) g"
  by (simp add: same_nature_def flag_bits asks_def bit_or_iff)

lemma same_nature_refl [simp]: "same_nature f f"
  by (simp add: same_nature_def)

lemma same_nature_trans: "same_nature f g \<Longrightarrow> same_nature g h \<Longrightarrow> same_nature f h"
  by (simp add: same_nature_def)

lemma same_nature_merge:
  "same_nature f f' \<Longrightarrow> same_nature g g' \<Longrightarrow> same_nature (flags_merge f g) (flags_merge f' g')"
  by (auto simp: same_nature_def flags_merge_def flag_bits bit_or_iff contains_exp NON_INTERPOSABLE_def bit_exp_iff
      simp del: power_numeral numeral_power_eq_of_nat_cancel_iff)

lemma materialize_dynamic_asks:
  "materialize_dynamic A env sn cl s = Ok (add, s') \<Longrightarrow> asks (cl_flags_to_add cl) \<Longrightarrow> asks add \<and> sc_flags s' = sc_flags s"
  by (auto simp: materialize_dynamic_def Let_def scan_allocate_def scan_address_relocation_def
      split: if_splits prod.splits RelrEntryEncoding.splits)

lemma materialize_asks:
  assumes "materialize_relocation_requirements A env sn cl s = Ok (cl', s')" "asks (cl_flags_to_add cl)"
  shows "asks (cl_flags_to_add cl')" "sc_flags s' = sc_flags s" "cl_symbol cl' = cl_symbol cl" "cl_flags cl' = cl_flags cl"
    "cl_local_symbol cl' = cl_local_symbol cl"
  using assms by (auto simp: materialize_relocation_requirements_def outcome_simps Let_def dest!: materialize_dynamic_asks)

lemma note_nature:
  "note_relocation_symbol_reference env cl s = (prev, s') \<Longrightarrow> asks (cl_flags_to_add cl) \<Longrightarrow>
     same_nature (sc_flags s' i) (sc_flags s i)"
  by (auto simp: note_relocation_symbol_reference_def Let_def or.assoc intro!: same_nature_or split: if_splits)

lemma thunk_nature: "same_nature (sc_flags (handle_thunk_extensions_for_relocation A env part cl s) i) (sc_flags s i)"
  by (auto simp: handle_thunk_extensions_for_relocation_def intro!: same_nature_or split: option.splits)

lemma classify_asks:
  "classify_symbol_relocation A env sn rel i fl = Ok cl \<Longrightarrow> asks (cl_flags_to_add cl)"
  by (auto simp: classify_symbol_relocation_def outcome_simps Let_def split: option.splits)

lemma process_relocation_nature:
  assumes "process_relocation A env sn rel s = Ok (m, s')"
  shows "same_nature (sc_flags s' i) (sc_flags s i)"
proof (cases "rel_symbol rel")
  case None
  then show ?thesis using assms by (simp add: process_relocation_def)
next
  case (Some l)
  obtain cl cl' s1 where cl: "classify_symbol_relocation A env sn rel l (sc_flags s) = Ok cl"
    and m: "materialize_relocation_requirements A env sn cl s = Ok (cl', s1)"
    using assms Some by (auto simp: process_relocation_def outcome_simps)
  obtain prev s2 where n: "note_relocation_symbol_reference env cl' s1 = (prev, s2)" by fastforce
  let ?s3 = "if sn_debug sn then s2 else handle_thunk_extensions_for_relocation A env (sn_part_id sn) cl' s2"
  have "sc_flags s' = sc_flags ?s3"
    using assms Some cl m n by (auto simp: process_relocation_def Let_def)
  moreover have "same_nature (sc_flags ?s3 i) (sc_flags s2 i)" using thunk_nature by auto
  moreover have "same_nature (sc_flags s2 i) (sc_flags s1 i)"
    using note_nature [OF n] materialize_asks(1) [OF m classify_asks [OF cl]] by blast
  moreover have "sc_flags s1 = sc_flags s" using materialize_asks(2) [OF m classify_asks [OF cl]] .
  ultimately show ?thesis using same_nature_trans by metis
qed

section \<open>Reserved and used\<close>

definition reserves :: "scan_state \<Rightarrow> scan_state \<Rightarrow> (Part \<Rightarrow> nat) \<Rightarrow> bool" where
  "reserves s s' n \<longleftrightarrow> (\<forall>p. sc_sizes s' p = sc_sizes s p + of_nat (n p) * entry_size p)"

text \<open>A step of the writer takes \<open>n\<close> when it succeeds, and runs out of a table only if less than \<open>n\<close> is left.\<close>

definition spends :: "('a \<Rightarrow> TableWriter) \<Rightarrow> (apply_error, 'a) outcome \<Rightarrow> TableWriter \<Rightarrow> (Part \<Rightarrow> nat) \<Rightarrow> bool" where
  "spends get m tw n =
     (case m of
        Ok x \<Rightarrow> consumes tw (get x) n
      | Error (TableError (InsufficientAllocation p)) \<Rightarrow> part_left tw p < n p
      | _ \<Rightarrow> True)"

text \<open>Both packing runs are at the same point, the one of the writer shifted by the section's address.\<close>

definition in_step :: "bool \<Rightarrow> u64 \<Rightarrow> RelrState \<Rightarrow> TableWriter \<Rightarrow> bool" where
  "in_step relr base st tw \<longleftrightarrow>
     (relr \<longleftrightarrow> tw_relr_dyn tw \<noteq> None) \<and> tw_relr_writer tw = shift_state base st \<and> state_below base st \<and>
     (\<forall>b. st = WithBitmap b \<longrightarrow> tw_current_relr_dyn tw \<noteq> None)"

lemma even_shift: "base mod 2 = 0 \<Longrightarrow> (base + off) mod 2 = 0 \<longleftrightarrow> off mod 2 = (0 :: u64)"
  by (simp add: even_iff_mod_2_eq_zero [symmetric])

lemma relr_encode_update: "relr_encode st a = (st', v, UpdateEntry) \<Longrightarrow> \<exists>b. st = WithBitmap b"
  by (cases st) (auto split: prod.splits bool.splits)

lemma relr_take:
  assumes "tw_relr_dyn tw = Some t"
  shows "spends fst (map_error TableError (bind_outcome (take_entry RelrDynPart v t)
      (\<lambda>t. Ok (tw\<lparr>tw_relr_dyn := Some t, tw_relr_writer := st, tw_current_relr_dyn := c\<rparr>, a)))) tw (one RelrDynPart)"
  using assms
  by (auto simp: spends_def map_error_def take_entry_def consumes_def part_left_def part_used_def one_def split: Part.splits)

lemma rela_take:
  "spends fst (map_error TableError (write_relative_rela T place a tw)) tw (one RelaDynRelativePart)"
  by (auto simp: spends_def map_error_def write_relative_rela_def take_entry_def consumes_def part_left_def part_used_def one_def
      split: Part.splits)

lemma address_step:
  fixes T :: arch_tables and a :: u64
  assumes "in_step (sc_relr_enabled env) base (sc_relr s) tw" "base mod 2 = 0" "unat base + unat off + 1016 < 2 ^ 64"
  defines "s' \<equiv> scan_address_relocation env off s" and "w \<equiv> map_error TableError (write_address_relocation T (base + off) a tw)"
  shows "\<exists>n. reserves s s' n \<and> spends fst w tw n"
    and "w = Ok (tw', v) \<Longrightarrow> in_step (sc_relr_enabled env) base (sc_relr s') tw'"
proof -
  have relr: "sc_relr_enabled env \<longleftrightarrow> tw_relr_dyn tw \<noteq> None" and wr: "tw_relr_writer tw = shift_state base (sc_relr s)"
    and below: "state_below base (sc_relr s)" and cur: "\<And>b. sc_relr s = WithBitmap b \<Longrightarrow> tw_current_relr_dyn tw \<noteq> None"
    using assms(1) by (auto simp: in_step_def)
  have "(\<exists>n. reserves s s' n \<and> spends fst w tw n) \<and> (w = Ok (tw', v) \<longrightarrow> in_step (sc_relr_enabled env) base (sc_relr s') tw')"
  proof (cases "sc_relr_enabled env \<and> off mod 2 = 0")
    case False
    then have "tw_relr_dyn tw = None \<or> (base + off) mod 2 \<noteq> 0" using relr even_shift [OF assms(2), of off] by metis
    then have plain: "w = map_error TableError (write_relative_rela T (base + off) a tw)"
      by (cases "tw_relr_dyn tw") (simp_all only: w_def write_address_relocation_def option.case if_False simp_thms option.distinct)
    have s': "s' = scan_allocate RelaDynRelativePart RELA_ENTRY_SIZE s" unfolding s'_def scan_address_relocation_def by (rule if_not_P [OF False])
    have "reserves s s' (one RelaDynRelativePart)"
      by (simp add: s' reserves_def scan_allocate_def increment_def one_def entry_size_def)
    moreover have "in_step (sc_relr_enabled env) base (sc_relr s') tw'" if "w = Ok (tw', v)"
      using that assms(1) unfolding plain
      by (auto simp: in_step_def s' scan_allocate_def map_error_def write_relative_rela_def take_entry_def split: outcome.splits if_splits)
    ultimately show ?thesis using rela_take plain by metis
  next
    case True
    obtain t where t: "tw_relr_dyn tw = Some t" using True relr by auto
    obtain st' x e where enc: "relr_encode (sc_relr s) off = (st', x, e)" by (cases "relr_encode (sc_relr s) off") auto
    obtain x' where enc': "relr_encode (tw_relr_writer tw) (base + off) = (shift_state base st', x', e)" "state_below base st'"
      using relr_encode_shift [OF below assms(3) enc] wr by auto
    have ev: "(base + off) mod 2 = 0" using True even_shift [OF assms(2), of off] by metis
    show ?thesis
    proof (cases e)
      case NewEntry
      have s': "s' = scan_allocate RelrDynPart RELR_ENTRY_SIZE (s\<lparr>sc_relr := st'\<rparr>)"
        using True enc NewEntry by (simp add: s'_def scan_address_relocation_def)
      have w: "w = map_error TableError (bind_outcome (take_entry RelrDynPart x' t) (\<lambda>t'. Ok (tw\<lparr>tw_relr_dyn := Some t',
          tw_relr_writer := shift_state base st', tw_current_relr_dyn := Some (length (taken t))\<rparr>, a)))"
        using t ev enc' NewEntry by (simp add: w_def write_address_relocation_def)
      have "reserves s s' (one RelrDynPart)"
        by (simp add: s' reserves_def scan_allocate_def increment_def one_def entry_size_def)
      moreover have "spends fst w tw (one RelrDynPart)" unfolding w by (rule relr_take [OF t])
      moreover have "in_step (sc_relr_enabled env) base (sc_relr s') tw'" if "w = Ok (tw', v)"
        using that True enc'(2) unfolding w
        by (auto simp: in_step_def s' scan_allocate_def map_error_def take_entry_def split: outcome.splits if_splits)
      ultimately show ?thesis by blast
    next
      case UpdateEntry
      obtain i where i: "tw_current_relr_dyn tw = Some i" using cur relr_encode_update enc UpdateEntry by blast
      have s': "s' = s\<lparr>sc_relr := st'\<rparr>" using True enc UpdateEntry by (simp add: s'_def scan_address_relocation_def)
      have w: "w = Ok (tw\<lparr>tw_relr_dyn := Some (t\<lparr>taken := (taken t)[i := x']\<rparr>), tw_relr_writer := shift_state base st'\<rparr>, a)"
        using t ev enc' UpdateEntry i by (simp add: w_def write_address_relocation_def map_error_def)
      have "reserves s s' (\<lambda>_. 0)" by (simp add: s' reserves_def)
      moreover have "spends fst w tw (\<lambda>_. 0)"
        using t by (auto simp: w spends_def consumes_def part_left_def part_used_def split: Part.splits)
      moreover have "in_step (sc_relr_enabled env) base (sc_relr s') tw'" if "w = Ok (tw', v)"
        using that True enc'(2) i unfolding w by (auto simp: in_step_def s')
      ultimately show ?thesis by blast
    qed
  qed
  then show "\<exists>n. reserves s s' n \<and> spends fst w tw n"
    and "w = Ok (tw', v) \<Longrightarrow> in_step (sc_relr_enabled env) base (sc_relr s') tw'" by blast+
qed

definition merged_total :: "link_env \<Rightarrow> bool" where
  "merged_total lenv \<longleftrightarrow> (\<forall>i ad. \<exists>m. le_merged_string lenv i ad = Ok m)"

lemma value_with_addend_total:
  assumes "merged_total lenv"
  shows "(\<exists>v. value_with_addend (le_merged_string lenv) res ad i = Ok v) \<or>
    value_with_addend (le_merged_string lenv) res ad i = Error NoPltAddress"
proof -
  obtain m where "le_merged_string lenv i ad = Ok m" using assms by (auto simp: merged_total_def)
  then show ?thesis
    by (cases m) (auto simp: value_with_addend_def res_plt_address_def with_context_def split: option.split)
qed

lemma spends_plain:
  assumes "merged_total lenv"
  shows "spends fst (bind_outcome (value_with_addend (le_merged_string lenv) res ad i) (\<lambda>v. Ok (tw, v))) tw (\<lambda>_. 0)"
  using value_with_addend_total [OF assms, of res ad i] by (auto simp: spends_def consumes_refl)

lemma spends_general:
  "spends fst (map_error TableError (bind_outcome (write_rela_dyn_general place d ty ad tw) (\<lambda>tw. Ok (tw, 0)))) tw
     (one RelaDynGeneralPart)"
  by (auto simp: spends_def map_error_def write_rela_dyn_general_def take_entry_def consumes_def part_left_def part_used_def
      one_def split: Part.splits)

lemma general_keeps_step:
  "map_error TableError (bind_outcome (write_rela_dyn_general place d ty ad tw) (\<lambda>tw. Ok (tw, x))) = Ok (tw', v) \<Longrightarrow>
     in_step relr base st tw \<Longrightarrow> in_step relr base st tw'"
  by (auto simp: map_error_def write_rela_dyn_general_def take_entry_def in_step_def split: outcome.splits if_splits)

lemma general_step:
  fixes place d ty ad tw
  assumes "in_step relr base (sc_relr s) tw"
  defines "w \<equiv> map_error TableError (bind_outcome (write_rela_dyn_general place d ty ad tw) (\<lambda>tw. Ok (tw, 0)))"
  shows "(\<exists>n. reserves s (scan_allocate RelaDynGeneralPart RELA_ENTRY_SIZE s) n \<and> spends fst w tw n) \<and>
    (\<forall>tw' v. w = Ok (tw', v) \<longrightarrow> in_step relr base (sc_relr (scan_allocate RelaDynGeneralPart RELA_ENTRY_SIZE s)) tw')"
proof (intro conjI exI allI impI)
  show "reserves s (scan_allocate RelaDynGeneralPart RELA_ENTRY_SIZE s) (one RelaDynGeneralPart)"
    by (simp add: reserves_def scan_allocate_def increment_def one_def entry_size_def)
  show "spends fst w tw (one RelaDynGeneralPart)" unfolding w_def by (rule spends_general)
  fix tw' v assume "w = Ok (tw', v)"
  then have "in_step relr base (sc_relr s) tw'" unfolding w_def by (rule general_keeps_step [OF _ assms(1)])
  then show "in_step relr base (sc_relr (scan_allocate RelaDynGeneralPart RELA_ENTRY_SIZE s)) tw'" by (simp add: scan_allocate_def)
qed

text \<open>A relocation in loaded, writable data.\<close>

definition data_section :: "scan_section \<Rightarrow> SectionInfo \<Rightarrow> bool" where
  "data_section sn si \<longleftrightarrow>
     sn_flags sn = si_flags si \<and> sflags_contain (si_flags si) ALLOC \<and> \<not> sflags_contain (si_flags si) EXECINSTR \<and>
     sn_writable sn \<and> si_writable si"

lemma absolute_step:
  assumes mat: "materialize_dynamic A env sn cl s = Ok (add, s')"
    and cl: "cl_rel_kind cl = Absolute" "cl_flags_to_add cl = DIRECT" "cl_section_is_writable cl"
    and sec: "data_section sn si" and kind: "tw_output_kind tw = sc_output_kind env"
    and nat: "same_nature (res_flags res) (cl_flags cl)" "is_dynamic (cl_flags cl) \<longrightarrow> is_interposable (cl_flags cl)"
    and total: "merged_total lenv" and step: "in_step (sc_relr_enabled env) base (sc_relr s) tw"
    and base: "base mod 2 = 0" "unat base + unat (cl_rel_offset cl) + 1016 < 2 ^ 64"
  shows "(\<exists>n. reserves s s' n \<and>
            spends fst (write_absolute_relocation A lenv si res (base + cl_rel_offset cl) ad i tw) tw n) \<and>
    (\<forall>tw' v. write_absolute_relocation A lenv si res (base + cl_rel_offset cl) ad i tw = Ok (tw', v) \<longrightarrow>
       in_step (sc_relr_enabled env) base (sc_relr s') tw')"
proof -
  let ?f = "cl_flags cl" and ?pi = "is_position_independent (sc_output_kind env)"
  let ?plain = "value_with_addend (le_merged_string lenv) res ad i"
  have al: "sflags_contain (sn_flags sn) ALLOC" "sflags_contain (si_flags si) ALLOC" "si_writable si"
    using sec by (auto simp: data_section_def)
  have f: "is_absolute (res_flags res) = is_absolute ?f" "is_dynamic (res_flags res) = is_dynamic ?f"
    "is_ifunc (res_flags res) = is_ifunc ?f" "is_interposable (res_flags res) = is_interposable ?f"
    using nat(1) by (simp_all add: same_nature_def)
  have lt: "has_link_time_address ?f \<longleftrightarrow> \<not> is_ifunc ?f \<and> \<not> is_dynamic ?f \<and> \<not> is_absolute ?f"
    by (simp add: has_link_time_address_def is_ifunc_def is_dynamic_def is_absolute_def)
  have nd: "needs_direct DIRECT" "\<not> is_tls Absolute" by (simp_all add: needs_direct_def contains_def is_tls_def)
  have res_gen: "reserves s (scan_allocate RelaDynGeneralPart RELA_ENTRY_SIZE s) (one RelaDynGeneralPart)"
    by (simp add: reserves_def scan_allocate_def increment_def one_def entry_size_def)
  consider (dyn) "is_interposable ?f" | (ifunc) "\<not> is_interposable ?f" "is_ifunc ?f" "?pi"
    | (addr) "\<not> is_interposable ?f" "\<not> is_ifunc ?f" "?pi" "\<not> is_absolute ?f"
    | (none) "\<not> is_interposable ?f" "\<not> ?pi \<or> \<not> is_ifunc ?f \<and> is_absolute ?f" by blast
  then show ?thesis
  proof cases
    case dyn
    have s': "s' = scan_allocate RelaDynGeneralPart RELA_ENTRY_SIZE s"
      using mat cl al dyn nd by (auto simp: materialize_dynamic_def Let_def split: if_splits)
    show ?thesis
    proof (cases "dynamic_symbol_index res")
      case None
      then show ?thesis
        using al dyn f res_gen
        by (auto simp: write_absolute_relocation_def Let_def require_dynamic_symbol_index_def map_error_def s' spends_def
            intro!: exI [of _ "one RelaDynGeneralPart"])
    next
      case (Some d)
      have w: "write_absolute_relocation A lenv si res (base + cl_rel_offset cl) ad i tw =
          map_error TableError (bind_outcome (write_rela_dyn_general (base + cl_rel_offset cl) d
            (get_dynamic_relocation_type (ar_tables A) DynAbsolute) ad tw) (\<lambda>tw. Ok (tw, 0)))"
        using al dyn f Some
        by (simp add: write_absolute_relocation_def Let_def require_dynamic_symbol_index_def write_dynamic_symbol_relocation_def)
      show ?thesis unfolding w s' by (rule general_step [OF step])
    qed
  next
    case ifunc
    have s': "s' = scan_allocate RelaDynGeneralPart RELA_ENTRY_SIZE s"
      using mat cl al ifunc nd by (auto simp: materialize_dynamic_def Let_def split: if_splits)
    have w: "write_absolute_relocation A lenv si res (base + cl_rel_offset cl) ad i tw =
        map_error TableError (bind_outcome (write_rela_dyn_general (base + cl_rel_offset cl) 0
          (get_dynamic_relocation_type (ar_tables A) DynIrelative) (wrap_i64 (sint (raw_value res) + ad)) tw) (\<lambda>tw. Ok (tw, 0)))"
      using al ifunc f kind by (simp add: write_absolute_relocation_def Let_def write_ifunc_relocation_for_data_def)
    show ?thesis unfolding w s' by (rule general_step [OF step])
  next
    case addr
    have s': "s' = scan_address_relocation env (cl_rel_offset cl) s"
      using mat cl al addr nd lt nat(2) by (auto simp: materialize_dynamic_def Let_def split: if_splits)
    have w: "write_absolute_relocation A lenv si res (base + cl_rel_offset cl) ad i tw =
        bind_outcome ?plain (\<lambda>a. map_error TableError (write_address_relocation (ar_tables A) (base + cl_rel_offset cl) a tw))"
      using al addr f kind by (auto simp: write_absolute_relocation_def Let_def)
    show ?thesis
    proof (cases ?plain)
      case (Ok a)
      then show ?thesis unfolding w s' using address_step [OF step base, of "ar_tables A" a] by auto
    next
      case (Error e)
      then have "e = NoPltAddress" using value_with_addend_total [OF total, of res ad i] by auto
      then show ?thesis unfolding w s' Error
        using address_step(1) [OF step base] by (auto simp: spends_def)
    next
      case Panicked
      then show ?thesis using value_with_addend_total [OF total, of res ad i] by auto
    qed
  next
    case none
    have s': "s' = s"
      using mat cl al none nd lt by (auto simp: materialize_dynamic_def Let_def split: if_splits)
    have w: "write_absolute_relocation A lenv si res (base + cl_rel_offset cl) ad i tw = bind_outcome ?plain (\<lambda>v. Ok (tw, v))"
      using al none f kind nat(2) by (auto simp: write_absolute_relocation_def Let_def)
    have "reserves s s (\<lambda>_. 0)" by (simp add: reserves_def)
    moreover have "tw' = tw" if "bind_outcome ?plain (\<lambda>v. Ok (tw, v)) = Ok (tw', v)" for tw' v
      using that by (auto simp: outcome_simps)
    ultimately show ?thesis unfolding w s' using spends_plain [OF total] step by blast
  qed
qed

section \<open>A section of data\<close>

text \<open>A relocation type that stores an address and is not relaxed in data.\<close>

definition plain_absolute :: "'k arch_ops \<Rightarrow> rtype \<Rightarrow> bool" where
  "plain_absolute A t \<longleftrightarrow>
     (\<exists>ri. ar_relocation_from_raw A t = Some ri \<and> ri_kind ri = Absolute \<and> \<not> ri_thunkable ri) \<and>
     (\<forall>q. q_relocation q = t \<longrightarrow> \<not> sflags_contain (q_section_flags q) EXECINSTR \<longrightarrow> ar_new_relaxation A q = Some None)"

definition merged_flags :: "scan_env \<Rightarrow> scan_state \<Rightarrow> nat \<Rightarrow> ValueFlags" where
  "merged_flags env s l = flags_merge (sc_flags s (sc_definition env l)) (sc_flags s l)"

lemma note_sizes:
  "note_relocation_symbol_reference env cl s = (prev, s') \<Longrightarrow> sc_sizes s' = sc_sizes s \<and> sc_relr s' = sc_relr s"
  by (auto simp: note_relocation_symbol_reference_def Let_def split: if_splits)

lemma thunk_sizes [simp]:
  "sc_sizes (handle_thunk_extensions_for_relocation A env part cl s) = sc_sizes s"
  "sc_relr (handle_thunk_extensions_for_relocation A env part cl s) = sc_relr s"
  by (auto simp: handle_thunk_extensions_for_relocation_def split: option.splits)

lemma process_absolute:
  assumes "process_relocation A env sn rel s = Ok (m, s1)" "rel_symbol rel = Some l" "plain_absolute A (rel_type rel)"
    and "data_section sn si"
  obtains cl add s0 where "materialize_dynamic A env sn cl s = Ok (add, s0)" "cl_rel_kind cl = Absolute"
    "cl_flags_to_add cl = DIRECT" "cl_section_is_writable cl" "cl_rel_offset cl = rel_offset rel"
    "cl_flags cl = merged_flags env s l" "sc_sizes s1 = sc_sizes s0" "sc_relr s1 = sc_relr s0" "m = Normal"
proof -
  obtain ri where ri: "ar_relocation_from_raw A (rel_type rel) = Some ri" "ri_kind ri = Absolute"
    using assms(3) by (auto simp: plain_absolute_def)
  obtain cl cl' s0 where cl: "classify_symbol_relocation A env sn rel l (sc_flags s) = Ok cl"
    and mat: "materialize_relocation_requirements A env sn cl s = Ok (cl', s0)"
    using assms(1,2) by (auto simp: process_relocation_def outcome_simps)
  have "ar_new_relaxation A (scan_query env sn rel f) = Some None" for f
    using assms(3,4) by (simp add: plain_absolute_def scan_query_def data_section_def)
  then have c: "cl = \<lparr>cl_local_symbol = l, cl_symbol = sc_definition env l, cl_flags = merged_flags env s l, cl_flags_to_add = DIRECT,
      cl_rel_offset = rel_offset rel, cl_r_type = rel_type rel, cl_rel_kind = Absolute, cl_next_modifier = Normal,
      cl_section_is_writable = sn_writable sn\<rparr>"
    using cl ri by (simp add: classify_symbol_relocation_def Let_def of_panic_def with_context_def merged_flags_def)
  obtain add where add: "materialize_dynamic A env sn cl s = Ok (add, s0)" "cl_next_modifier cl' = Normal"
    using mat c by (auto simp: materialize_relocation_requirements_def outcome_simps Let_def)
  obtain prev s2 where n: "note_relocation_symbol_reference env cl' s0 = (prev, s2)" by fastforce
  have s1: "sc_sizes s1 = sc_sizes s0 \<and> sc_relr s1 = sc_relr s0 \<and> m = Normal"
    using assms(1,2) cl mat n add(2) note_sizes [OF n] by (auto simp: process_relocation_def Let_def)
  show thesis
    by (rule that [OF add(1)]) (use c s1 assms(4) in \<open>simp_all add: data_section_def\<close>)
qed

lemma apply_absolute:
  assumes "plain_absolute A (rel_type rel)" "data_section sn si" "rel_symbol rel = Some l"
  shows "(\<exists>e. apply_relocation A lenv si cache rest None rel off (out, tw) = Error e \<and> (\<forall>t. e \<noteq> TableError t)) \<or>
    (\<exists>res ri. symbol_resolution lenv l = Some res \<and>
       apply_relocation A lenv si cache rest None rel off (out, tw) =
       bind_outcome (write_absolute_relocation A lenv si res (si_address si + off) (rel_addend rel) l tw)
         (\<lambda>(tw, v). bind_outcome (write_at lenv ri v (unat off) out) (\<lambda>out. Ok ((out, tw), Normal))))"
proof -
  obtain ri where ri: "ar_relocation_from_raw A (rel_type rel) = Some ri" "ri_kind ri = Absolute" "\<not> ri_thunkable ri"
    using assms(1) by (auto simp: plain_absolute_def)
  have nr: "ar_new_relaxation A q = Some None" if "q_relocation q = rel_type rel" "q_section_flags q = si_flags si" for q
    using that assms(1,2) by (auto simp: plain_absolute_def data_section_def)
  show ?thesis
  proof (cases "symbol_resolution lenv l")
    case None
    then show ?thesis
      using ri assms(3) by (auto simp: apply_relocation_def with_context_def get_resolution_def Let_def)
  next
    case (Some res)
    have thunk: "maybe_get_thunk_for_relocation A lenv si ri l pl v = Ok None" for pl v
      using ri(3) by (simp add: maybe_get_thunk_for_relocation_def split: option.split)
    have ar: "apply_resolved A lenv si cache rest None rel ri res l (unat off) (out, tw) =
      bind_outcome (write_absolute_relocation A lenv si res (si_address si + off) (rel_addend rel) l tw)
         (\<lambda>(tw, v). bind_outcome (write_at lenv ri v (unat off) out) (\<lambda>out. Ok ((out, tw), Normal)))"
      using ri(2) by (simp add: apply_resolved_def choose_relaxation_def nr of_panic_def reloc_value_def adjusts_content_def thunk Let_def)
    have "apply_relocation A lenv si cache rest None rel off (out, tw) \<in>
        {Error DisallowedInSharedObject, Error DisallowedForInterposable,
         apply_resolved A lenv si cache rest None rel ri res l (unat off) (out, tw)}"
      using ri(1,2) assms(3) Some by (simp add: apply_relocation_def with_context_def get_resolution_def Let_def)
    then show ?thesis using ar Some by auto
  qed
qed

lemma write_at_not_table: "write_at lenv ri v off out \<noteq> Error (TableError t)"
  by (auto simp: write_at_def map_error_def split: outcome.splits)

lemma spends_write:
  assumes "spends fst w tw n"
  shows "spends (\<lambda>x. snd (fst x)) (bind_outcome w (\<lambda>(tw, v). bind_outcome (write_at lenv ri v off out) (\<lambda>out. Ok ((out, tw), m)))) tw n"
proof (cases w)
  case (Ok x)
  obtain tw1 v where x: "x = (tw1, v)" by (cases x)
  show ?thesis
    using assms write_at_not_table [of lenv ri v off out]
    by (cases "write_at lenv ri v off out") (auto simp: Ok x spends_def split: apply_error.splits table_error.splits)
qed (use assms in \<open>auto simp: spends_def\<close>)

lemma reserves_refl: "sc_sizes s' = sc_sizes s \<Longrightarrow> reserves s s' (\<lambda>_. 0)"
  by (simp add: reserves_def)

lemma reserves_trans:
  assumes "reserves s s1 na" "reserves s1 s2 nb"
  shows "reserves s s2 (\<lambda>p. na p + nb p)"
  unfolding reserves_def
proof
  fix p
  have "sc_sizes s2 p = (sc_sizes s p + of_nat (na p) * entry_size p) + of_nat (nb p) * entry_size p"
    using assms by (simp add: reserves_def)
  then show "sc_sizes s2 p = sc_sizes s p + of_nat (na p + nb p) * entry_size p" by (simp add: distrib_right add.assoc)
qed

lemma reserves_sizes: "sc_sizes s1 = sc_sizes s2 \<Longrightarrow> reserves s s1 n = reserves s s2 n"
  by (simp add: reserves_def)

lemma allocate_reserves: "n = entry_size p \<Longrightarrow> reserves s (scan_allocate p n s) (one p)"
  by (simp add: reserves_def scan_allocate_def increment_def one_def)

lemma materialize_reserves:
  assumes "materialize_dynamic A env sn cl s = Ok (add, s')"
  shows "\<exists>n. reserves s s' n"
proof -
  have "\<exists>p. sc_sizes s' = increment p (entry_size p) (sc_sizes s) \<or> sc_sizes s' = sc_sizes s"
    using assms
    by (auto simp: materialize_dynamic_def Let_def scan_address_relocation_def scan_allocate_def entry_size_def
        split: if_splits prod.splits RelrEntryEncoding.splits intro: exI [of _ RelaDynGeneralPart] exI [of _ RelaDynRelativePart]
        exI [of _ RelrDynPart])
  then obtain p where "sc_sizes s' = increment p (entry_size p) (sc_sizes s) \<or> sc_sizes s' = sc_sizes s" ..
  then have "reserves s s' (one p) \<or> reserves s s' (\<lambda>_. 0)"
    by (auto simp: reserves_def increment_def one_def)
  then show ?thesis by blast
qed

lemma spends_bind:
  assumes "spends get m tw na" "\<And>x. m = Ok x \<Longrightarrow> spends get' (f x) (get x) nb"
  shows "spends get' (bind_outcome m f) tw (\<lambda>p. na p + nb p)"
proof (cases m)
  case (Ok x)
  then have c: "consumes tw (get x) na" and m2: "spends get' (f x) (get x) nb" using assms by (simp_all add: spends_def)
  then have l: "part_left tw p = part_left (get x) p + na p" for p by (simp add: consumes_def)
  show ?thesis using m2 c l unfolding Ok spends_def
    by (auto simp: consumes_def split: outcome.splits apply_error.splits table_error.splits)
next
  case (Error e)
  then show ?thesis using assms(1) by (auto simp: spends_def split: apply_error.splits table_error.splits)
next
  case Panicked
  then show ?thesis by (simp add: spends_def)
qed

text \<open>Relocations of data, and resolutions of the nature that the scan saw.\<close>

definition data_relocation :: "'k arch_ops \<Rightarrow> u64 \<Rightarrow> relocation \<Rightarrow> bool" where
  "data_relocation A base rel \<longleftrightarrow>
     rel_symbol rel \<noteq> None \<and> plain_absolute A (rel_type rel) \<and> unat base + unat (rel_offset rel) + 1016 < 2 ^ 64"

definition natures_agree :: "scan_env \<Rightarrow> scan_state \<Rightarrow> link_env \<Rightarrow> bool" where
  "natures_agree env s lenv \<longleftrightarrow>
     (\<forall>i res. symbol_resolution lenv i = Some res \<longrightarrow> same_nature (res_flags res) (merged_flags env s i)) \<and>
     (\<forall>i. is_dynamic (merged_flags env s i) \<longrightarrow> is_interposable (merged_flags env s i))"

lemma natures_agree_process:
  assumes "natures_agree env s lenv" "process_relocation A env sn rel s = Ok (m, s1)"
  shows "natures_agree env s1 lenv"
proof -
  have "same_nature (merged_flags env s1 i) (merged_flags env s i)" for i
    unfolding merged_flags_def using process_relocation_nature [OF assms(2)] by (intro same_nature_merge)
  with assms(1) show ?thesis unfolding natures_agree_def same_nature_def by simp
qed

lemma load_reserves:
  assumes "load_section_relocations_from A env sn Normal rels s = Ok s'" "\<forall>rel \<in> set rels. data_relocation A base rel"
    and "data_section sn si"
  shows "\<exists>n. reserves s s' n"
  using assms(1,2)
proof (induction rels arbitrary: s)
  case Nil
  then show ?case using reserves_refl by auto
next
  case (Cons rel rels)
  obtain m s1 where p: "process_relocation A env sn rel s = Ok (m, s1)"
    and l: "load_section_relocations_from A env sn m rels s1 = Ok s'"
    using Cons.prems(1) by (auto simp: outcome_simps)
  obtain sym where "rel_symbol rel = Some sym" "plain_absolute A (rel_type rel)"
    using Cons.prems(2) by (auto simp: data_relocation_def)
  then obtain cl add s0 where mat: "materialize_dynamic A env sn cl s = Ok (add, s0)" "sc_sizes s1 = sc_sizes s0" "m = Normal"
    using process_absolute [OF p _ _ assms(3)] by metis
  then obtain na where "reserves s s1 na" using materialize_reserves reserves_sizes by metis
  moreover obtain nb where "reserves s1 s' nb" using Cons.IH l mat(3) Cons.prems(2) by auto
  ultimately show ?case using reserves_trans by blast
qed

lemma data_relocations_from:
  assumes "load_section_relocations_from A env sn Normal rels s = Ok s'" "\<forall>rel \<in> set rels. data_relocation A (si_address si) rel"
    and sec: "data_section sn si" "si_address si mod 2 = 0" and total: "merged_total lenv"
    and "natures_agree env s lenv" "tw_output_kind tw = sc_output_kind env" "in_step (sc_relr_enabled env) (si_address si) (sc_relr s) tw"
  shows "\<exists>n. reserves s s' n \<and> spends snd (apply_relocations_from A lenv si None Normal cache None rels (out, tw)) tw n"
  using assms(1,2,6-8)
proof (induction rels arbitrary: s tw out cache)
  case Nil
  then show ?case using reserves_refl [of s s] by (auto simp: spends_def consumes_refl)
next
  case (Cons rel rels)
  obtain m s1 where p: "process_relocation A env sn rel s = Ok (m, s1)"
    and l: "load_section_relocations_from A env sn m rels s1 = Ok s'"
    using Cons.prems(1) by (auto simp: outcome_simps)
  obtain sym where sym: "rel_symbol rel = Some sym" "plain_absolute A (rel_type rel)"
    and bd: "unat (si_address si) + unat (rel_offset rel) + 1016 < 2 ^ 64"
    using Cons.prems(2) by (auto simp: data_relocation_def)
  obtain cl add s0 where cl: "materialize_dynamic A env sn cl s = Ok (add, s0)" "cl_rel_kind cl = Absolute"
    "cl_flags_to_add cl = DIRECT" "cl_section_is_writable cl" "cl_rel_offset cl = rel_offset rel"
    "cl_flags cl = merged_flags env s sym" "sc_sizes s1 = sc_sizes s0" "sc_relr s1 = sc_relr s0" "m = Normal"
    using process_absolute [OF p sym sec(1)] by metis
  have rest: "load_section_relocations_from A env sn Normal rels s1 = Ok s'" "\<forall>rel \<in> set rels. data_relocation A (si_address si) rel"
    "natures_agree env s1 lenv"
    using l cl(9) Cons.prems(2) natures_agree_process [OF Cons.prems(3) p] by auto
  define cache' where "cache' = cache_high_part A None rel cache"
  let ?ap = "apply_relocation A lenv si cache' rels None rel (rel_offset rel) (out, tw)"
  have step: "apply_relocations_from A lenv si None Normal cache None (rel # rels) (out, tw) =
      bind_outcome ?ap (\<lambda>(st, m). apply_relocations_from A lenv si None m (cache'\<lparr>rc_previous := Some rel\<rparr>) None rels st)"
    by (simp add: cache'_def cursor_translate_def Let_def)
  from apply_absolute [OF sym(2) sec(1) sym(1), of lenv cache' rels "rel_offset rel" out tw]
  show ?case
  proof (elim disjE exE conjE)
    fix e assume e: "?ap = Error e" "\<forall>t. e \<noteq> TableError t"
    obtain n where "reserves s s' n" using load_reserves [OF Cons.prems(1,2) sec(1)] by blast
    moreover have "spends snd (Error e) tw n" using e(2) by (auto simp: spends_def split: apply_error.splits)
    ultimately show ?thesis unfolding step e(1) by auto
  next
    fix res ri
    assume res: "symbol_resolution lenv sym = Some res"
      and ap: "?ap = bind_outcome (write_absolute_relocation A lenv si res (si_address si + rel_offset rel) (rel_addend rel) sym tw)
         (\<lambda>(tw, v). bind_outcome (write_at lenv ri v (unat (rel_offset rel)) out) (\<lambda>out. Ok ((out, tw), Normal)))"
    let ?w = "write_absolute_relocation A lenv si res (si_address si + rel_offset rel) (rel_addend rel) sym tw"
    have nat: "same_nature (res_flags res) (cl_flags cl)" "is_dynamic (cl_flags cl) \<longrightarrow> is_interposable (cl_flags cl)"
      using Cons.prems(3) res cl(6) by (auto simp: natures_agree_def)
    note ab = absolute_step [OF cl(1-4) sec(1) Cons.prems(4) nat total Cons.prems(5) sec(2), unfolded cl(5), OF bd,
        where ad = "rel_addend rel" and i = sym]
    obtain na where na: "reserves s s1 na" "spends fst ?w tw na"
      using ab reserves_sizes [OF cl(7)] by blast
    have ap_spends: "spends (\<lambda>x. snd (fst x)) ?ap tw na" unfolding ap by (rule spends_write [OF na(2)])
    show ?thesis
    proof (cases ?ap)
      case (Ok x)
      obtain out1 tw1 where x: "x = ((out1, tw1), Normal)" and w: "\<exists>v. ?w = Ok (tw1, v)"
        using Ok unfolding ap by (auto simp: outcome_simps)
      have st1: "in_step (sc_relr_enabled env) (si_address si) (sc_relr s1) tw1" using w ab cl(8) by auto
      have "consumes tw tw1 na" using ap_spends Ok x by (simp add: spends_def)
      then have "tw_output_kind tw1 = sc_output_kind env" using Cons.prems(4) by (simp add: consumes_def)
      from Cons.IH [OF rest this st1, of "cache'\<lparr>rc_previous := Some rel\<rparr>" out1]
      obtain nb where nb: "reserves s1 s' nb"
        "spends snd (apply_relocations_from A lenv si None Normal (cache'\<lparr>rc_previous := Some rel\<rparr>) None rels (out1, tw1)) tw1 nb"
        by blast
      have "spends snd (apply_relocations_from A lenv si None Normal cache None (rel # rels) (out, tw)) tw (\<lambda>p. na p + nb p)"
        unfolding step by (rule spends_bind [OF ap_spends]) (use Ok x nb(2) in auto)
      with reserves_trans [OF na(1) nb(1)] show ?thesis by blast
    next
      case (Error e)
      obtain nb where nb: "reserves s1 s' nb" using load_reserves [OF rest(1,2) sec(1)] by blast
      have "spends snd (apply_relocations_from A lenv si None Normal cache None (rel # rels) (out, tw)) tw (\<lambda>p. na p + nb p)"
        unfolding step by (rule spends_bind [OF ap_spends]) (use Error in auto)
      with reserves_trans [OF na(1) nb] show ?thesis by blast
    next
      case Panicked
      obtain nb where nb: "reserves s1 s' nb" using load_reserves [OF rest(1,2) sec(1)] by blast
      have "spends snd (apply_relocations_from A lenv si None Normal cache None (rel # rels) (out, tw)) tw (\<lambda>p. na p + nb p)"
        unfolding step by (rule spends_bind [OF ap_spends]) (use Panicked in auto)
      with reserves_trans [OF na(1) nb] show ?thesis by blast
    qed
  qed
qed

section \<open>The writer finds the addresses that the scan asked for\<close>

definition finds_addresses :: "(apply_error, 'a) outcome \<Rightarrow> bool" where
  "finds_addresses m \<longleftrightarrow> m \<noteq> Error NoGotAddress \<and> m \<noteq> Error NoPltAddress \<and> m \<noteq> Panicked"

lemma finds_Ok [simp]: "finds_addresses (Ok a)"
  by (simp add: finds_addresses_def)

lemma finds_bind: "finds_addresses m \<Longrightarrow> (\<And>a. m = Ok a \<Longrightarrow> finds_addresses (f a)) \<Longrightarrow> finds_addresses (bind_outcome m f)"
  by (cases m) (auto simp: finds_addresses_def)

lemma finds_table: "(m :: (table_error, 'a) outcome) \<noteq> Panicked \<Longrightarrow> finds_addresses (map_error TableError m)"
  by (cases m) (auto simp: finds_addresses_def map_error_def)

text \<open>What is asked of a symbol, leaving aside that its value is used.\<close>

definition asked_for :: "RelocationKind \<Rightarrow> ValueFlags \<Rightarrow> bool" where
  "asked_for k fl \<longleftrightarrow> (\<forall>n. n \<noteq> 6 \<longrightarrow> bit (reloc_resolution_flags k) n \<longrightarrow> bit fl n)"

definition has_addresses :: "Resolution \<Rightarrow> bool" where
  "has_addresses res \<longleftrightarrow>
     (needs_plt (res_flags res) \<longrightarrow> plt_address res \<noteq> None) \<and>
     (needs_got (res_flags res) \<or> needs_plt (res_flags res) \<or> needs_tls_got (res_flags res) \<longrightarrow> got_address res \<noteq> None)"

lemma create_resolution_has_addresses:
  "create_resolution fl raw dyn mo relr ok = Some (res, mo') \<Longrightarrow> res_flags res = fl \<and> has_addresses res"
  by (auto simp: create_resolution_def has_addresses_def Let_def split: if_splits bind_splits)

lemma tls_got_bits: "needs_tls_got f \<longleftrightarrow> bit f 9 \<or> bit f 10 \<or> bit f 11"
  by (auto simp: needs_tls_got_def needs_got_tls_offset_def [symmetric] needs_got_tls_module_def [symmetric]
      needs_got_tls_descriptor_def [symmetric] flag_bits)

lemma flag_bit_values:
  "bit GOT n \<longleftrightarrow> n = 7" "bit PLT n \<longleftrightarrow> n = 8" "bit GOT_TLS_MODULE n \<longleftrightarrow> n = 9" "bit GOT_TLS_OFFSET n \<longleftrightarrow> n = 10"
  "bit GOT_TLS_DESCRIPTOR n \<longleftrightarrow> n = 11" "bit DIRECT n \<longleftrightarrow> n = 6" "bit COPY_RELOCATION n \<longleftrightarrow> n = 13" "bit IFUNC_GOT_FOR_ADDRESS n \<longleftrightarrow> n = 14"
  "bit NON_INTERPOSABLE n \<longleftrightarrow> n = 3" "bit HAS_RANGE_LIMITED_REL n \<longleftrightarrow> n = 15"
  by (auto simp only: flag_defs bit_exp_iff) (auto simp: bit_exp_iff)

lemma finds_absolute:
  assumes "merged_total lenv" "is_ifunc (res_flags res) \<longrightarrow> plt_address res \<noteq> None"
  shows "finds_addresses (value_with_addend (le_merged_string lenv) res ad i)"
    "finds_addresses (write_absolute_relocation A lenv si res place ad i tw)"
proof -
  have v: "\<exists>v. value_with_addend (le_merged_string lenv) res ad i = Ok v"
  proof -
    obtain m where "le_merged_string lenv i ad = Ok m" using assms(1) by (auto simp: merged_total_def)
    then show ?thesis
      using assms(2) by (cases m) (auto simp: value_with_addend_def res_plt_address_def with_context_def)
  qed
  then show "finds_addresses (value_with_addend (le_merged_string lenv) res ad i)" by (auto simp: finds_addresses_def)
  have "write_address_relocation T place a tw \<noteq> Panicked" for T a
    by (auto simp: write_address_relocation_def write_relative_rela_def take_entry_def split: option.splits prod.splits RelrEntryEncoding.splits)
  then have addr: "finds_addresses (map_error TableError (write_address_relocation T place a tw))" for T a by (rule finds_table)
  let ?plain = "value_with_addend (le_merged_string lenv) res ad i" and ?T = "ar_tables A"
  have b1: "finds_addresses (bind_outcome ?plain (\<lambda>v. Ok (tw, v)))" using v by auto
  have b2: "finds_addresses (map_error TableError (bind_outcome (require_dynamic_symbol_index res) (\<lambda>i.
      bind_outcome (write_dynamic_symbol_relocation ?T place ad i DynAbsolute tw) (\<lambda>tw. Ok (tw, 0 :: u64)))))"
    by (rule finds_table) (auto simp: require_dynamic_symbol_index_def write_dynamic_symbol_relocation_def
        write_rela_dyn_general_def take_entry_def split: option.split)
  have b3: "finds_addresses (map_error TableError (bind_outcome
      (write_ifunc_relocation_for_data ?T place x tw) (\<lambda>tw. Ok (tw, 0 :: u64))))" for x
    by (rule finds_table) (auto simp: write_ifunc_relocation_for_data_def write_rela_dyn_general_def take_entry_def)
  have b4: "finds_addresses (bind_outcome ?plain (\<lambda>a. map_error TableError (write_address_relocation ?T place a tw)))"
    using v addr by auto
  show "finds_addresses (write_absolute_relocation A lenv si res place ad i tw)"
    unfolding write_absolute_relocation_def Let_def using b1 b2 b3 b4 by (simp split: if_split)
qed

lemma reloc_value_finds:
  assumes k: "ri_kind ri = k" "k \<noteq> RelativeRiscVLow12" "k \<noteq> AlignmentReloc" "\<not> is_uleb_pair k"
    and asked: "asked_for k (res_flags res)" and addr: "has_addresses res"
    and ifunc: "is_ifunc (res_flags res) \<longrightarrow> needs_plt (res_flags res)"
    and tlsld: "needs_tlsld k \<longrightarrow> le_tlsld_got_entry lenv \<noteq> None" and total: "merged_total lenv"
  shows "finds_addresses (reloc_value A lenv si cache rest deltas' rel res i ri place ad tw)"
proof -
  have p: "is_ifunc (res_flags res) \<longrightarrow> plt_address res \<noteq> None" using ifunc addr by (simp add: has_addresses_def)
  note fa = finds_absolute [OF total p]
  obtain v where v: "value_with_addend (le_merged_string lenv) res ad i = Ok v"
    using fa(1) [of ad i] value_with_addend_total [OF total, of res ad i] by (auto simp: finds_addresses_def)
  have got: "got_address res \<noteq> None" if "bit (reloc_resolution_flags k) n" "n \<in> {7, 8, 9, 10, 11}" for n
  proof -
    have "n \<noteq> 6" using that(2) by auto
    then have "bit (res_flags res) n" using asked that(1) by (auto simp: asked_for_def)
    then show ?thesis using addr that(2) by (auto simp: has_addresses_def flag_bits tls_got_bits)
  qed
  have plt: "plt_address res \<noteq> None" if "bit (reloc_resolution_flags k) 8"
    using that asked addr by (auto simp: asked_for_def has_addresses_def flag_bits)
  note defs = reloc_value_def Let_def got_address_for_relocation_def tlsgd_got_address_def tls_descriptor_got_address_def
    res_got_address_def res_plt_address_def with_context_def of_panic_def k(1) v
  show ?thesis
  proof (cases k)
    case Absolute
    then show ?thesis using fa(2) by (simp add: reloc_value_def Let_def k(1))
  next
    case (PairSubtractionULEB128 x)
    with k(4) show ?thesis by (simp add: is_uleb_pair_def)
  qed (use got plt k tlsld in \<open>auto simp: defs flag_bit_values bit_or_iff needs_tlsld_def split: option.splits\<close>)
qed

lemma flag_width: "bit (f :: ValueFlags) n \<Longrightarrow> n < 32"
  using bit_imp_le_length [of f n] by simp

lemma materialize_dynamic_asked:
  assumes "materialize_dynamic A env sn cl s = Ok (add, s1)"
  shows "n \<noteq> 6 \<Longrightarrow> bit (cl_flags_to_add cl) n \<Longrightarrow> bit add n"
    and "sflags_contain (sn_flags sn) ALLOC \<Longrightarrow> needs_tlsld (cl_rel_kind cl) \<Longrightarrow> sc_uses_tlsld s1"
    and "sc_uses_tlsld s \<Longrightarrow> sc_uses_tlsld s1"
  using assms flag_width [of "cl_flags_to_add cl" n]
  by (auto simp: materialize_dynamic_def Let_def bit_or_iff bit_and_iff bit_not_iff flag_bit_values scan_allocate_def
      scan_address_relocation_def needs_tlsld_def is_tls_def
      split: if_splits prod.splits RelrEntryEncoding.splits)

lemma materialize_asked:
  assumes "materialize_relocation_requirements A env sn cl s = Ok (cl', s1)"
  shows "n \<noteq> 6 \<Longrightarrow> bit (cl_flags_to_add cl) n \<Longrightarrow> bit (cl_flags_to_add cl') n"
    and "is_ifunc (cl_flags cl) \<Longrightarrow> \<not> is_static_executable (sc_output_kind env) \<Longrightarrow> needs_plt (cl_flags_to_add cl')"
    and "sflags_contain (sn_flags sn) ALLOC \<Longrightarrow> needs_tlsld (cl_rel_kind cl) \<Longrightarrow> sc_uses_tlsld s1"
proof -
  obtain add where m: "materialize_dynamic A env sn cl s = Ok (add, s1)"
    and cl': "cl_flags_to_add cl' =
      (let add' = (if is_ifunc (cl_flags cl) \<and> \<not> is_static_executable (sc_output_kind env) then add OR GOT OR PLT else add)
       in if is_ifunc (cl_flags cl) \<and> needs_got add \<and> has_fixed_load_address (sc_output_kind env) then add' OR IFUNC_GOT_FOR_ADDRESS else add')"
    using assms by (auto simp: materialize_relocation_requirements_def outcome_simps Let_def)
  show "n \<noteq> 6 \<Longrightarrow> bit (cl_flags_to_add cl) n \<Longrightarrow> bit (cl_flags_to_add cl') n"
    using materialize_dynamic_asked(1) [OF m, of n] by (auto simp: cl' Let_def bit_or_iff)
  show "is_ifunc (cl_flags cl) \<Longrightarrow> \<not> is_static_executable (sc_output_kind env) \<Longrightarrow> needs_plt (cl_flags_to_add cl')"
    by (simp add: cl' Let_def flag_bits(8) bit_or_iff flag_bit_values)
  show "sflags_contain (sn_flags sn) ALLOC \<Longrightarrow> needs_tlsld (cl_rel_kind cl) \<Longrightarrow> sc_uses_tlsld s1"
    by (rule materialize_dynamic_asked(2) [OF m])
qed

text \<open>An indirect function that anything was asked of has a PLT entry.\<close>

definition ifuncs_have_plt :: "scan_state \<Rightarrow> bool" where
  "ifuncs_have_plt s \<longleftrightarrow> (\<forall>i. is_ifunc (sc_flags s i) \<and> has_resolution (sc_flags s i) \<longrightarrow> needs_plt (sc_flags s i))"

lemma note_flags:
  assumes "note_relocation_symbol_reference env cl s = (prev, s')"
  shows "i \<noteq> cl_symbol cl \<Longrightarrow> sc_flags s' i = sc_flags s i"
    and "bit (cl_flags_to_add cl) n \<Longrightarrow> bit (sc_flags s' (cl_symbol cl)) n"
    and "bit (sc_flags s (cl_symbol cl)) n \<Longrightarrow> bit (sc_flags s' (cl_symbol cl)) n"
    and "is_ifunc (cl_flags cl) \<Longrightarrow> is_static_executable (sc_output_kind env) \<Longrightarrow>
           has_resolution (sc_flags s (cl_symbol cl)) \<or> needs_plt (sc_flags s' (cl_symbol cl))"
    and "sc_uses_tlsld s' = sc_uses_tlsld s"
  using assms
  by (auto simp: note_relocation_symbol_reference_def Let_def bit_or_iff flag_bits(8) flag_bit_values split: if_splits)

lemma thunk_flags:
  "sc_uses_tlsld (handle_thunk_extensions_for_relocation A env part cl s) = sc_uses_tlsld s"
  "sc_flags (handle_thunk_extensions_for_relocation A env part cl s) i = sc_flags s i \<or>
   sc_flags (handle_thunk_extensions_for_relocation A env part cl s) i = sc_flags s i OR HAS_RANGE_LIMITED_REL"
  by (auto simp: handle_thunk_extensions_for_relocation_def split: option.splits)

lemma range_limited_kept:
  "is_ifunc (f OR HAS_RANGE_LIMITED_REL) = is_ifunc f" "needs_plt (f OR HAS_RANGE_LIMITED_REL) = needs_plt f"
  "has_resolution (f OR HAS_RANGE_LIMITED_REL) = has_resolution f"
proof -
  show "is_ifunc (f OR HAS_RANGE_LIMITED_REL) = is_ifunc f" "needs_plt (f OR HAS_RANGE_LIMITED_REL) = needs_plt f"
    by (simp_all add: flag_bits(3,8) bit_or_iff flag_bit_values)
  have "resolution_flags (f OR HAS_RANGE_LIMITED_REL) = resolution_flags f"
    unfolding resolution_flags_def
    by (rule bit_word_eqI) (auto simp: bit_and_iff bit_or_iff flag_bit_values EXPORT_DYNAMIC_def bit_exp_iff simp del: power_numeral)
  then show "has_resolution (f OR HAS_RANGE_LIMITED_REL) = has_resolution f" by (simp add: has_resolution_def)
qed

lemma merge_ifunc: "is_ifunc (flags_merge f g) = is_ifunc f"
  by (simp add: flags_merge_def flag_bits(3) bit_or_iff flag_bit_values)

lemma materialize_keeps_tlsld:
  "materialize_relocation_requirements A env sn cl s = Ok (cl', s1) \<Longrightarrow> sc_uses_tlsld s \<Longrightarrow> sc_uses_tlsld s1"
  by (auto simp: materialize_relocation_requirements_def outcome_simps Let_def dest: materialize_dynamic_asked(3))

lemma process_relocation_steps:
  assumes p: "process_relocation A env sn rel s = Ok (m, s')" and sym: "rel_symbol rel = Some l"
  obtains cl cl' s1 prev s2 s3 where "classify_symbol_relocation A env sn rel l (sc_flags s) = Ok cl"
    "materialize_relocation_requirements A env sn cl s = Ok (cl', s1)" "note_relocation_symbol_reference env cl' s1 = (prev, s2)"
    "s3 = (if sn_debug sn then s2 else handle_thunk_extensions_for_relocation A env (sn_part_id sn) cl' s2)"
    "sc_flags s' = sc_flags s3" "sc_uses_tlsld s' = sc_uses_tlsld s3"
proof -
  obtain cl cl' s1 where cl: "classify_symbol_relocation A env sn rel l (sc_flags s) = Ok cl"
    and mat: "materialize_relocation_requirements A env sn cl s = Ok (cl', s1)"
    using p sym by (auto simp: process_relocation_def outcome_simps)
  obtain prev s2 where n: "note_relocation_symbol_reference env cl' s1 = (prev, s2)" by fastforce
  define s3 where "s3 = (if sn_debug sn then s2 else handle_thunk_extensions_for_relocation A env (sn_part_id sn) cl' s2)"
  have "sc_flags s' = sc_flags s3" "sc_uses_tlsld s' = sc_uses_tlsld s3"
    using p unfolding process_relocation_def sym option.case cl mat bind_outcome.simps split n s3_def [symmetric] Let_def
    by (auto split: if_splits)
  with that cl mat n s3_def show thesis by blast
qed

text \<open>What one relocation leaves behind: its symbol has what its kind asks for.\<close>

lemma process_relocation_asked:
  assumes p: "process_relocation A env sn rel s = Ok (m, s')" and sym: "rel_symbol rel = Some l"
    and cl: "classify_symbol_relocation A env sn rel l (sc_flags s) = Ok cl" and inv: "ifuncs_have_plt s"
  shows "asked_for (cl_rel_kind cl) (sc_flags s' (sc_definition env l))" "ifuncs_have_plt s'"
    "is_ifunc (sc_flags s' (sc_definition env l)) \<longrightarrow> needs_plt (sc_flags s' (sc_definition env l))"
    "sflags_contain (sn_flags sn) ALLOC \<longrightarrow> needs_tlsld (cl_rel_kind cl) \<longrightarrow> sc_uses_tlsld s'"
proof -
  let ?d = "sc_definition env l"
  have c: "cl_symbol cl = ?d" "cl_flags_to_add cl = reloc_resolution_flags (cl_rel_kind cl)"
    "cl_flags cl = merged_flags env s l"
    using cl by (auto simp: classify_symbol_relocation_def Let_def outcome_simps merged_flags_def split: option.splits)
  obtain cl0 cl' s1 prev s2 s3 where st: "classify_symbol_relocation A env sn rel l (sc_flags s) = Ok cl0"
    "materialize_relocation_requirements A env sn cl0 s = Ok (cl', s1)" and n: "note_relocation_symbol_reference env cl' s1 = (prev, s2)"
    and s3_def: "s3 = (if sn_debug sn then s2 else handle_thunk_extensions_for_relocation A env (sn_part_id sn) cl' s2)"
    and s': "sc_flags s' = sc_flags s3" "sc_uses_tlsld s' = sc_uses_tlsld s3"
    by (rule process_relocation_steps [OF p sym])
  have mat: "materialize_relocation_requirements A env sn cl s = Ok (cl', s1)" using st cl by simp
  note ma = materialize_asks [OF mat classify_asks [OF cl]]
  note nf = note_flags [OF n]
  have f3: "sc_flags s' i = sc_flags s2 i \<or> sc_flags s' i = sc_flags s2 i OR HAS_RANGE_LIMITED_REL" for i
    unfolding s'(1) s3_def using thunk_flags(2) [of A env "sn_part_id sn" cl' s2 i] by (cases "sn_debug sn") (simp_all only: if_True if_False, blast)
  have bits: "bit (sc_flags s2 i) k \<Longrightarrow> bit (sc_flags s' i) k" for i k using f3 [of i] by (auto simp: bit_or_iff)
  have eq: "is_ifunc (sc_flags s' i) = is_ifunc (sc_flags s2 i)" "needs_plt (sc_flags s' i) = needs_plt (sc_flags s2 i)"
    "has_resolution (sc_flags s' i) = has_resolution (sc_flags s2 i)" for i
    using f3 [of i] range_limited_kept by auto
  show asked: "asked_for (cl_rel_kind cl) (sc_flags s' ?d)"
    unfolding asked_for_def using materialize_asked(1) [OF mat] nf(2) bits c(1,2) ma(3) by metis
  have ifunc2: "is_ifunc (sc_flags s2 ?d) \<Longrightarrow> needs_plt (sc_flags s2 ?d)"
  proof -
    assume i2: "is_ifunc (sc_flags s2 ?d)"
    have "same_nature (sc_flags s2 ?d) (sc_flags s ?d)" using note_nature [OF n ma(1)] ma(2) by metis
    then have "is_ifunc (sc_flags s ?d)" using i2 by (simp add: same_nature_def)
    then have fl: "is_ifunc (cl_flags cl)" by (simp add: c(3) merged_flags_def merge_ifunc)
    show "needs_plt (sc_flags s2 ?d)"
    proof (cases "is_static_executable (sc_output_kind env)")
      case True
      then have "has_resolution (sc_flags s ?d) \<or> needs_plt (sc_flags s2 ?d)" using nf(4) fl ma(2,3,4) c(1) by auto
      moreover have "has_resolution (sc_flags s ?d) \<Longrightarrow> needs_plt (sc_flags s ?d)"
        using inv \<open>is_ifunc (sc_flags s ?d)\<close> by (simp add: ifuncs_have_plt_def)
      ultimately show ?thesis using nf(3) [of 8] ma(2,3) c(1) by (auto simp: flag_bits(8))
    next
      case False
      then have "needs_plt (cl_flags_to_add cl')" using materialize_asked(2) [OF mat fl] by blast
      then show ?thesis using nf(2) [of 8] ma(3) c(1) by (simp add: flag_bits(8))
    qed
  qed
  then show "is_ifunc (sc_flags s' ?d) \<longrightarrow> needs_plt (sc_flags s' ?d)" using eq by blast
  show "ifuncs_have_plt s'"
    unfolding ifuncs_have_plt_def
  proof (intro allI impI)
    fix i assume i: "is_ifunc (sc_flags s' i) \<and> has_resolution (sc_flags s' i)"
    show "needs_plt (sc_flags s' i)"
    proof (cases "i = ?d")
      case True
      with i ifunc2 eq show ?thesis by blast
    next
      case False
      then have "sc_flags s2 i = sc_flags s i" using nf(1) ma(2,3) c(1) by auto
      with i inv eq show ?thesis by (simp add: ifuncs_have_plt_def)
    qed
  qed
  show "sflags_contain (sn_flags sn) ALLOC \<longrightarrow> needs_tlsld (cl_rel_kind cl) \<longrightarrow> sc_uses_tlsld s'"
    using materialize_asked(3) [OF mat] nf(5) s'(2) unfolding s3_def by (cases "sn_debug sn") (simp_all add: thunk_flags(1))
qed

end
