(* ===== verification/Reloc_Exact.thy ===== *)
theory Reloc_Exact
  imports Reloc_Scan Got_Exact
begin

text \<open>
  Scanning and writing the relocations of a section agree: the dynamic relocations that the scan
  reserved for a section of data are those that the writer uses, and the GOT and PLT addresses that
  the writer needs are those that the scan asked for. x86-64 is the instance.
\<close>

section \<open>The instance of trait Arch\<close>

definition x86_ops :: "u64 \<Rightarrow> X86_64Relaxation arch_ops" where
  "x86_ops tls_end_address =
     \<lparr>ar_relocation_from_raw = x86_relocation_from_raw,
      ar_disallowed_for_interposable = x86_is_disallowed_for_interposable_symbols,
      ar_disallowed_in_shared_object = x86_is_disallowed_in_shared_object,
      ar_new_relaxation = x86_new_relaxation,
      ar_apply = x86_apply,
      ar_next_modifier = x86_next_modifier,
      ar_fill_nop_padding = (\<lambda>buf. Some (x86_fill_nop_padding buf)),
      ar_high_part_relocations = [],
      ar_local_entry_offset = (\<lambda>_. 0),
      ar_thunk_config = None,
      ar_tables = x86_tables tls_end_address\<rparr>"

lemma x86_not_thunkable: "x86_relocation_from_raw t = Some ri \<Longrightarrow> \<not> ri_thunkable ri"
  by (auto simp: x86_relocation_from_raw_def split: option.splits)

text \<open>Outside code, x86-64 only ever relaxes PC-relative references to indirect functions.\<close>

lemma x86_plain_absolute:
  assumes "x86_relocation_from_raw t = Some ri" "ri_kind ri = Absolute" "t \<noteq> ''R_X86_64_PC32''"
  shows "plain_absolute (x86_ops tls) t"
  using assms by (auto simp: plain_absolute_def x86_ops_def x86_new_relaxation_def Let_def x86_not_thunkable)

section \<open>Reserved and used\<close>

text \<open>
  C35. The scan of a section of data and the writer agree on dynamic relocations: in every table
  the scan reserves space for as many entries as the writer takes when it applies the relocations
  of the section, and the writer runs out of a table only if it had less left than was reserved.
  The relocations are those that store an address; sections start at even addresses, both passes
  see the same properties of every symbol (\<open>natures_agree\<close>), strings are merged without error, and
  relative relocations are packed by both or by none.
\<close>

theorem data_relocations_exact:
  assumes "load_section_relocations A env sn rels s = Ok s'"
    and "\<forall>rel \<in> set rels. data_relocation A (si_address si) rel"
    and "data_section sn si" "si_address si mod 2 = 0" "merged_total lenv" "natures_agree env s lenv"
    and "tw_output_kind tw = sc_output_kind env" "sc_relr_enabled env \<longleftrightarrow> tw_relr_dyn tw \<noteq> None"
  shows "\<exists>n. (\<forall>p. sc_sizes s' p = sc_sizes s p + of_nat (n p) * entry_size p) \<and>
           (case apply_relocations A lenv si None rels (out, reset_relr_run tw) of
              Ok (out', tw') \<Rightarrow> \<forall>p. part_left tw p = part_left tw' p + n p
            | Error (TableError (InsufficientAllocation p)) \<Rightarrow> part_left tw p < n p
            | _ \<Rightarrow> True)"
proof -
  let ?sn = "sn\<lparr>sn_debug := False\<rparr>" and ?s = "s\<lparr>sc_relr := NoRun\<rparr>" and ?tw = "reset_relr_run tw"
  have sec: "data_section ?sn si" using assms(3) by (simp add: data_section_def)
  have agree: "natures_agree env ?s lenv" using assms(6) by (simp add: natures_agree_def merged_flags_def)
  have step: "in_step (sc_relr_enabled env) (si_address si) (sc_relr ?s) ?tw"
    using assms(8) by (simp add: in_step_def reset_relr_run_def)
  have left: "part_left ?tw p = part_left tw p" for p
    by (simp add: part_left_def reset_relr_run_def split: Part.splits)
  have kind: "tw_output_kind ?tw = sc_output_kind env" using assms(7) by (simp add: reset_relr_run_def)
  obtain n where "reserves ?s s' n"
    and "spends snd (apply_relocations_from A lenv si None Normal empty_cache None rels (out, ?tw)) ?tw n"
    using data_relocations_from [OF assms(1) [unfolded load_section_relocations_def] assms(2) sec assms(4,5) agree kind step]
    by blast
  then show ?thesis
    by (intro exI [of _ n])
      (auto simp: reserves_def spends_def consumes_def left apply_relocations_def
        split: outcome.splits apply_error.splits table_error.splits)
qed


text \<open>Two pointers of a position-independent executable, one of them at an odd address, so not packed.\<close>

definition example_env :: scan_env where
  "example_env =
     \<lparr>sc_output_kind = DynamicExecutable PositionIndependent, sc_relax = True, sc_relr_enabled = True,
      sc_copy_relocations_allowed = True, sc_definition = (\<lambda>i. i), sc_emit_undefined = (\<lambda>_ _. False),
      sc_part_of = (\<lambda>_. 0), sc_thunk_part = None\<rparr>"

definition example_scan :: scan_state where
  "example_scan =
     \<lparr>sc_sizes = (\<lambda>_. 0), sc_relr = NoRun, sc_has_static_tls = False, sc_uses_tlsld = False,
      sc_flags = (\<lambda>_. NON_INTERPOSABLE), sc_symbol_requests = [], sc_copy_requests = [], sc_thunk_references = [],
      sc_undefined = []\<rparr>"

definition example_data :: scan_section where
  "example_data = \<lparr>sn_flags = ALLOC, sn_writable = True, sn_bytes = replicate 24 0, sn_part_id = 0, sn_debug = False\<rparr>"

definition example_info :: SectionInfo where
  "example_info = \<lparr>si_address = 0x40, si_writable = True, si_flags = ALLOC, si_part_id = 0\<rparr>"

definition example_relocs :: "relocation list" where
  "example_relocs =
     [\<lparr>rel_offset = 0, rel_type = ''R_X86_64_64'', rel_symbol = Some 1, rel_addend = 4\<rparr>,
      \<lparr>rel_offset = 9, rel_type = ''R_X86_64_64'', rel_symbol = Some 1, rel_addend = 0\<rparr>]"

definition example_lenv :: link_env where
  "example_lenv =
     \<lparr>le_output_kind = DynamicExecutable PositionIndependent, le_relax = True, le_got_base = 0x3000,
      le_tls_start = 0, le_tls_end = 0, le_tlsld_got_entry = None,
      le_merged_resolution = (\<lambda>i. Some \<lparr>raw_value = 0x10, dynamic_symbol_index = None, res_flags = NON_INTERPOSABLE OR DIRECT,
                                       got_address = None, plt_address = None\<rparr>),
      le_flags = (\<lambda>_. NON_INTERPOSABLE OR DIRECT), le_definition = (\<lambda>i. i), le_is_undefined = (\<lambda>_. False),
      le_st_other = (\<lambda>_. 0), le_symbol_section = (\<lambda>_. None), le_symbol_value = (\<lambda>_. 0),
      le_merged_string = (\<lambda>_ _. Ok None), le_merged_string_sliced = (\<lambda>_ _. Ok None), le_section_slot = (\<lambda>_. None),
      le_thunk_block_id = 0, le_thunk_block_addresses = (\<lambda>_ _. None), le_uleb = (\<lambda>_. [])\<rparr>"

definition example_sizes :: part_sizes where
  "example_sizes p = (case p of RelrDynPart \<Rightarrow> RELR_ENTRY_SIZE | RelaDynRelativePart \<Rightarrow> RELA_ENTRY_SIZE | _ \<Rightarrow> 0)"

definition example_writer :: TableWriter where
  "example_writer = table_writer_new (DynamicExecutable PositionIndependent) 0 0 example_sizes True"

lemma example_agrees: "natures_agree example_env example_scan example_lenv"
proof -
  have "flags_merge NON_INTERPOSABLE NON_INTERPOSABLE = NON_INTERPOSABLE" by code_simp
  moreover have "same_nature (NON_INTERPOSABLE OR DIRECT) NON_INTERPOSABLE" by code_simp
  moreover have "\<not> is_dynamic NON_INTERPOSABLE" by code_simp
  ultimately show ?thesis
    by (simp add: natures_agree_def merged_flags_def example_env_def example_scan_def example_lenv_def symbol_resolution_def)
qed

lemma example_loads:
  "case load_section_relocations (x86_ops 0) example_env example_data example_relocs example_scan of
     Ok s' \<Rightarrow> sc_sizes s' RelrDynPart = RELR_ENTRY_SIZE \<and> sc_sizes s' RelaDynRelativePart = RELA_ENTRY_SIZE
   | _ \<Rightarrow> False"
  by code_simp

lemma example_applies:
  "case apply_relocations (x86_ops 0) example_lenv example_info None example_relocs (replicate 24 0, reset_relr_run example_writer) of
     Ok (out', tw') \<Rightarrow> part_left tw' RelrDynPart = 0 \<and> part_left tw' RelaDynRelativePart = 0
   | _ \<Rightarrow> False"
  by code_simp

lemma example_relocs_plain: "\<forall>rel \<in> set example_relocs. data_relocation (x86_ops 0) (si_address example_info) rel"
proof -
  have "\<exists>ri. x86_relocation_from_raw ''R_X86_64_64'' = Some ri \<and> ri_kind ri = Absolute"
    by (simp add: x86_relocation_from_raw_def x86_relocs_def RELOC_8_BYTE_UNSIGNED_def)
  then have "plain_absolute (x86_ops 0) ''R_X86_64_64''" using x86_plain_absolute by fastforce
  then show ?thesis by (simp add: example_relocs_def data_relocation_def example_info_def)
qed

lemma example_section: "data_section example_data example_info" "si_address example_info mod 2 = 0" "merged_total example_lenv"
  by (simp_all add: data_section_def example_data_def example_info_def sflags_contain_def ALLOC_def EXECINSTR_def
      merged_total_def example_lenv_def)

lemma example_tables:
  "tw_output_kind example_writer = sc_output_kind example_env" "sc_relr_enabled example_env = (tw_relr_dyn example_writer \<noteq> None)"
  by code_simp+

theorem data_relocations_exact_witness:
  "\<exists>s' n out' tw'.
     load_section_relocations (x86_ops 0) example_env example_data example_relocs example_scan = Ok s' \<and>
     sc_sizes s' RelrDynPart = of_nat (n RelrDynPart) * entry_size RelrDynPart \<and>
     apply_relocations (x86_ops 0) example_lenv example_info None example_relocs (replicate 24 0, reset_relr_run example_writer)
       = Ok (out', tw') \<and>
     part_left example_writer RelrDynPart = part_left tw' RelrDynPart + n RelrDynPart"
proof -
  obtain s' where s': "load_section_relocations (x86_ops 0) example_env example_data example_relocs example_scan = Ok s'"
    using example_loads
    by (cases "load_section_relocations (x86_ops 0) example_env example_data example_relocs example_scan") simp_all
  obtain r where r: "apply_relocations (x86_ops 0) example_lenv example_info None example_relocs
      (replicate 24 0, reset_relr_run example_writer) = Ok r"
    using example_applies
    by (cases "apply_relocations (x86_ops 0) example_lenv example_info None example_relocs
      (replicate 24 0, reset_relr_run example_writer)") simp_all
  have zero: "sc_sizes example_scan RelrDynPart = 0" by (simp add: example_scan_def)
  from data_relocations_exact [OF s' example_relocs_plain example_section example_agrees example_tables, of "replicate 24 0"]
  show ?thesis using s' r zero by (cases r) auto
qed

section \<open>The addresses asked for\<close>

lemma process_relocation_keeps_bits:
  assumes p: "process_relocation A env sn rel s = Ok (m, s')"
  shows "bit (sc_flags s i) n \<Longrightarrow> bit (sc_flags s' i) n" "sc_uses_tlsld s \<Longrightarrow> sc_uses_tlsld s'"
proof (atomize (full), cases "rel_symbol rel")
  case None
  then show "(bit (sc_flags s i) n \<longrightarrow> bit (sc_flags s' i) n) \<and> (sc_uses_tlsld s \<longrightarrow> sc_uses_tlsld s')"
    using p by (simp add: process_relocation_def)
next
  case (Some l)
  obtain cl cl' s1 prev s2 s3 where st: "classify_symbol_relocation A env sn rel l (sc_flags s) = Ok cl"
    "materialize_relocation_requirements A env sn cl s = Ok (cl', s1)" "note_relocation_symbol_reference env cl' s1 = (prev, s2)"
    "s3 = (if sn_debug sn then s2 else handle_thunk_extensions_for_relocation A env (sn_part_id sn) cl' s2)"
    "sc_flags s' = sc_flags s3" "sc_uses_tlsld s' = sc_uses_tlsld s3"
    by (rule process_relocation_steps [OF p Some])
  have "sc_flags s1 = sc_flags s" using materialize_asks(2) [OF st(2) classify_asks [OF st(1)]] .
  then have "bit (sc_flags s i) n \<Longrightarrow> bit (sc_flags s2 i) n"
    using note_flags(1,3) [OF st(3)] by (cases "i = cl_symbol cl'") metis+
  then show "(bit (sc_flags s i) n \<longrightarrow> bit (sc_flags s' i) n) \<and> (sc_uses_tlsld s \<longrightarrow> sc_uses_tlsld s')"
    using thunk_flags(2) [of A env "sn_part_id sn" cl' s2 i] materialize_keeps_tlsld [OF st(2)] note_flags(5) [OF st(3)]
    unfolding st(4-6) by (cases "sn_debug sn") (auto simp: thunk_flags(1) bit_or_iff)
qed

lemma process_relocation_ifuncs:
  assumes "process_relocation A env sn rel s = Ok (m, s')" "ifuncs_have_plt s"
  shows "ifuncs_have_plt s'"
proof (cases "rel_symbol rel")
  case None
  then show ?thesis using assms by (simp add: process_relocation_def)
next
  case (Some l)
  obtain cl where "classify_symbol_relocation A env sn rel l (sc_flags s) = Ok cl"
    using assms(1) Some by (auto simp: process_relocation_def outcome_simps)
  from process_relocation_asked(2) [OF assms(1) Some this assms(2)] show ?thesis .
qed

lemma load_relocations_keep:
  assumes "load_section_relocations_from A env sn m rels s = Ok s'" "ifuncs_have_plt s"
  shows "ifuncs_have_plt s'" "bit (sc_flags s i) n \<Longrightarrow> bit (sc_flags s' i) n" "same_nature (sc_flags s' i) (sc_flags s i)"
    "sc_uses_tlsld s \<Longrightarrow> sc_uses_tlsld s'"
proof -
  have "ifuncs_have_plt s' \<and> (bit (sc_flags s i) n \<longrightarrow> bit (sc_flags s' i) n) \<and> same_nature (sc_flags s' i) (sc_flags s i) \<and>
      (sc_uses_tlsld s \<longrightarrow> sc_uses_tlsld s')"
    using assms
  proof (induction rels arbitrary: m s)
    case (Cons rel rels)
    show ?case
    proof (cases "m = SkipNextRelocation")
      case True
      then show ?thesis using Cons by simp
    next
      case False
      then obtain m1 s1 where p: "process_relocation A env sn rel s = Ok (m1, s1)"
        and l: "load_section_relocations_from A env sn m1 rels s1 = Ok s'"
        using Cons.prems(1) by (auto simp: outcome_simps)
      show ?thesis
        using Cons.IH [OF l process_relocation_ifuncs [OF p Cons.prems(2)]] process_relocation_keeps_bits [OF p]
          process_relocation_nature [OF p, of i] same_nature_trans by blast
    qed
  qed simp
  then show "ifuncs_have_plt s'" "bit (sc_flags s i) n \<Longrightarrow> bit (sc_flags s' i) n" "same_nature (sc_flags s' i) (sc_flags s i)"
    "sc_uses_tlsld s \<Longrightarrow> sc_uses_tlsld s'" by blast+
qed

text \<open>
  C36. The writer finds the addresses that it needs. After a relocation of a loaded section was scanned, and
  any later ones, the resolution that layout creates for its symbol from the flags then set has every address
  that a relocation of that kind reads: the value of the relocation is never refused for want of a GOT
  or PLT address, and never panics. An indirect function that is referenced always has a PLT entry, which the
  scan of further relocations keeps. The local-dynamic TLS entry exists when the scan recorded a use
  of it; the low half of a RISC-V pair and pairs of ULEB128 values take their value from elsewhere.
\<close>

theorem scanned_addresses_found:
  assumes "process_relocation A env sn rel s = Ok (m, s1)" "rel_symbol rel = Some l"
    and "classify_symbol_relocation A env sn rel l (sc_flags s) = Ok cl" "ifuncs_have_plt s" "sflags_contain (sn_flags sn) ALLOC"
    and "load_section_relocations_from A env sn m rels s1 = Ok s'"
    and "create_resolution (sc_flags s' (sc_definition env l)) raw dyn mo relr kind = Some (res, mo')"
    and "ri_kind ri = cl_rel_kind cl" "cl_rel_kind cl \<noteq> RelativeRiscVLow12" "cl_rel_kind cl \<noteq> AlignmentReloc" "\<not> is_uleb_pair (cl_rel_kind cl)"
    and "sc_uses_tlsld s' \<longrightarrow> le_tlsld_got_entry lenv \<noteq> None" "merged_total lenv"
  shows "reloc_value A lenv si cache rest relax_deltas rel res i ri place ad tw
           \<notin> {Error NoGotAddress, Error NoPltAddress, Panicked} \<and> ifuncs_have_plt s'"
proof -
  let ?d = "sc_definition env l"
  note asked = process_relocation_asked [OF assms(1-4)]
  note keep = load_relocations_keep [OF assms(6) asked(2)]
  note res = create_resolution_has_addresses [OF assms(7)]
  have "asked_for (cl_rel_kind cl) (res_flags res)" using asked(1) keep(2) res by (auto simp: asked_for_def)
  moreover have "is_ifunc (res_flags res) \<longrightarrow> needs_plt (res_flags res)"
    using asked(3) keep(2) [of ?d 8] keep(3) [of ?d] res by (auto simp: same_nature_def flag_bits(8))
  moreover have "needs_tlsld (cl_rel_kind cl) \<longrightarrow> le_tlsld_got_entry lenv \<noteq> None" using asked(4) keep(4) assms(5,12) by blast
  ultimately have "finds_addresses (reloc_value A lenv si cache rest relax_deltas rel res i ri place ad tw)"
    using res assms(13) by (intro reloc_value_finds [OF assms(8-11)]) auto
  then show ?thesis using keep(1) by (auto simp: finds_addresses_def)
qed


text \<open>A call through the PLT to a function of another object.\<close>

definition example_call :: relocation where
  "example_call = \<lparr>rel_offset = 1, rel_type = ''R_X86_64_PLT32'', rel_symbol = Some 1, rel_addend = -4\<rparr>"

definition example_code :: scan_section where
  "example_code = \<lparr>sn_flags = ALLOC OR EXECINSTR, sn_writable = False, sn_bytes = [0xe8, 0, 0, 0, 0], sn_part_id = 0, sn_debug = False\<rparr>"

definition dynamic_scan :: scan_state where
  "dynamic_scan = example_scan\<lparr>sc_flags := (\<lambda>_. DYNAMIC OR DYNAMIC_FUNCTION)\<rparr>"

lemma example_call_scanned:
  "case classify_symbol_relocation (x86_ops 0) example_env example_code example_call 1 (sc_flags dynamic_scan) of
     Ok cl \<Rightarrow> cl_rel_kind cl = PltRelative | _ \<Rightarrow> False"
  "case process_relocation (x86_ops 0) example_env example_code example_call dynamic_scan of
     Ok (m, s1) \<Rightarrow> sc_flags s1 1 = DYNAMIC OR DYNAMIC_FUNCTION OR PLT OR GOT \<and> \<not> sc_uses_tlsld s1 | _ \<Rightarrow> False"
  by code_simp+

lemma example_call_resolved:
  "map_option fst (create_resolution (DYNAMIC OR DYNAMIC_FUNCTION OR PLT OR GOT) 0 (Some 1) example_offsets True (DynamicExecutable PositionIndependent)) =
     Some \<lparr>raw_value = 0x1800, dynamic_symbol_index = Some 1, res_flags = DYNAMIC OR DYNAMIC_FUNCTION OR PLT OR GOT,
           got_address = Some 0x3000, plt_address = Some 0x1800\<rparr>"
  by code_simp

theorem scanned_addresses_found_witness:
  "\<exists>cl m s1 res mo'.
     classify_symbol_relocation (x86_ops 0) example_env example_code example_call 1 (sc_flags dynamic_scan) = Ok cl \<and>
     cl_rel_kind cl = PltRelative \<and>
     process_relocation (x86_ops 0) example_env example_code example_call dynamic_scan = Ok (m, s1) \<and>
     create_resolution (sc_flags s1 1) 0 (Some 1) example_offsets True (DynamicExecutable PositionIndependent) = Some (res, mo') \<and>
     (\<forall>ri. ri_kind ri = PltRelative \<longrightarrow>
        reloc_value (x86_ops 0) example_lenv example_info empty_cache [] None example_call res 1 ri 1 0 example_writer
          \<notin> {Error NoGotAddress, Error NoPltAddress, Panicked})"
proof -
  let ?A = "x86_ops 0"
  obtain cl where cl: "classify_symbol_relocation ?A example_env example_code example_call 1 (sc_flags dynamic_scan) = Ok cl"
    "cl_rel_kind cl = PltRelative"
    using example_call_scanned(1)
    by (cases "classify_symbol_relocation ?A example_env example_code example_call 1 (sc_flags dynamic_scan)") simp_all
  obtain m s1 where p: "process_relocation ?A example_env example_code example_call dynamic_scan = Ok (m, s1)"
    "sc_flags s1 1 = DYNAMIC OR DYNAMIC_FUNCTION OR PLT OR GOT" "\<not> sc_uses_tlsld s1"
    using example_call_scanned(2)
    by (cases "process_relocation ?A example_env example_code example_call dynamic_scan") auto
  obtain res mo' where r: "create_resolution (sc_flags s1 1) 0 (Some 1) example_offsets True (DynamicExecutable PositionIndependent) = Some (res, mo')"
    using example_call_resolved unfolding p(2) by auto
  have d: "sc_definition example_env 1 = 1" "rel_symbol example_call = Some 1"
    by (simp_all add: example_env_def example_call_def)
  have r': "create_resolution (sc_flags s1 (sc_definition example_env 1)) 0 (Some 1) example_offsets True
      (DynamicExecutable PositionIndependent) = Some (res, mo')"
    using r unfolding d(1) .
  have "\<not> is_ifunc (DYNAMIC OR DYNAMIC_FUNCTION)" by code_simp
  then have i: "ifuncs_have_plt dynamic_scan" by (simp add: ifuncs_have_plt_def dynamic_scan_def)
  have a: "sflags_contain (sn_flags example_code) ALLOC" by code_simp
  have "reloc_value ?A example_lenv example_info empty_cache [] None example_call res 1 ri 1 0 example_writer
      \<notin> {Error NoGotAddress, Error NoPltAddress, Panicked}" if "ri_kind ri = PltRelative" for ri
    using scanned_addresses_found [OF p(1) d(2) cl(1) i a load_section_relocations_from.simps(1) r', of ri example_lenv
        example_info empty_cache "[]" None 1 1 0 example_writer] cl(2) that p(3) example_section(3)
    by (simp add: is_uleb_pair_def d(1))
  with cl p(1) r show ?thesis by blast
qed

end
