(* ===== verification/Export_Trie.thy ===== *)
theory Export_Trie
  imports Prelude
begin

text \<open>
  The exports trie of a Mach-O file (\<open>libjdxld/src/trie.rs\<close>): the topology that is built from the sorted
  names, the nodes and edges made from it, the layout loop that finds the offsets, and the
  encoding. Indices that are out of range panic, which is \<open>None\<close>; so is a loop that does not end. The
  functions of the \<open>leb128\<close> crate are arguments, \<open>uleb\<close> for \<open>write::unsigned\<close> and \<open>ulen\<close> for
  \<open>write::unsigned_len\<close>.
\<close>

section \<open>Data\<close>

record Symbol =
  sy_name :: bytes
  sy_address :: u64
  sy_flags :: u64

record Node =
  nd_address :: "u64 option"
  nd_flags :: u64
  nd_first_edge :: nat
  nd_num_edges :: nat
  nd_offset :: nat
  nd_size :: nat

record Edge =
  ed_label :: bytes
  ed_child :: nat
  ed_child_offset_size :: nat

record UncompressedNode =
  un_symbol :: "nat option"
  un_representative :: nat
  un_depth :: nat
  un_first_child :: "nat option"
  un_last_child :: "nat option"
  un_previous_sibling :: "nat option"
  un_next_sibling :: "nat option"
  un_num_children :: nat

definition default_node :: UncompressedNode where
  "default_node =
     \<lparr>un_symbol = None, un_representative = 0, un_depth = 0, un_first_child = None, un_last_child = None,
      un_previous_sibling = None, un_next_sibling = None, un_num_children = 0\<rparr>"

record Builder =
  bd_nodes :: "Node list"
  bd_edges :: "Edge list"

section \<open>The topology\<close>

definition modify :: "nat \<Rightarrow> ('a \<Rightarrow> 'a) \<Rightarrow> 'a list \<Rightarrow> 'a list option" where
  "modify i f xs = (if i < length xs then Some (xs[i := f (xs ! i)]) else None)"

definition append_child :: "UncompressedNode list \<Rightarrow> nat \<Rightarrow> nat \<Rightarrow> UncompressedNode list option" where
  "append_child nodes parent child =
     do { p \<leftarrow> index nodes parent;
          let previous_sibling = un_last_child p;
          nodes \<leftarrow> modify child (\<lambda>n. n\<lparr>un_previous_sibling := previous_sibling\<rparr>) nodes;
          nodes \<leftarrow> (case previous_sibling of
                     Some previous_sibling \<Rightarrow> modify previous_sibling (\<lambda>n. n\<lparr>un_next_sibling := Some child\<rparr>) nodes
                   | None \<Rightarrow> modify parent (\<lambda>n. n\<lparr>un_first_child := Some child\<rparr>) nodes);
          modify parent (\<lambda>n. n\<lparr>un_last_child := Some child, un_num_children := un_num_children n + 1\<rparr>) nodes }"

definition common_prefix :: "bytes \<Rightarrow> bytes \<Rightarrow> nat" where
  "common_prefix xs ys = length (takeWhile (\<lambda>(a, b). a = b) (zip xs ys))"

text \<open>The path to the previous symbol is kept with its last node first.\<close>

fun pop_path :: "UncompressedNode list \<Rightarrow> nat \<Rightarrow> nat list \<Rightarrow> nat list option" where
  "pop_path nodes cp [] = None"
| "pop_path nodes cp (i # path) =
     do { n \<leftarrow> index nodes i;
          if cp < un_depth n then pop_path nodes cp path else Some (i # path) }"

text \<open>A node between a parent and its last child, where the new name leaves the previous one.\<close>

definition split_edge :: "nat \<Rightarrow> nat \<Rightarrow> nat \<Rightarrow> UncompressedNode list \<Rightarrow> UncompressedNode list option" where
  "split_edge symbol_index cp parent nodes =
     do { p \<leftarrow> index nodes parent;
          previous_child \<leftarrow> un_last_child p;
          pc \<leftarrow> index nodes previous_child;
          let previous_sibling = un_previous_sibling pc;
          let branch = length nodes;
          let nodes = nodes @ [default_node\<lparr>un_representative := symbol_index - 1, un_depth := cp,
                                 un_first_child := Some previous_child, un_last_child := Some previous_child,
                                 un_previous_sibling := previous_sibling, un_num_children := 1\<rparr>];
          nodes \<leftarrow> modify previous_child (\<lambda>n. n\<lparr>un_previous_sibling := None\<rparr>) nodes;
          nodes \<leftarrow> (case previous_sibling of
                     Some previous_sibling \<Rightarrow> modify previous_sibling (\<lambda>n. n\<lparr>un_next_sibling := Some branch\<rparr>) nodes
                   | None \<Rightarrow> modify parent (\<lambda>n. n\<lparr>un_first_child := Some branch\<rparr>) nodes);
          modify parent (\<lambda>n. n\<lparr>un_last_child := Some branch\<rparr>) nodes }"

type_synonym topology_state = "UncompressedNode list \<times> bytes \<times> nat list"

text \<open>The node that the new name hangs from, made when it lies within an edge.\<close>

definition descend :: "nat \<Rightarrow> nat \<Rightarrow> UncompressedNode list \<Rightarrow> nat list \<Rightarrow> (UncompressedNode list \<times> nat list \<times> nat) option" where
  "descend symbol_index cp nodes previous_path =
     do { path \<leftarrow> pop_path nodes cp previous_path;
          parent \<leftarrow> index path 0;
          p \<leftarrow> index nodes parent;
          if un_depth p < cp then
            do { let branch = length nodes;
                 nodes \<leftarrow> split_edge symbol_index cp parent nodes;
                 Some (nodes, branch # path, branch) }
          else Some (nodes, path, parent) }"

definition attach :: "nat \<Rightarrow> bytes \<Rightarrow> UncompressedNode list \<Rightarrow> nat list \<Rightarrow> nat \<Rightarrow> topology_state option" where
  "attach symbol_index name nodes path parent =
     do { p \<leftarrow> index nodes parent;
          if un_depth p = length name then
            do { nodes \<leftarrow> modify parent (\<lambda>n. n\<lparr>un_symbol := Some symbol_index\<rparr>) nodes;
                 Some (nodes, name, path) }
          else
            do { let child = length nodes;
                 nodes \<leftarrow> append_child
                           (nodes @ [default_node\<lparr>un_symbol := Some symbol_index, un_representative := symbol_index,
                                       un_depth := length name\<rparr>]) parent child;
                 Some (nodes, name, child # path) } }"

definition topology_step :: "nat \<Rightarrow> bytes \<Rightarrow> topology_state \<Rightarrow> topology_state option" where
  "topology_step symbol_index name st =
     (case st of (nodes, previous_name, previous_path) \<Rightarrow>
        do { (nodes, path, parent) \<leftarrow> descend symbol_index (common_prefix previous_name name) nodes previous_path;
             attach symbol_index name nodes path parent })"

fun topology_from :: "nat \<Rightarrow> Symbol list \<Rightarrow> topology_state \<Rightarrow> topology_state option" where
  "topology_from symbol_index [] st = Some st"
| "topology_from symbol_index (s # symbols) st =
     do { st \<leftarrow> topology_step symbol_index (sy_name s) st;
          topology_from (symbol_index + 1) symbols st }"

definition topology_new :: "Symbol list \<Rightarrow> UncompressedNode list option" where
  "topology_new symbols = map_option fst (topology_from 0 symbols ([default_node], [], [0]))"

section \<open>Nodes and edges\<close>

partial_function (option) child_edges ::
    "Symbol list \<Rightarrow> UncompressedNode list \<Rightarrow> nat \<Rightarrow> nat option \<Rightarrow> Edge list option" where
  "child_edges symbols uncompressed depth child =
     (if child = None then Some []
      else do { child_node \<leftarrow> index uncompressed (the child);
                s \<leftarrow> index symbols (un_representative child_node);
                label \<leftarrow> slice depth (un_depth child_node) (sy_name s);
                es \<leftarrow> child_edges symbols uncompressed depth (un_next_sibling child_node);
                Some (\<lparr>ed_label = label, ed_child = the child, ed_child_offset_size = 1\<rparr> # es) })"

fun build_nodes_from ::
    "Symbol list \<Rightarrow> UncompressedNode list \<Rightarrow> nat \<Rightarrow> UncompressedNode list \<Rightarrow> (Node list \<times> Edge list) option" where
  "build_nodes_from symbols uncompressed first_edge [] = Some ([], [])"
| "build_nodes_from symbols uncompressed first_edge (source # sources) =
     do { (address, flags) \<leftarrow> (case un_symbol source of
                                None \<Rightarrow> Some (None, 0)
                              | Some i \<Rightarrow> do { s \<leftarrow> index symbols i; Some (Some (sy_address s), sy_flags s) });
          es \<leftarrow> child_edges symbols uncompressed (un_depth source) (un_first_child source);
          (nodes, edges) \<leftarrow> build_nodes_from symbols uncompressed (first_edge + length es) sources;
          Some (\<lparr>nd_address = address, nd_flags = flags, nd_first_edge = first_edge, nd_num_edges = un_num_children source,
                 nd_offset = 0, nd_size = 0\<rparr> # nodes, es @ edges) }"

definition build_nodes_from_topology :: "Symbol list \<Rightarrow> UncompressedNode list \<Rightarrow> Builder option" where
  "build_nodes_from_topology symbols topology =
     do { (nodes, edges) \<leftarrow> build_nodes_from symbols topology 0 topology;
          Some \<lparr>bd_nodes = nodes, bd_edges = edges\<rparr> }"

section \<open>Layout\<close>

definition regular_export_size :: "(u64 \<Rightarrow> nat) \<Rightarrow> u64 \<Rightarrow> u64 \<Rightarrow> nat" where
  "regular_export_size ulen flags address = ulen flags + ulen address"

definition node_edges :: "Edge list \<Rightarrow> Node \<Rightarrow> Edge list option" where
  "node_edges edges node = slice (nd_first_edge node) (nd_first_edge node + nd_num_edges node) edges"

definition terminal_size :: "(u64 \<Rightarrow> nat) \<Rightarrow> Node \<Rightarrow> nat" where
  "terminal_size ulen node = (case nd_address node of None \<Rightarrow> 0 | Some address \<Rightarrow> regular_export_size ulen (nd_flags node) address)"

definition node_size :: "(u64 \<Rightarrow> nat) \<Rightarrow> Edge list \<Rightarrow> Node \<Rightarrow> nat option" where
  "node_size ulen edges node =
     do { es \<leftarrow> node_edges edges node;
          Some (ulen (of_nat (terminal_size ulen node)) + terminal_size ulen node + 1 +
                sum_list (map (\<lambda>e. length (ed_label e) + 1 + ed_child_offset_size e) es)) }"

fun assign_offsets :: "(u64 \<Rightarrow> nat) \<Rightarrow> Edge list \<Rightarrow> nat \<Rightarrow> Node list \<Rightarrow> Node list option" where
  "assign_offsets ulen edges offset [] = Some []"
| "assign_offsets ulen edges offset (node # nodes) =
     do { n \<leftarrow> node_size ulen edges node;
          nodes \<leftarrow> assign_offsets ulen edges (offset + n) nodes;
          Some (node\<lparr>nd_offset := offset, nd_size := n\<rparr> # nodes) }"

fun resize_edges :: "(u64 \<Rightarrow> nat) \<Rightarrow> Node list \<Rightarrow> Edge list \<Rightarrow> (Edge list \<times> bool) option" where
  "resize_edges ulen nodes [] = Some ([], False)"
| "resize_edges ulen nodes (edge # edges) =
     do { child \<leftarrow> index nodes (ed_child edge);
          let offset_size = ulen (of_nat (nd_offset child));
          (edges, changed) \<leftarrow> resize_edges ulen nodes edges;
          Some (edge\<lparr>ed_child_offset_size := offset_size\<rparr> # edges, ed_child_offset_size edge \<noteq> offset_size \<or> changed) }"

partial_function (option) layout_until_stable :: "(u64 \<Rightarrow> nat) \<Rightarrow> Builder \<Rightarrow> Builder option" where
  "layout_until_stable ulen b =
     do { nodes \<leftarrow> assign_offsets ulen (bd_edges b) 0 (bd_nodes b);
          (edges, changed) \<leftarrow> resize_edges ulen nodes (bd_edges b);
          if changed then layout_until_stable ulen \<lparr>bd_nodes = nodes, bd_edges = edges\<rparr>
          else Some \<lparr>bd_nodes = nodes, bd_edges = edges\<rparr> }"

definition encoded_size :: "Builder \<Rightarrow> nat" where
  "encoded_size b = (if bd_nodes b = [] then 0 else nd_offset (last (bd_nodes b)) + nd_size (last (bd_nodes b)))"

section \<open>Encoding\<close>

definition write_regular_export :: "(u64 \<Rightarrow> bytes) \<Rightarrow> u64 \<Rightarrow> u64 \<Rightarrow> bytes" where
  "write_regular_export uleb flags address = uleb flags @ uleb address"

fun encode_edges :: "(u64 \<Rightarrow> bytes) \<Rightarrow> Node list \<Rightarrow> Edge list \<Rightarrow> bytes option" where
  "encode_edges uleb nodes [] = Some []"
| "encode_edges uleb nodes (edge # edges) =
     do { child \<leftarrow> index nodes (ed_child edge);
          rest \<leftarrow> encode_edges uleb nodes edges;
          Some (ed_label edge @ [0] @ uleb (of_nat (nd_offset child)) @ rest) }"

definition encode_node :: "(u64 \<Rightarrow> bytes) \<Rightarrow> (u64 \<Rightarrow> nat) \<Rightarrow> Builder \<Rightarrow> Node \<Rightarrow> bytes option" where
  "encode_node uleb ulen b node =
     do { let terminal = (case nd_address node of
                            Some address \<Rightarrow> uleb (of_nat (regular_export_size ulen (nd_flags node) address)) @
                                            write_regular_export uleb (nd_flags node) address
                          | None \<Rightarrow> uleb 0);
          es \<leftarrow> node_edges (bd_edges b) node;
          children \<leftarrow> encode_edges uleb (bd_nodes b) es;
          Some (terminal @ [of_nat (nd_num_edges node)] @ children) }"

fun encode_nodes :: "(u64 \<Rightarrow> bytes) \<Rightarrow> (u64 \<Rightarrow> nat) \<Rightarrow> Builder \<Rightarrow> Node list \<Rightarrow> bytes option" where
  "encode_nodes uleb ulen b [] = Some []"
| "encode_nodes uleb ulen b (node # nodes) =
     do { x \<leftarrow> encode_node uleb ulen b node;
          xs \<leftarrow> encode_nodes uleb ulen b nodes;
          Some (x @ xs) }"

definition encode :: "(u64 \<Rightarrow> bytes) \<Rightarrow> (u64 \<Rightarrow> nat) \<Rightarrow> Builder \<Rightarrow> bytes option" where
  "encode uleb ulen b = encode_nodes uleb ulen b (bd_nodes b)"

definition build_with_topology ::
    "(u64 \<Rightarrow> bytes) \<Rightarrow> (u64 \<Rightarrow> nat) \<Rightarrow> Symbol list \<Rightarrow> UncompressedNode list \<Rightarrow> bytes option" where
  "build_with_topology uleb ulen symbols topology =
     (if symbols = [] then Some []
      else do { b \<leftarrow> build_nodes_from_topology symbols topology;
                b \<leftarrow> layout_until_stable ulen b;
                encode uleb ulen b })"

definition build_sorted :: "(u64 \<Rightarrow> bytes) \<Rightarrow> (u64 \<Rightarrow> nat) \<Rightarrow> Symbol list \<Rightarrow> bytes option" where
  "build_sorted uleb ulen symbols =
     do { topology \<leftarrow> topology_new symbols; build_with_topology uleb ulen symbols topology }"

definition size_with_topology :: "(u64 \<Rightarrow> nat) \<Rightarrow> Symbol list \<Rightarrow> UncompressedNode list \<Rightarrow> nat option" where
  "size_with_topology ulen symbols topology =
     (if symbols = [] then Some 0
      else do { b \<leftarrow> build_nodes_from_topology symbols topology;
                b \<leftarrow> layout_until_stable ulen b;
                Some (encoded_size b) })"

end
