(* ===== verification/Export_Layout.thy ===== *)
theory Export_Layout
  imports Export_Trie
begin

text \<open>
  The layout loop of the exports trie: it ends, with offsets that are the sums of the sizes before
  them and sizes of offsets that are the lengths of their encodings; and it ends with the least such
  sizes, so that the size computed from the largest addresses is an upper bound.
\<close>

section \<open>One pass, without panics\<close>

definition node_len :: "(u64 \<Rightarrow> nat) \<Rightarrow> Edge list \<Rightarrow> Node \<Rightarrow> nat" where
  "node_len ulen edges n =
     ulen (of_nat (terminal_size ulen n)) + terminal_size ulen n + 1 +
     sum_list (map (\<lambda>e. length (ed_label e) + 1 + ed_child_offset_size e) (take (nd_num_edges n) (drop (nd_first_edge n) edges)))"

definition offset_of :: "(u64 \<Rightarrow> nat) \<Rightarrow> Edge list \<Rightarrow> Node list \<Rightarrow> nat \<Rightarrow> nat" where
  "offset_of ulen edges nodes i = sum_list (map (node_len ulen edges) (take i nodes))"

definition placed :: "(u64 \<Rightarrow> nat) \<Rightarrow> Edge list \<Rightarrow> nat \<Rightarrow> Node list \<Rightarrow> Node list" where
  "placed ulen edges off nodes =
     map (\<lambda>i. (nodes ! i)\<lparr>nd_offset := off + offset_of ulen edges nodes i, nd_size := node_len ulen edges (nodes ! i)\<rparr>) [0..<length nodes]"

definition resized :: "(u64 \<Rightarrow> nat) \<Rightarrow> Node list \<Rightarrow> Edge list \<Rightarrow> Edge list" where
  "resized ulen nodes edges = map (\<lambda>e. e\<lparr>ed_child_offset_size := ulen (of_nat (offset_of ulen edges nodes (ed_child e)))\<rparr>) edges"

definition wf_builder :: "Node list \<Rightarrow> Edge list \<Rightarrow> bool" where
  "wf_builder nodes edges \<longleftrightarrow>
     (\<forall>n \<in> set nodes. nd_first_edge n + nd_num_edges n \<le> length edges) \<and> (\<forall>e \<in> set edges. ed_child e < length nodes)"

text \<open>What the passes do not change of a node.\<close>

definition core :: "Node \<Rightarrow> Node" where
  "core n = n\<lparr>nd_offset := 0, nd_size := 0\<rparr>"

lemma core_fields [simp]:
  "nd_first_edge (core n) = nd_first_edge n" "nd_num_edges (core n) = nd_num_edges n"
  "nd_address (core n) = nd_address n" "nd_flags (core n) = nd_flags n" "terminal_size ulen (core n) = terminal_size ulen n"
  by (simp_all add: core_def terminal_size_def split: option.split)

lemma node_len_core: "node_len ulen edges (core n) = node_len ulen edges n"
  by (simp add: node_len_def)

lemma offset_of_core: "offset_of ulen edges (map core nodes) i = offset_of ulen edges nodes i"
  by (simp add: offset_of_def take_map comp_def node_len_core)

lemma core_placed [simp]: "map core (placed ulen edges off nodes) = map core nodes"
  by (rule nth_equalityI) (simp_all add: placed_def core_def)

lemma length_placed [simp]: "length (placed ulen edges off nodes) = length nodes"
  by (simp add: placed_def)

lemma length_resized [simp]: "length (resized ulen nodes edges) = length edges"
  by (simp add: resized_def)

lemma offset_of_cong: "map core nodes = map core nodes' \<Longrightarrow> offset_of ulen edges nodes = offset_of ulen edges nodes'"
  using offset_of_core by (metis ext)

lemma placed_cong:
  assumes "map core nodes = map core nodes'"
  shows "placed ulen edges off nodes = placed ulen edges off nodes'"
proof (rule nth_equalityI)
  show "length (placed ulen edges off nodes) = length (placed ulen edges off nodes')"
    using assms map_eq_imp_length_eq by force
next
  fix i assume i: "i < length (placed ulen edges off nodes)"
  have len: "length nodes = length nodes'" using assms map_eq_imp_length_eq by blast
  have "core (nodes ! i) = core (nodes' ! i)" using assms i len by (metis length_placed nth_map)
  then have "node_len ulen edges (nodes ! i) = node_len ulen edges (nodes' ! i)"
    "(core (nodes ! i))\<lparr>nd_offset := a, nd_size := b\<rparr> = (core (nodes' ! i))\<lparr>nd_offset := a, nd_size := b\<rparr>" for a b
    using node_len_core by metis+
  then have "node_len ulen edges (nodes ! i) = node_len ulen edges (nodes' ! i)"
    "(nodes ! i)\<lparr>nd_offset := a, nd_size := b\<rparr> = (nodes' ! i)\<lparr>nd_offset := a, nd_size := b\<rparr>" for a b
    by (simp_all add: core_def)
  then show "placed ulen edges off nodes ! i = placed ulen edges off nodes' ! i"
    using i len offset_of_cong [OF assms, of ulen edges] by (simp add: placed_def)
qed

lemma resized_cong: "map core nodes = map core nodes' \<Longrightarrow> resized ulen nodes edges = resized ulen nodes' edges"
  unfolding resized_def by (drule offset_of_cong [where ulen = ulen and edges = edges]) (simp only:)

lemma wf_builder_cong:
  assumes "map core nodes = map core nodes'"
  shows "wf_builder nodes edges = wf_builder nodes' edges"
proof -
  have "(\<forall>n \<in> set ns. nd_first_edge n + nd_num_edges n \<le> k) = (\<forall>n \<in> set (map core ns). nd_first_edge n + nd_num_edges n \<le> k)" for ns k
    by simp
  from this [of nodes "length edges"] this [of nodes' "length edges"] map_eq_imp_length_eq [OF assms]
  show ?thesis unfolding wf_builder_def assms by (simp only:)
qed

lemma wf_builder_resized: "wf_builder nodes edges \<Longrightarrow> wf_builder nodes (resized ulen nodes edges)"
  by (auto simp: wf_builder_def resized_def)

lemma node_size_eq:
  "nd_first_edge n + nd_num_edges n \<le> length edges \<Longrightarrow> node_size ulen edges n = Some (node_len ulen edges n)"
  by (simp add: node_size_def node_edges_def slice_def node_len_def)

lemma assign_offsets_eq:
  assumes "\<forall>n \<in> set nodes. nd_first_edge n + nd_num_edges n \<le> length edges"
  shows "assign_offsets ulen edges off nodes = Some (placed ulen edges off nodes)"
  using assms
proof (induction nodes arbitrary: off)
  case Nil
  then show ?case by (simp add: placed_def)
next
  case (Cons n nodes)
  then show ?case
    by (simp add: node_size_eq placed_def offset_of_def map_upt_Suc add.assoc del: upt_Suc)
qed

lemma resize_edges_eq:
  assumes "\<forall>e \<in> set es. ed_child e < length nodes"
  shows "resize_edges ulen nodes es =
    Some (map (\<lambda>e. e\<lparr>ed_child_offset_size := ulen (of_nat (nd_offset (nodes ! ed_child e)))\<rparr>) es,
          map (\<lambda>e. e\<lparr>ed_child_offset_size := ulen (of_nat (nd_offset (nodes ! ed_child e)))\<rparr>) es \<noteq> es)"
  using assms
proof (induction es)
  case (Cons e es)
  have "(e\<lparr>ed_child_offset_size := k\<rparr> = e) = (ed_child_offset_size e = k)" for k by (cases e) auto
  with Cons show ?case by (auto simp: index_def Let_def)
qed simp

lemma layout_step:
  assumes "wf_builder nodes edges"
  shows "layout_until_stable ulen \<lparr>bd_nodes = nodes, bd_edges = edges\<rparr> =
    (if resized ulen nodes edges = edges then Some \<lparr>bd_nodes = placed ulen edges 0 nodes, bd_edges = edges\<rparr>
     else layout_until_stable ulen \<lparr>bd_nodes = placed ulen edges 0 nodes, bd_edges = resized ulen nodes edges\<rparr>)"
proof -
  have a: "assign_offsets ulen edges 0 nodes = Some (placed ulen edges 0 nodes)"
    using assms by (intro assign_offsets_eq) (simp add: wf_builder_def)
  have "map (\<lambda>e. e\<lparr>ed_child_offset_size := ulen (of_nat (nd_offset (placed ulen edges 0 nodes ! ed_child e)))\<rparr>) edges =
      resized ulen nodes edges"
    using assms by (simp add: resized_def placed_def wf_builder_def)
  with resize_edges_eq [of edges "placed ulen edges 0 nodes" ulen] assms
  have r: "resize_edges ulen (placed ulen edges 0 nodes) edges = Some (resized ulen nodes edges, resized ulen nodes edges \<noteq> edges)"
    by (simp add: wf_builder_def)
  show ?thesis by (subst layout_until_stable.simps) (simp add: a r)
qed

section \<open>Growing\<close>

definition edges_le :: "Edge list \<Rightarrow> Edge list \<Rightarrow> bool" where
  "edges_le = list_all2 (\<lambda>e e'. ed_label e = ed_label e' \<and> ed_child e = ed_child e' \<and> ed_child_offset_size e \<le> ed_child_offset_size e')"

definition nodes_le :: "(u64 \<Rightarrow> nat) \<Rightarrow> Node list \<Rightarrow> Node list \<Rightarrow> bool" where
  "nodes_le ulen = list_all2 (\<lambda>n n'. nd_first_edge n = nd_first_edge n' \<and> nd_num_edges n = nd_num_edges n' \<and>
     terminal_size ulen n \<le> terminal_size ulen n')"

lemma edges_le_refl [simp]: "edges_le es es"
  by (simp add: edges_le_def list_all2_refl)

lemma edges_le_trans: "edges_le a b \<Longrightarrow> edges_le b c \<Longrightarrow> edges_le a c"
  unfolding edges_le_def by (auto simp: list_all2_conv_all_nth) (metis order_trans)

lemma nodes_le_refl [simp]: "nodes_le ulen ns ns"
  by (simp add: nodes_le_def list_all2_refl)

lemma nodes_le_cong:
  assumes "map core nodes = map core nodes'"
  shows "nodes_le ulen nodes N = nodes_le ulen nodes' N"
proof -
  have "nodes_le ulen ns N = nodes_le ulen (map core ns) N" for ns
    by (simp add: nodes_le_def list_all2_map1)
  with assms show ?thesis by metis
qed

lemma sum_list_le_all2: "list_all2 (\<lambda>x y. f x \<le> (g y :: nat)) xs ys \<Longrightarrow> sum_list (map f xs) \<le> sum_list (map g ys)"
  by (induction rule: list_all2_induct) auto

definition slack :: "Edge list \<Rightarrow> nat" where
  "slack es = sum_list (map (\<lambda>e. 10 - ed_child_offset_size e) es)"

lemma slack_decreases:
  assumes "edges_le a b" "a \<noteq> b" "\<forall>e \<in> set b. ed_child_offset_size e \<le> 10"
  shows "slack b < slack a"
  using assms unfolding edges_le_def
proof (induction rule: list_all2_induct)
  case (Cons x xs y ys)
  have mono: "slack ys \<le> slack xs"
    unfolding slack_def using Cons.hyps(2) by (intro sum_list_le_all2) (auto simp: list_all2_conv_all_nth)
  show ?case
  proof (cases "xs = ys")
    case True
    then have "ed_child_offset_size x \<noteq> ed_child_offset_size y" using Cons.hyps(1) Cons.prems(1) by (cases x; cases y) auto
    then show ?thesis using Cons.hyps(1) Cons.prems(2) mono by (auto simp: slack_def)
  next
    case False
    then have "slack ys < slack xs" using Cons by simp
    then show ?thesis using Cons.hyps(1) by (auto simp: slack_def)
  qed
qed simp

text \<open>What is relied on of the lengths of ULEB128 encodings.\<close>

locale leb_len =
  fixes ulen :: "u64 \<Rightarrow> nat"
  assumes ulen_mono: "a \<le> b \<Longrightarrow> ulen a \<le> ulen b"
    and ulen_pos: "0 < ulen a"
    and ulen_max: "ulen a \<le> 10"
begin

lemma terminal_max: "terminal_size ulen n \<le> 20"
  using ulen_max [of "nd_flags n"] ulen_max [of "the (nd_address n)"]
  by (cases "nd_address n") (simp_all add: terminal_size_def regular_export_size_def)

lemma ulen_of_nat: "a \<le> b \<Longrightarrow> b < 2 ^ 64 \<Longrightarrow> ulen (of_nat a) \<le> ulen (of_nat b)"
  by (rule ulen_mono) (simp add: word_le_nat_alt unat_of_nat)

lemma node_len_mono:
  assumes "edges_le E E'" "nd_first_edge n = nd_first_edge n'" "nd_num_edges n = nd_num_edges n'" "terminal_size ulen n \<le> terminal_size ulen n'"
  shows "node_len ulen E n \<le> node_len ulen E' n'"
proof -
  have "ulen (of_nat (terminal_size ulen n)) \<le> ulen (of_nat (terminal_size ulen n'))"
    using assms(4) terminal_max [of n'] by (intro ulen_of_nat) auto
  moreover have "list_all2 (\<lambda>e e'. length (ed_label e) + 1 + ed_child_offset_size e \<le> length (ed_label e') + 1 + ed_child_offset_size e')
      (take (nd_num_edges n) (drop (nd_first_edge n) E)) (take (nd_num_edges n') (drop (nd_first_edge n') E'))"
    using assms(1-3) unfolding edges_le_def
    by (auto intro!: list_all2_takeI list_all2_dropI elim: list_all2_mono)
  from sum_list_le_all2 [OF this] calculation show ?thesis using assms(4) unfolding node_len_def by linarith
qed

lemma offset_mono:
  assumes "edges_le E E'" "nodes_le ulen N N'"
  shows "offset_of ulen E N i \<le> offset_of ulen E' N' i"
  unfolding offset_of_def using assms(2) node_len_mono [OF assms(1)]
  by (intro sum_list_le_all2 list_all2_takeI) (auto simp: nodes_le_def elim!: list_all2_mono)

lemma resized_mono:
  assumes "edges_le E E'" "nodes_le ulen N N'" "\<And>i. offset_of ulen E' N' i < 2 ^ 64"
  shows "edges_le (resized ulen N E) (resized ulen N' E')"
  using assms(1) ulen_of_nat [OF offset_mono [OF assms(1,2)] assms(3)]
  unfolding edges_le_def resized_def by (simp add: list_all2_map1 list_all2_map2) (erule list_all2_mono, simp)

lemma resized_max: "e \<in> set (resized ulen N E) \<Longrightarrow> ed_child_offset_size e \<le> 10"
  using ulen_max by (auto simp: resized_def)

text \<open>
  The loop ends in a fixed point, below every bound \<open>bound\<close> that a pass with nodes at least as large does
  not exceed.
\<close>

lemma layout_least:
  assumes "wf_builder nodes edges" "edges_le edges (resized ulen nodes edges)" "edges_le edges bound"
    and "nodes_le ulen nodes N" "edges_le (resized ulen N bound) bound" "\<And>i. offset_of ulen bound N i < 2 ^ 64"
  shows "\<exists>edges'. layout_until_stable ulen \<lparr>bd_nodes = nodes, bd_edges = edges\<rparr> =
             Some \<lparr>bd_nodes = placed ulen edges' 0 nodes, bd_edges = edges'\<rparr> \<and>
           resized ulen nodes edges' = edges' \<and> edges_le edges edges' \<and> edges_le edges' bound \<and> wf_builder nodes edges'"
  using assms(1-4)
proof (induction "slack edges" arbitrary: nodes edges rule: less_induct)
  case less
  let ?R = "resized ulen nodes edges"
  show ?case
  proof (cases "?R = edges")
    case True
    then show ?thesis using layout_step [OF less.prems(1), of ulen] less.prems(1,3) by (intro exI [of _ edges]) simp
  next
    case False
    let ?P = "placed ulen edges 0 nodes"
    have c: "map core ?P = map core nodes" by simp
    have dec: "slack ?R < slack edges"
      using slack_decreases [OF less.prems(2)] False resized_max by (metis)
    have below: "edges_le ?R bound"
      using resized_mono [OF less.prems(3,4) assms(6)] assms(5) by (rule edges_le_trans)
    have small: "offset_of ulen ?R nodes i < 2 ^ 64" for i
      using offset_mono [OF below less.prems(4), of i] assms(6) [of i] by (rule le_less_trans)
    have up: "edges_le ?R (resized ulen nodes ?R)"
      by (rule resized_mono [OF less.prems(2) nodes_le_refl small])
    have wfP: "wf_builder ?P ?R"
      using wf_builder_resized [OF less.prems(1)] wf_builder_cong [OF c] by blast
    obtain edges' where e: "layout_until_stable ulen \<lparr>bd_nodes = ?P, bd_edges = ?R\<rparr> =
          Some \<lparr>bd_nodes = placed ulen edges' 0 ?P, bd_edges = edges'\<rparr>"
      "resized ulen ?P edges' = edges'" "edges_le ?R edges'" "edges_le edges' bound" "wf_builder ?P edges'"
      using less.hyps [OF dec wfP _ below] up less.prems(4)
      unfolding resized_cong [OF c] nodes_le_cong [OF c] by blast
    moreover have "edges_le edges edges'" using less.prems(2) e(3) by (rule edges_le_trans)
    ultimately show ?thesis
      using False layout_step [OF less.prems(1), of ulen]
      unfolding resized_cong [OF c] placed_cong [OF c] wf_builder_cong [OF c] by (intro exI [of _ edges']) simp
  qed
qed

text \<open>The bound with all offsets of the greatest length.\<close>

definition worst :: "Edge list \<Rightarrow> Edge list" where
  "worst es = map (\<lambda>e. e\<lparr>ed_child_offset_size := 10\<rparr>) es"

lemma worst_above:
  "\<forall>e \<in> set es. ed_child_offset_size e \<le> 10 \<Longrightarrow> edges_le es (worst es)" "edges_le (resized ulen N (worst es)) (worst es)"
  using ulen_max by (auto simp: worst_def resized_def edges_le_def list_all2_conv_all_nth)

lemma start_below: "\<forall>e \<in> set es. ed_child_offset_size e = 1 \<Longrightarrow> edges_le es (resized ulen N es)"
  using ulen_pos by (auto simp: resized_def edges_le_def list_all2_conv_all_nth Suc_le_eq)

end

end
