(* ===== verification/Export_Topology.thy ===== *)
theory Export_Topology
  imports Export_Trie
begin

text \<open>
  The topology of the exports trie. The nodes are linked by the indices of their first and last
  children and of their siblings; \<open>kids\<close> is the list of children that these links stand for. The names
  are the strings of a trie: every child extends its parent, and children differ in the next byte.
\<close>

section \<open>Common prefixes\<close>

lemma common_prefix_Nil [simp]: "common_prefix [] ys = 0" "common_prefix xs [] = 0"
  by (simp_all add: common_prefix_def)

lemma common_prefix_Cons [simp]: "common_prefix (x # xs) (y # ys) = (if x = y then Suc (common_prefix xs ys) else 0)"
  by (simp add: common_prefix_def)

lemma common_prefix_take: "take (common_prefix xs ys) xs = take (common_prefix xs ys) ys"
  by (induction xs ys rule: list_induct2') auto

lemma common_prefix_le: "common_prefix xs ys \<le> length xs" "common_prefix xs ys \<le> length ys"
  by (induction xs ys rule: list_induct2') auto

text \<open>The larger of two names goes on after their common prefix, with a larger byte if the smaller one does.\<close>

lemma common_prefix_less:
  fixes xs ys :: bytes
  assumes "ord_class.lexordp xs ys"
  shows "common_prefix xs ys < length ys"
    "common_prefix xs ys < length xs \<Longrightarrow> xs ! common_prefix xs ys < ys ! common_prefix xs ys"
  using assms by (induction xs ys rule: list_induct2') (auto split: if_splits)

section \<open>Links\<close>

text \<open>The fields that only the links use, and the others.\<close>

definition same_data :: "UncompressedNode \<Rightarrow> UncompressedNode \<Rightarrow> bool" where
  "same_data n n' \<longleftrightarrow> un_symbol n = un_symbol n' \<and> un_representative n = un_representative n' \<and> un_depth n = un_depth n'"

definition linked :: "UncompressedNode list \<Rightarrow> nat list \<Rightarrow> bool" where
  "linked nodes ks \<longleftrightarrow>
     successively (\<lambda>a b. un_next_sibling (nodes ! a) = Some b \<and> un_previous_sibling (nodes ! b) = Some a) ks \<and>
     (ks \<noteq> [] \<longrightarrow> un_previous_sibling (nodes ! hd ks) = None)"

definition siblings :: "UncompressedNode list \<Rightarrow> nat list \<Rightarrow> bool" where
  "siblings nodes ks \<longleftrightarrow> linked nodes ks \<and> (ks \<noteq> [] \<longrightarrow> un_next_sibling (nodes ! last ks) = None)"

definition node_links :: "UncompressedNode list \<Rightarrow> nat list \<Rightarrow> UncompressedNode \<Rightarrow> bool" where
  "node_links nodes ks n \<longleftrightarrow>
     set ks \<subseteq> {0<..<length nodes} \<and> distinct ks \<and> siblings nodes ks \<and>
     un_first_child n = (if ks = [] then None else Some (hd ks)) \<and>
     un_last_child n = (if ks = [] then None else Some (last ks)) \<and> un_num_children n = length ks"

definition links :: "UncompressedNode list \<Rightarrow> (nat \<Rightarrow> nat list) \<Rightarrow> bool" where
  "links nodes kids \<longleftrightarrow>
     (\<forall>i < length nodes. node_links nodes (kids i) (nodes ! i)) \<and>
     (\<forall>i < length nodes. \<forall>j < length nodes. i \<noteq> j \<longrightarrow> set (kids i) \<inter> set (kids j) = {})"

lemma linked_cong:
  assumes "\<And>i. i \<in> set (butlast ks) \<Longrightarrow> un_next_sibling (nodes ! i) = un_next_sibling (nodes' ! i)"
    "\<And>i. i \<in> set ks \<Longrightarrow> un_previous_sibling (nodes ! i) = un_previous_sibling (nodes' ! i)"
  shows "linked nodes ks = linked nodes' ks"
proof -
  have "successively (\<lambda>a b. un_next_sibling (nodes ! a) = Some b \<and> un_previous_sibling (nodes ! b) = Some a) ks =
      successively (\<lambda>a b. un_next_sibling (nodes' ! a) = Some b \<and> un_previous_sibling (nodes' ! b) = Some a) ks"
    using assms
  proof (induction ks rule: induct_list012)
    case (3 x y zs)
    from 3(2) have "successively (\<lambda>a b. un_next_sibling (nodes ! a) = Some b \<and> un_previous_sibling (nodes ! b) = Some a) (y # zs) =
      successively (\<lambda>a b. un_next_sibling (nodes' ! a) = Some b \<and> un_previous_sibling (nodes' ! b) = Some a) (y # zs)"
      using 3(3,4) by simp
    then show ?case using 3(3) [of x] 3(4) [of y] by simp
  qed simp_all
  then show ?thesis using assms(2) by (auto simp: linked_def)
qed

lemma siblings_cong:
  assumes "\<And>i. i \<in> set ks \<Longrightarrow> un_next_sibling (nodes ! i) = un_next_sibling (nodes' ! i)"
    "\<And>i. i \<in> set ks \<Longrightarrow> un_previous_sibling (nodes ! i) = un_previous_sibling (nodes' ! i)"
  shows "siblings nodes ks = siblings nodes' ks"
  using linked_cong [of ks nodes nodes'] assms by (auto simp: siblings_def dest: in_set_butlastD)

lemma linked_butlast: "linked nodes (ks @ [c]) \<Longrightarrow> linked nodes ks"
  by (cases "ks = []") (auto simp: linked_def successively_append_iff)

text \<open>A new last sibling.\<close>

lemma siblings_snoc:
  assumes "linked nodes ks" "distinct ks"
    and "\<And>i. i \<in> set ks \<Longrightarrow> un_previous_sibling (nodes ! i) = un_previous_sibling (nodes' ! i)"
    and "\<And>i. i \<in> set ks \<Longrightarrow> un_next_sibling (nodes' ! i) = (if i = last ks then Some c else un_next_sibling (nodes ! i))"
    and "un_previous_sibling (nodes' ! c) = (if ks = [] then None else Some (last ks))" "un_next_sibling (nodes' ! c) = None"
  shows "siblings nodes' (ks @ [c])"
proof -
  have "un_next_sibling (nodes ! i) = un_next_sibling (nodes' ! i)" if "i \<in> set (butlast ks)" for i
    using assms(2,4) that by (cases ks rule: rev_cases) auto
  then have "linked nodes' ks" using assms(1,3) linked_cong [of ks nodes nodes'] by blast
  then show ?thesis using assms(4-6) by (cases "ks = []") (auto simp: siblings_def linked_def successively_append_iff)
qed

section \<open>The two updates\<close>

lemma append_child_effect:
  assumes "parent < length nodes" "child < length nodes" "child \<noteq> parent"
    "\<And>l. un_last_child (nodes ! parent) = Some l \<Longrightarrow> l < length nodes"
  obtains nodes' where "append_child nodes parent child = Some nodes'" "length nodes' = length nodes"
    "\<And>i. i < length nodes \<Longrightarrow> same_data (nodes' ! i) (nodes ! i) \<and>
       un_previous_sibling (nodes' ! i) = (if i = child then un_last_child (nodes ! parent) else un_previous_sibling (nodes ! i)) \<and>
       un_next_sibling (nodes' ! i) = (if Some i = un_last_child (nodes ! parent) then Some child else un_next_sibling (nodes ! i)) \<and>
       un_first_child (nodes' ! i) =
         (if i = parent \<and> un_last_child (nodes ! parent) = None then Some child else un_first_child (nodes ! i)) \<and>
       un_last_child (nodes' ! i) = (if i = parent then Some child else un_last_child (nodes ! i)) \<and>
       un_num_children (nodes' ! i) = (if i = parent then un_num_children (nodes ! i) + 1 else un_num_children (nodes ! i))"
proof (cases "un_last_child (nodes ! parent)")
  case None
  show ?thesis
    by (rule that [of "the (append_child nodes parent child)"]) (use assms None in \<open>auto simp: append_child_def index_def modify_def nth_list_update same_data_def Let_def\<close>)
next
  case (Some l)
  show ?thesis
    by (rule that [of "the (append_child nodes parent child)"]) (use assms Some in \<open>auto simp: append_child_def index_def modify_def nth_list_update same_data_def Let_def\<close>)
qed

lemma split_edge_effect:
  assumes "parent < length nodes" "un_last_child (nodes ! parent) = Some lc" "lc < length nodes"
    "\<And>p. un_previous_sibling (nodes ! lc) = Some p \<Longrightarrow> p < length nodes"
  obtains nodes' where "split_edge k cp parent nodes = Some nodes'" "length nodes' = Suc (length nodes)"
    "nodes' ! length nodes = default_node\<lparr>un_representative := k - 1, un_depth := cp, un_first_child := Some lc, un_last_child := Some lc,
       un_previous_sibling := un_previous_sibling (nodes ! lc), un_num_children := 1\<rparr>"
    "\<And>i. i < length nodes \<Longrightarrow> same_data (nodes' ! i) (nodes ! i) \<and>
       un_previous_sibling (nodes' ! i) = (if i = lc then None else un_previous_sibling (nodes ! i)) \<and>
       un_next_sibling (nodes' ! i) =
         (if Some i = un_previous_sibling (nodes ! lc) then Some (length nodes) else un_next_sibling (nodes ! i)) \<and>
       un_first_child (nodes' ! i) =
         (if i = parent \<and> un_previous_sibling (nodes ! lc) = None then Some (length nodes) else un_first_child (nodes ! i)) \<and>
       un_last_child (nodes' ! i) = (if i = parent then Some (length nodes) else un_last_child (nodes ! i)) \<and>
       un_num_children (nodes' ! i) = un_num_children (nodes ! i)"
proof (cases "un_previous_sibling (nodes ! lc)")
  case None
  show ?thesis
    by (rule that [of "the (split_edge k cp parent nodes)"]) (use assms None in \<open>auto simp: split_edge_def index_def modify_def nth_list_update same_data_def nth_append Let_def\<close>)
next
  case (Some p)
  show ?thesis
    by (rule that [of "the (split_edge k cp parent nodes)"]) (use assms Some in \<open>auto simp: split_edge_def index_def modify_def nth_list_update same_data_def nth_append Let_def\<close>)
qed


section \<open>Links are kept\<close>

lemma linksD:
  assumes "links nodes kids" "i < length nodes"
  shows "node_links nodes (kids i) (nodes ! i)"
  using assms by (simp add: links_def)

lemma kid_range: "links nodes kids \<Longrightarrow> i < length nodes \<Longrightarrow> c \<in> set (kids i) \<Longrightarrow> 0 < c \<and> c < length nodes"
  using linksD [of nodes kids i] by (auto simp: node_links_def)

lemma kids_disjoint: "links nodes kids \<Longrightarrow> i < length nodes \<Longrightarrow> j < length nodes \<Longrightarrow> c \<in> set (kids i) \<Longrightarrow> c \<in> set (kids j) \<Longrightarrow> i = j"
  by (auto simp: links_def)

text \<open>The links of a node whose children are not touched.\<close>

lemma node_links_cong:
  assumes "node_links nodes ks n" "length nodes \<le> length nodes'"
    and "\<And>i. i \<in> set ks \<Longrightarrow> un_next_sibling (nodes ! i) = un_next_sibling (nodes' ! i)"
    and "\<And>i. i \<in> set ks \<Longrightarrow> un_previous_sibling (nodes ! i) = un_previous_sibling (nodes' ! i)"
    and "un_first_child n = un_first_child n'" "un_last_child n = un_last_child n'" "un_num_children n = un_num_children n'"
  shows "node_links nodes' ks n'"
  using assms siblings_cong [OF assms(3,4)] by (auto simp: node_links_def)

lemma links_fresh:
  assumes "links nodes kids" "kids (length nodes) = []" "un_first_child n = None" "un_last_child n = None" "un_num_children n = 0"
  shows "links (nodes @ [n]) kids"
  unfolding links_def
proof (intro conjI allI impI)
  fix i assume i: "i < length (nodes @ [n])"
  show "node_links (nodes @ [n]) (kids i) ((nodes @ [n]) ! i)"
  proof (cases "i < length nodes")
    case True
    then show ?thesis
      using kid_range [OF assms(1) True] by (intro node_links_cong [OF linksD [OF assms(1) True]]) (auto simp: nth_append)
  next
    case False
    then have "i = length nodes" using i by simp
    then show ?thesis using assms(2-5) by (simp add: node_links_def siblings_def linked_def)
  qed
next
  fix i j assume "i < length (nodes @ [n])" "j < length (nodes @ [n])" "i \<noteq> j"
  then show "set (kids i) \<inter> set (kids j) = {}"
    using assms(1,2) by (cases "i < length nodes"; cases "j < length nodes") (auto simp: links_def less_Suc_eq)
qed

lemma links_append_child:
  assumes l: "links nodes kids" and p: "parent < length nodes" and c: "child < length nodes" "child \<noteq> parent" "0 < child"
    and new: "\<And>i. i < length nodes \<Longrightarrow> child \<notin> set (kids i)" "un_next_sibling (nodes ! child) = None"
  obtains nodes' where "append_child nodes parent child = Some nodes'" "length nodes' = length nodes"
    "links nodes' (kids(parent := kids parent @ [child]))" "\<And>i. i < length nodes \<Longrightarrow> same_data (nodes' ! i) (nodes ! i)"
proof -
  note pl = linksD [OF l p, unfolded node_links_def]
  have last: "un_last_child (nodes ! parent) = (if kids parent = [] then None else Some (last (kids parent)))" using pl by blast
  have last_in: "last (kids parent) \<in> set (kids parent)" if "kids parent \<noteq> []" using that by simp
  obtain nodes' where e: "append_child nodes parent child = Some nodes'" "length nodes' = length nodes"
    "\<And>i. i < length nodes \<Longrightarrow> same_data (nodes' ! i) (nodes ! i) \<and>
       un_previous_sibling (nodes' ! i) = (if i = child then un_last_child (nodes ! parent) else un_previous_sibling (nodes ! i)) \<and>
       un_next_sibling (nodes' ! i) = (if Some i = un_last_child (nodes ! parent) then Some child else un_next_sibling (nodes ! i)) \<and>
       un_first_child (nodes' ! i) =
         (if i = parent \<and> un_last_child (nodes ! parent) = None then Some child else un_first_child (nodes ! i)) \<and>
       un_last_child (nodes' ! i) = (if i = parent then Some child else un_last_child (nodes ! i)) \<and>
       un_num_children (nodes' ! i) = (if i = parent then un_num_children (nodes ! i) + 1 else un_num_children (nodes ! i))"
    by (rule append_child_effect [OF p c(1,2)]) (use last kid_range [OF l p] in \<open>auto split: if_splits\<close>)
  have "node_links nodes' ((kids(parent := kids parent @ [child])) i) (nodes' ! i)" if i: "i < length nodes" for i
  proof (cases "i = parent")
    case False
    have "child \<noteq> k \<and> Some k \<noteq> un_last_child (nodes ! parent) \<and> k < length nodes" if "k \<in> set (kids i)" for k
      using that new(1) [OF i] kids_disjoint [OF l i p, of k] False last last_in kid_range [OF l i] by (auto split: if_splits)
    then have "node_links nodes' (kids i) (nodes' ! i)"
      using False e(2) e(3) [OF i] e(3) by (intro node_links_cong [OF linksD [OF l i]]) auto
    then show ?thesis using False by simp
  next
    case True
    have "siblings nodes' (kids parent @ [child])"
    proof (rule siblings_snoc)
      show "linked nodes (kids parent)" "distinct (kids parent)" using pl by (simp_all add: siblings_def)
    qed (use e(3) kid_range [OF l p] new(1) [OF p] new(2) c(1) last in \<open>auto split: if_splits\<close>)
    then show ?thesis
      using True pl c new(1) [OF p] e(2) e(3) [OF p] last by (auto simp: node_links_def split: if_splits)
  qed
  moreover have "set ((kids(parent := kids parent @ [child])) i) \<inter> set ((kids(parent := kids parent @ [child])) j) = {}"
    if "i < length nodes" "j < length nodes" "i \<noteq> j" for i j
    using that l new(1) by (auto simp: links_def)
  ultimately have "links nodes' (kids(parent := kids parent @ [child]))" using e(2) by (simp add: links_def)
  with e that show thesis by blast
qed

lemma links_split_edge:
  assumes l: "links nodes kids" and p: "parent < length nodes" and ks: "kids parent = ks @ [lc]" and fresh: "kids (length nodes) = []"
  obtains nodes' where "split_edge k cp parent nodes = Some nodes'" "length nodes' = Suc (length nodes)"
    "links nodes' (kids(parent := ks @ [length nodes], length nodes := [lc]))"
    "\<And>i. i < length nodes \<Longrightarrow> same_data (nodes' ! i) (nodes ! i)"
    "un_symbol (nodes' ! length nodes) = None" "un_representative (nodes' ! length nodes) = k - 1" "un_depth (nodes' ! length nodes) = cp"
    "un_next_sibling (nodes' ! length nodes) = None"
proof -
  let ?N = "length nodes" and ?kids = "kids(parent := ks @ [length nodes], length nodes := [lc])"
  note pl = linksD [OF l p, unfolded node_links_def ks]
  have lc: "lc < ?N" "lc \<notin> set ks" "un_last_child (nodes ! parent) = Some lc" using pl by auto
  have sib: "linked nodes (ks @ [lc])" "un_next_sibling (nodes ! lc) = None" using pl by (auto simp: siblings_def)
  have pv: "un_previous_sibling (nodes ! lc) = (if ks = [] then None else Some (last ks))"
    using sib(1) by (cases "ks = []") (auto simp: linked_def successively_append_iff)
  have last_in: "last ks \<in> set ks" if "ks \<noteq> []" using that by simp
  then have last_lt: "last ks < ?N" if "ks \<noteq> []" using that kid_range [OF l p, of "last ks"] ks by simp
  obtain nodes' where e: "split_edge k cp parent nodes = Some nodes'" "length nodes' = Suc ?N"
    "nodes' ! ?N = default_node\<lparr>un_representative := k - 1, un_depth := cp, un_first_child := Some lc, un_last_child := Some lc,
       un_previous_sibling := un_previous_sibling (nodes ! lc), un_num_children := 1\<rparr>"
    "\<And>i. i < ?N \<Longrightarrow> same_data (nodes' ! i) (nodes ! i) \<and>
       un_previous_sibling (nodes' ! i) = (if i = lc then None else un_previous_sibling (nodes ! i)) \<and>
       un_next_sibling (nodes' ! i) =
         (if Some i = un_previous_sibling (nodes ! lc) then Some ?N else un_next_sibling (nodes ! i)) \<and>
       un_first_child (nodes' ! i) =
         (if i = parent \<and> un_previous_sibling (nodes ! lc) = None then Some ?N else un_first_child (nodes ! i)) \<and>
       un_last_child (nodes' ! i) = (if i = parent then Some ?N else un_last_child (nodes ! i)) \<and>
       un_num_children (nodes' ! i) = un_num_children (nodes ! i)"
    by (rule split_edge_effect [OF p lc(3,1)]) (use pv last_lt in \<open>auto split: if_splits\<close>)
  have "node_links nodes' (?kids i) (nodes' ! i)" if i: "i < Suc ?N" for i
  proof -
    consider "i = ?N" | "i = parent" | "i < ?N" "i \<noteq> parent" using i by linarith
    then show ?thesis
    proof cases
      case 1
      have "un_next_sibling (nodes' ! lc) = None" "un_previous_sibling (nodes' ! lc) = None"
        using e(4) [OF lc(1)] sib(2) pv lc(2) last_in by auto
      then show ?thesis
        using 1 e(2,3) lc(1) pl by (auto simp: node_links_def siblings_def linked_def default_node_def)
    next
      case 2
      have "siblings nodes' (ks @ [?N])"
      proof (rule siblings_snoc)
        show "linked nodes ks" "distinct ks" using linked_butlast [OF sib(1)] pl by auto
      qed (use e(3,4) pl lc(2) pv in \<open>auto simp: default_node_def split: if_splits\<close>)
      then show ?thesis
        using 2 pl e(2) e(4) [OF p] p pv by (auto simp: node_links_def hd_append)
    next
      case 3
      have "j \<noteq> lc \<and> Some j \<noteq> un_previous_sibling (nodes ! lc) \<and> j < ?N" if "j \<in> set (kids i)" for j
        using that kids_disjoint [OF l 3(1) p, of j] 3(2) pv last_in kid_range [OF l 3(1)] ks by (auto split: if_splits)
      then have "node_links nodes' (kids i) (nodes' ! i)"
        using 3(2) e(2) e(4) [OF 3(1)] e(4) by (intro node_links_cong [OF linksD [OF l 3(1)]]) auto
      then show ?thesis using 3 by simp
    qed
  qed
  moreover have "set (?kids i) \<inter> set (?kids j) = {}" if "i < Suc ?N" "j < Suc ?N" "i \<noteq> j" for i j
  proof -
    have dis: "set (kids i) \<inter> set (kids j) = {}" if "i < ?N" "j < ?N" "i \<noteq> j" for i j using l that by (simp add: links_def)
    have N: "?N \<notin> set (kids i)" if "i < ?N" for i using kid_range [OF l that] by auto
    show ?thesis using that dis [of i j] dis [of i parent] dis [of parent j] N p lc(1,2) ks by (auto simp: less_Suc_eq)
  qed
  ultimately have "links nodes' ?kids" using e(2) by (simp add: links_def)
  with e that show thesis by (simp add: default_node_def)
qed


section \<open>The strings of a trie\<close>

text \<open>\<open>S\<close> is the string that each of the first \<open>N\<close> nodes stands for.\<close>

definition kid_order :: "(nat \<Rightarrow> bytes) \<Rightarrow> nat \<Rightarrow> nat list \<Rightarrow> bool" where
  "kid_order S i = sorted_wrt (\<lambda>a b. S a ! length (S i) < S b ! length (S i))"

definition trie_shape :: "(nat \<Rightarrow> bytes) \<Rightarrow> nat \<Rightarrow> (nat \<Rightarrow> nat list) \<Rightarrow> bool" where
  "trie_shape S N kids \<longleftrightarrow>
     0 < N \<and> S 0 = [] \<and>
     (\<forall>i < N. \<forall>c \<in> set (kids i). c < N \<and> length (S i) < length (S c) \<and> take (length (S i)) (S c) = S i) \<and>
     (\<forall>i < N. kid_order S i (kids i)) \<and>
     (\<forall>j < N. j \<noteq> 0 \<longrightarrow> (\<exists>p < N. j \<in> set (kids p)))"

lemma trie_shapeD:
  assumes "trie_shape S N kids" "i < N"
  shows "c \<in> set (kids i) \<Longrightarrow> c < N" "c \<in> set (kids i) \<Longrightarrow> length (S i) < length (S c)"
    "c \<in> set (kids i) \<Longrightarrow> take (length (S i)) (S c) = S i" "kid_order S i (kids i)" "i \<noteq> 0 \<Longrightarrow> \<exists>p < N. i \<in> set (kids p)"
  using assms unfolding trie_shape_def by blast+

lemma trie_shape_root: "trie_shape S N kids \<Longrightarrow> 0 < N \<and> S 0 = []"
  by (simp add: trie_shape_def)

lemma trie_shapeI:
  assumes "0 < N" "S 0 = []"
    and "\<And>i c. i < N \<Longrightarrow> c \<in> set (kids i) \<Longrightarrow> c < N \<and> length (S i) < length (S c) \<and> take (length (S i)) (S c) = S i"
    and "\<And>i. i < N \<Longrightarrow> kid_order S i (kids i)" "\<And>j. j < N \<Longrightarrow> j \<noteq> 0 \<Longrightarrow> \<exists>p < N. j \<in> set (kids p)"
  shows "trie_shape S N kids"
  using assms by (simp add: trie_shape_def)

lemma kid_order_cong:
  assumes "kid_order S i ks" "\<And>a. a \<in> set ks \<Longrightarrow> S' a = S a" "S' i = S i"
  shows "kid_order S' i ks"
  using assms(1) unfolding kid_order_def by (rule sorted_wrt_mono_rel [rotated]) (simp add: assms(2,3))

lemma trie_shape_cong:
  assumes t: "trie_shape S N kids" and eq: "\<And>i. i < N \<Longrightarrow> S' i = S i"
  shows "trie_shape S' N kids"
proof (rule trie_shapeI)
  show "0 < N" "S' 0 = []" using trie_shape_root [OF t] eq by simp_all
next
  fix i assume i: "i < N"
  show "kid_order S' i (kids i)" using kid_order_cong [OF trie_shapeD(4) [OF t i]] trie_shapeD(1) [OF t i] eq i by blast
  show "c < N \<and> length (S' i) < length (S' c) \<and> take (length (S' i)) (S' c) = S' i" if "c \<in> set (kids i)" for c
    using trie_shapeD(1-3) [OF t i that] eq i by simp
  show "\<exists>p < N. i \<in> set (kids p)" if "i \<noteq> 0" using trie_shapeD(5) [OF t i that] .
qed

lemma trie_shape_append:
  assumes t: "trie_shape S N kids" and p: "parent < N" and fresh: "kids N = []"
    and w: "length (S parent) < length w" "take (length (S parent)) w = S parent"
    and last: "kids parent \<noteq> [] \<Longrightarrow> S (last (kids parent)) ! length (S parent) < w ! length (S parent)"
  shows "trie_shape (S(N := w)) (Suc N) (kids(parent := kids parent @ [N]))" (is "trie_shape ?S _ ?kids")
proof (rule trie_shapeI)
  let ?k = "length (S parent)"
  have less: "S x ! ?k < w ! ?k" if "x \<in> set (kids parent)" for x
  proof -
    from that obtain ks l where kl: "kids parent = ks @ [l]" by (cases "kids parent" rule: rev_cases) auto
    then have "kid_order S parent (ks @ [l])" using trie_shapeD(4) [OF t p] by simp
    then have "x = l \<or> S x ! ?k < S l ! ?k" using that kl by (auto simp: kid_order_def sorted_wrt_append)
    then show ?thesis using last kl by auto
  qed
  have N: "N \<notin> set (kids i)" if "i < N" for i using trie_shapeD(1) [OF t that] by blast
  have old: "kid_order ?S i (kids i)" if i: "i < N" for i
    using N [OF i] i by (intro kid_order_cong [OF trie_shapeD(4) [OF t i]]) auto
  show "0 < Suc N" "?S 0 = []" using trie_shape_root [OF t] by simp_all
  fix i assume i: "i < Suc N"
  show "kid_order ?S i (?kids i)"
  proof (cases "i = parent")
    case True
    then show ?thesis using old [OF p] less N [OF p] p by (auto simp: kid_order_def sorted_wrt_append)
  next
    case False
    then show ?thesis using old i fresh by (cases "i = N") (auto simp: kid_order_def)
  qed
  show "c < Suc N \<and> length (?S i) < length (?S c) \<and> take (length (?S i)) (?S c) = ?S i" if "c \<in> set (?kids i)" for c
  proof (cases "i = N")
    case True
    then show ?thesis using that fresh p by simp
  next
    case False
    then have "i < N" using i by simp
    then show ?thesis
      using trie_shapeD(1-3) [OF t, of i c] that w p False by (cases "c = N") (auto split: if_splits)
  qed
  show "\<exists>p < Suc N. i \<in> set (?kids p)" if i0: "i \<noteq> 0"
  proof (cases "i = N")
    case True
    then show ?thesis using p by (intro exI [of _ parent]) simp
  next
    case False
    then obtain q where "q < N" "i \<in> set (kids q)" using i trie_shapeD(5) [OF t _ i0] by auto
    then show ?thesis by (intro exI [of _ q]) auto
  qed
qed

lemma trie_shape_split:
  assumes t: "trie_shape S N kids" and p: "parent < N" and fresh: "kids N = []" and ks: "kids parent = ks @ [lc]"
    and w: "length (S parent) < length w" "length w < length (S lc)" "take (length w) (S lc) = w"
  shows "trie_shape (S(N := w)) (Suc N) (kids(parent := ks @ [N], N := [lc]))" (is "trie_shape ?S _ ?kids")
proof (rule trie_shapeI)
  let ?k = "length (S parent)"
  have lc: "lc < N" "take ?k (S lc) = S parent" using trie_shapeD(1,3) [OF t p, of lc] ks by auto
  have wk: "w ! ?k = S lc ! ?k" using w(1,3) by (metis nth_take)
  have wp: "take ?k w = S parent" using w(1,3) lc(2) by (metis min.absorb1 less_imp_le_nat take_take)
  have N: "N \<notin> set (kids i)" if "i < N" for i using trie_shapeD(1) [OF t that] by blast
  have old: "kid_order ?S i (kids i)" if i: "i < N" for i
    using N [OF i] i by (intro kid_order_cong [OF trie_shapeD(4) [OF t i]]) auto
  show "0 < Suc N" "?S 0 = []" using trie_shape_root [OF t] by simp_all
  fix i assume i: "i < Suc N"
  consider "i = N" | "i = parent" "i < N" | "i < N" "i \<noteq> parent" using i p by linarith
  then show "kid_order ?S i (?kids i)"
  proof cases
    case 2
    then show ?thesis using old [OF p] wk lc(1) p unfolding ks by (auto simp: kid_order_def sorted_wrt_append)
  qed (use old in \<open>auto simp: kid_order_def\<close>)
  show "c < Suc N \<and> length (?S i) < length (?S c) \<and> take (length (?S i)) (?S c) = ?S i" if c: "c \<in> set (?kids i)" for c
  proof (cases "i = N")
    case True
    then show ?thesis using c w lc(1) by simp
  next
    case False
    then have iN: "i < N" using i by simp
    show ?thesis
    proof (cases "c = N")
      case True
      then have "i = parent" using c N [OF iN] False by (auto split: if_splits)
      then show ?thesis using True w(1) wp p by simp
    next
      case cN: False
      then have "c \<in> set (kids i)" using c False ks by (auto split: if_splits)
      then show ?thesis using trie_shapeD(1-3) [OF t iN, of c] False cN by simp
    qed
  qed
  show "\<exists>q < Suc N. i \<in> set (?kids q)" if i0: "i \<noteq> 0"
  proof (cases "i = N \<or> i = lc")
    case True
    then show ?thesis using p by (cases "i = N") (auto intro: exI [of _ parent] exI [of _ N])
  next
    case False
    then obtain q where "q < N" "i \<in> set (kids q)" using i trie_shapeD(5) [OF t _ i0] by auto
    then show ?thesis using False ks by (intro exI [of _ q]) auto
  qed
qed


section \<open>The state between symbols\<close>

definition node_string :: "Symbol list \<Rightarrow> UncompressedNode \<Rightarrow> bytes" where
  "node_string symbols n = take (un_depth n) (sy_name (symbols ! un_representative n))"

definition node_ok :: "Symbol list \<Rightarrow> UncompressedNode \<Rightarrow> bool" where
  "node_ok symbols n \<longleftrightarrow>
     un_representative n < length symbols \<and> un_depth n \<le> length (sy_name (symbols ! un_representative n))"

lemma length_node_string: "node_ok symbols n \<Longrightarrow> length (node_string symbols n) = un_depth n"
  by (simp add: node_string_def node_ok_def)

lemma node_same_data:
  "same_data n n' \<Longrightarrow> node_string symbols n = node_string symbols n' \<and> node_ok symbols n = node_ok symbols n' \<and>
     un_depth n = un_depth n' \<and> un_symbol n = un_symbol n'"
  by (simp add: same_data_def node_string_def node_ok_def)

text \<open>The first \<open>k\<close> symbols have their nodes.\<close>

definition symbols_placed :: "Symbol list \<Rightarrow> nat \<Rightarrow> UncompressedNode list \<Rightarrow> bool" where
  "symbols_placed symbols k nodes \<longleftrightarrow>
     (\<forall>i < length nodes. \<forall>s. un_symbol (nodes ! i) = Some s \<longrightarrow> s < k \<and> node_string symbols (nodes ! i) = sy_name (symbols ! s)) \<and>
     (\<forall>s < k. \<exists>i < length nodes. un_symbol (nodes ! i) = Some s)"

definition trie_inv :: "Symbol list \<Rightarrow> nat \<Rightarrow> UncompressedNode list \<Rightarrow> (nat \<Rightarrow> nat list) \<Rightarrow> bool" where
  "trie_inv symbols k nodes kids \<longleftrightarrow>
     links nodes kids \<and> (\<forall>i. length nodes \<le> i \<longrightarrow> kids i = []) \<and> (\<forall>i < length nodes. node_ok symbols (nodes ! i)) \<and>
     trie_shape (\<lambda>i. node_string symbols (nodes ! i)) (length nodes) kids \<and> symbols_placed symbols k nodes"

text \<open>The path leads from a node up to the root, always from the last child.\<close>

definition path_ok :: "nat \<Rightarrow> (nat \<Rightarrow> nat list) \<Rightarrow> nat list \<Rightarrow> bool" where
  "path_ok N kids path \<longleftrightarrow>
     path \<noteq> [] \<and> last path = 0 \<and> set path \<subseteq> {..<N} \<and> successively (\<lambda>a b. kids b \<noteq> [] \<and> last (kids b) = a) path"

definition topology_inv :: "Symbol list \<Rightarrow> nat \<Rightarrow> topology_state \<Rightarrow> (nat \<Rightarrow> nat list) \<Rightarrow> bool" where
  "topology_inv symbols k st kids \<longleftrightarrow>
     (case st of (nodes, prev, path) \<Rightarrow>
        trie_inv symbols k nodes kids \<and> path_ok (length nodes) kids path \<and>
        node_string symbols (nodes ! hd path) = prev \<and> kids (hd path) = [] \<and> length nodes \<le> 2 * k + 1)"

lemma path_tail: "path_ok N kids (pre @ p # rest) \<Longrightarrow> path_ok N kids (p # rest)"
  by (auto simp: path_ok_def successively_append_iff)

lemma path_depths:
  assumes "trie_shape S N kids" "path_ok N kids path"
  shows "sorted_wrt (\<lambda>a b. length (S b) < length (S a)) path"
proof -
  have "successively (\<lambda>a b. length (S b) < length (S a)) path"
  proof (rule successively_mono)
    show "successively (\<lambda>a b. kids b \<noteq> [] \<and> last (kids b) = a) path" using assms(2) by (simp add: path_ok_def)
  next
    fix a b assume "b \<in> set path" "kids b \<noteq> [] \<and> last (kids b) = a"
    moreover from this(1) have "b < N" using assms(2) by (auto simp: path_ok_def)
    ultimately show "length (S b) < length (S a)" using trie_shapeD(2) [OF assms(1), of b a] by auto
  qed
  then show ?thesis by (subst (asm) successively_conv_sorted_wrt) (auto simp: transp_def)
qed

lemma path_strings:
  assumes "trie_shape S N kids" "path_ok N kids path" "i \<in> set path"
  shows "take (length (S i)) (S (hd path)) = S i"
  using assms(2,3)
proof (induction path)
  case (Cons a path)
  show ?case
  proof (cases "i = a")
    case False
    then have i: "i \<in> set path" using Cons.prems by simp
    then have ne: "path \<noteq> []" by auto
    have ok: "path_ok N kids path" using path_tail [of N kids "[a]" "hd path" "tl path"] Cons.prems(1) ne by simp
    have "set path \<subseteq> {..<N}" using Cons.prems(1) by (simp add: path_ok_def)
    from subsetD [OF this hd_in_set [OF ne]] have "hd path < N" by simp
    moreover have "kids (hd path) \<noteq> []" "last (kids (hd path)) = a"
      using Cons.prems(1) ne by (auto simp: path_ok_def successively_Cons)
    ultimately have "take (length (S (hd path))) (S a) = S (hd path)" using trie_shapeD(3) [OF assms(1)] last_in_set by metis
    moreover have "take (length (S i)) (S (hd path)) = S i" using Cons.IH [OF ok i] .
    ultimately show ?thesis by (metis list.sel(1) length_take min.absorb1 min.cobounded2 take_take nat_le_linear min_def)
  qed simp
qed (simp add: path_ok_def)

lemma pop_path_split:
  assumes "set path \<subseteq> {..<length nodes}" "path \<noteq> []" "un_depth (nodes ! last path) = 0"
  obtains pre p rest where "pop_path nodes cp path = Some (p # rest)" "path = pre @ p # rest" "un_depth (nodes ! p) \<le> cp"
    "\<forall>i \<in> set pre. cp < un_depth (nodes ! i)"
proof -
  have "\<exists>pre p rest. pop_path nodes cp path = Some (p # rest) \<and> path = pre @ p # rest \<and> un_depth (nodes ! p) \<le> cp \<and>
      (\<forall>i \<in> set pre. cp < un_depth (nodes ! i))"
    using assms
  proof (induction path)
    case (Cons a path)
    show ?case
    proof (cases "cp < un_depth (nodes ! a)")
      case True
      then have "path \<noteq> []" using Cons.prems(3) by auto
      then obtain pre p rest where "pop_path nodes cp path = Some (p # rest)" "path = pre @ p # rest" "un_depth (nodes ! p) \<le> cp"
        "\<forall>i \<in> set pre. cp < un_depth (nodes ! i)"
        using Cons by auto
      then show ?thesis using True Cons.prems(1) by (intro exI [of _ "a # pre"] exI [of _ p] exI [of _ rest]) (simp add: index_def)
    next
      case False
      then show ?thesis using Cons.prems(1) by (intro exI [of _ "[]"] exI [of _ a] exI [of _ path]) (simp add: index_def)
    qed
  qed simp
  then show thesis using that by blast
qed


section \<open>One symbol\<close>

text \<open>The state when the node is found from which the name goes on after \<open>cp\<close> bytes.\<close>

definition found_parent :: "Symbol list \<Rightarrow> nat \<Rightarrow> nat \<Rightarrow> bytes \<Rightarrow> UncompressedNode list \<Rightarrow> nat list \<Rightarrow> nat \<Rightarrow> (nat \<Rightarrow> nat list) \<Rightarrow> bool" where
  "found_parent symbols k cp name nodes path q kids \<longleftrightarrow>
     trie_inv symbols k nodes kids \<and> path_ok (length nodes) kids path \<and> hd path = q \<and> node_string symbols (nodes ! q) = take cp name \<and>
     un_depth (nodes ! q) = cp \<and> length nodes \<le> 2 * k + 2 \<and>
     (kids q \<noteq> [] \<longrightarrow> cp < length name \<and> node_string symbols (nodes ! last (kids q)) ! cp < name ! cp)"

lemma trie_invD:
  assumes "trie_inv symbols k nodes kids"
  shows "links nodes kids" "length nodes \<le> i \<Longrightarrow> kids i = []" "i < length nodes \<Longrightarrow> node_ok symbols (nodes ! i)"
    "trie_shape (\<lambda>i. node_string symbols (nodes ! i)) (length nodes) kids" "symbols_placed symbols k nodes"
  using assms by (auto simp: trie_inv_def)

lemma trie_inv_split:
  assumes inv: "trie_inv symbols k nodes kids" and p: "p < length nodes" and ks: "kids p = ks @ [lc]"
    and rep: "0 < k" "k \<le> length symbols" "cp \<le> length (sy_name (symbols ! (k - 1)))"
    and cp: "un_depth (nodes ! p) < cp" "cp < un_depth (nodes ! lc)"
    and str: "take cp (node_string symbols (nodes ! lc)) = take cp (sy_name (symbols ! (k - 1)))"
  obtains nodes' where "split_edge k cp p nodes = Some nodes'" "length nodes' = Suc (length nodes)"
    "trie_inv symbols k nodes' (kids(p := ks @ [length nodes], length nodes := [lc]))"
    "node_string symbols (nodes' ! length nodes) = take cp (sy_name (symbols ! (k - 1)))" "un_depth (nodes' ! length nodes) = cp"
    "node_string symbols (nodes' ! lc) = node_string symbols (nodes ! lc)"
proof -
  let ?N = "length nodes" and ?kids = "kids(p := ks @ [length nodes], length nodes := [lc])" and ?S = "\<lambda>nodes i. node_string symbols (nodes ! i)"
  let ?w = "take cp (sy_name (symbols ! (k - 1)))"
  note I = trie_invD [OF inv]
  obtain nodes' where e: "split_edge k cp p nodes = Some nodes'" "length nodes' = Suc ?N" "links nodes' ?kids"
    "\<And>i. i < ?N \<Longrightarrow> same_data (nodes' ! i) (nodes ! i)"
    "un_symbol (nodes' ! ?N) = None" "un_representative (nodes' ! ?N) = k - 1" "un_depth (nodes' ! ?N) = cp"
    "un_next_sibling (nodes' ! ?N) = None"
    by (rule links_split_edge [OF I(1) p ks I(2) [OF order_refl], where k = k and cp = cp]) blast
  have new: "?S nodes' ?N = ?w" "node_ok symbols (nodes' ! ?N)"
    using e(6,7) rep by (simp_all add: node_string_def node_ok_def)
  have old: "?S nodes' i = ?S nodes i" "node_ok symbols (nodes' ! i)" "un_symbol (nodes' ! i) = un_symbol (nodes ! i)" if "i < ?N" for i
    using node_same_data [OF e(4) [OF that]] I(3) [OF that] by simp_all
  have lc: "lc < ?N" using trie_shapeD(1) [OF I(4) p, of lc] ks by simp
  have len: "length ?w = cp" using rep by simp
  have shape: "trie_shape ((?S nodes)(?N := ?w)) (Suc ?N) ?kids"
    using length_node_string [OF I(3) [OF p]] length_node_string [OF I(3) [OF lc]] cp str len
    by (intro trie_shape_split [OF I(4) p I(2) [OF order_refl] ks]) simp_all
  then have "trie_shape (?S nodes') (Suc ?N) ?kids"
    by (rule trie_shape_cong) (use old(1) new(1) in \<open>auto simp: less_Suc_eq\<close>)
  moreover have "symbols_placed symbols k nodes'"
    using I(5) old(1,3) e(2,5) unfolding symbols_placed_def by (auto simp: less_Suc_eq) metis+
  moreover have "\<forall>i. length nodes' \<le> i \<longrightarrow> ?kids i = []" using I(2) e(2) p by simp
  moreover have "\<forall>i < length nodes'. node_ok symbols (nodes' ! i)" using old(2) new(2) e(2) by (simp add: less_Suc_eq)
  ultimately have "trie_inv symbols k nodes' ?kids" using e(2,3) by (simp add: trie_inv_def)
  with that e(1,2,7) new(1) old(1) [OF lc] show thesis by blast
qed

lemma trie_inv_append:
  assumes inv: "trie_inv symbols k nodes kids" and p: "p < length nodes" and k: "k < length symbols"
    and name: "name = sy_name (symbols ! k)" and cp: "un_depth (nodes ! p) < length name"
    and str: "node_string symbols (nodes ! p) = take (un_depth (nodes ! p)) name"
    and last: "kids p \<noteq> [] \<Longrightarrow> node_string symbols (nodes ! last (kids p)) ! un_depth (nodes ! p) < name ! un_depth (nodes ! p)"
  obtains nodes' where "append_child (nodes @ [default_node\<lparr>un_symbol := Some k, un_representative := k, un_depth := length name\<rparr>])
      p (length nodes) = Some nodes'" "length nodes' = Suc (length nodes)"
    "trie_inv symbols (Suc k) nodes' (kids(p := kids p @ [length nodes]))" "node_string symbols (nodes' ! length nodes) = name"
proof -
  let ?N = "length nodes" and ?kids = "kids(p := kids p @ [length nodes])" and ?S = "\<lambda>nodes i. node_string symbols (nodes ! i)"
  let ?new = "default_node\<lparr>un_symbol := Some k, un_representative := k, un_depth := length name\<rparr>"
  note I = trie_invD [OF inv]
  have l: "links (nodes @ [?new]) kids"
    by (rule links_fresh [OF I(1) I(2) [OF order_refl]]) (simp_all add: default_node_def)
  have nin: "?N \<notin> set (kids i)" if "i < length (nodes @ [?new])" for i
    using kid_range [OF I(1), of i ?N] I(2) [of i] that by (cases "i < ?N") (auto simp: less_Suc_eq)
  obtain nodes' where e: "append_child (nodes @ [?new]) p ?N = Some nodes'" "length nodes' = length (nodes @ [?new])" "links nodes' ?kids"
    "\<And>i. i < length (nodes @ [?new]) \<Longrightarrow> same_data (nodes' ! i) ((nodes @ [?new]) ! i)"
    by (rule links_append_child [OF l _ _ _ _ nin, of p]) (use p in \<open>auto simp: default_node_def\<close>)
  have new: "?S nodes' ?N = name" "node_ok symbols (nodes' ! ?N)" "un_symbol (nodes' ! ?N) = Some k"
    using e(4) [of ?N] k name by (simp_all add: same_data_def node_string_def node_ok_def)
  have old: "?S nodes' i = ?S nodes i" "node_ok symbols (nodes' ! i)" "un_symbol (nodes' ! i) = un_symbol (nodes ! i)" if "i < ?N" for i
    using node_same_data [OF e(4) [of i]] I(3) [OF that] that by (simp_all add: nth_append)
  have "trie_shape ((?S nodes)(?N := name)) (Suc ?N) ?kids"
    using length_node_string [OF I(3) [OF p]] cp str last
    by (intro trie_shape_append [OF I(4) p I(2) [OF order_refl]]) simp_all
  then have "trie_shape (?S nodes') (Suc ?N) ?kids"
    by (rule trie_shape_cong) (use old(1) new(1) in \<open>auto simp: less_Suc_eq\<close>)
  moreover have "symbols_placed symbols (Suc k) nodes'"
    using I(5) old(1,3) e(2) new(1,3) name unfolding symbols_placed_def by (auto simp: less_Suc_eq) metis+
  moreover have "\<forall>i. length nodes' \<le> i \<longrightarrow> ?kids i = []" using I(2) e(2) p by simp
  moreover have "\<forall>i < length nodes'. node_ok symbols (nodes' ! i)" using old(2) new(2) e(2) by (simp add: less_Suc_eq)
  ultimately have "trie_inv symbols (Suc k) nodes' ?kids" using e(2,3) by (simp add: trie_inv_def)
  with that e(1,2) new(1) show thesis by simp
qed


text \<open>The name of a symbol that follows the previous one in the order, or is the first.\<close>

definition next_name :: "Symbol list \<Rightarrow> nat \<Rightarrow> bytes \<Rightarrow> bytes \<Rightarrow> bool" where
  "next_name symbols k prev name \<longleftrightarrow>
     k < length symbols \<and> name = sy_name (symbols ! k) \<and>
     (if k = 0 then prev = [] else prev = sy_name (symbols ! (k - 1)) \<and> ord_class.lexordp prev name)"

lemma descend_ok:
  assumes inv: "topology_inv symbols k (nodes, prev, path) kids" and name: "next_name symbols k prev name"
    and cp: "cp = common_prefix prev name"
  obtains nodes' path' q kids' where "descend k cp nodes path = Some (nodes', path', q)" "found_parent symbols k cp name nodes' path' q kids'"
proof -
  let ?S = "\<lambda>nodes i. node_string symbols (nodes ! i)"
  have inv': "trie_inv symbols k nodes kids" "path_ok (length nodes) kids path" "?S nodes (hd path) = prev" "kids (hd path) = []"
    "length nodes \<le> 2 * k + 1" using inv by (simp_all add: topology_inv_def)
  note I = trie_invD [OF inv'(1)]
  have len: "length (?S nodes i) = un_depth (nodes ! i)" if "i < length nodes" for i using length_node_string I(3) that by blast
  have P: "path \<noteq> []" "last path = 0" "set path \<subseteq> {..<length nodes}" using inv'(2) by (simp_all add: path_ok_def)
  have "un_depth (nodes ! last path) = 0" using len [of 0] trie_shape_root [OF I(4)] P by simp
  then obtain pre p rest where pop: "pop_path nodes cp path = Some (p # rest)" "path = pre @ p # rest" "un_depth (nodes ! p) \<le> cp"
    "\<forall>i \<in> set pre. cp < un_depth (nodes ! i)"
    by (rule pop_path_split [OF P(3,1)])
  have p: "p < length nodes" using P(3) pop(2) by simp
  have tail: "path_ok (length nodes) kids (p # rest)" using path_tail inv'(2) pop(2) by blast
  have pre_name: "take cp prev = take cp name" "cp \<le> length prev" using common_prefix_take common_prefix_le cp by auto
  have Sp: "?S nodes p = take (un_depth (nodes ! p)) prev"
    using path_strings [OF I(4) inv'(2), of p] inv'(3) len [OF p] pop(2) by simp
  show thesis
  proof (cases "pre = []")
    case True
    then have hd: "hd path = p" using pop(2) by simp
    then have d: "un_depth (nodes ! p) = cp" using inv'(3) len [OF p] pop(3) pre_name(2) by simp
    then have "found_parent symbols k cp name nodes (p # rest) p kids"
      using inv'(1,4,5) tail hd Sp pre_name(1) by (simp add: found_parent_def)
    moreover have "descend k cp nodes path = Some (nodes, p # rest, p)" using pop(1) p d by (simp add: descend_def index_def)
    ultimately show thesis using that by blast
  next
    case False
    let ?a = "last pre"
    have "successively (\<lambda>a b. kids b \<noteq> [] \<and> last (kids b) = a) (pre @ p # rest)" using inv'(2) pop(2) by (simp add: path_ok_def)
    then have a: "kids p \<noteq> []" "last (kids p) = ?a" using False by (simp_all add: successively_append_iff)
    have "?a \<in> set pre" using False by simp
    then have a': "cp < un_depth (nodes ! ?a)" "?a \<in> set path" "?a < length nodes" using pop(2,4) P(3) by auto
    have Sa: "?S nodes ?a = take (un_depth (nodes ! ?a)) prev"
      using path_strings [OF I(4) inv'(2) a'(2)] inv'(3) len [OF a'(3)] by simp
    have more: "cp < length prev" using a'(1) len [OF a'(3)] Sa by (metis length_take min_less_iff_conj)
    then have k: "0 < k" "prev = sy_name (symbols ! (k - 1))" "ord_class.lexordp prev name" "k < length symbols"
      using name by (auto simp: next_name_def split: if_splits)
    have less: "cp < length name" "prev ! cp < name ! cp"
      using common_prefix_less [OF k(3)] more by (simp_all add: cp)
    then have Sa_less: "?S nodes ?a ! cp < name ! cp" using Sa a'(1) by simp
    show thesis
    proof (cases "un_depth (nodes ! p) = cp")
      case True
      then have "descend k cp nodes path = Some (nodes, p # rest, p)" using pop(1) p by (simp add: descend_def index_def)
      moreover have "found_parent symbols k cp name nodes (p # rest) p kids"
        using inv'(1,5) tail Sp pre_name(1) True a(2) less(1) Sa_less by (simp add: found_parent_def)
      ultimately show thesis using that by blast
    next
      case False
      let ?N = "length nodes" and ?ks = "butlast (kids p)"
      have ks: "kids p = ?ks @ [?a]" using a by (metis append_butlast_last_id)
      have cp': "un_depth (nodes ! p) < cp" using False pop(3) by simp
      have str: "take cp (?S nodes ?a) = take cp (sy_name (symbols ! (k - 1)))" using Sa a'(1) k(2) by simp
      obtain nodes' where e: "split_edge k cp p nodes = Some nodes'" "length nodes' = Suc ?N"
        "trie_inv symbols k nodes' (kids(p := ?ks @ [?N], ?N := [?a]))" "?S nodes' ?N = take cp (sy_name (symbols ! (k - 1)))"
        "un_depth (nodes' ! ?N) = cp" "?S nodes' ?a = ?S nodes ?a"
        by (rule trie_inv_split [OF inv'(1) p ks k(1) _ _ cp' a'(1) str]) (use k more in auto)
      have d: "descend k cp nodes path = Some (nodes', ?N # p # rest, ?N)"
        using pop(1) p cp' e(1) by (simp add: descend_def index_def Let_def)
      have rest: "p \<notin> set rest" "?N \<notin> set rest" using path_depths [OF I(4) tail] P(3) pop(2) by auto
      then have "rest \<noteq> [] \<Longrightarrow> hd rest \<noteq> p \<and> hd rest \<noteq> ?N" using hd_in_set by metis
      moreover note rest
      moreover have "successively (\<lambda>a b. kids b \<noteq> [] \<and> last (kids b) = a) (p # rest)" "set rest \<subseteq> {..<?N}" "last (p # rest) = 0"
        using tail by (auto simp: path_ok_def)
      ultimately have "path_ok (length nodes') (kids(p := ?ks @ [?N], ?N := [?a])) (?N # p # rest)"
        using p e(2) unfolding path_ok_def by (auto simp: successively_Cons elim!: successively_mono)
      then have "found_parent symbols k cp name nodes' (?N # p # rest) ?N (kids(p := ?ks @ [?N], ?N := [?a]))"
        using e inv'(5) pre_name(1) k(2) less(1) Sa_less by (simp add: found_parent_def)
      with that [OF d] show thesis .
    qed
  qed
qed


lemma attach_ok:
  assumes found: "found_parent symbols k cp name nodes path q kids" and name: "next_name symbols k prev name"
    and cp: "cp = common_prefix prev name"
  obtains st kids' where "attach k name nodes path q = Some st" "topology_inv symbols (Suc k) st kids'" "fst (snd st) = name"
proof -
  have F: "trie_inv symbols k nodes kids" "path_ok (length nodes) kids path" "hd path = q" "node_string symbols (nodes ! q) = take cp name"
    "un_depth (nodes ! q) = cp" "length nodes \<le> 2 * k + 2"
    "kids q \<noteq> [] \<longrightarrow> cp < length name \<and> node_string symbols (nodes ! last (kids q)) ! cp < name ! cp"
    using found by (simp_all add: found_parent_def)
  note I = trie_invD [OF F(1)]
  have P: "path \<noteq> []" "set path \<subseteq> {..<length nodes}" using F(2) by (simp_all add: path_ok_def)
  then have q: "q < length nodes" using F(3) hd_in_set by blast
  have nm: "k < length symbols" "name = sy_name (symbols ! k)" using name by (simp_all add: next_name_def)
  show thesis
  proof (cases "cp = length name")
    case True
    have k0: "k = 0" using common_prefix_less(1) [of prev name] True name cp by (auto simp: next_name_def split: if_splits)
    let ?nodes = "nodes[q := (nodes ! q)\<lparr>un_symbol := Some k\<rparr>]"
    have kq: "kids q = []" using F(7) True by auto
    have data: "node_string symbols (?nodes ! i) = node_string symbols (nodes ! i)" "node_ok symbols (?nodes ! i) = node_ok symbols (nodes ! i)"
      "un_next_sibling (?nodes ! i) = un_next_sibling (nodes ! i)" "un_previous_sibling (?nodes ! i) = un_previous_sibling (nodes ! i)"
      "un_first_child (?nodes ! i) = un_first_child (nodes ! i)" "un_last_child (?nodes ! i) = un_last_child (nodes ! i)"
      "un_num_children (?nodes ! i) = un_num_children (nodes ! i)"
      "un_symbol (?nodes ! i) = (if i = q then Some k else un_symbol (nodes ! i))" for i
      using q by (simp_all add: node_string_def node_ok_def nth_list_update)
    have "links ?nodes kids"
      unfolding links_def
    proof (intro conjI allI impI)
      fix i assume "i < length ?nodes"
      then show "node_links ?nodes (kids i) (?nodes ! i)"
        by (intro node_links_cong [OF linksD [OF I(1), of i]]) (simp_all only: data length_list_update order_refl)
    qed (use I(1) in \<open>simp add: links_def\<close>)
    moreover have "symbols_placed symbols (Suc k) ?nodes"
      using I(5) q F(4) True nm unfolding symbols_placed_def data length_list_update unfolding k0 by auto
    moreover have "trie_shape (\<lambda>i. node_string symbols (?nodes ! i)) (length ?nodes) kids"
      using I(4) by (simp add: data(1))
    ultimately have "trie_inv symbols (Suc k) ?nodes kids"
      using I(2,3) by (simp add: trie_inv_def data(2))
    then have "topology_inv symbols (Suc k) (?nodes, name, path) kids"
      using F True kq by (simp add: topology_inv_def data(1))
    moreover have "attach k name nodes path q = Some (?nodes, name, path)"
      using q F(5) True by (simp add: attach_def index_def modify_def)
    ultimately show thesis using that by simp
  next
    case False
    then have less: "cp < length name" using common_prefix_le(2) [of prev name] cp by simp
    let ?N = "length nodes" and ?kids = "kids(q := kids q @ [length nodes])"
    obtain nodes' where e: "append_child (nodes @ [default_node\<lparr>un_symbol := Some k, un_representative := k, un_depth := length name\<rparr>])
        q ?N = Some nodes'" "length nodes' = Suc ?N" "trie_inv symbols (Suc k) nodes' ?kids" "node_string symbols (nodes' ! ?N) = name"
      by (rule trie_inv_append [OF F(1) q nm]) (use F less in auto)
    obtain rest where rest: "path = q # rest" using P(1) F(3) by (cases path) auto
    have nq: "q \<notin> set rest" using path_depths [OF I(4) F(2)] rest by auto
    then have "rest \<noteq> [] \<Longrightarrow> hd rest \<noteq> q" using hd_in_set by metis
    then have "path_ok (length nodes') ?kids (?N # path)"
      using F(2) nq e(2) unfolding path_ok_def rest by (auto simp: successively_Cons elim!: successively_mono)
    moreover have "?N \<noteq> q" "kids ?N = []" using I(2) q by simp_all
    ultimately have "topology_inv symbols (Suc k) (nodes', name, ?N # path) ?kids"
      using e F(6) by (simp add: topology_inv_def)
    moreover have "attach k name nodes path q = Some (nodes', name, ?N # path)"
      using q F(5) False e(1) by (simp add: attach_def index_def Let_def)
    ultimately show thesis using that by simp
  qed
qed

lemma topology_step_ok:
  assumes "topology_inv symbols k st kids" "next_name symbols k (fst (snd st)) name"
  obtains st' kids' where "topology_step k name st = Some st'" "topology_inv symbols (Suc k) st' kids'" "fst (snd st') = name"
proof -
  obtain nodes prev path where st: "st = (nodes, prev, path)" by (cases st)
  let ?cp = "common_prefix prev name"
  obtain nodes' path' q kids1 where d: "descend k ?cp nodes path = Some (nodes', path', q)"
    "found_parent symbols k ?cp name nodes' path' q kids1"
    by (rule descend_ok [of symbols k nodes prev path kids name ?cp]) (use assms st in auto)
  obtain st' kids' where "attach k name nodes' path' q = Some st'" "topology_inv symbols (Suc k) st' kids'" "fst (snd st') = name"
    by (rule attach_ok [OF d(2), of prev]) (use assms(2) st in auto)
  with d(1) st that show thesis by (simp add: topology_step_def)
qed

text \<open>Names that are sorted, without duplicates.\<close>

definition sorted_names :: "Symbol list \<Rightarrow> bool" where
  "sorted_names symbols = sorted_wrt (\<lambda>a b. ord_class.lexordp (sy_name a) (sy_name b)) symbols"

lemma topology_from_ok:
  assumes "sorted_names symbols" "topology_inv symbols k st kids" "rest = drop k symbols" "k \<le> length symbols"
    "fst (snd st) = (if k = 0 then [] else sy_name (symbols ! (k - 1)))"
  shows "\<exists>st' kids'. topology_from k rest st = Some st' \<and> topology_inv symbols (length symbols) st' kids'"
  using assms(2-)
proof (induction rest arbitrary: k st kids)
  case Nil
  then have "k = length symbols" by simp
  then show ?case using Nil by auto
next
  case (Cons s rest)
  have k: "k < length symbols" "s = symbols ! k" "rest = drop (Suc k) symbols"
    using Cons.prems(2) by (metis drop_all list.distinct(1) not_le, metis Cons_nth_drop_Suc drop_all list.distinct(1) list.inject not_le,
      metis Cons_nth_drop_Suc drop_all list.distinct(1) list.inject not_le)
  have "ord_class.lexordp (sy_name (symbols ! (k - 1))) (sy_name (symbols ! k))" if "k \<noteq> 0"
    using assms(1) k(1) that by (auto simp: sorted_names_def sorted_wrt_iff_nth_less)
  then have "next_name symbols k (fst (snd st)) (sy_name s)" using Cons.prems(4) k(1,2) by (simp add: next_name_def)
  then obtain st1 kids1 where st1: "topology_step k (sy_name s) st = Some st1" "topology_inv symbols (Suc k) st1 kids1"
    "fst (snd st1) = sy_name s"
    by (rule topology_step_ok [OF Cons.prems(1)])
  then show ?case using Cons.IH [OF st1(2) k(3)] k(1,2) by simp
qed

theorem topology_new_ok:
  assumes "sorted_names symbols" "symbols \<noteq> []"
  obtains topology kids where "topology_new symbols = Some topology" "trie_inv symbols (length symbols) topology kids"
    "length topology \<le> 2 * length symbols + 1"
proof -
  have d: "node_links [default_node] [] default_node" "node_ok symbols default_node" "node_string symbols default_node = []"
    "un_symbol default_node = None"
    using assms(2) by (simp_all add: node_links_def siblings_def linked_def default_node_def node_ok_def node_string_def)
  have "trie_shape (\<lambda>i. node_string symbols ([default_node] ! i)) (Suc 0) (\<lambda>_. [])"
    by (rule trie_shapeI) (simp_all add: d kid_order_def)
  then have "topology_inv symbols 0 ([default_node], [], [0]) (\<lambda>_. [])"
    using d by (simp add: topology_inv_def trie_inv_def links_def symbols_placed_def path_ok_def)
  then obtain st kids where "topology_from 0 symbols ([default_node], [], [0]) = Some st" "topology_inv symbols (length symbols) st kids"
    using topology_from_ok [OF assms(1), of 0 "([default_node], [], [0])" "\<lambda>_. []" symbols] by auto
  with that show thesis by (cases st) (auto simp: topology_new_def topology_inv_def)
qed

end
