(* ===== verification/Export_Build.thy ===== *)
theory Export_Build
  imports Export_Layout Export_Topology
begin

text \<open>
  The nodes and edges that are made from a topology, and their layout: every step up to the encoding
  succeeds for sorted names.
\<close>

section \<open>The edges of a node\<close>

definition edge_to :: "Symbol list \<Rightarrow> UncompressedNode list \<Rightarrow> nat \<Rightarrow> nat \<Rightarrow> Edge" where
  "edge_to symbols unc depth c =
     \<lparr>ed_label = drop depth (node_string symbols (unc ! c)), ed_child = c, ed_child_offset_size = 1\<rparr>"

lemma child_edges_chain:
  assumes "linked unc ks" "ks \<noteq> [] \<longrightarrow> un_next_sibling (unc ! last ks) = None"
    and "\<And>c. c \<in> set ks \<Longrightarrow> c < length unc \<and> node_ok symbols (unc ! c) \<and> depth \<le> un_depth (unc ! c)"
  shows "child_edges symbols unc depth (if ks = [] then None else Some (hd ks)) = Some (map (edge_to symbols unc depth) ks)"
proof -
  have "successively (\<lambda>a b. un_next_sibling (unc ! a) = Some b) ks"
    using assms(1) by (auto simp: linked_def elim: successively_mono)
  then show ?thesis
    using assms(2,3)
  proof (induction ks)
    case Nil
    then show ?case by (simp add: child_edges.simps)
  next
    case (Cons c ks)
    have c: "c < length unc" "un_representative (unc ! c) < length symbols"
      "un_depth (unc ! c) \<le> length (sy_name (symbols ! un_representative (unc ! c)))" "depth \<le> un_depth (unc ! c)"
      using Cons.prems(3) [of c] by (simp_all add: node_ok_def)
    have next': "un_next_sibling (unc ! c) = (if ks = [] then None else Some (hd ks))"
      using Cons.prems(1,2) by (cases ks) (auto simp: successively_Cons)
    have "child_edges symbols unc depth (un_next_sibling (unc ! c)) = Some (map (edge_to symbols unc depth) ks)"
      unfolding next' using Cons by (cases ks) (auto simp: successively_Cons)
    then show ?case
      using c by (subst child_edges.simps) (simp add: index_def slice_def edge_to_def node_string_def drop_take)
  qed
qed

section \<open>All nodes\<close>

fun make_nodes :: "('a \<Rightarrow> 'b list) \<Rightarrow> ('a \<Rightarrow> nat \<Rightarrow> Node) \<Rightarrow> nat \<Rightarrow> 'a list \<Rightarrow> Node list" where
  "make_nodes E mk first [] = []"
| "make_nodes E mk first (x # xs) = mk x first # make_nodes E mk (first + length (E x)) xs"

lemma length_make_nodes [simp]: "length (make_nodes E mk first xs) = length xs"
  by (induction xs arbitrary: first) simp_all

lemma nth_make_nodes:
  "i < length xs \<Longrightarrow> make_nodes E mk first xs ! i = mk (xs ! i) (first + length (concat (map E (take i xs))))"
  by (induction xs arbitrary: first i) (auto simp: nth_Cons add.assoc split: nat.split)

lemma take_drop_concat:
  "i < length xs \<Longrightarrow> take (length (E (xs ! i))) (drop (length (concat (map E (take i xs)))) (concat (map E xs))) = E (xs ! i)"
  by (induction xs arbitrary: i) (auto simp: nth_Cons split: nat.split)

lemma in_concat_nth: "e \<in> set (concat (map E xs)) \<Longrightarrow> \<exists>i < length xs. e \<in> set (E (xs ! i))"
  by (auto simp: in_set_conv_nth [of _ xs])

lemma concat_prefix_le:
  "i < length xs \<Longrightarrow> length (concat (map E (take i xs))) + length (E (xs ! i)) \<le> length (concat (map E xs))"
  by (induction xs arbitrary: i) (auto simp: nth_Cons split: nat.split)

definition source_terminal :: "Symbol list \<Rightarrow> UncompressedNode \<Rightarrow> u64 option \<times> u64" where
  "source_terminal symbols source =
     (case un_symbol source of None \<Rightarrow> (None, 0) | Some i \<Rightarrow> (Some (sy_address (symbols ! i)), sy_flags (symbols ! i)))"

definition source_node :: "Symbol list \<Rightarrow> UncompressedNode \<Rightarrow> nat \<Rightarrow> Node" where
  "source_node symbols source first =
     \<lparr>nd_address = fst (source_terminal symbols source), nd_flags = snd (source_terminal symbols source), nd_first_edge = first,
      nd_num_edges = un_num_children source, nd_offset = 0, nd_size = 0\<rparr>"

definition source_edges :: "Symbol list \<Rightarrow> UncompressedNode list \<Rightarrow> UncompressedNode \<Rightarrow> Edge list" where
  "source_edges symbols unc source = the (child_edges symbols unc (un_depth source) (un_first_child source))"

lemma build_nodes_from_eq:
  assumes "\<And>s. s \<in> set sources \<Longrightarrow> child_edges symbols unc (un_depth s) (un_first_child s) \<noteq> None"
    and "\<And>s k. s \<in> set sources \<Longrightarrow> un_symbol s = Some k \<Longrightarrow> k < length symbols"
  shows "build_nodes_from symbols unc first sources =
    Some (make_nodes (source_edges symbols unc) (source_node symbols) first sources, concat (map (source_edges symbols unc) sources))"
  using assms
proof (induction sources arbitrary: first)
  case (Cons s sources)
  obtain es where es: "child_edges symbols unc (un_depth s) (un_first_child s) = Some es" using Cons.prems(1) by fastforce
  have "(case un_symbol s of None \<Rightarrow> Some (None, 0) | Some i \<Rightarrow> do { s \<leftarrow> index symbols i; Some (Some (sy_address s), sy_flags s) }) =
      Some (source_terminal symbols s)"
    using Cons.prems(2) [of s] by (auto simp: source_terminal_def index_def split: option.split)
  moreover have "source_edges symbols unc s = es" using es by (simp add: source_edges_def)
  moreover have "build_nodes_from symbols unc (first + length es) sources =
      Some (make_nodes (source_edges symbols unc) (source_node symbols) (first + length es) sources,
        concat (map (source_edges symbols unc) sources))"
    by (rule Cons.IH) (use Cons.prems in \<open>meson list.set_intros(2)\<close>)+
  ultimately show ?case using es by (simp add: source_node_def [of symbols s] split: prod.split)
qed simp

text \<open>The builder stands for the trie: the data of every node, and its edges in the order of its children.\<close>

definition builder_for :: "Symbol list \<Rightarrow> UncompressedNode list \<Rightarrow> (nat \<Rightarrow> nat list) \<Rightarrow> Builder \<Rightarrow> bool" where
  "builder_for symbols unc kids b \<longleftrightarrow>
     length (bd_nodes b) = length unc \<and> wf_builder (bd_nodes b) (bd_edges b) \<and> (\<forall>e \<in> set (bd_edges b). ed_child_offset_size e = 1) \<and>
     bd_edges b = concat (map (\<lambda>i. map (edge_to symbols unc (un_depth (unc ! i))) (kids i)) [0..<length unc]) \<and>
     (\<forall>i < length unc. nd_first_edge (bd_nodes b ! i) = sum_list (map (\<lambda>j. length (kids j)) [0..<i])) \<and>
     (\<forall>i < length unc. nd_address (bd_nodes b ! i) = fst (source_terminal symbols (unc ! i)) \<and>
        nd_flags (bd_nodes b ! i) = snd (source_terminal symbols (unc ! i)) \<and> nd_num_edges (bd_nodes b ! i) = length (kids i) \<and>
        node_edges (bd_edges b) (bd_nodes b ! i) = Some (map (edge_to symbols unc (un_depth (unc ! i))) (kids i)))"

lemma builder_forD:
  assumes "builder_for symbols unc kids b"
  shows "length (bd_nodes b) = length unc" "wf_builder (bd_nodes b) (bd_edges b)" "\<forall>e \<in> set (bd_edges b). ed_child_offset_size e = 1"
    "bd_edges b = concat (map (\<lambda>i. map (edge_to symbols unc (un_depth (unc ! i))) (kids i)) [0..<length unc])"
    "i < length unc \<Longrightarrow> nd_first_edge (bd_nodes b ! i) = sum_list (map (\<lambda>j. length (kids j)) [0..<i])"
    "i < length unc \<Longrightarrow> nd_address (bd_nodes b ! i) = fst (source_terminal symbols (unc ! i)) \<and>
       nd_flags (bd_nodes b ! i) = snd (source_terminal symbols (unc ! i)) \<and> nd_num_edges (bd_nodes b ! i) = length (kids i)"
    "i < length unc \<Longrightarrow>
       node_edges (bd_edges b) (bd_nodes b ! i) = Some (map (edge_to symbols unc (un_depth (unc ! i))) (kids i))"
  using assms unfolding builder_for_def by blast+

lemma build_nodes_ok:
  assumes inv: "trie_inv symbols (length symbols) unc kids"
  obtains b where "build_nodes_from_topology symbols unc = Some b" "builder_for symbols unc kids b"
proof -
  note I = trie_invD [OF inv]
  let ?E = "source_edges symbols unc"
  have ce: "child_edges symbols unc (un_depth (unc ! i)) (un_first_child (unc ! i)) = Some (map (edge_to symbols unc (un_depth (unc ! i))) (kids i))"
    if i: "i < length unc" for i
  proof -
    have l: "node_links unc (kids i) (unc ! i)" using linksD [OF I(1) i] .
    have "un_depth (unc ! i) \<le> un_depth (unc ! c) \<and> c < length unc \<and> node_ok symbols (unc ! c)" if "c \<in> set (kids i)" for c
      using trie_shapeD(1,2) [OF I(4) i that] I(3) i length_node_string by (metis less_imp_le_nat)
    then show ?thesis
      using child_edges_chain [of unc "kids i" symbols "un_depth (unc ! i)"] l by (simp add: node_links_def siblings_def)
  qed
  have E: "?E (unc ! i) = map (edge_to symbols unc (un_depth (unc ! i))) (kids i)" if "i < length unc" for i
    using ce [OF that] by (simp add: source_edges_def)
  have num: "un_num_children (unc ! i) = length (kids i)" if "i < length unc" for i
    using linksD [OF I(1) that] by (simp add: node_links_def)
  have take_unc: "map f (take i unc) = map (\<lambda>j. f (unc ! j)) [0..<i]" if "i \<le> length unc" for f :: "UncompressedNode \<Rightarrow> 'x" and i
    using that by (intro nth_equalityI) auto
  have edges: "map ?E unc = map (\<lambda>i. map (edge_to symbols unc (un_depth (unc ! i))) (kids i)) [0..<length unc]"
    using take_unc [of "length unc" ?E] E by simp
  let ?b = "\<lparr>bd_nodes = make_nodes ?E (source_node symbols) 0 unc, bd_edges = concat (map ?E unc)\<rparr>"
  have "build_nodes_from symbols unc 0 unc = Some (bd_nodes ?b, bd_edges ?b)"
    using ce I(5) by (subst build_nodes_from_eq) (auto simp: in_set_conv_nth symbols_placed_def)
  then have "build_nodes_from_topology symbols unc = Some ?b" by (simp add: build_nodes_from_topology_def)
  moreover have "builder_for symbols unc kids ?b"
    unfolding builder_for_def
  proof (intro conjI allI impI)
    show "wf_builder (bd_nodes ?b) (bd_edges ?b)"
      unfolding wf_builder_def
    proof (intro conjI ballI)
      fix n assume "n \<in> set (bd_nodes ?b)"
      then obtain i where "i < length unc" "n = bd_nodes ?b ! i" by (auto simp: in_set_conv_nth)
      then show "nd_first_edge n + nd_num_edges n \<le> length (bd_edges ?b)"
        using concat_prefix_le [of i unc ?E] E num by (simp add: nth_make_nodes source_node_def)
    next
      fix e assume "e \<in> set (bd_edges ?b)"
      then obtain i where i: "i < length unc" "e \<in> set (?E (unc ! i))" using in_concat_nth [of e ?E unc] by auto
      then obtain c where "c \<in> set (kids i)" "e = edge_to symbols unc (un_depth (unc ! i)) c" using E by auto
      then show "ed_child e < length (bd_nodes ?b)" using trie_shapeD(1) [OF I(4) i(1)] by (simp add: edge_to_def)
    qed
  next
    fix i assume i: "i < length unc"
    then show "node_edges (bd_edges ?b) (bd_nodes ?b ! i) = Some (map (edge_to symbols unc (un_depth (unc ! i))) (kids i))"
      using take_drop_concat [of i unc ?E] concat_prefix_le [of i unc ?E] E [OF i] num [OF i]
      by (simp add: nth_make_nodes source_node_def node_edges_def slice_def)
  next
    show "\<forall>e \<in> set (bd_edges ?b). ed_child_offset_size e = 1"
    proof
      fix e assume "e \<in> set (bd_edges ?b)"
      then obtain i where i: "i < length unc" "e \<in> set (?E (unc ! i))" using in_concat_nth [of e ?E unc] by auto
      then show "ed_child_offset_size e = 1" using E by (auto simp: edge_to_def)
    qed
  next
    fix i assume i: "i < length unc"
    have "length (concat (map ?E (take i unc))) = sum_list (map (\<lambda>j. length (?E (unc ! j))) [0..<i])"
      using i take_unc [of i ?E] by (simp add: length_concat comp_def)
    also have "\<dots> = sum_list (map (\<lambda>j. length (kids j)) [0..<i])"
      using i E by (intro arg_cong [where f = sum_list] map_cong) simp_all
    finally show "nd_first_edge (bd_nodes ?b ! i) = sum_list (map (\<lambda>j. length (kids j)) [0..<i])"
      using i by (simp add: nth_make_nodes source_node_def)
  qed (use num edges in \<open>simp_all add: nth_make_nodes source_node_def\<close>)
  ultimately show thesis using that by blast
qed


section \<open>Bounds\<close>

definition c_strings :: "Symbol list \<Rightarrow> bool" where
  "c_strings symbols \<longleftrightarrow> (\<forall>s \<in> set symbols. 0 \<notin> set (sy_name s))"

text \<open>The first bytes of the labels of a node differ and are not zero.\<close>

lemma kids_le_255:
  assumes "trie_inv symbols k unc kids" "c_strings symbols" "i < length unc"
  shows "length (kids i) \<le> 255"
proof -
  let ?S = "\<lambda>i. node_string symbols (unc ! i)" and ?f = "\<lambda>c. node_string symbols (unc ! c) ! length (node_string symbols (unc ! i))"
  note I = trie_invD [OF assms(1)]
  have "sorted_wrt (<) (map ?f (kids i))"
    using trie_shapeD(4) [OF I(4) assms(3)] by (simp add: kid_order_def sorted_wrt_map)
  then have d: "distinct (map ?f (kids i))" by (simp add: strict_sorted_iff)
  have "?f c \<noteq> 0" if c: "c \<in> set (kids i)" for c
  proof -
    have "c < length unc" "length (?S i) < length (?S c)" using trie_shapeD(1,2) [OF I(4) assms(3) c] by simp_all
    then have "?f c \<in> set (?S c)" "node_ok symbols (unc ! c)" using I(3) nth_mem by blast+
    then have "?f c \<in> set (sy_name (symbols ! un_representative (unc ! c)))" "un_representative (unc ! c) < length symbols"
      by (auto simp: node_string_def node_ok_def dest: in_set_takeD)
    then show ?thesis using assms(2) by (auto simp: c_strings_def)
  qed
  then have "set (map ?f (kids i)) \<subseteq> UNIV - {0}" by auto
  then have "card (set (map ?f (kids i))) \<le> card (UNIV - {0 :: u8})" by (intro card_mono) auto
  also have "card (UNIV - {0 :: u8}) = 255" by (subst card_Diff_singleton) (simp_all add: card_word)
  finally show ?thesis using distinct_card [OF d] by simp
qed

definition names_le :: "nat \<Rightarrow> Symbol list \<Rightarrow> bool" where
  "names_le L symbols \<longleftrightarrow> (\<forall>s \<in> set symbols. length (sy_name s) \<le> L)"

text \<open>The trie has less than \<open>2^64\<close> bytes.\<close>

definition fits :: "nat \<Rightarrow> Symbol list \<Rightarrow> bool" where
  "fits L symbols \<longleftrightarrow> names_le L symbols \<and> (2 * length symbols + 1) * (31 + 255 * (L + 11)) < 2 ^ 64"

lemma node_edges_take: "node_edges edges n = Some es \<Longrightarrow> take (nd_num_edges n) (drop (nd_first_edge n) edges) = es"
  by (auto simp: node_edges_def slice_def split: if_splits)

lemma edge_label_le:
  assumes "trie_inv symbols k unc kids" "names_le L symbols" "i < length unc" "c \<in> set (kids i)"
  shows "length (ed_label (edge_to symbols unc d c)) \<le> L"
proof -
  note I = trie_invD [OF assms(1)]
  have "c < length unc" using trie_shapeD(1) [OF I(4) assms(3,4)] .
  then have "node_ok symbols (unc ! c)" using I(3) by blast
  then have "length (sy_name (symbols ! un_representative (unc ! c))) \<le> L"
    using assms(2) nth_mem unfolding names_le_def node_ok_def by blast
  then show ?thesis by (simp add: edge_to_def node_string_def)
qed

context leb_len
begin

lemma worst_bound:
  assumes inv: "trie_inv symbols (length symbols) unc kids" and b: "builder_for symbols unc kids b" and "c_strings symbols" "names_le L symbols"
  shows "offset_of ulen (worst (bd_edges b)) (bd_nodes b) j \<le> length unc * (31 + 255 * (L + 11))"
proof -
  let ?M = "31 + 255 * (L + 11)"
  have node: "node_len ulen (worst (bd_edges b)) n \<le> ?M" if n: "n \<in> set (bd_nodes b)" for n
  proof -
    obtain i where i: "i < length unc" "n = bd_nodes b ! i" using n b by (auto simp: in_set_conv_nth builder_for_def)
    let ?es = "map (edge_to symbols unc (un_depth (unc ! i))) (kids i)"
    have "take (nd_num_edges n) (drop (nd_first_edge n) (bd_edges b)) = ?es"
      using node_edges_take [OF builder_forD(7) [OF b i(1)]] i(2) by simp
    then have w: "take (nd_num_edges n) (drop (nd_first_edge n) (worst (bd_edges b))) = map (\<lambda>e. e\<lparr>ed_child_offset_size := 10\<rparr>) ?es"
      by (simp add: worst_def take_map drop_map)
    have "sum_list (map (\<lambda>e. length (ed_label e) + 1 + ed_child_offset_size e) (map (\<lambda>e. e\<lparr>ed_child_offset_size := 10\<rparr>) ?es)) \<le>
        length (kids i) * (L + 11)"
      using edge_label_le [OF inv assms(4) i(1)] sum_list_mono [of "kids i" "\<lambda>c. 11 + length (ed_label (edge_to symbols unc (un_depth (unc ! i)) c))" "\<lambda>_. L + 11"]
      by (simp add: comp_def sum_list_triv add.assoc)
    also have "length (kids i) * (L + 11) \<le> 255 * (L + 11)" using kids_le_255 [OF inv assms(3) i(1)] by (rule mult_right_mono) simp
    finally show ?thesis
      using terminal_max [of n] ulen_max [of "of_nat (terminal_size ulen n)"] unfolding node_len_def w by linarith
  qed
  have "offset_of ulen (worst (bd_edges b)) (bd_nodes b) j \<le> length (take j (bd_nodes b)) * ?M"
    unfolding offset_of_def using node set_take_subset [of j "bd_nodes b"] sum_list_mono [of "take j (bd_nodes b)" _ "\<lambda>_. ?M"]
    by (auto simp: sum_list_triv subset_iff)
  also have "\<dots> \<le> length unc * ?M" using b by (intro mult_right_mono) (simp_all add: builder_for_def)
  finally show ?thesis .
qed

text \<open>A layout that is stable, for the same trie.\<close>

definition laid_out :: "Symbol list \<Rightarrow> UncompressedNode list \<Rightarrow> (nat \<Rightarrow> nat list) \<Rightarrow> Builder \<Rightarrow> bool" where
  "laid_out symbols unc kids b \<longleftrightarrow>
     length (bd_nodes b) = length unc \<and>
     (\<forall>i < length unc. nd_address (bd_nodes b ! i) = fst (source_terminal symbols (unc ! i)) \<and>
        nd_flags (bd_nodes b ! i) = snd (source_terminal symbols (unc ! i)) \<and> nd_num_edges (bd_nodes b ! i) = length (kids i) \<and>
        nd_offset (bd_nodes b ! i) = offset_of ulen (bd_edges b) (bd_nodes b) i \<and>
        nd_size (bd_nodes b ! i) = node_len ulen (bd_edges b) (bd_nodes b ! i) \<and>
        node_edges (bd_edges b) (bd_nodes b ! i) =
          Some (map (\<lambda>c. (edge_to symbols unc (un_depth (unc ! i)) c)
            \<lparr>ed_child_offset_size := ulen (of_nat (nd_offset (bd_nodes b ! c)))\<rparr>) (kids i)))"

lemma placed_laid_out:
  assumes b: "builder_for symbols unc kids b" and t: "trie_inv symbols k unc kids"
    and e: "resized ulen (bd_nodes b) edges' = edges'" "edges_le (bd_edges b) edges'"
  shows "laid_out symbols unc kids \<lparr>bd_nodes = placed ulen edges' 0 (bd_nodes b), bd_edges = edges'\<rparr>"
  unfolding laid_out_def
proof (intro conjI allI impI)
  let ?n = "placed ulen edges' 0 (bd_nodes b)" and ?b = "\<lparr>bd_nodes = placed ulen edges' 0 (bd_nodes b), bd_edges = edges'\<rparr>"
  note I = trie_invD [OF t]
  have len: "length (bd_nodes b) = length unc" using b by (simp add: builder_for_def)
  have off: "offset_of ulen edges' ?n = offset_of ulen edges' (bd_nodes b)" by (rule offset_of_cong) simp
  show "length (bd_nodes ?b) = length unc" using len by simp
  fix i assume i: "i < length unc"
  have n: "?n ! i = (bd_nodes b ! i)\<lparr>nd_offset := offset_of ulen edges' (bd_nodes b) i, nd_size := node_len ulen edges' (bd_nodes b ! i)\<rparr>"
    if "i < length unc" for i
    using that len by (simp add: placed_def)
  show "nd_offset (bd_nodes ?b ! i) = offset_of ulen (bd_edges ?b) (bd_nodes ?b) i" using n [OF i] off by simp
  have "node_len ulen edges' (?n ! i) = node_len ulen edges' (bd_nodes b ! i)"
    using node_len_core [of ulen edges' "?n ! i"] node_len_core [of ulen edges' "bd_nodes b ! i"] n [OF i] by (simp add: core_def)
  then show "nd_size (bd_nodes ?b ! i) = node_len ulen (bd_edges ?b) (bd_nodes ?b ! i)" using n [OF i] by simp
  let ?es = "map (edge_to symbols unc (un_depth (unc ! i))) (kids i)" and ?f = "nd_first_edge (bd_nodes b ! i)"
  have ne: "nd_num_edges (bd_nodes b ! i) = length (kids i)" "node_edges (bd_edges b) (bd_nodes b ! i) = Some ?es"
    using builder_forD(6,7) [OF b i] by simp_all
  have el: "length edges' = length (bd_edges b)" using e(2) list_all2_lengthD by (fastforce simp: edges_le_def)
  have room: "?f + length (kids i) \<le> length (bd_edges b)" using ne by (auto simp: node_edges_def slice_def split: if_splits)
  have "take (length (kids i)) (drop ?f edges') =
      map (\<lambda>c. (edge_to symbols unc (un_depth (unc ! i)) c)\<lparr>ed_child_offset_size := ulen (of_nat (nd_offset (?n ! c)))\<rparr>) (kids i)"
  proof (rule nth_equalityI)
    fix j assume "j < length (take (length (kids i)) (drop ?f edges'))"
    then have j: "j < length (kids i)" "?f + j < length edges'" by auto
    let ?e = "edges' ! (?f + j)"
    have "?es ! j = bd_edges b ! (?f + j)"
      using node_edges_take [OF ne(2)] ne(1) j room by (metis add_leD1 nth_drop nth_take)
    then have same: "ed_label ?e = ed_label (?es ! j)" "ed_child ?e = ed_child (?es ! j)"
      using e(2) j el by (auto simp: edges_le_def list_all2_conv_all_nth)
    have "?e = (resized ulen (bd_nodes b) edges') ! (?f + j)" using e(1) by simp
    then have sz: "ed_child_offset_size ?e = ulen (of_nat (offset_of ulen edges' (bd_nodes b) (ed_child ?e)))"
      using j by (simp add: resized_def) (metis Edge.select_convs(3) Edge.surjective Edge.update_convs(3))
    have "kids i ! j < length unc" using trie_shapeD(1) [OF I(4) i] j by simp
    then have "nd_offset (?n ! (kids i ! j)) = offset_of ulen edges' (bd_nodes b) (kids i ! j)" using n by simp
    then have "?e = (edge_to symbols unc (un_depth (unc ! i)) (kids i ! j))
        \<lparr>ed_child_offset_size := ulen (of_nat (nd_offset (?n ! (kids i ! j))))\<rparr>"
      using same sz j by (cases ?e) (simp add: edge_to_def)
    then show "take (length (kids i)) (drop ?f edges') ! j =
        map (\<lambda>c. (edge_to symbols unc (un_depth (unc ! i)) c)\<lparr>ed_child_offset_size := ulen (of_nat (nd_offset (?n ! c)))\<rparr>) (kids i) ! j"
      using j by simp
  qed (use room el in simp)
  then show "node_edges (bd_edges ?b) (bd_nodes ?b ! i) =
      Some (map (\<lambda>c. (edge_to symbols unc (un_depth (unc ! i)) c)\<lparr>ed_child_offset_size := ulen (of_nat (nd_offset (bd_nodes ?b ! c)))\<rparr>) (kids i))"
    using n [OF i] ne(1) room el by (simp add: node_edges_def slice_def)
qed (use builder_forD(1,6) [OF b] in \<open>simp_all add: placed_def\<close>)

lemma encoded_size_offset:
  assumes "laid_out symbols unc kids b"
  shows "encoded_size b = offset_of ulen (bd_edges b) (bd_nodes b) (length unc)"
proof (cases "bd_nodes b = []")
  case True
  then show ?thesis by (simp add: encoded_size_def offset_of_def)
next
  case False
  have len: "length (bd_nodes b) = length unc" using assms by (simp add: laid_out_def)
  then obtain m where m: "length unc = Suc m" using False by (cases "length unc") auto
  then have "last (bd_nodes b) = bd_nodes b ! m" using False len by (simp add: last_conv_nth)
  moreover have "offset_of ulen (bd_edges b) (bd_nodes b) (length unc) =
      offset_of ulen (bd_edges b) (bd_nodes b) m + node_len ulen (bd_edges b) (bd_nodes b ! m)"
    using len m unfolding m offset_of_def by (subst take_Suc_conv_app_nth) simp_all
  ultimately show ?thesis using assms m False by (simp add: laid_out_def encoded_size_def)
qed

lemma offset_of_le: "offset_of ulen E N i \<le> offset_of ulen E N (length N)"
proof -
  have "sum_list (map (node_len ulen E) N) = sum_list (map (node_len ulen E) (take i N)) + sum_list (map (node_len ulen E) (drop i N))"
    by (metis append_take_drop_id map_append sum_list_append)
  then show ?thesis by (simp add: offset_of_def)
qed

section \<open>The layout of a trie\<close>

text \<open>The layout ends below the layout of any builder for the same trie with terminals at least as large.\<close>

definition least_layout :: "Builder \<Rightarrow> Builder \<Rightarrow> bool" where
  "least_layout b b' \<longleftrightarrow>
     (\<forall>N E. nodes_le ulen (bd_nodes b) N \<longrightarrow> edges_le (bd_edges b) E \<longrightarrow> resized ulen N E = E \<longrightarrow>
       (\<forall>i. offset_of ulen E N i < 2 ^ 64) \<longrightarrow> edges_le (bd_edges b') E)"

lemma layout_trie:
  assumes inv: "trie_inv symbols (length symbols) unc kids" "length unc \<le> 2 * length symbols + 1"
    and b: "builder_for symbols unc kids b" and c: "c_strings symbols" "fits L symbols"
  obtains b' where "layout_until_stable ulen b = Some b'" "laid_out symbols unc kids b'" "encoded_size b' < 2 ^ 64"
    "resized ulen (bd_nodes b) (bd_edges b') = bd_edges b'" "edges_le (bd_edges b) (bd_edges b')" "map core (bd_nodes b') = map core (bd_nodes b)"
    "least_layout b b'"
proof -
  note B = builder_forD [OF b]
  have start: "edges_le (bd_edges b) (resized ulen (bd_nodes b) (bd_edges b))" using B(3) by (rule start_below)
  have "length unc * (31 + 255 * (L + 11)) \<le> (2 * length symbols + 1) * (31 + 255 * (L + 11))" using inv(2) by (rule mult_le_mono1)
  moreover have "\<And>j. offset_of ulen (worst (bd_edges b)) (bd_nodes b) j \<le> length unc * (31 + 255 * (L + 11))"
    using worst_bound [OF inv(1) b c(1)] c(2) by (simp add: fits_def)
  moreover have "(2 * length symbols + 1) * (31 + 255 * (L + 11)) < 2 ^ 64" using c(2) by (simp add: fits_def)
  ultimately have small: "offset_of ulen (worst (bd_edges b)) (bd_nodes b) j < 2 ^ 64" for j by (meson le_less_trans)
  have le10: "\<forall>e \<in> set (bd_edges b). ed_child_offset_size e \<le> 10" using B(3) by simp
  obtain edges' where e: "layout_until_stable ulen \<lparr>bd_nodes = bd_nodes b, bd_edges = bd_edges b\<rparr> =
      Some \<lparr>bd_nodes = placed ulen edges' 0 (bd_nodes b), bd_edges = edges'\<rparr>"
    "resized ulen (bd_nodes b) edges' = edges'" "edges_le (bd_edges b) edges'" "edges_le edges' (worst (bd_edges b))"
    using layout_least [OF B(2) start worst_above(1) [OF le10] nodes_le_refl worst_above(2) small] by blast
  let ?b = "\<lparr>bd_nodes = placed ulen edges' 0 (bd_nodes b), bd_edges = edges'\<rparr>"
  have lo: "laid_out symbols unc kids ?b" by (rule placed_laid_out [OF b inv(1) e(2,3)])
  have "offset_of ulen edges' (placed ulen edges' 0 (bd_nodes b)) = offset_of ulen edges' (bd_nodes b)" by (rule offset_of_cong) simp
  then have "encoded_size ?b < 2 ^ 64"
    using encoded_size_offset [OF lo] offset_mono [OF e(4) nodes_le_refl, of "bd_nodes b" "length unc"] small [of "length unc"] by simp
  moreover have "edges_le edges' E"
    if "nodes_le ulen (bd_nodes b) N" "edges_le (bd_edges b) E" "resized ulen N E = E" "\<And>i. offset_of ulen E N i < 2 ^ 64" for N E
    using layout_least [OF B(2) start that(2,1) _ that(4)] that(3) e(1) by auto
  moreover have "layout_until_stable ulen b = Some ?b" using e(1) by (cases b) simp
  ultimately show thesis using that [of ?b] lo e(2,3) by (simp add: least_layout_def)
qed

end

section \<open>Reserving space\<close>

text \<open>The symbols from which the size of the section is computed, before addresses are known.\<close>

definition reserved_exports :: "bytes list \<Rightarrow> Symbol list" where
  "reserved_exports names = map (\<lambda>n. \<lparr>sy_name = n, sy_address = - 1, sy_flags = 0\<rparr>) names"

lemma topology_from_names:
  "map sy_name xs = map sy_name ys \<Longrightarrow> topology_from k xs st = topology_from k ys st"
proof (induction xs arbitrary: k ys st)
  case (Cons x xs)
  then obtain y ys' where "ys = y # ys'" by (cases ys) auto
  with Cons show ?case by (cases "topology_step k (sy_name x) st") auto
qed simp

lemma topology_new_names: "map sy_name xs = map sy_name ys \<Longrightarrow> topology_new xs = topology_new ys"
  unfolding topology_new_def by (simp only: topology_from_names [of xs ys])

lemma same_names:
  assumes "map sy_name xs = map sy_name ys"
  shows "length xs = length ys" "i < length xs \<Longrightarrow> sy_name (xs ! i) = sy_name (ys ! i)" "sorted_names xs = sorted_names ys"
    "c_strings xs = c_strings ys" "names_le L xs = names_le L ys"
proof -
  show len: "length xs = length ys" using assms map_eq_imp_length_eq by blast
  show "sy_name (xs ! i) = sy_name (ys ! i)" if "i < length xs"
    using nth_map [OF that, of sy_name] nth_map [of i ys sy_name] that len unfolding assms by simp
  have "sorted_names zs = sorted_wrt ord_class.lexordp (map sy_name zs)" for zs by (simp only: sorted_names_def sorted_wrt_map)
  then show "sorted_names xs = sorted_names ys" by (simp only: assms)
  have "c_strings zs = (\<forall>n \<in> set (map sy_name zs). 0 \<notin> set n)" for zs by (simp add: c_strings_def)
  then show "c_strings xs = c_strings ys" by (simp only: assms)
  have "names_le L zs = (\<forall>n \<in> set (map sy_name zs). length n \<le> L)" for zs by (simp add: names_le_def)
  then show "names_le L xs = names_le L ys" by (simp only: assms)
qed

end
