(* ===== verification/Export_Find.thy ===== *)
theory Export_Find
  imports Export_Build
begin

text \<open>
  The encoded exports trie as a loader reads it. \<open>trie_find\<close> walks the trie of the Mach-O format; it finds
  the exported symbols, with their addresses and flags, and no other name.
\<close>

section \<open>A reader\<close>

text \<open>The first edge of a node whose label starts the rest \<open>w\<close> of the name.\<close>

fun match_edges :: "(bytes \<Rightarrow> (u64 \<times> bytes) option) \<Rightarrow> nat \<Rightarrow> bytes \<Rightarrow> bytes \<Rightarrow> (nat \<times> bytes) option" where
  "match_edges unleb 0 w bs = None"
| "match_edges unleb (Suc n) w bs =
     (let label = takeWhile (\<lambda>b. b \<noteq> 0) bs
      in case unleb (drop (length label + 1) bs) of
           None \<Rightarrow> None
         | Some (child, bs') \<Rightarrow>
             if take (length label) w = label then Some (unat child, drop (length label) w) else match_edges unleb n w bs')"

definition read_terminal :: "(bytes \<Rightarrow> (u64 \<times> bytes) option) \<Rightarrow> bytes \<Rightarrow> (u64 \<times> u64) option" where
  "read_terminal unleb bs =
     do { (flags, bs) \<leftarrow> unleb bs; (address, _) \<leftarrow> unleb bs; Some (flags, address) }"

definition read_edge :: "(bytes \<Rightarrow> (u64 \<times> bytes) option) \<Rightarrow> bytes \<Rightarrow> bytes \<Rightarrow> (nat \<times> bytes) option" where
  "read_edge unleb w bs = (case bs of [] \<Rightarrow> None | n # bs \<Rightarrow> match_edges unleb (unat n) w bs)"

function trie_find :: "(bytes \<Rightarrow> (u64 \<times> bytes) option) \<Rightarrow> bytes \<Rightarrow> nat \<Rightarrow> bytes \<Rightarrow> (u64 \<times> u64) option" where
  "trie_find unleb trie offset w =
     (case unleb (drop offset trie) of
        None \<Rightarrow> None
      | Some (n, bs) \<Rightarrow>
          if w = [] then if n = 0 then None else read_terminal unleb bs
          else case read_edge unleb w (drop (unat n) bs) of
                 None \<Rightarrow> None
               | Some (child, w') \<Rightarrow> if length w' < length w then trie_find unleb trie child w' else None)"
  by pat_completeness auto
termination by (relation "measure (\<lambda>(unleb, trie, offset, w). length w)") auto

declare trie_find.simps [simp del]

section \<open>The encoding\<close>

locale leb128 = leb_len +
  fixes uleb :: "u64 \<Rightarrow> bytes" and unleb :: "bytes \<Rightarrow> (u64 \<times> bytes) option"
  assumes length_uleb: "length (uleb v) = ulen v"
    and unleb_uleb: "unleb (uleb v @ bs) = Some (v, bs)"
begin

definition terminal_bytes :: "u64 option \<times> u64 \<Rightarrow> bytes" where
  "terminal_bytes t = (case t of (None, _) \<Rightarrow> uleb 0 | (Some a, f) \<Rightarrow> uleb (of_nat (ulen f + ulen a)) @ uleb f @ uleb a)"

definition edge_bytes :: "bytes \<Rightarrow> nat \<Rightarrow> bytes" where
  "edge_bytes label off = label @ [0] @ uleb (of_nat off)"

definition child_label :: "Symbol list \<Rightarrow> UncompressedNode list \<Rightarrow> nat \<Rightarrow> nat \<Rightarrow> bytes" where
  "child_label symbols unc i c = drop (un_depth (unc ! i)) (node_string symbols (unc ! c))"

definition node_bytes :: "Symbol list \<Rightarrow> UncompressedNode list \<Rightarrow> (nat \<Rightarrow> nat list) \<Rightarrow> (nat \<Rightarrow> nat) \<Rightarrow> nat \<Rightarrow> bytes" where
  "node_bytes symbols unc kids off i =
     terminal_bytes (source_terminal symbols (unc ! i)) @ [of_nat (length (kids i))] @
     concat (map (\<lambda>c. edge_bytes (child_label symbols unc i c) (off c)) (kids i))"

lemma encode_edges_eq:
  assumes "\<forall>e \<in> set es. ed_child e < length nodes"
  shows "encode_edges uleb nodes es = Some (concat (map (\<lambda>e. edge_bytes (ed_label e) (nd_offset (nodes ! ed_child e))) es))"
  using assms by (induction es) (auto simp: index_def edge_bytes_def)

lemma encode_node_eq:
  assumes "laid_out symbols unc kids b" "i < length unc" "set (kids i) \<subseteq> {..<length unc}"
  shows "encode_node uleb ulen b (bd_nodes b ! i) = Some (node_bytes symbols unc kids (\<lambda>c. nd_offset (bd_nodes b ! c)) i)"
    "length (node_bytes symbols unc kids (\<lambda>c. nd_offset (bd_nodes b ! c)) i) = nd_size (bd_nodes b ! i)"
proof -
  let ?n = "bd_nodes b ! i" and ?off = "\<lambda>c. nd_offset (bd_nodes b ! c)"
  let ?es = "map (\<lambda>c. (edge_to symbols unc (un_depth (unc ! i)) c)\<lparr>ed_child_offset_size := ulen (of_nat (?off c))\<rparr>) (kids i)"
  have L: "length (bd_nodes b) = length unc" "(nd_address ?n, nd_flags ?n) = source_terminal symbols (unc ! i)"
    "nd_num_edges ?n = length (kids i)" "nd_size ?n = node_len ulen (bd_edges b) ?n" "node_edges (bd_edges b) ?n = Some ?es"
    using assms(1,2) by (simp_all add: laid_out_def)
  have t: "(case nd_address ?n of Some address \<Rightarrow> uleb (of_nat (regular_export_size ulen (nd_flags ?n) address)) @
        write_regular_export uleb (nd_flags ?n) address | None \<Rightarrow> uleb 0) = terminal_bytes (source_terminal symbols (unc ! i))"
    unfolding L(2) [symmetric]
    by (simp add: terminal_bytes_def regular_export_size_def write_regular_export_def split: option.split)
  have "\<forall>e \<in> set ?es. ed_child e < length (bd_nodes b)" using assms(3) L(1) by (auto simp: edge_to_def)
  from encode_edges_eq [OF this]
  have "encode_edges uleb (bd_nodes b) ?es = Some (concat (map (\<lambda>c. edge_bytes (child_label symbols unc i c) (?off c)) (kids i)))"
    by (simp add: comp_def edge_to_def child_label_def)
  then show "encode_node uleb ulen b ?n = Some (node_bytes symbols unc kids ?off i)"
    unfolding encode_node_def Let_def t by (simp add: L(3,5) node_bytes_def)
  have ts: "length (terminal_bytes (source_terminal symbols (unc ! i))) = ulen (of_nat (terminal_size ulen ?n)) + terminal_size ulen ?n"
    unfolding L(2) [symmetric]
    by (simp add: terminal_bytes_def terminal_size_def regular_export_size_def length_uleb split: option.split)
  show "length (node_bytes symbols unc kids ?off i) = nd_size ?n"
    unfolding L(4) node_len_def node_edges_take [OF L(5)]
    by (simp add: node_bytes_def ts length_concat comp_def edge_bytes_def child_label_def edge_to_def length_uleb)
qed

lemma encode_nodes_eq:
  assumes "\<And>n. n \<in> set nodes \<Longrightarrow> encode_node uleb ulen b n = Some (f n)"
  shows "encode_nodes uleb ulen b nodes = Some (concat (map f nodes))"
  using assms by (induction nodes) auto

text \<open>The bytes of a node are at its offset.\<close>

lemma encode_eq:
  assumes b: "laid_out symbols unc kids b" and kids: "\<And>i. i < length unc \<Longrightarrow> set (kids i) \<subseteq> {..<length unc}"
  shows "\<exists>out. encode uleb ulen b = Some out \<and> length out = encoded_size b \<and>
    (\<forall>i < length unc.
       \<exists>rest. drop (nd_offset (bd_nodes b ! i)) out = node_bytes symbols unc kids (\<lambda>c. nd_offset (bd_nodes b ! c)) i @ rest)"
proof -
  let ?nb = "node_bytes symbols unc kids (\<lambda>c. nd_offset (bd_nodes b ! c))" and ?N = "length unc"
  let ?out = "concat (map ?nb [0..<?N])"
  have len: "length (bd_nodes b) = ?N" using b by (simp add: laid_out_def)
  have "encode_nodes uleb ulen b (map ((!) (bd_nodes b)) ks) = Some (concat (map ?nb ks))" if "set ks \<subseteq> {..<?N}" for ks
    using that by (induction ks) (auto simp: encode_node_eq(1) [OF b _ kids])
  from this [of "[0..<?N]"] have "encode uleb ulen b = Some ?out"
    using len map_nth [of "bd_nodes b"] by (simp add: encode_def subset_iff)
  moreover have off: "nd_offset (bd_nodes b ! i) = length (concat (map ?nb [0..<i]))" if i: "i < ?N" for i
  proof -
    have "offset_of ulen (bd_edges b) (bd_nodes b) i = sum_list (map (\<lambda>j. node_len ulen (bd_edges b) (bd_nodes b ! j)) [0..<i])"
      using i len unfolding offset_of_def by (intro arg_cong [where f = sum_list] nth_equalityI) auto
    also have "\<dots> = sum_list (map (\<lambda>j. length (?nb j)) [0..<i])"
      using i encode_node_eq(2) [OF b _ kids] b by (intro arg_cong [where f = sum_list] map_cong) (auto simp: laid_out_def)
    finally show ?thesis using b i by (simp add: laid_out_def length_concat comp_def)
  qed
  moreover have "\<exists>rest. drop (nd_offset (bd_nodes b ! i)) ?out = ?nb i @ rest" if i: "i < ?N" for i
  proof -
    have "[0..<?N] = [0..<i] @ i # [Suc i..<?N]"
      using i upt_add_eq_append [of 0 i "?N - i"] by (simp add: upt_conv_Cons)
    then have "?out = concat (map ?nb [0..<i]) @ ?nb i @ concat (map ?nb [Suc i..<?N])" by simp
    then show ?thesis unfolding off [OF i] by simp
  qed
  moreover have "length ?out = encoded_size b"
  proof (cases "?N = 0")
    case True
    then show ?thesis using len by (simp add: encoded_size_def)
  next
    case False
    then have "last (bd_nodes b) = bd_nodes b ! (?N - 1)" using len by (metis last_conv_nth length_0_conv)
    moreover have "[0..<?N] = [0..<?N - 1] @ [?N - 1]" using False by (metis Suc_pred' neq0_conv upt_Suc_append zero_le)
    then have "length ?out = length (concat (map ?nb [0..<?N - 1])) + length (?nb (?N - 1))" by simp
    ultimately show ?thesis
      using False len off [of "?N - 1"] encode_node_eq(2) [OF b _ kids, of "?N - 1"] by (auto simp: encoded_size_def)
  qed
  ultimately show ?thesis by blast
qed

section \<open>Walking it\<close>

lemma match_edges_eq:
  assumes "\<And>c. c \<in> set ks \<Longrightarrow> 0 \<notin> set (lab c) \<and> off c < 2 ^ 64"
  shows "match_edges unleb (length ks) w (concat (map (\<lambda>c. edge_bytes (lab c) (off c)) ks) @ rest) =
    map_option (\<lambda>c. (off c, drop (length (lab c)) w)) (find (\<lambda>c. take (length (lab c)) w = lab c) ks)"
  using assms
proof (induction ks)
  case (Cons c ks)
  have c: "0 \<notin> set (lab c)" "unat (of_nat (off c) :: u64) = off c" using Cons.prems [of c] by (simp_all add: unat_of_nat)
  have "\<forall>b \<in> set (lab c). b \<noteq> 0" using c(1) by metis
  then have "takeWhile (\<lambda>b. b \<noteq> 0) (lab c @ 0 # bs) = lab c" for bs by (simp add: takeWhile_append2)
  then show ?case using Cons c by (simp add: edge_bytes_def unleb_uleb Let_def)
qed simp

definition symbol_data :: "Symbol list \<Rightarrow> UncompressedNode \<Rightarrow> (u64 \<times> u64) option" where
  "symbol_data symbols n = map_option (\<lambda>k. (sy_flags (symbols ! k), sy_address (symbols ! k))) (un_symbol n)"

lemma find_unique:
  assumes "c \<in> set xs" "P c" "\<forall>x \<in> set xs. P x \<longrightarrow> x = c"
  shows "find P xs = Some c"
proof (cases "find P xs")
  case None
  then show ?thesis using assms(1,2) by (simp add: find_None_iff)
next
  case (Some y)
  then have "P y \<and> y \<in> set xs" by (auto simp: find_Some_iff)
  then show ?thesis using assms(3) Some by blast
qed

lemma child_label_string:
  assumes "trie_inv symbols k unc kids" "i < length unc" "c \<in> set (kids i)"
  shows "node_string symbols (unc ! c) = node_string symbols (unc ! i) @ child_label symbols unc i c" "child_label symbols unc i c \<noteq> []"
    "hd (child_label symbols unc i c) = node_string symbols (unc ! c) ! length (node_string symbols (unc ! i))" "c < length unc"
proof -
  note I = trie_invD [OF assms(1)]
  have len: "length (node_string symbols (unc ! i)) = un_depth (unc ! i)" using length_node_string I(3) assms(2) by blast
  note D = trie_shapeD(1-3) [OF I(4) assms(2,3)]
  show "node_string symbols (unc ! c) = node_string symbols (unc ! i) @ child_label symbols unc i c"
    using D(3) len by (metis append_take_drop_id child_label_def)
  show "child_label symbols unc i c \<noteq> []" using D(2) len by (simp add: child_label_def)
  show "hd (child_label symbols unc i c) = node_string symbols (unc ! c) ! length (node_string symbols (unc ! i))"
    using D(2) len by (simp add: child_label_def hd_drop_conv_nth)
  show "c < length unc" by (rule D(1))
qed

lemma find_child:
  assumes "trie_inv symbols k unc kids" "i < length unc" "c \<in> set (kids i)"
  shows "find (\<lambda>x. take (length (child_label symbols unc i x)) (child_label symbols unc i c @ r) = child_label symbols unc i x) (kids i) = Some c"
proof (rule find_unique [OF assms(3)])
  note I = trie_invD [OF assms(1)]
  let ?k = "length (node_string symbols (unc ! i))" and ?S = "\<lambda>c. node_string symbols (unc ! c)"
  have "sorted_wrt (<) (map (\<lambda>c. ?S c ! ?k) (kids i))"
    using trie_shapeD(4) [OF I(4) assms(2)] by (simp add: kid_order_def sorted_wrt_map)
  then have inj: "inj_on (\<lambda>c. ?S c ! ?k) (set (kids i))" by (simp add: strict_sorted_iff distinct_map)
  show "take (length (child_label symbols unc i c)) (child_label symbols unc i c @ r) = child_label symbols unc i c" by simp
  show "\<forall>x \<in> set (kids i). take (length (child_label symbols unc i x)) (child_label symbols unc i c @ r) = child_label symbols unc i x \<longrightarrow> x = c"
  proof (intro ballI impI)
  fix x assume x: "x \<in> set (kids i)" "take (length (child_label symbols unc i x)) (child_label symbols unc i c @ r) = child_label symbols unc i x"
  note cx = child_label_string [OF assms(1,2) x(1)] and cc = child_label_string [OF assms]
  have "hd (child_label symbols unc i x) = hd (child_label symbols unc i c)"
    using x(2) cx(2) cc(2) by (metis append_take_drop_id hd_append2)
  then have "?S x ! ?k = ?S c ! ?k" unfolding cx(3) cc(3) .
  from inj_onD [OF inj this x(1) assms(3)] show "x = c" .
  qed
qed

lemma trie_find_node:
  assumes inv: "trie_inv symbols (length symbols) unc kids" and c: "c_strings symbols" and i: "i < length unc"
    and stored: "drop (off i) trie = node_bytes symbols unc kids off i @ rest" and off: "\<And>c. c < length unc \<Longrightarrow> off c < 2 ^ 64"
  shows "trie_find unleb trie (off i) w =
    (if w = [] then symbol_data symbols (unc ! i)
     else case find (\<lambda>c. take (length (child_label symbols unc i c)) w = child_label symbols unc i c) (kids i) of
            None \<Rightarrow> None
          | Some c \<Rightarrow> trie_find unleb trie (off c) (drop (length (child_label symbols unc i c)) w))"
proof -
  note I = trie_invD [OF inv]
  let ?t = "source_terminal symbols (unc ! i)" and ?lab = "child_label symbols unc i"
  define tail where "tail = [of_nat (length (kids i))] @ concat (map (\<lambda>c. edge_bytes (?lab c) (off c)) (kids i)) @ rest"
  define n where "n = (case ?t of (None, _) \<Rightarrow> 0 | (Some a, f) \<Rightarrow> ulen f + ulen a)"
  define payload where "payload = (case ?t of (None, _) \<Rightarrow> [] | (Some a, f) \<Rightarrow> uleb f @ uleb a)"
  have tb: "terminal_bytes ?t = uleb (of_nat n) @ payload"
    by (auto simp: terminal_bytes_def n_def payload_def split: prod.split option.split)
  have "n \<le> 20"
    using ulen_max [of "snd ?t"] ulen_max [of "the (fst ?t)"] by (cases ?t; cases "fst ?t") (simp_all add: n_def)
  then have n: "unat (of_nat n :: u64) = n" by (simp add: unat_of_nat)
  have pl: "length payload = n" by (auto simp: payload_def n_def length_uleb split: prod.split option.split)
  have step: "unleb (drop (off i) trie) = Some (of_nat n, payload @ tail)"
    unfolding stored node_bytes_def tb tail_def by (simp add: unleb_uleb)
  have root: "(if (of_nat n :: u64) = 0 then None else read_terminal unleb (payload @ tail)) = symbol_data symbols (unc ! i)"
  proof (cases "un_symbol (unc ! i)")
    case None
    then show ?thesis by (simp add: n_def source_terminal_def symbol_data_def)
  next
    case (Some k)
    then have "n \<noteq> 0" using ulen_pos [of "sy_flags (symbols ! k)"] by (simp add: n_def source_terminal_def)
    then have "(of_nat n :: u64) \<noteq> 0" using n by (metis unat_0)
    then show ?thesis using Some by (simp add: payload_def source_terminal_def symbol_data_def read_terminal_def unleb_uleb)
  qed
  have "unat (of_nat (length (kids i)) :: u8) = length (kids i)"
    using kids_le_255 [OF inv c i] by (simp add: unat_of_nat)
  moreover have "0 \<notin> set (?lab c') \<and> off c' < 2 ^ 64" if c': "c' \<in> set (kids i)" for c'
  proof -
    have lt: "c' < length unc" using child_label_string(4) [OF inv i c'] .
    then have "node_ok symbols (unc ! c')" using I(3) by blast
    then have "0 \<notin> set (node_string symbols (unc ! c'))"
      using c by (auto simp: c_strings_def node_ok_def node_string_def dest: in_set_takeD)
    then show ?thesis using off [OF lt] by (auto simp: child_label_def dest: in_set_dropD)
  qed
  ultimately have e: "read_edge unleb w (drop (unat (of_nat n :: u64)) (payload @ tail)) =
      map_option (\<lambda>c. (off c, drop (length (?lab c)) w)) (find (\<lambda>c. take (length (?lab c)) w = ?lab c) (kids i))"
    using match_edges_eq [of "kids i" ?lab off w rest] pl n by (simp add: read_edge_def tail_def)
  show ?thesis
  proof (cases "find (\<lambda>c. take (length (?lab c)) w = ?lab c) (kids i)")
    case None
    then show ?thesis by (subst trie_find.simps) (use step root e in simp)
  next
    case (Some c')
    then have c': "c' \<in> set (kids i)" "take (length (?lab c')) w = ?lab c'" by (auto simp: find_Some_iff)
    have "?lab c' \<noteq> []" by (rule child_label_string(2) [OF inv i c'(1)])
    then have "w \<noteq> [] \<longrightarrow> length (drop (length (?lab c')) w) < length w" by simp
    then show ?thesis by (subst trie_find.simps) (use step root e Some in simp)
  qed
qed

lemma trie_built_from:
  assumes t: "trie_inv symbols (length symbols) topology kids" "length topology \<le> 2 * length symbols + 1"
    and ok: "c_strings symbols" "fits L symbols"
  obtains b b' out where "build_nodes_from_topology symbols topology = Some b" "layout_until_stable ulen b = Some b'"
    "encode uleb ulen b' = Some out" "length out = encoded_size b'" "encoded_size b' < 2 ^ 64"
    "builder_for symbols topology kids b" "laid_out symbols topology kids b'"
    "resized ulen (bd_nodes b) (bd_edges b') = bd_edges b'" "edges_le (bd_edges b) (bd_edges b')" "map core (bd_nodes b') = map core (bd_nodes b)"
    "least_layout b b'"
    "\<And>i. i < length topology \<Longrightarrow> nd_offset (bd_nodes b' ! i) < 2 ^ 64 \<and> (\<exists>rest. drop (nd_offset (bd_nodes b' ! i)) out =
       node_bytes symbols topology kids (\<lambda>c. nd_offset (bd_nodes b' ! c)) i @ rest)"
proof -
  obtain b where b: "build_nodes_from_topology symbols topology = Some b" "builder_for symbols topology kids b"
    by (rule build_nodes_ok [OF t(1)])
  obtain b' where l: "layout_until_stable ulen b = Some b'" "laid_out symbols topology kids b'" "encoded_size b' < 2 ^ 64"
    "resized ulen (bd_nodes b) (bd_edges b') = bd_edges b'" "edges_le (bd_edges b) (bd_edges b')" "map core (bd_nodes b') = map core (bd_nodes b)"
    "least_layout b b'"
    by (rule layout_trie [OF t b(2) ok]) blast
  have kids: "set (kids i) \<subseteq> {..<length topology}" if "i < length topology" for i
    using kid_range [OF trie_invD(1) [OF t(1)] that] by blast
  obtain out where o: "encode uleb ulen b' = Some out" "length out = encoded_size b'"
    "\<And>i. i < length topology \<Longrightarrow> \<exists>rest. drop (nd_offset (bd_nodes b' ! i)) out =
       node_bytes symbols topology kids (\<lambda>c. nd_offset (bd_nodes b' ! c)) i @ rest"
    using encode_eq [OF l(2) kids] by blast
  have "nd_offset (bd_nodes b' ! i) < 2 ^ 64" if "i < length topology" for i
    using l(2,3) that offset_of_le [of "bd_edges b'" "bd_nodes b'" i] encoded_size_offset [OF l(2)]
    by (simp add: laid_out_def)
  then show thesis using that [OF b(1) l(1) o(1,2) l(3) b(2) l(2,4,5,6,7)] o(3) by blast
qed

text \<open>From the root, the string of a node leads to the node.\<close>

lemma trie_find_string:
  assumes inv: "trie_inv symbols (length symbols) unc kids" and c: "c_strings symbols"
    and stored: "\<And>i. i < length unc \<Longrightarrow> off i < 2 ^ 64 \<and> (\<exists>rest. drop (off i) trie = node_bytes symbols unc kids off i @ rest)"
    and j: "j < length unc"
  shows "trie_find unleb trie (off 0) (node_string symbols (unc ! j) @ r) = trie_find unleb trie (off j) r"
  using j
proof (induction "length (node_string symbols (unc ! j))" arbitrary: j r rule: less_induct)
  case less
  note I = trie_invD [OF inv]
  show ?case
  proof (cases "j = 0")
    case True
    then show ?thesis using trie_shape_root [OF I(4)] by simp
  next
    case False
    obtain p where p: "p < length unc" "j \<in> set (kids p)" using trie_shapeD(5) [OF I(4) less.prems False] by blast
    let ?lab = "child_label symbols unc p"
    note s = child_label_string [OF inv p]
    obtain rest where rest: "drop (off p) trie = node_bytes symbols unc kids off p @ rest" using stored p(1) by blast
    have "trie_find unleb trie (off 0) (node_string symbols (unc ! j) @ r) = trie_find unleb trie (off p) (?lab j @ r)"
      using less.hyps [OF trie_shapeD(2) [OF I(4) p] p(1)] s(1) by simp
    also have "\<dots> = trie_find unleb trie (off j) r"
      using trie_find_node [OF inv c p(1) rest, of "?lab j @ r"] stored find_child [OF inv p, of r] s(2) by simp
    finally show ?thesis .
  qed
qed

lemma trie_find_sound:
  assumes inv: "trie_inv symbols (length symbols) unc kids" and c: "c_strings symbols"
    and stored: "\<And>i. i < length unc \<Longrightarrow> off i < 2 ^ 64 \<and> (\<exists>rest. drop (off i) trie = node_bytes symbols unc kids off i @ rest)"
    and i: "i < length unc" and found: "trie_find unleb trie (off i) w = Some x"
  shows "\<exists>k < length symbols. sy_name (symbols ! k) = node_string symbols (unc ! i) @ w"
  using i found
proof (induction "length w" arbitrary: i w rule: less_induct)
  case less
  note I = trie_invD [OF inv]
  let ?lab = "child_label symbols unc i"
  obtain rest where rest: "drop (off i) trie = node_bytes symbols unc kids off i @ rest" using stored less.prems(1) by blast
  note step = trie_find_node [OF inv c less.prems(1) rest, of w]
  show ?case
  proof (cases "w = []")
    case True
    then obtain k where "un_symbol (unc ! i) = Some k"
      using step less.prems(2) stored by (cases "un_symbol (unc ! i)") (auto simp: symbol_data_def)
    then show ?thesis using I(5) less.prems(1) True by (auto simp: symbols_placed_def)
  next
    case False
    then obtain c' where f: "find (\<lambda>c. take (length (?lab c)) w = ?lab c) (kids i) = Some c'"
      and rec: "trie_find unleb trie (off c') (drop (length (?lab c')) w) = Some x"
      using step less.prems(2) stored by (auto split: option.splits)
    then have c': "c' \<in> set (kids i)" "take (length (?lab c')) w = ?lab c'" by (auto simp: find_Some_iff)
    note s = child_label_string [OF inv less.prems(1) c'(1)]
    have "length (drop (length (?lab c')) w) < length w" using s(2) False by simp
    from less.hyps [OF this s(4) rec] obtain k where "k < length symbols"
      "sy_name (symbols ! k) = node_string symbols (unc ! c') @ drop (length (?lab c')) w" by blast
    moreover have "?lab c' @ drop (length (?lab c')) w = w" using c'(2) by (metis append_take_drop_id)
    ultimately show ?thesis using s(1) by auto
  qed
qed

lemma trie_find_built:
  assumes ok: "sorted_names symbols" "symbols \<noteq> []" "c_strings symbols" "fits L symbols"
  shows "\<exists>out. build_sorted uleb ulen symbols = Some out \<and>
    (\<forall>w. trie_find unleb out 0 w = map_option (\<lambda>s. (sy_flags s, sy_address s)) (find (\<lambda>s. sy_name s = w) symbols))"
proof -
  obtain topology kids where t0: "topology_new symbols = Some topology" and inv: "trie_inv symbols (length symbols) topology kids"
    and n: "length topology \<le> 2 * length symbols + 1"
    by (rule topology_new_ok [OF ok(1,2)])
  obtain b b' out where t: "build_nodes_from_topology symbols topology = Some b"
    "layout_until_stable ulen b = Some b'" "encode uleb ulen b' = Some out" and lo: "laid_out symbols topology kids b'"
    and stored: "\<And>i. i < length topology \<Longrightarrow> nd_offset (bd_nodes b' ! i) < 2 ^ 64 \<and> (\<exists>rest. drop (nd_offset (bd_nodes b' ! i)) out =
       node_bytes symbols topology kids (\<lambda>c. nd_offset (bd_nodes b' ! c)) i @ rest)"
    by (rule trie_built_from [OF inv n ok(3,4)]) blast
  let ?off = "\<lambda>i. nd_offset (bd_nodes b' ! i)" and ?S = "\<lambda>i. node_string symbols (topology ! i)"
  note I = trie_invD [OF inv]
  have root: "?S 0 = []" "0 < length topology" using trie_shape_root [OF I(4)] by simp_all
  then have off0: "?off 0 = 0" using lo by (simp add: laid_out_def offset_of_def)
  have "trie_find unleb out 0 w = map_option (\<lambda>s. (sy_flags s, sy_address s)) (find (\<lambda>s. sy_name s = w) symbols)" for w
  proof (cases "find (\<lambda>s. sy_name s = w) symbols")
    case None
    then have "\<not> (\<exists>k < length symbols. sy_name (symbols ! k) = w)" using nth_mem by (force simp: find_None_iff)
    then have "trie_find unleb out (?off 0) w = None"
      using trie_find_sound [OF inv ok(3) stored root(2), of w] root(1) by (cases "trie_find unleb out (?off 0) w") auto
    then show ?thesis using None off0 by simp
  next
    case (Some s)
    then obtain k where k: "k < length symbols" "symbols ! k = s" "sy_name s = w" by (auto simp: find_Some_iff)
    obtain j where j: "j < length topology" "un_symbol (topology ! j) = Some k" using I(5) k(1) by (auto simp: symbols_placed_def)
    have w: "?S j = w" using I(5) j k(2,3) by (auto simp: symbols_placed_def)
    obtain rest where rest: "drop (?off j) out = node_bytes symbols topology kids ?off j @ rest" using stored j(1) by blast
    have "trie_find unleb out (?off 0) w = trie_find unleb out (?off j) []"
      using trie_find_string [OF inv ok(3) stored j(1), of "[]"] w by simp
    also have "\<dots> = Some (sy_flags s, sy_address s)"
      using trie_find_node [OF inv ok(3) j(1) rest, of "[]"] stored j(2) k(2) by (simp add: symbol_data_def)
    finally show ?thesis using Some off0 by simp
  qed
  moreover have "build_sorted uleb ulen symbols = Some out"
    using t0 t ok(2) by (simp add: build_sorted_def build_with_topology_def)
  ultimately show ?thesis by blast
qed

end

end
