(* ===== verification/Export_Exact.thy ===== *)
theory Export_Exact
  imports Export_Find
begin

text \<open>
  The properties of the exports trie, and LEB128 as an instance of what is relied on of its encoder.
\<close>

section \<open>Reserving and writing\<close>

lemma trie_inv_names:
  assumes "map sy_name xs = map sy_name ys"
  shows "trie_inv xs (length xs) unc kids = trie_inv ys (length ys) unc kids"
proof -
  note n = same_names [OF assms]
  have ok: "node_ok xs u = node_ok ys u" for u using n(1,2) by (auto simp: node_ok_def)
  have str: "node_string xs u = node_string ys u" if "node_ok xs u" for u using n(2) that by (simp add: node_string_def node_ok_def)
  have shape: "trie_shape (\<lambda>i. node_string xs (unc ! i)) (length unc) kids = trie_shape (\<lambda>i. node_string ys (unc ! i)) (length unc) kids"
    if "\<forall>i < length unc. node_ok xs (unc ! i)"
    using that str trie_shape_cong by (metis (mono_tags, lifting))
  have "symbols_placed xs (length xs) unc = symbols_placed ys (length ys) unc" if "\<forall>i < length unc. node_ok xs (unc ! i)"
    unfolding symbols_placed_def n(1) using that str n(1,2) by auto
  then show ?thesis unfolding trie_inv_def ok [symmetric] using shape by blast
qed

context leb128
begin

lemma reserved_nodes_le:
  assumes names: "map sy_name R = map sy_name symbols" and inv: "trie_inv symbols (length symbols) unc kids"
    and larger: "\<And>i. i < length symbols \<Longrightarrow> ulen (sy_flags (symbols ! i)) \<le> ulen (sy_flags (R ! i)) \<and>
      ulen (sy_address (symbols ! i)) \<le> ulen (sy_address (R ! i))"
    and b: "builder_for symbols unc kids b" "builder_for R unc kids bR"
  shows "bd_edges b = bd_edges bR" "nodes_le ulen (bd_nodes b) (bd_nodes bR)"
proof -
  note I = trie_invD [OF inv] and n = same_names [OF names] and B = builder_forD [OF b(1)] and BR = builder_forD [OF b(2)]
  have "edge_to symbols unc d c = edge_to R unc d c" if "c < length unc" for d c
    using I(3) [OF that] n(2) n(1) by (simp add: edge_to_def node_string_def node_ok_def)
  then have "map (edge_to symbols unc (un_depth (unc ! i))) (kids i) = map (edge_to R unc (un_depth (unc ! i))) (kids i)"
    if "i < length unc" for i using trie_shapeD(1) [OF I(4) that] by simp
  then show "bd_edges b = bd_edges bR" unfolding B(4) BR(4) by (metis (no_types, lifting) atLeastLessThan_iff map_eq_conv set_upt)
  have "terminal_size ulen (bd_nodes b ! i) \<le> terminal_size ulen (bd_nodes bR ! i)" if i: "i < length unc" for i
  proof (cases "un_symbol (unc ! i)")
    case None
    then show ?thesis using B(6) [OF i] by (simp add: terminal_size_def source_terminal_def)
  next
    case (Some k)
    then have "k < length symbols" using I(5) i by (auto simp: symbols_placed_def)
    then show ?thesis
      using B(6) [OF i] BR(6) [OF i] Some larger by (simp add: terminal_size_def source_terminal_def regular_export_size_def add_mono)
  qed
  then show "nodes_le ulen (bd_nodes b) (bd_nodes bR)"
    using B(1,5,6) BR(1,5,6) by (simp add: nodes_le_def list_all2_conv_all_nth)
qed

lemma trie_fits_reserved:
  assumes ok: "sorted_names symbols" "symbols \<noteq> []" "c_strings symbols" "fits L symbols"
    and flags: "\<forall>s \<in> set symbols. ulen (sy_flags s) \<le> ulen 0" and R: "R = reserved_exports (map sy_name symbols)"
  shows "\<exists>topology n out. topology_new R = Some topology \<and> size_with_topology ulen R topology = Some n \<and>
    build_with_topology uleb ulen symbols topology = Some out \<and> length out \<le> n"
proof -
  have names: "map sy_name R = map sy_name symbols" by (simp add: R reserved_exports_def comp_def)
  note n = same_names [OF names]
  obtain topology kids where t: "topology_new symbols = Some topology" and inv: "trie_inv symbols (length symbols) topology kids"
    and len: "length topology \<le> 2 * length symbols + 1"
    by (rule topology_new_ok [OF ok(1,2)])
  have invR: "trie_inv R (length R) topology kids" "length topology \<le> 2 * length R + 1" "c_strings R" "fits L R"
    using inv trie_inv_names [OF names] len n ok(3,4) by (simp_all add: fits_def)
  obtain b b' out where b: "build_nodes_from_topology symbols topology = Some b" "layout_until_stable ulen b = Some b'"
    "encode uleb ulen b' = Some out" "length out = encoded_size b'" "builder_for symbols topology kids b"
    "laid_out symbols topology kids b'" "map core (bd_nodes b') = map core (bd_nodes b)" "least_layout b b'"
    by (rule trie_built_from [OF inv len ok(3,4)]) blast
  obtain bR bR' where bR: "build_nodes_from_topology R topology = Some bR" "layout_until_stable ulen bR = Some bR'"
    "encoded_size bR' < 2 ^ 64" "builder_for R topology kids bR" "laid_out R topology kids bR'"
    "resized ulen (bd_nodes bR) (bd_edges bR') = bd_edges bR'" "edges_le (bd_edges bR) (bd_edges bR')" "map core (bd_nodes bR') = map core (bd_nodes bR)"
    by (rule trie_built_from [OF invR]) blast
  have larger: "ulen (sy_flags (symbols ! i)) \<le> ulen (sy_flags (R ! i)) \<and> ulen (sy_address (symbols ! i)) \<le> ulen (sy_address (R ! i))"
    if "i < length symbols" for i
    using that flags by (auto simp: R reserved_exports_def intro: ulen_mono word_coorder.extremum_unique)
  note le = reserved_nodes_le [OF names inv larger b(5) bR(4)]
  have lens: "length (bd_nodes bR) = length topology" using builder_forD(1) [OF bR(4)] .
  have off: "offset_of ulen E (bd_nodes bR') = offset_of ulen E (bd_nodes bR)" "offset_of ulen E (bd_nodes b') = offset_of ulen E (bd_nodes b)" for E
    using offset_of_cong [OF bR(8)] offset_of_cong [OF b(7)] by simp_all
  have sizeR: "encoded_size bR' = offset_of ulen (bd_edges bR') (bd_nodes bR) (length topology)" using encoded_size_offset [OF bR(5)] off by simp
  have "offset_of ulen (bd_edges bR') (bd_nodes bR) i < 2 ^ 64" for i
    using offset_of_le [of "bd_edges bR'" "bd_nodes bR" i] bR(3) sizeR lens by simp
  then have "edges_le (bd_edges b') (bd_edges bR')"
    using b(8) le bR(6,7) unfolding least_layout_def by metis
  then have "encoded_size b' \<le> encoded_size bR'"
    using offset_mono [OF _ le(2)] encoded_size_offset [OF b(6)] off sizeR by simp
  moreover have "topology_new R = Some topology" using t topology_new_names [OF names] by simp
  moreover have "R \<noteq> []" using n(1) ok(2) by auto
  ultimately show ?thesis
    using b bR(1,2) ok(2) by (simp add: size_with_topology_def build_with_topology_def)
qed

end

section \<open>A stable layout\<close>

text \<open>Offsets are sums of sizes, sizes are right, and the sizes of offsets are the lengths of their encodings.\<close>

definition stable :: "(u64 \<Rightarrow> nat) \<Rightarrow> Builder \<Rightarrow> bool" where
  "stable ulen b \<longleftrightarrow>
     (\<forall>e \<in> set (bd_edges b). ed_child e < length (bd_nodes b) \<and>
        ed_child_offset_size e = ulen (of_nat (nd_offset (bd_nodes b ! ed_child e)))) \<and>
     (\<forall>i < length (bd_nodes b). nd_offset (bd_nodes b ! i) = sum_list (map nd_size (take i (bd_nodes b))) \<and>
        node_size ulen (bd_edges b) (bd_nodes b ! i) = Some (nd_size (bd_nodes b ! i)))"

context leb128
begin

lemma layout_stable:
  assumes ok: "sorted_names symbols" "symbols \<noteq> []" "c_strings symbols" "fits L symbols"
  shows "\<exists>topology b b'. topology_new symbols = Some topology \<and> build_nodes_from_topology symbols topology = Some b \<and>
    layout_until_stable ulen b = Some b' \<and> stable ulen b'"
proof -
  obtain topology kids where t: "topology_new symbols = Some topology" and inv: "trie_inv symbols (length symbols) topology kids"
    and n: "length topology \<le> 2 * length symbols + 1"
    by (rule topology_new_ok [OF ok(1,2)])
  obtain b b' where b: "build_nodes_from_topology symbols topology = Some b" "layout_until_stable ulen b = Some b'"
    "builder_for symbols topology kids b" "laid_out symbols topology kids b'"
    "resized ulen (bd_nodes b) (bd_edges b') = bd_edges b'" "edges_le (bd_edges b) (bd_edges b')" "map core (bd_nodes b') = map core (bd_nodes b)"
    by (rule trie_built_from [OF inv n ok(3,4)]) blast
  note len = map_eq_imp_length_eq [OF b(7)]
  have lo: "length (bd_nodes b') = length topology"
    "\<And>i. i < length topology \<Longrightarrow> nd_offset (bd_nodes b' ! i) = offset_of ulen (bd_edges b') (bd_nodes b') i \<and>
       nd_size (bd_nodes b' ! i) = node_len ulen (bd_edges b') (bd_nodes b' ! i) \<and> node_edges (bd_edges b') (bd_nodes b' ! i) \<noteq> None"
    using b(4) by (simp_all add: laid_out_def)
  have fixpt: "resized ulen (bd_nodes b') (bd_edges b') = bd_edges b'" using b(5) resized_cong [OF b(7)] by simp
  have "ed_child e < length (bd_nodes b') \<and> ed_child_offset_size e = ulen (of_nat (nd_offset (bd_nodes b' ! ed_child e)))"
    if e: "e \<in> set (bd_edges b')" for e
  proof -
    obtain j where j: "j < length (bd_edges b')" "e = bd_edges b' ! j" using e by (auto simp: in_set_conv_nth)
    then have "ed_child e = ed_child (bd_edges b ! j)" "bd_edges b ! j \<in> set (bd_edges b)"
      using b(6) by (auto simp: edges_le_def list_all2_conv_all_nth)
    then have c: "ed_child e < length (bd_nodes b')" using builder_forD(2) [OF b(3)] len by (simp add: wf_builder_def)
    have "e = resized ulen (bd_nodes b') (bd_edges b') ! j" using fixpt j(2) by simp
    then have "ed_child_offset_size e = ulen (of_nat (offset_of ulen (bd_edges b') (bd_nodes b') (ed_child e)))"
      using j by (simp add: resized_def) (metis Edge.select_convs(3) Edge.surjective Edge.update_convs(3))
    then show ?thesis using c lo by simp
  qed
  moreover have "nd_offset (bd_nodes b' ! i) = sum_list (map nd_size (take i (bd_nodes b'))) \<and>
      node_size ulen (bd_edges b') (bd_nodes b' ! i) = Some (nd_size (bd_nodes b' ! i))" if i: "i < length (bd_nodes b')" for i
  proof
    have sizes: "map nd_size (take i (bd_nodes b')) = map (node_len ulen (bd_edges b')) (take i (bd_nodes b'))"
      using i lo by (intro nth_equalityI) auto
    show "nd_offset (bd_nodes b' ! i) = sum_list (map nd_size (take i (bd_nodes b')))"
      unfolding sizes using i lo(1) lo(2) [of i] by (simp add: offset_of_def)
    have "nd_first_edge (bd_nodes b' ! i) + nd_num_edges (bd_nodes b' ! i) \<le> length (bd_edges b')"
      using i lo(1) lo(2) [of i] by (auto simp: node_edges_def slice_def split: if_splits)
    then show "node_size ulen (bd_edges b') (bd_nodes b' ! i) = Some (nd_size (bd_nodes b' ! i))"
      using i lo(1) lo(2) [of i] by (simp add: node_size_eq)
  qed
  ultimately show ?thesis using t b(1,2) by (auto simp: stable_def)
qed

end

section \<open>LEB128\<close>

text \<open>What is relied on of the encoder: lengths grow with the value and are at most 10, and the encoding can be read back.\<close>

definition leb128_encoder :: "(u64 \<Rightarrow> bytes) \<Rightarrow> (u64 \<Rightarrow> nat) \<Rightarrow> (bytes \<Rightarrow> (u64 \<times> bytes) option) \<Rightarrow> bool" where
  "leb128_encoder uleb ulen unleb \<longleftrightarrow>
     (\<forall>a b. a \<le> b \<longrightarrow> ulen a \<le> ulen b) \<and> (\<forall>a. 0 < ulen a \<and> ulen a \<le> 10) \<and>
     (\<forall>v. length (uleb v) = ulen v) \<and> (\<forall>v bs. unleb (uleb v @ bs) = Some (v, bs))"

lemma leb128_encoder_locale: "leb128_encoder uleb ulen unleb \<Longrightarrow> leb128 ulen uleb unleb"
  by unfold_locales (auto simp: leb128_encoder_def)

lemma unat_drop_bit_7: "unat (drop_bit 7 (v :: u64)) = unat v div 128"
  by (simp only: unat_drop_bit_eq) (simp add: drop_bit_eq_div)

lemma seven_bits: "(v :: u64) < 128 \<longleftrightarrow> take_bit 7 v = v" "(b :: u8) < 128 \<longleftrightarrow> take_bit 7 b = b"
  by (simp_all add: word_unat_eq_iff unsigned_take_bit_eq take_bit_nat_eq_self_iff word_less_nat_alt)

lemma drop_bit_7_less: "\<not> (v :: u64) < 128 \<Longrightarrow> unat (drop_bit 7 v) < unat v"
  by (simp only: unat_drop_bit_7) (simp add: word_less_nat_alt)

function leb128_unsigned :: "u64 \<Rightarrow> bytes" where
  "leb128_unsigned v = (if v < 128 then [ucast v] else (ucast v OR 0x80) # leb128_unsigned (drop_bit 7 v))"
  by pat_completeness auto
termination by (relation "measure unat") (auto simp: drop_bit_7_less)

function leb128_unsigned_len :: "u64 \<Rightarrow> nat" where
  "leb128_unsigned_len v = (if v < 128 then 1 else 1 + leb128_unsigned_len (drop_bit 7 v))"
  by pat_completeness auto
termination by (relation "measure unat") (auto simp: drop_bit_7_less)

fun leb128_read :: "bytes \<Rightarrow> (u64 \<times> bytes) option" where
  "leb128_read [] = None"
| "leb128_read (b # bs) =
     (if b < 128 then Some (ucast b, bs)
      else do { (v, bs) \<leftarrow> leb128_read bs; Some (ucast (b AND 0x7f) OR push_bit 7 v, bs) })"

declare leb128_unsigned.simps [simp del] leb128_unsigned_len.simps [simp del]

lemma leb128_len_mono: "v \<le> w \<Longrightarrow> leb128_unsigned_len v \<le> leb128_unsigned_len w"
proof (induction v arbitrary: w rule: leb128_unsigned_len.induct)
  case (1 v)
  show ?case
  proof (cases "v < 128")
    case True
    then show ?thesis by (subst (1 2) leb128_unsigned_len.simps) simp
  next
    case False
    then have "\<not> w < 128" using 1(2) by auto
    moreover have "drop_bit 7 v \<le> drop_bit 7 w"
      using 1(2) by (simp only: word_le_nat_alt unat_drop_bit_7 div_le_mono)
    ultimately show ?thesis using 1(1) [OF False] False by (subst (1 2) leb128_unsigned_len.simps) simp
  qed
qed

lemma leb128_len_bound: "unat v < 2 ^ (7 * Suc k) \<Longrightarrow> leb128_unsigned_len v \<le> Suc k"
proof (induction k arbitrary: v)
  case 0
  then have "v < 128" by (simp add: word_less_nat_alt)
  then show ?case by (simp add: leb128_unsigned_len.simps)
next
  case (Suc k)
  have "unat (drop_bit 7 v) < 2 ^ (7 * Suc k)"
    using Suc.prems by (simp only: unat_drop_bit_7) (simp add: div_less_iff_less_mult power_add)
  from Suc.IH [OF this] show ?case by (subst leb128_unsigned_len.simps) simp
qed

lemma leb128_length: "length (leb128_unsigned v) = leb128_unsigned_len v"
  by (induction v rule: leb128_unsigned.induct) (simp add: leb128_unsigned.simps leb128_unsigned_len.simps)

lemma leb128_read_write: "leb128_read (leb128_unsigned v @ bs) = Some (v, bs)"
proof (induction v rule: leb128_unsigned.induct)
  case (1 v)
  show ?case
  proof (cases "v < 128")
    case True
    then have v: "take_bit 7 v = v" by (simp add: seven_bits)
    then have low: "bit v k \<longleftrightarrow> bit v k \<and> k < 7" for k by (metis bit_take_bit_iff)
    then have "take_bit 7 (ucast v :: u8) = ucast v" by (intro bit_word_eqI) (auto simp: bit_simps)
    then have "(ucast v :: u8) < 128" by (simp add: seven_bits)
    moreover have "ucast (ucast v :: u8) = v"
    proof (rule bit_word_eqI)
      fix k
      show "bit (ucast (ucast v :: u8) :: u64) k = bit v k" using low [of k] by (auto simp: bit_simps)
    qed
    ultimately show ?thesis using True by (simp add: leb128_unsigned.simps)
  next
    case False
    have "\<not> (ucast v OR 0x80 :: u8) < 128"
    proof
      assume "(ucast v OR 0x80 :: u8) < 128"
      then have "take_bit 7 (ucast v OR 0x80 :: u8) = ucast v OR 0x80" by (simp add: seven_bits)
      then have "bit (ucast v OR 0x80 :: u8) 7 = bit (take_bit 7 (ucast v OR 0x80 :: u8)) 7" by simp
      then show False by (simp add: bit_take_bit_iff bit_or_iff)
    qed
    moreover have "ucast ((ucast v OR 0x80 :: u8) AND 0x7f) OR push_bit 7 (drop_bit 7 v) = v"
    proof (rule bit_word_eqI)
      fix k :: nat
      have m: "bit (0x7f :: int) k \<longleftrightarrow> k < 7" "bit (0x80 :: int) k \<longleftrightarrow> k = 7"
        using bit_mask_iff [where 'a = int, of 7 k] bit_exp_iff [where 'a = int, of 7 k] by (auto simp: mask_eq_exp_minus_1)
      show "bit (ucast ((ucast v OR 0x80 :: u8) AND 0x7f) OR push_bit 7 (drop_bit 7 v)) k = bit v k"
        if "k < LENGTH(64)" using that by (cases "k < 7") (auto simp: bit_simps m)
    qed
    ultimately show ?thesis using 1 False by (simp add: leb128_unsigned.simps [of v])
  qed
qed

interpretation leb: leb128 leb128_unsigned_len leb128_unsigned leb128_read
proof
  show "0 < leb128_unsigned_len a" for a by (subst leb128_unsigned_len.simps) simp
  show "leb128_unsigned_len a \<le> 10" for a
    using leb128_len_bound [of a 9] unsigned_less [of a, where 'a = nat] by simp
qed (simp_all add: leb128_len_mono leb128_length leb128_read_write)

lemma leb128_encoder_concrete: "leb128_encoder leb128_unsigned leb128_unsigned_len leb128_read"
  using leb.ulen_pos leb.ulen_max by (simp add: leb128_encoder_def leb128_len_mono leb128_length leb128_read_write)

section \<open>Properties\<close>

text \<open>
  C37. The layout loop of the exports trie ends. For symbols sorted by name, without duplicates and
  NUL bytes, the topology is built without a panic, nodes and edges are made from it, and the loop
  that assigns offsets until they are stable returns: every offset is the sum of the sizes of the
  nodes before it, and every edge has room for exactly the encoding of the offset it refers to. The
  trie is assumed to have less than \<open>2^64\<close> bytes, by a bound in the number and length of the names.
\<close>

theorem export_trie_layout_ends:
  assumes "leb128_encoder uleb ulen unleb" "sorted_names symbols" "symbols \<noteq> []" "c_strings symbols" "fits L symbols"
  shows "\<exists>topology b b'. topology_new symbols = Some topology \<and> build_nodes_from_topology symbols topology = Some b \<and>
    layout_until_stable ulen b = Some b' \<and> stable ulen b'"
  using leb128.layout_stable [OF leb128_encoder_locale [OF assms(1)] assms(2-5)] .

text \<open>\<open>_foo\<close>, \<open>_foobar\<close> and \<open>_fop\<close>.\<close>

definition example_exports :: "Symbol list" where
  "example_exports =
     [\<lparr>sy_name = [0x5f, 0x66, 0x6f, 0x6f], sy_address = 2, sy_flags = 0\<rparr>,
      \<lparr>sy_name = [0x5f, 0x66, 0x6f, 0x6f, 0x62, 0x61, 0x72], sy_address = 0x1234, sy_flags = 4\<rparr>,
      \<lparr>sy_name = [0x5f, 0x66, 0x6f, 0x70], sy_address = 3, sy_flags = 0\<rparr>]"

lemma example_exports_ok: "sorted_names example_exports" "example_exports \<noteq> []" "c_strings example_exports" "fits 7 example_exports"
  by (simp_all add: example_exports_def sorted_names_def c_strings_def fits_def names_le_def)

theorem export_trie_layout_ends_witness:
  "\<exists>topology b b'. topology_new example_exports = Some topology \<and> build_nodes_from_topology example_exports topology = Some b \<and>
     layout_until_stable leb128_unsigned_len b = Some b' \<and> stable leb128_unsigned_len b'"
  by (rule export_trie_layout_ends [OF leb128_encoder_concrete example_exports_ok])

text \<open>
  C38. The exports trie can be read. A loader that walks the encoded trie along a name finds the
  address and flags of the symbol of that name, and finds nothing for a name that is not exported.
\<close>

theorem export_trie_find:
  assumes "leb128_encoder uleb ulen unleb" "sorted_names symbols" "symbols \<noteq> []" "c_strings symbols" "fits L symbols"
  shows "\<exists>out. build_sorted uleb ulen symbols = Some out \<and>
    (\<forall>w. trie_find unleb out 0 w = map_option (\<lambda>s. (sy_flags s, sy_address s)) (find (\<lambda>s. sy_name s = w) symbols))"
  using leb128.trie_find_built [OF leb128_encoder_locale [OF assms(1)] assms(2-5)] .

theorem export_trie_find_witness:
  "\<exists>out. build_sorted leb128_unsigned leb128_unsigned_len example_exports = Some out \<and>
     trie_find leb128_read out 0 [0x5f, 0x66, 0x6f, 0x6f, 0x62, 0x61, 0x72] = Some (4, 0x1234) \<and>
     trie_find leb128_read out 0 [0x5f, 0x66, 0x6f] = None"
proof -
  obtain out where out: "build_sorted leb128_unsigned leb128_unsigned_len example_exports = Some out"
    "\<And>w. trie_find leb128_read out 0 w = map_option (\<lambda>s. (sy_flags s, sy_address s)) (find (\<lambda>s. sy_name s = w) example_exports)"
    using export_trie_find [OF leb128_encoder_concrete example_exports_ok] by blast
  have "map_option (\<lambda>s. (sy_flags s, sy_address s)) (find (\<lambda>s. sy_name s = [0x5f, 0x66, 0x6f, 0x6f, 0x62, 0x61, 0x72]) example_exports) =
      Some (4, 0x1234)"
    "find (\<lambda>s. sy_name s = [0x5f, 0x66, 0x6f]) example_exports = None"
    by (simp_all add: example_exports_def)
  with out show ?thesis by simp
qed

text \<open>
  C39. The space reserved for the exports trie is enough. The size that layout computes before addresses
  are known, with every address \<open>u64::MAX\<close> and no flags, is at least the length of the trie that is
  written with the same topology, as long as the flags have encodings no longer than that of zero.
\<close>

theorem export_trie_fits_reserved:
  assumes "leb128_encoder uleb ulen unleb" "sorted_names symbols" "symbols \<noteq> []" "c_strings symbols" "fits L symbols"
    and "\<forall>s \<in> set symbols. ulen (sy_flags s) \<le> ulen 0"
  shows "\<exists>topology n out. topology_new (reserved_exports (map sy_name symbols)) = Some topology \<and>
    size_with_topology ulen (reserved_exports (map sy_name symbols)) topology = Some n \<and>
    build_with_topology uleb ulen symbols topology = Some out \<and> length out \<le> n"
  using leb128.trie_fits_reserved [OF leb128_encoder_locale [OF assms(1)] assms(2-6) refl] .

theorem export_trie_fits_reserved_witness:
  "\<exists>topology n out. topology_new (reserved_exports (map sy_name example_exports)) = Some topology \<and>
     size_with_topology leb128_unsigned_len (reserved_exports (map sy_name example_exports)) topology = Some n \<and>
     build_with_topology leb128_unsigned leb128_unsigned_len example_exports topology = Some out \<and> length out \<le> n"
proof (rule export_trie_fits_reserved [OF leb128_encoder_concrete example_exports_ok])
  show "\<forall>s \<in> set example_exports. leb128_unsigned_len (sy_flags s) \<le> leb128_unsigned_len 0"
    by (simp add: example_exports_def leb128_unsigned_len.simps)
qed

end
