(* ===== verification/Symbol_Db.thy ===== *)
theory Symbol_Db
  imports Value_Flags
begin

text \<open>
  The symbol database (\<open>libjdxld/src/symbol_db.rs\<close>): symbols are collected by name in hash buckets, and
  of the definitions of a name one is selected. A symbol id is an index into the vectors of flags,
  definitions and file ids. File ids, which are pairs in the code, index one list of files. What is
  read from an input file is the record \<open>input_symbol\<close>; inputs from compiler plugins are left out. The
  hash function is an argument, and the hash maps from ids to lists are association lists, which are
  iterated in any order.
\<close>

section \<open>Symbols of the inputs\<close>

datatype Visibility = Default | Protected | Hidden

primrec visibility_rank :: "Visibility \<Rightarrow> nat" where
  "visibility_rank Default = 0"
| "visibility_rank Protected = 1"
| "visibility_rank Hidden = 2"

lemma visibility_rank_inj: "visibility_rank a = visibility_rank b \<longleftrightarrow> a = b"
  by (cases a; cases b) simp_all

instantiation Visibility :: linorder
begin

definition less_eq_Visibility :: "Visibility \<Rightarrow> Visibility \<Rightarrow> bool" where
  "less_eq_Visibility a b \<longleftrightarrow> visibility_rank a \<le> visibility_rank b"

definition less_Visibility :: "Visibility \<Rightarrow> Visibility \<Rightarrow> bool" where
  "less_Visibility a b \<longleftrightarrow> visibility_rank a < visibility_rank b"

instance
  by intro_classes (auto simp: less_eq_Visibility_def less_Visibility_def visibility_rank_inj)

end

record input_symbol =
  sym_is_weak :: bool
  sym_is_common :: bool
  sym_size :: u64
  sym_is_gnu_unique :: bool
  sym_visibility :: Visibility
  sym_in_group :: bool

datatype SymbolStrength = Undefined | Weak | GnuUnique | Strong | Common u64

definition strength_of :: "input_symbol \<Rightarrow> SymbolStrength" where
  "strength_of s =
     (if sym_is_weak s then Weak
      else if sym_is_common s then Common (sym_size s)
      else if sym_is_gnu_unique s then GnuUnique
      else Strong)"

text \<open>
  An input as it was parsed, and what resolution made of it. Both have the id of their first symbol;
  of a stub library only the number of its strong symbols matters.
\<close>

datatype parsed_file = ParsedObject bool nat "input_symbol list" | ParsedStubLibrary nat nat | ParsedOther

datatype resolved_file = NotLoaded | Object nat "input_symbol list" | Dynamic nat "input_symbol list" |
  StubLibrary nat nat | OtherFile

record SymbolDb =
  symbol_file_ids :: "nat list"
  parsed :: "parsed_file list"
  resolved :: "resolved_file list"
  allow_multiple_definitions :: bool

definition symbol_at :: "nat \<Rightarrow> input_symbol list \<Rightarrow> nat \<Rightarrow> input_symbol option" where
  "symbol_at base symbols symbol_id = (if base \<le> symbol_id then index symbols (symbol_id - base) else None)"

definition object_symbol_strength :: "nat \<Rightarrow> input_symbol list \<Rightarrow> nat \<Rightarrow> SymbolStrength" where
  "object_symbol_strength base symbols symbol_id =
     (case symbol_at base symbols symbol_id of None \<Rightarrow> Undefined | Some s \<Rightarrow> strength_of s)"

definition stub_symbol_strength :: "nat \<Rightarrow> nat \<Rightarrow> nat \<Rightarrow> SymbolStrength" where
  "stub_symbol_strength base num_strong symbol_id = (if symbol_id - base < num_strong then Strong else Weak)"

definition file_id_for_symbol :: "SymbolDb \<Rightarrow> nat \<Rightarrow> nat option" where
  "file_id_for_symbol db symbol_id = index (symbol_file_ids db) symbol_id"

definition symbol_strength :: "SymbolDb \<Rightarrow> nat \<Rightarrow> SymbolStrength option" where
  "symbol_strength db symbol_id =
     do { file_id \<leftarrow> file_id_for_symbol db symbol_id;
          file \<leftarrow> index (resolved db) file_id;
          Some (case file of
                  Object base symbols \<Rightarrow> object_symbol_strength base symbols symbol_id
                | Dynamic base symbols \<Rightarrow> object_symbol_strength base symbols symbol_id
                | StubLibrary base num_strong \<Rightarrow> stub_symbol_strength base num_strong symbol_id
                | _ \<Rightarrow> Undefined) }"

definition is_in_comdat_group :: "SymbolDb \<Rightarrow> nat \<Rightarrow> bool option" where
  "is_in_comdat_group db symbol_id =
     do { file_id \<leftarrow> file_id_for_symbol db symbol_id;
          file \<leftarrow> index (resolved db) file_id;
          Some (case file of
                  Object base symbols \<Rightarrow>
                    (case symbol_at base symbols symbol_id of None \<Rightarrow> False | Some s \<Rightarrow> sym_in_group s)
                | _ \<Rightarrow> False) }"

definition input_symbol_visibility :: "SymbolDb \<Rightarrow> nat \<Rightarrow> Visibility option" where
  "input_symbol_visibility db symbol_id =
     do { file_id \<leftarrow> file_id_for_symbol db symbol_id;
          file \<leftarrow> index (parsed db) file_id;
          Some (case file of
                  ParsedObject dynamic base symbols \<Rightarrow>
                    (case symbol_at base symbols symbol_id of None \<Rightarrow> Default | Some s \<Rightarrow> sym_visibility s)
                | _ \<Rightarrow> Default) }"

definition file_is_dynamic :: "parsed_file \<Rightarrow> bool" where
  "file_is_dynamic file =
     (case file of ParsedObject dynamic _ _ \<Rightarrow> dynamic | ParsedStubLibrary _ _ \<Rightarrow> True | ParsedOther \<Rightarrow> False)"

definition file_symbol_strength :: "parsed_file \<Rightarrow> nat \<Rightarrow> SymbolStrength" where
  "file_symbol_strength file symbol_id =
     (case file of
        ParsedObject dynamic base symbols \<Rightarrow> object_symbol_strength base symbols symbol_id
      | ParsedStubLibrary base num_strong \<Rightarrow> stub_symbol_strength base num_strong symbol_id
      | ParsedOther \<Rightarrow> Undefined)"

section \<open>Names\<close>

type_synonym VersionedSymbolName = "bytes \<times> bytes"

text \<open>A global symbol that has not been put into the database yet.\<close>

type_synonym PendingSymbol = "nat \<times> bytes"
type_synonym PendingVersionedSymbol = "nat \<times> VersionedSymbolName"

record PendingSymbolHashBucket =
  pending_symbols :: "PendingSymbol list"
  pending_versioned_symbols :: "PendingVersionedSymbol list"

type_synonym SymbolLoadOutputs = "PendingSymbolHashBucket list"

definition versioned_hash :: "(bytes \<Rightarrow> u64) \<Rightarrow> VersionedSymbolName \<Rightarrow> u64" where
  "versioned_hash hash_bytes n = hash_bytes (fst n) XOR hash_bytes (snd n)"

text \<open>\<open>hash as usize % num_buckets\<close>.\<close>

definition bucket_of :: "u64 \<Rightarrow> nat \<Rightarrow> nat" where
  "bucket_of hash num_buckets = unat hash mod num_buckets"

definition add_non_versioned :: "(bytes \<Rightarrow> u64) \<Rightarrow> PendingSymbol \<Rightarrow> SymbolLoadOutputs \<Rightarrow> SymbolLoadOutputs option" where
  "add_non_versioned hash_bytes p outputs =
     do { let b = bucket_of (hash_bytes (snd p)) (length outputs);
          bucket \<leftarrow> index outputs b;
          store outputs b (bucket\<lparr>pending_symbols := pending_symbols bucket @ [p]\<rparr>) }"

definition add_versioned ::
    "(bytes \<Rightarrow> u64) \<Rightarrow> PendingVersionedSymbol \<Rightarrow> SymbolLoadOutputs \<Rightarrow> SymbolLoadOutputs option" where
  "add_versioned hash_bytes p outputs =
     do { let b = bucket_of (versioned_hash hash_bytes (snd p)) (length outputs);
          bucket \<leftarrow> index outputs b;
          store outputs b (bucket\<lparr>pending_versioned_symbols := pending_versioned_symbols bucket @ [p]\<rparr>) }"

section \<open>Buckets\<close>

record SymbolBucket =
  name_to_id :: "bytes \<rightharpoonup> nat"
  versioned_name_to_id :: "VersionedSymbolName \<rightharpoonup> nat"
  alternative_definitions :: "(nat \<times> nat list) list"
  alternative_versioned_definitions :: "(nat \<times> nat list) list"

definition empty_bucket :: SymbolBucket where
  "empty_bucket =
     \<lparr>name_to_id = Map.empty, versioned_name_to_id = Map.empty, alternative_definitions = [],
      alternative_versioned_definitions = []\<rparr>"

text \<open>\<open>map.entry(first).or_default().push(id)\<close>.\<close>

fun push_alternative :: "nat \<Rightarrow> nat \<Rightarrow> (nat \<times> nat list) list \<Rightarrow> (nat \<times> nat list) list" where
  "push_alternative first sid [] = [(first, [sid])]"
| "push_alternative first sid ((k, ids) # entries) =
     (if k = first then (k, ids @ [sid]) # entries else (k, ids) # push_alternative first sid entries)"

definition add_extra_symbol_definition :: "nat \<Rightarrow> nat \<Rightarrow> SymbolBucket \<Rightarrow> SymbolBucket" where
  "add_extra_symbol_definition first_symbol_id new_symbol_id bucket =
     bucket\<lparr>alternative_definitions := push_alternative first_symbol_id new_symbol_id (alternative_definitions bucket)\<rparr>"

definition add_symbol :: "PendingSymbol \<Rightarrow> SymbolBucket \<Rightarrow> SymbolBucket" where
  "add_symbol p bucket =
     (case name_to_id bucket (snd p) of
        Some first_symbol_id \<Rightarrow> add_extra_symbol_definition first_symbol_id (fst p) bucket
      | None \<Rightarrow> bucket\<lparr>name_to_id := (name_to_id bucket)(snd p \<mapsto> fst p)\<rparr>)"

definition add_versioned_symbol :: "PendingVersionedSymbol \<Rightarrow> SymbolBucket \<Rightarrow> SymbolBucket" where
  "add_versioned_symbol p bucket =
     (case versioned_name_to_id bucket (snd p) of
        Some first_symbol_id \<Rightarrow>
          bucket\<lparr>alternative_versioned_definitions :=
                   push_alternative first_symbol_id (fst p) (alternative_versioned_definitions bucket)\<rparr>
      | None \<Rightarrow> bucket\<lparr>versioned_name_to_id := (versioned_name_to_id bucket)(snd p \<mapsto> fst p)\<rparr>)"

text \<open>Bucket number \<open>b\<close> takes what each group has for it, in the order of the groups.\<close>

fun populate_bucket :: "nat \<Rightarrow> SymbolLoadOutputs list \<Rightarrow> SymbolBucket \<Rightarrow> SymbolBucket option" where
  "populate_bucket b [] bucket = Some bucket"
| "populate_bucket b (outputs # per_group_outputs) bucket =
     do { pending \<leftarrow> index outputs b;
          let bucket = fold add_symbol (pending_symbols pending) bucket;
          let bucket = fold add_versioned_symbol (pending_versioned_symbols pending) bucket;
          populate_bucket b per_group_outputs bucket }"

fun populate_from :: "nat \<Rightarrow> SymbolLoadOutputs list \<Rightarrow> SymbolBucket list \<Rightarrow> SymbolBucket list option" where
  "populate_from b per_group_outputs [] = Some []"
| "populate_from b per_group_outputs (bucket # buckets) =
     do { bucket \<leftarrow> populate_bucket b per_group_outputs bucket;
          buckets \<leftarrow> populate_from (b + 1) per_group_outputs buckets;
          Some (bucket # buckets) }"

definition populate_symbol_db :: "SymbolBucket list \<Rightarrow> SymbolLoadOutputs list \<Rightarrow> SymbolBucket list option" where
  "populate_symbol_db buckets per_group_outputs = populate_from 0 per_group_outputs buckets"

definition get_unversioned :: "(bytes \<Rightarrow> u64) \<Rightarrow> SymbolBucket list \<Rightarrow> bytes \<Rightarrow> nat option option" where
  "get_unversioned hash_bytes buckets name =
     do { bucket \<leftarrow> index buckets (bucket_of (hash_bytes name) (length buckets));
          Some (name_to_id bucket name) }"

text \<open>The definition of a symbol is looked up twice, since it may have changed after the name was looked up.\<close>

definition definition_of :: "nat list \<Rightarrow> nat \<Rightarrow> nat option" where
  "definition_of symbol_definitions symbol_id =
     do { step1 \<leftarrow> index symbol_definitions symbol_id; index symbol_definitions step1 }"

section \<open>Selection\<close>

record SymbolPrioritySelector =
  first_strong :: "nat option"
  max_common :: "(u64 \<times> nat) option"
  first_weak :: "nat option"

definition selector_new :: SymbolPrioritySelector where
  "selector_new = \<lparr>first_strong = None, max_common = None, first_weak = None\<rparr>"

definition selector_consider :: "nat \<Rightarrow> SymbolStrength \<Rightarrow> SymbolPrioritySelector \<Rightarrow> SymbolPrioritySelector" where
  "selector_consider sid strength s =
     (case strength of
        Strong \<Rightarrow> if first_strong s = None then s\<lparr>first_strong := Some sid\<rparr> else s
      | Weak \<Rightarrow> if first_weak s = None then s\<lparr>first_weak := Some sid\<rparr> else s
      | GnuUnique \<Rightarrow> if first_weak s = None then s\<lparr>first_weak := Some sid\<rparr> else s
      | Common n \<Rightarrow>
          (case max_common s of
             Some (prev_size, prev) \<Rightarrow> if n \<le> prev_size then s else s\<lparr>max_common := Some (n, sid)\<rparr>
           | None \<Rightarrow> s\<lparr>max_common := Some (n, sid)\<rparr>)
      | Undefined \<Rightarrow> s)"

definition selector_best :: "SymbolPrioritySelector \<Rightarrow> nat option" where
  "selector_best s =
     (case first_strong s of
        Some sid \<Rightarrow> Some sid
      | None \<Rightarrow> (case max_common s of Some (_, sid) \<Rightarrow> Some sid | None \<Rightarrow> first_weak s))"

fun get_non_dynamic_from :: "SymbolDb \<Rightarrow> nat list \<Rightarrow> SymbolPrioritySelector \<Rightarrow> SymbolPrioritySelector option" where
  "get_non_dynamic_from db [] s = Some s"
| "get_non_dynamic_from db (alt # alternatives) s =
     do { file_id \<leftarrow> file_id_for_symbol db alt;
          file \<leftarrow> index (parsed db) file_id;
          if file_is_dynamic file then get_non_dynamic_from db alternatives s
          else get_non_dynamic_from db alternatives (selector_consider alt (file_symbol_strength file alt) s) }"

definition get_non_dynamic :: "SymbolDb \<Rightarrow> SymbolBucket \<Rightarrow> nat \<Rightarrow> nat option option" where
  "get_non_dynamic db bucket symbol_id =
     (case map_of (alternative_definitions bucket) symbol_id of
        None \<Rightarrow> Some None
      | Some alternatives \<Rightarrow> map_option selector_best (get_non_dynamic_from db alternatives selector_new))"

datatype symbol_key = Unversioned bytes | Versioned VersionedSymbolName

text \<open>\<open>SymbolDb::get\<close>; the outer option is a panic.\<close>

definition get_symbol ::
    "(bytes \<Rightarrow> u64) \<Rightarrow> SymbolDb \<Rightarrow> SymbolBucket list \<Rightarrow> symbol_key \<Rightarrow> bool \<Rightarrow> nat option option" where
  "get_symbol hash_bytes db buckets key allow_dynamic =
     do { bucket \<leftarrow> index buckets
                      (bucket_of (case key of Unversioned n \<Rightarrow> hash_bytes n | Versioned n \<Rightarrow> versioned_hash hash_bytes n)
                                 (length buckets));
          case (case key of Unversioned n \<Rightarrow> name_to_id bucket n | Versioned n \<Rightarrow> versioned_name_to_id bucket n) of
            None \<Rightarrow> Some None
          | Some symbol_id \<Rightarrow>
              if allow_dynamic then Some (Some symbol_id)
              else do { file_id \<leftarrow> file_id_for_symbol db symbol_id;
                        file \<leftarrow> index (parsed db) file_id;
                        if file_is_dynamic file then get_non_dynamic db bucket symbol_id
                        else Some (Some symbol_id) } }"

text \<open>The error of duplicate strong definitions: the two symbols.\<close>

datatype duplicate = Duplicate nat nat

definition check_duplicate ::
    "SymbolDb \<Rightarrow> SymbolPrioritySelector \<Rightarrow> nat \<Rightarrow> SymbolStrength \<Rightarrow> (duplicate, unit) outcome" where
  "check_duplicate db s sid strength =
     (case first_strong s of
        Some existing \<Rightarrow>
          if strength = Strong then
            bind_outcome (of_panic (is_in_comdat_group db existing)) (\<lambda>a.
            bind_outcome (if a then of_panic (is_in_comdat_group db sid) else Ok False) (\<lambda>b.
            ensure (\<not> ((\<not> a \<or> \<not> b) \<and> \<not> allow_multiple_definitions db)) (Duplicate existing sid)))
          else Ok ()
      | None \<Rightarrow> Ok ())"

text \<open>The first pass over the definitions, which passes over those of shared objects.\<close>

fun select_from ::
    "SymbolDb \<Rightarrow> PerSymbolFlags \<Rightarrow> nat list \<Rightarrow> SymbolPrioritySelector \<Rightarrow> (duplicate, SymbolPrioritySelector) outcome" where
  "select_from db fs [] s = Ok s"
| "select_from db fs (sid # ids) s =
     bind_outcome (of_panic (flags_for_symbol fs sid)) (\<lambda>flags.
     if is_dynamic flags then select_from db fs ids s
     else
       bind_outcome (of_panic (symbol_strength db sid)) (\<lambda>strength.
       bind_outcome (check_duplicate db s sid strength) (\<lambda>_.
       select_from db fs ids (selector_consider sid strength s))))"

fun first_defined :: "SymbolDb \<Rightarrow> nat list \<Rightarrow> nat option option" where
  "first_defined db [] = Some None"
| "first_defined db (alt # alternatives) =
     do { strength \<leftarrow> symbol_strength db alt;
          if strength \<noteq> Undefined then Some (Some alt) else first_defined db alternatives }"

definition select_symbol :: "SymbolDb \<Rightarrow> PerSymbolFlags \<Rightarrow> nat \<Rightarrow> nat list \<Rightarrow> (duplicate, nat) outcome" where
  "select_symbol db fs first_id alternatives =
     bind_outcome (select_from db fs (first_id # alternatives) selector_new) (\<lambda>s.
     case selector_best s of
       Some best \<Rightarrow> Ok best
     | None \<Rightarrow>
         bind_outcome (of_panic (first_defined db (first_id # alternatives))) (\<lambda>alt.
         case alt of Some sid \<Rightarrow> Ok sid | None \<Rightarrow> Ok first_id))"

section \<open>Resolution of alternatives\<close>

definition visibility_flags :: "Visibility \<Rightarrow> ValueFlags" where
  "visibility_flags v =
     (case v of
        Hidden \<Rightarrow> NON_INTERPOSABLE OR DOWNGRADE_TO_LOCAL
      | Protected \<Rightarrow> NON_INTERPOSABLE
      | Default \<Rightarrow> 0)"

definition handle_non_default_visibility :: "nat \<Rightarrow> Visibility \<Rightarrow> PerSymbolFlags \<Rightarrow> PerSymbolFlags option" where
  "handle_non_default_visibility symbol_id visibility fs =
     do { flags \<leftarrow> index fs symbol_id;
          if visibility \<noteq> Default \<and> \<not> contains flags DYNAMIC
          then store fs symbol_id (atomic_or_assign flags (visibility_flags visibility))
          else Some fs }"

definition apply_visibility_to_definition :: "nat \<Rightarrow> Visibility \<Rightarrow> PerSymbolFlags \<Rightarrow> PerSymbolFlags option" where
  "apply_visibility_to_definition definition_id visibility fs =
     (case visibility of
        Hidden \<Rightarrow> set_flag definition_id (NON_INTERPOSABLE OR DOWNGRADE_TO_LOCAL) fs
      | Protected \<Rightarrow>
          do { flags \<leftarrow> flags_for_symbol fs definition_id;
               if contains flags DYNAMIC then Some fs else set_flag definition_id NON_INTERPOSABLE fs }
      | Default \<Rightarrow> Some fs)"

fun merge_visibility :: "SymbolDb \<Rightarrow> nat list \<Rightarrow> Visibility \<Rightarrow> Visibility option" where
  "merge_visibility db [] vis = Some vis"
| "merge_visibility db (sid # ids) vis =
     do { v \<leftarrow> input_symbol_visibility db sid; merge_visibility db ids (max vis v) }"

fun update_definitions :: "nat list \<Rightarrow> nat \<Rightarrow> nat list \<Rightarrow> nat list option" where
  "update_definitions [] selected definitions = Some definitions"
| "update_definitions (sid # ids) selected definitions =
     do { definitions \<leftarrow> store definitions sid selected; update_definitions ids selected definitions }"

fun update_visibilities :: "nat list \<Rightarrow> Visibility \<Rightarrow> PerSymbolFlags \<Rightarrow> PerSymbolFlags option" where
  "update_visibilities [] visibility fs = Some fs"
| "update_visibilities (sid # ids) visibility fs =
     do { fs \<leftarrow> handle_non_default_visibility sid visibility fs; update_visibilities ids visibility fs }"

type_synonym resolve_state = "nat list \<times> PerSymbolFlags \<times> duplicate list"

text \<open>One entry of a map of alternatives: a symbol and the other definitions of its name.\<close>

definition process_entry :: "SymbolDb \<Rightarrow> nat \<times> nat list \<Rightarrow> resolve_state \<Rightarrow> resolve_state option" where
  "process_entry db entry st =
     (case entry of (first, alternatives) \<Rightarrow> case st of (definitions, fs, errors) \<Rightarrow>
        do { vis \<leftarrow> input_symbol_visibility db first;
             visibility \<leftarrow> merge_visibility db alternatives vis;
             case select_symbol db fs first alternatives of
               Ok selected \<Rightarrow>
                 do { definitions \<leftarrow> update_definitions (first # alternatives) selected definitions;
                      fs \<leftarrow> (if visibility \<noteq> Default then update_visibilities (first # alternatives) visibility fs
                             else Some fs);
                      Some (definitions, fs, errors) }
             | Error err \<Rightarrow> Some (definitions, fs, errors @ [err])
             | Panicked \<Rightarrow> None })"

fun process_alternatives :: "SymbolDb \<Rightarrow> (nat \<times> nat list) list \<Rightarrow> resolve_state \<Rightarrow> resolve_state option" where
  "process_alternatives db [] st = Some st"
| "process_alternatives db (entry # entries) st =
     do { st \<leftarrow> process_entry db entry st; process_alternatives db entries st }"

text \<open>
  All entries of all buckets. The buckets are processed in parallel and their maps have no fixed
  order; the entries are given in the order \<open>schedule\<close> in which they are processed.
\<close>

definition alternative_entries :: "SymbolBucket list \<Rightarrow> (nat \<times> nat list) list" where
  "alternative_entries buckets =
     concat (map (\<lambda>b. alternative_definitions b @ alternative_versioned_definitions b) buckets)"

definition resolve_alternative_symbol_definitions ::
    "SymbolDb \<Rightarrow> (nat \<times> nat list) list \<Rightarrow> nat list \<Rightarrow> PerSymbolFlags \<Rightarrow> (duplicate list, nat list \<times> PerSymbolFlags) outcome" where
  "resolve_alternative_symbol_definitions db schedule definitions fs =
     (case process_alternatives db schedule (definitions, fs, []) of
        None \<Rightarrow> Panicked
      | Some (definitions, fs, errors) \<Rightarrow> if errors \<noteq> [] then Error errors else Ok (definitions, fs))"

end
