(* ===== verification/Symbol_Select.thy ===== *)
theory Symbol_Select
  imports Symbol_Db
begin

text \<open>
  Which of the definitions of a name is selected: the accumulator \<open>SymbolPrioritySelector\<close> and
  \<open>select_symbol\<close> against the rule, first strong, then largest common, then first weak, and shared
  objects only when nothing else defines the name.
\<close>

section \<open>The rule\<close>

definition strength :: "SymbolDb \<Rightarrow> nat \<Rightarrow> SymbolStrength" where
  "strength db i = (case symbol_strength db i of None \<Rightarrow> Undefined | Some s \<Rightarrow> s)"

definition comdat :: "SymbolDb \<Rightarrow> nat \<Rightarrow> bool" where
  "comdat db i = (is_in_comdat_group db i = Some True)"

primrec is_common :: "SymbolStrength \<Rightarrow> bool" where
  "is_common Undefined = False"
| "is_common Weak = False"
| "is_common GnuUnique = False"
| "is_common Strong = False"
| "is_common (Common n) = True"

primrec common_size :: "SymbolStrength \<Rightarrow> u64" where
  "common_size Undefined = 0"
| "common_size Weak = 0"
| "common_size GnuUnique = 0"
| "common_size Strong = 0"
| "common_size (Common n) = n"

definition strongest :: "(nat \<Rightarrow> SymbolStrength) \<Rightarrow> nat list \<Rightarrow> nat option" where
  "strongest st ids = find (\<lambda>i. st i = Strong) ids"

definition largest :: "(nat \<Rightarrow> SymbolStrength) \<Rightarrow> nat list \<Rightarrow> nat option" where
  "largest st ids =
     find (\<lambda>i. is_common (st i) \<and> list_all (\<lambda>j. common_size (st j) \<le> common_size (st i)) ids) ids"

definition weakest :: "(nat \<Rightarrow> SymbolStrength) \<Rightarrow> nat list \<Rightarrow> nat option" where
  "weakest st ids = find (\<lambda>i. st i = Weak \<or> st i = GnuUnique) ids"

definition orelse :: "'a option \<Rightarrow> 'a option \<Rightarrow> 'a option" where
  "orelse a b = (if a = None then b else a)"

definition own_definitions :: "PerSymbolFlags \<Rightarrow> nat list \<Rightarrow> nat list" where
  "own_definitions fs ids = filter (\<lambda>i. \<not> is_dynamic (fs ! i)) ids"

definition selected :: "SymbolDb \<Rightarrow> PerSymbolFlags \<Rightarrow> nat list \<Rightarrow> nat" where
  "selected db fs ids =
     (let own = own_definitions fs ids; st = strength db in
      the (orelse (strongest st own) (orelse (largest st own) (orelse (weakest st own)
            (orelse (find (\<lambda>i. st i \<noteq> Undefined) ids) (Some (hd ids)))))))"

text \<open>Two strong definitions, unless both are in COMDAT groups or the user allows it.\<close>

definition conflicting :: "SymbolDb \<Rightarrow> PerSymbolFlags \<Rightarrow> nat list \<Rightarrow> bool" where
  "conflicting db fs ids =
     (\<not> allow_multiple_definitions db \<and>
      (case strongest (strength db) (own_definitions fs ids) of
         None \<Rightarrow> False
       | Some e \<Rightarrow> \<not> list_all (\<lambda>i. strength db i = Strong \<and> i \<noteq> e \<longrightarrow> comdat db e \<and> comdat db i) (own_definitions fs ids)))"

section \<open>The accumulator\<close>

lemma find_snoc: "find P (xs @ [x]) = orelse (find P xs) (if P x then Some x else None)"
  by (induction xs) (auto simp: orelse_def)

lemma orelse_simps [simp]: "orelse None b = b" "orelse (Some a) b = Some a"
  by (simp_all add: orelse_def)

definition selector :: "(nat \<Rightarrow> SymbolStrength) \<Rightarrow> nat list \<Rightarrow> SymbolPrioritySelector" where
  "selector st ids = fold (\<lambda>i. selector_consider i (st i)) ids selector_new"

lemma selector_snoc: "selector st (ids @ [i]) = selector_consider i (st i) (selector st ids)"
  by (simp add: selector_def)

lemma selector_strong: "first_strong (selector st ids) = strongest st ids"
  by (induction ids rule: rev_induct)
     (auto simp: selector_snoc strongest_def find_snoc, auto simp: selector_def selector_new_def selector_consider_def orelse_def
        split: SymbolStrength.splits option.splits)

lemma selector_weak: "first_weak (selector st ids) = weakest st ids"
  by (induction ids rule: rev_induct)
     (auto simp: selector_snoc weakest_def find_snoc, auto simp: selector_def selector_new_def selector_consider_def orelse_def
        split: SymbolStrength.splits option.splits)

text \<open>The common symbol kept is the first of the largest.\<close>

definition first_largest :: "(nat \<Rightarrow> SymbolStrength) \<Rightarrow> nat list \<Rightarrow> u64 \<Rightarrow> nat \<Rightarrow> bool" where
  "first_largest st ids n i \<longleftrightarrow>
     (\<exists>as bs. ids = as @ i # bs \<and> st i = Common n \<and> (\<forall>j \<in> set as. is_common (st j) \<longrightarrow> common_size (st j) < n) \<and>
              (\<forall>j \<in> set bs. common_size (st j) \<le> n))"

lemma common_size_zero: "\<not> is_common s \<Longrightarrow> common_size s = 0"
  by (cases s) simp_all

lemma first_largest_skip:
  "first_largest st ids n i \<Longrightarrow> common_size (st j) \<le> n \<Longrightarrow> first_largest st (ids @ [j]) n i"
  by (force simp: first_largest_def)

lemma first_largest_new:
  "st i = Common n \<Longrightarrow> \<forall>j \<in> set ids. is_common (st j) \<longrightarrow> common_size (st j) < n \<Longrightarrow> first_largest st (ids @ [i]) n i"
  by (force simp: first_largest_def)

lemma first_largest_le: "first_largest st ids n i \<Longrightarrow> j \<in> set ids \<Longrightarrow> common_size (st j) \<le> n"
  by (cases "is_common (st j)") (fastforce simp: first_largest_def, simp add: common_size_zero)

lemma selector_common:
  "case max_common (selector st ids) of
     None \<Rightarrow> \<forall>j \<in> set ids. \<not> is_common (st j)
   | Some (n, i) \<Rightarrow> first_largest st ids n i"
proof (induction ids rule: rev_induct)
  case Nil
  show ?case by (simp add: selector_def selector_new_def)
next
  case (snoc j ids)
  show ?case
  proof (cases "is_common (st j)")
    case False
    then have "max_common (selector st (ids @ [j])) = max_common (selector st ids)"
      by (cases "st j") (simp_all add: selector_snoc selector_consider_def)
    then show ?thesis using snoc False
      by (auto split: option.splits intro!: first_largest_skip simp: common_size_zero)
  next
    case True
    then obtain m where m: "st j = Common m" by (cases "st j") simp_all
    show ?thesis
    proof (cases "max_common (selector st ids)")
      case None
      then have "max_common (selector st (ids @ [j])) = Some (m, j)"
        by (simp add: selector_snoc selector_consider_def m)
      moreover have "\<forall>k \<in> set ids. \<not> is_common (st k)" using snoc None by simp
      ultimately show ?thesis by (simp add: first_largest_new m)
    next
      case (Some p)
      obtain n i where p: "p = (n, i)" by fastforce
      have fl: "first_largest st ids n i" using snoc Some p by simp
      show ?thesis
      proof (cases "m \<le> n")
        case True
        then show ?thesis using fl Some p by (simp add: selector_snoc selector_consider_def m first_largest_skip)
      next
        case False
        then have "\<forall>k \<in> set ids. common_size (st k) < m" using first_largest_le [OF fl] by fastforce
        then have "first_largest st (ids @ [j]) m j" by (intro first_largest_new) (simp_all add: m)
        then show ?thesis using False Some p by (simp add: selector_snoc selector_consider_def m)
      qed
    qed
  qed
qed

lemma find_middle: "\<forall>x \<in> set as. \<not> P x \<Longrightarrow> P i \<Longrightarrow> find P (as @ i # bs) = Some i"
  by (induction as) auto

lemma selector_largest: "map_option snd (max_common (selector st ids)) = largest st ids"
proof (cases "max_common (selector st ids)")
  case None
  then have "\<forall>j \<in> set ids. \<not> is_common (st j)" using selector_common [of ids st] by simp
  then have "largest st ids = None" by (auto simp: largest_def find_None_iff)
  then show ?thesis using None by simp
next
  case (Some p)
  obtain n i where p: "p = (n, i)" by fastforce
  have fl: "first_largest st ids n i" using selector_common [of ids st] Some p by simp
  then obtain as bs where split: "ids = as @ i # bs" "st i = Common n"
    "\<forall>j \<in> set as. is_common (st j) \<longrightarrow> common_size (st j) < n"
    by (auto simp: first_largest_def)
  have all: "list_all (\<lambda>j. common_size (st j) \<le> n) ids" using first_largest_le [OF fl] by (simp add: list_all_iff)
  define P where "P = (\<lambda>i. is_common (st i) \<and> list_all (\<lambda>j. common_size (st j) \<le> common_size (st i)) ids)"
  have "\<not> P j" if j: "j \<in> set as" for j
  proof
    assume P: "P j"
    then have "common_size (st i) \<le> common_size (st j)" by (simp add: P_def list_all_iff split(1))
    moreover have "common_size (st j) < n" using split(3) j P by (simp add: P_def)
    ultimately show False using split(2) by simp
  qed
  moreover have "P i" using all split(2) by (simp add: P_def)
  ultimately have "find P ids = Some i" unfolding split(1) by (intro find_middle) simp_all
  then have "largest st ids = Some i" by (simp add: largest_def P_def)
  then show ?thesis using Some p by simp
qed

lemma selector_best_rule:
  "selector_best (selector st ids) = orelse (strongest st ids) (orelse (largest st ids) (weakest st ids))"
  unfolding selector_best_def selector_strong selector_weak selector_largest [symmetric]
  by (auto split: option.splits simp: orelse_def)

section \<open>Selection\<close>

text \<open>What has to be known of a symbol for its lookups not to panic.\<close>

definition wf_db :: "SymbolDb \<Rightarrow> nat list \<Rightarrow> PerSymbolFlags \<Rightarrow> bool" where
  "wf_db db definitions fs \<longleftrightarrow>
     length definitions = length (symbol_file_ids db) \<and> length fs = length (symbol_file_ids db) \<and>
     (\<forall>f \<in> set (symbol_file_ids db). f < length (parsed db) \<and> f < length (resolved db))"

lemma wf_db_lookups:
  assumes "wf_db db definitions fs" "i < length definitions"
  shows "symbol_strength db i = Some (strength db i)" "is_in_comdat_group db i = Some (comdat db i)"
    "input_symbol_visibility db i \<noteq> None" "flags_for_symbol fs i = Some (fs ! i)"
    "i < length fs"
proof -
  have f: "file_id_for_symbol db i = Some (symbol_file_ids db ! i)" "symbol_file_ids db ! i < length (parsed db)"
    "symbol_file_ids db ! i < length (resolved db)"
    using assms by (auto simp: wf_db_def file_id_for_symbol_def index_def)
  show "symbol_strength db i = Some (strength db i)"
    using f(1,3) by (simp add: strength_def symbol_strength_def index_def)
  show "is_in_comdat_group db i = Some (comdat db i)"
    using f(1,3) by (auto simp: comdat_def is_in_comdat_group_def index_def)
  show "input_symbol_visibility db i \<noteq> None" using f(1,2) by (simp add: input_symbol_visibility_def index_def)
  show "flags_for_symbol fs i = Some (fs ! i)" "i < length fs" using assms by (auto simp: wf_db_def flags_for_symbol_def index_def)
qed

text \<open>A conflict among definitions of which \<open>own\<close> have been considered without one.\<close>

definition later_conflict :: "SymbolDb \<Rightarrow> nat list \<Rightarrow> nat list \<Rightarrow> bool" where
  "later_conflict db own later \<longleftrightarrow>
     \<not> allow_multiple_definitions db \<and>
     (\<exists>e. strongest (strength db) (own @ later) = Some e \<and>
          (\<exists>i \<in> set later. strength db i = Strong \<and> i \<noteq> e \<and> \<not> (comdat db e \<and> comdat db i)))"

lemma strongest_append: "strongest st (xs @ ys) = orelse (strongest st xs) (strongest st ys)"
  by (induction xs) (auto simp: strongest_def)

lemma strongest_in: "strongest st xs = Some e \<Longrightarrow> e \<in> set xs \<and> st e = Strong"
  by (auto simp: strongest_def find_Some_iff)

lemma check_duplicate_cases:
  assumes wf: "wf_db db definitions fs" and i: "i < length definitions" "i \<notin> set own" "\<forall>j \<in> set own. j < length definitions"
  shows "(\<exists>d. check_duplicate db (selector (strength db) own) i (strength db i) = Error d) \<and> later_conflict db own (i # later) \<or>
     check_duplicate db (selector (strength db) own) i (strength db i) = Ok () \<and>
     later_conflict db own (i # later) = later_conflict db (own @ [i]) later"
proof (cases "strongest (strength db) own")
  case None
  then show ?thesis
    by (cases "strength db i = Strong")
       (auto simp: check_duplicate_def selector_strong later_conflict_def strongest_append, auto simp: strongest_def)
next
  case (Some e)
  have e: "e \<in> set own" "e < length definitions" using strongest_in [OF Some] i(3) by auto
  have "e \<noteq> i" using e(1) i(2) by auto
  then show ?thesis
    using wf_db_lookups(2) [OF wf i(1)] wf_db_lookups(2) [OF wf e(2)] Some
    by (auto simp: check_duplicate_def selector_strong later_conflict_def strongest_append ensure_def split: if_splits)
qed

lemma select_from_spec:
  assumes "wf_db db definitions fs" "distinct (own @ ids)" "\<forall>i \<in> set (own @ ids). i < length definitions"
  shows "if later_conflict db own (own_definitions fs ids)
     then \<exists>d. select_from db fs ids (selector (strength db) own) = Error d
     else select_from db fs ids (selector (strength db) own) = Ok (selector (strength db) (own @ own_definitions fs ids))"
  using assms(2,3)
proof (induction ids arbitrary: own)
  case Nil
  show ?case by (simp add: later_conflict_def own_definitions_def)
next
  case (Cons i ids)
  note l = wf_db_lookups [OF assms(1), of i]
  show ?case
  proof (cases "is_dynamic (fs ! i)")
    case True
    then show ?thesis using Cons.IH [of own] Cons.prems l(4) by (simp add: own_definitions_def)
  next
    case False
    have own: "own_definitions fs (i # ids) = i # own_definitions fs ids" using False by (simp add: own_definitions_def)
    have IH: "if later_conflict db (own @ [i]) (own_definitions fs ids)
      then \<exists>d. select_from db fs ids (selector (strength db) (own @ [i])) = Error d
      else select_from db fs ids (selector (strength db) (own @ [i])) =
             Ok (selector (strength db) (own @ i # own_definitions fs ids))"
      using Cons.IH [of "own @ [i]"] Cons.prems by simp
    show ?thesis
      using check_duplicate_cases [OF assms(1), of i own "own_definitions fs ids"] Cons.prems IH l(1,4) False
      by (auto simp: own selector_snoc split: if_splits)
  qed
qed

lemma first_defined_find:
  assumes "wf_db db definitions fs" "\<forall>i \<in> set ids. i < length definitions"
  shows "first_defined db ids = Some (find (\<lambda>i. strength db i \<noteq> Undefined) ids)"
  using assms(2) by (induction ids) (auto simp: wf_db_lookups(1) [OF assms(1)])

text \<open>The selection fails exactly on a conflict, and otherwise follows the rule.\<close>

lemma select_symbol_spec:
  assumes wf: "wf_db db definitions fs" and "distinct (first # alternatives)" "\<forall>i \<in> set (first # alternatives). i < length definitions"
  shows "if conflicting db fs (first # alternatives) then \<exists>d. select_symbol db fs first alternatives = Error d
     else select_symbol db fs first alternatives = Ok (selected db fs (first # alternatives))"
proof -
  define ids where "ids = first # alternatives"
  have ids: "distinct ids" "\<forall>i \<in> set ids. i < length definitions" "hd ids = first" using assms by (auto simp: ids_def)
  have c: "conflicting db fs ids = later_conflict db [] (own_definitions fs ids)"
    by (auto simp: conflicting_def later_conflict_def list_all_iff split: option.splits)
  have new: "selector_new = selector (strength db) []" by (simp add: selector_def)
  have step: "if conflicting db fs ids then \<exists>d. select_from db fs ids selector_new = Error d
     else select_from db fs ids selector_new = Ok (selector (strength db) (own_definitions fs ids))"
    using select_from_spec [OF wf, of "[]" ids] ids(1,2) by (simp add: c new)
  show ?thesis
  proof (cases "conflicting db fs ids")
    case True
    then show ?thesis using step by (auto simp: select_symbol_def ids_def)
  next
    case False
    then have "select_from db fs ids selector_new = Ok (selector (strength db) (own_definitions fs ids))"
      using step by simp
    then have "select_symbol db fs first alternatives = Ok (selected db fs ids)"
      using first_defined_find [OF wf ids(2)] ids(3)
      unfolding select_symbol_def ids_def [symmetric] selected_def Let_def
      by (cases "find (\<lambda>i. strength db i \<noteq> Undefined) ids") (auto simp: selector_best_rule split: option.splits simp: orelse_def)
    then show ?thesis using False by (simp add: ids_def)
  qed
qed

lemma selected_in: "ids \<noteq> [] \<Longrightarrow> selected db fs ids \<in> set ids"
proof -
  assume ne: "ids \<noteq> []"
  have "find P xs = Some i \<Longrightarrow> i \<in> set xs" for P :: "nat \<Rightarrow> bool" and xs i by (auto simp: find_Some_iff)
  then show ?thesis using ne
    unfolding selected_def Let_def strongest_def largest_def weakest_def own_definitions_def
    by (fastforce simp: orelse_def)
qed

end
