(* ===== verification/Symbol_Alternatives.thy ===== *)
theory Symbol_Alternatives
  imports Symbol_Select "HOL-Library.Multiset"
begin

text \<open>
  The entries of the maps of alternatives, processed in any order: when no symbol is in two of them,
  each name gets the definition and the visibility that its own definitions ask for.
\<close>

section \<open>One entry\<close>

definition entry_ids :: "nat \<times> nat list \<Rightarrow> nat list" where
  "entry_ids e = fst e # snd e"

definition visibility_of :: "SymbolDb \<Rightarrow> nat \<Rightarrow> Visibility" where
  "visibility_of db i = (case input_symbol_visibility db i of None \<Rightarrow> Default | Some v \<Rightarrow> v)"

definition merged_visibility :: "SymbolDb \<Rightarrow> nat list \<Rightarrow> Visibility" where
  "merged_visibility db ids = fold (\<lambda>i v. max v (visibility_of db i)) ids Default"

definition with_visibility :: "Visibility \<Rightarrow> ValueFlags \<Rightarrow> ValueFlags" where
  "with_visibility v flags = (if contains flags DYNAMIC then flags else flags OR visibility_flags v)"

lemma wf_visibility:
  "wf_db db definitions fs \<Longrightarrow> i < length definitions \<Longrightarrow> input_symbol_visibility db i = Some (visibility_of db i)"
  using wf_db_lookups(3) [of db definitions fs i] by (auto simp: visibility_of_def)

lemma merge_visibility_fold:
  assumes "wf_db db definitions fs" "\<forall>i \<in> set ids. i < length definitions"
  shows "merge_visibility db ids v = Some (fold (\<lambda>i v. max v (visibility_of db i)) ids v)"
  using assms(2) by (induction ids arbitrary: v) (simp_all add: wf_visibility [OF assms(1)])

text \<open>A list with the elements at some positions changed.\<close>

definition changed_at :: "nat list \<Rightarrow> (nat \<Rightarrow> 'a) \<Rightarrow> 'a list \<Rightarrow> 'a list \<Rightarrow> bool" where
  "changed_at ids f xs ys \<longleftrightarrow>
     length ys = length xs \<and> (\<forall>i < length xs. ys ! i = (if i \<in> set ids then f i else xs ! i))"

lemma changed_at_none: "changed_at [] f xs xs"
  by (simp add: changed_at_def)

lemma changed_at_cons:
  "changed_at ids f (xs[i := f i]) ys \<Longrightarrow> i < length xs \<Longrightarrow> changed_at (i # ids) f xs ys"
  by (auto simp: changed_at_def nth_list_update)

lemma update_definitions_spec:
  "\<forall>i \<in> set ids. i < length xs \<Longrightarrow> \<exists>ys. update_definitions ids s xs = Some ys \<and> changed_at ids (\<lambda>_. s) xs ys"
proof (induction ids arbitrary: xs)
  case Nil
  then show ?case by (simp add: changed_at_none)
next
  case (Cons i ids)
  then have "\<exists>ys. update_definitions ids s (xs[i := s]) = Some ys \<and> changed_at ids (\<lambda>_. s) (xs[i := s]) ys" by simp
  then show ?case using Cons.prems by (auto simp: store_def intro: changed_at_cons)
qed

lemma handle_visibility_step:
  assumes "i < length fs"
  shows "handle_non_default_visibility i v fs = Some (fs[i := with_visibility v (fs ! i)])"
  using assms by (cases v)
    (simp_all add: handle_non_default_visibility_def with_visibility_def index_def store_def atomic_or_assign_def
       atomic_fetch_or_def visibility_flags_def)

lemma update_visibilities_spec:
  assumes "\<forall>i \<in> set ids. i < length fs" "distinct ids" "\<forall>i \<in> set ids. fs ! i = gs ! i"
  shows "\<exists>hs. update_visibilities ids v fs = Some hs \<and> changed_at ids (\<lambda>i. with_visibility v (gs ! i)) fs hs"
  using assms
proof (induction ids arbitrary: fs)
  case Nil
  then show ?case by (simp add: changed_at_none)
next
  case (Cons i ids)
  have "\<exists>hs. update_visibilities ids v (fs[i := with_visibility v (gs ! i)]) = Some hs \<and>
      changed_at ids (\<lambda>i. with_visibility v (gs ! i)) (fs[i := with_visibility v (gs ! i)]) hs"
    by (rule Cons.IH) (use Cons.prems in \<open>auto simp: nth_list_update\<close>)
  then show ?case using Cons.prems
    by (auto simp: handle_visibility_step intro: changed_at_cons [of ids "\<lambda>i. with_visibility v (gs ! i)"])
qed

lemma with_visibility_Default [simp]: "with_visibility Default flags = flags"
  by (simp add: with_visibility_def visibility_flags_def)

lemma max_Default [simp]: "max Default v = v"
  by (cases v) (simp_all add: max_def less_eq_Visibility_def)

text \<open>The two outcomes of an entry whose symbols have not been changed before.\<close>

lemma process_entry_spec:
  fixes e :: "nat \<times> nat list"
  assumes wf: "wf_db db definitions fs" and ids: "distinct (entry_ids e)" "\<forall>i \<in> set (entry_ids e). i < length definitions"
    and same: "\<forall>i \<in> set (entry_ids e). fs ! i = fs0 ! i"
  shows "if conflicting db fs0 (entry_ids e) then \<exists>d. process_entry db e (definitions, fs, errors) = Some (definitions, fs, errors @ [d])
     else \<exists>definitions' fs'. process_entry db e (definitions, fs, errors) = Some (definitions', fs', errors) \<and>
       changed_at (entry_ids e) (\<lambda>_. selected db fs0 (entry_ids e)) definitions definitions' \<and>
       changed_at (entry_ids e) (\<lambda>i. with_visibility (merged_visibility db (entry_ids e)) (fs0 ! i)) fs fs'"
proof -
  obtain first alternatives where e: "e = (first, alternatives)" by fastforce
  have ids': "entry_ids e = first # alternatives" by (simp add: entry_ids_def e)
  have own: "own_definitions fs (first # alternatives) = own_definitions fs0 (first # alternatives)"
    unfolding own_definitions_def using same by (intro filter_cong) (auto simp: ids')
  have conf: "conflicting db fs (first # alternatives) = conflicting db fs0 (first # alternatives)"
    "selected db fs (first # alternatives) = selected db fs0 (first # alternatives)"
    by (simp_all only: conflicting_def selected_def own)
  have sel: "if conflicting db fs0 (entry_ids e) then \<exists>d. select_symbol db fs first alternatives = Error d
      else select_symbol db fs first alternatives = Ok (selected db fs0 (entry_ids e))"
    using select_symbol_spec [OF wf, of first alternatives] ids unfolding ids' conf .
  have merged: "merge_visibility db alternatives (visibility_of db first) = Some (merged_visibility db (entry_ids e))"
    using merge_visibility_fold [OF wf, of alternatives] ids by (simp add: merged_visibility_def ids')
  note vis = wf_visibility [OF wf, of first]
  have "first < length definitions" using ids(2) by (simp add: ids')
  note start = merged vis [OF this]
  show ?thesis
  proof (cases "conflicting db fs0 (entry_ids e)")
    case True
    then obtain d where "select_symbol db fs first alternatives = Error d" using sel by auto
    then have "process_entry db e (definitions, fs, errors) = Some (definitions, fs, errors @ [d])"
      using start by (simp add: process_entry_def e)
    then show ?thesis using True by simp
  next
    case False
    define v where "v = merged_visibility db (entry_ids e)"
    obtain ys where ys: "update_definitions (entry_ids e) (selected db fs0 (entry_ids e)) definitions = Some ys"
      "changed_at (entry_ids e) (\<lambda>_. selected db fs0 (entry_ids e)) definitions ys"
      using update_definitions_spec [OF ids(2)] by blast
    have "\<forall>i \<in> set (entry_ids e). i < length fs" using ids(2) wf by (simp add: wf_db_def)
    then obtain hs where hs: "update_visibilities (entry_ids e) v fs = Some hs"
      "changed_at (entry_ids e) (\<lambda>i. with_visibility v (fs0 ! i)) fs hs"
      using update_visibilities_spec [OF _ ids(1) same] by blast
    have "changed_at (entry_ids e) (\<lambda>i. with_visibility v (fs0 ! i)) fs fs" if "v = Default"
      using same that by (simp add: changed_at_def)
    then have "\<exists>fs'. (if v \<noteq> Default then update_visibilities (entry_ids e) v fs else Some fs) = Some fs' \<and>
        changed_at (entry_ids e) (\<lambda>i. with_visibility v (fs0 ! i)) fs fs'"
      using hs by auto
    then obtain fs' where fs': "(if v \<noteq> Default then update_visibilities (entry_ids e) v fs else Some fs) = Some fs'"
      "changed_at (entry_ids e) (\<lambda>i. with_visibility v (fs0 ! i)) fs fs'"
      by blast
    have "select_symbol db fs first alternatives = Ok (selected db fs0 (entry_ids e))" using sel False by simp
    then have "process_entry db e (definitions, fs, errors) = Some (ys, fs', errors)"
      using ys(1) fs'(1) start unfolding ids' v_def
      by (simp add: process_entry_def e del: update_definitions.simps update_visibilities.simps)
    then show ?thesis using False ys(2) fs'(2) by (simp add: v_def)
  qed
qed

section \<open>All entries\<close>

definition disjoint_entries :: "(nat \<times> nat list) list \<Rightarrow> bool" where
  "disjoint_entries entries \<longleftrightarrow> distinct (concat (map entry_ids entries))"

lemma changed_at_trans:
  assumes "changed_at as f xs ys" "changed_at bs f ys zs"
  shows "changed_at (as @ bs) f xs zs"
  using assms by (auto simp: changed_at_def)

lemma changed_at_cong:
  "changed_at ids f xs ys \<Longrightarrow> (\<And>i. i \<in> set ids \<Longrightarrow> f i = g i) \<Longrightarrow> changed_at ids g xs ys"
  by (auto simp: changed_at_def)

text \<open>The entry that a symbol is in.\<close>

definition entry_with :: "(nat \<times> nat list) list \<Rightarrow> nat \<Rightarrow> nat list" where
  "entry_with entries i = (case find (\<lambda>e. i \<in> set (entry_ids e)) entries of None \<Rightarrow> [] | Some e \<Rightarrow> entry_ids e)"

lemma entry_with_eq:
  "disjoint_entries entries \<Longrightarrow> e \<in> set entries \<Longrightarrow> i \<in> set (entry_ids e) \<Longrightarrow> entry_with entries i = entry_ids e"
  by (induction entries) (auto simp: entry_with_def disjoint_entries_def)

lemma wf_changed: "wf_db db definitions fs \<Longrightarrow> changed_at ids f definitions definitions' \<Longrightarrow> changed_at ids' g fs fs' \<Longrightarrow>
    wf_db db definitions' fs'"
  by (simp add: wf_db_def changed_at_def)

text \<open>What becomes of the definitions and flags when no entry has a conflict.\<close>

definition resolved_to ::
    "SymbolDb \<Rightarrow> PerSymbolFlags \<Rightarrow> (nat \<times> nat list) list \<Rightarrow> nat list \<Rightarrow> PerSymbolFlags \<Rightarrow> nat list \<Rightarrow> PerSymbolFlags \<Rightarrow> bool" where
  "resolved_to db fs0 entries definitions fs definitions' fs' \<longleftrightarrow>
     changed_at (concat (map entry_ids entries)) (\<lambda>i. selected db fs0 (entry_with entries i)) definitions definitions' \<and>
     changed_at (concat (map entry_ids entries))
       (\<lambda>i. with_visibility (merged_visibility db (entry_with entries i)) (fs0 ! i)) fs fs'"

lemma resolved_to_cons:
  assumes "disjoint_entries (e # entries)"
    and d: "changed_at (entry_ids e) (\<lambda>_. selected db fs0 (entry_ids e)) definitions ds"
      "changed_at (entry_ids e) (\<lambda>i. with_visibility (merged_visibility db (entry_ids e)) (fs0 ! i)) fs gs"
    and r: "resolved_to db fs0 entries ds gs ds' gs'"
  shows "resolved_to db fs0 (e # entries) definitions fs ds' gs'"
proof -
  let ?s = "\<lambda>i. selected db fs0 (entry_with (e # entries) i)"
  let ?v = "\<lambda>i. with_visibility (merged_visibility db (entry_with (e # entries) i)) (fs0 ! i)"
  have hd: "entry_with (e # entries) i = entry_ids e" if "i \<in> set (entry_ids e)" for i
    using that by (simp add: entry_with_def)
  have tl: "entry_with (e # entries) i = entry_with entries i" if "i \<in> set (concat (map entry_ids entries))" for i
    using that assms(1) by (auto simp: entry_with_def disjoint_entries_def)
  have "changed_at (entry_ids e) ?s definitions ds" by (rule changed_at_cong [OF d(1)]) (simp only: hd)
  moreover have "changed_at (entry_ids e) ?v fs gs" by (rule changed_at_cong [OF d(2)]) (simp only: hd)
  moreover have "changed_at (concat (map entry_ids entries)) ?s ds ds'"
    by (rule changed_at_cong [OF conjunct1 [OF r [unfolded resolved_to_def]]]) (simp only: tl)
  moreover have "changed_at (concat (map entry_ids entries)) ?v gs gs'"
    by (rule changed_at_cong [OF conjunct2 [OF r [unfolded resolved_to_def]]]) (simp only: tl)
  ultimately show ?thesis
    using changed_at_trans [of "entry_ids e" ?s definitions ds] changed_at_trans [of "entry_ids e" ?v fs gs]
    by (simp only: resolved_to_def list.map concat.simps)
qed

lemma process_alternatives_conflict:
  assumes "wf_db db definitions fs" "disjoint_entries entries"
    "\<forall>e \<in> set entries. \<forall>i \<in> set (entry_ids e). i < length definitions \<and> fs ! i = fs0 ! i"
  shows "\<exists>definitions' fs' errors'. process_alternatives db entries (definitions, fs, errors) = Some (definitions', fs', errors @ errors') \<and>
     (if \<exists>e \<in> set entries. conflicting db fs0 (entry_ids e) then errors' \<noteq> []
      else errors' = [] \<and> resolved_to db fs0 entries definitions fs definitions' fs')"
  using assms
proof (induction entries arbitrary: definitions fs errors)
  case Nil
  then show ?case by (simp add: resolved_to_def changed_at_none)
next
  case (Cons e entries)
  have dis: "distinct (entry_ids e)" "disjoint_entries entries" "set (entry_ids e) \<inter> set (concat (map entry_ids entries)) = {}"
    using Cons.prems(2) by (auto simp: disjoint_entries_def)
  have e: "\<forall>i \<in> set (entry_ids e). i < length definitions" "\<forall>i \<in> set (entry_ids e). fs ! i = fs0 ! i" using Cons.prems(3) by simp_all
  note pe = process_entry_spec [OF Cons.prems(1) dis(1) e, of errors]
  show ?case
  proof (cases "conflicting db fs0 (entry_ids e)")
    case True
    then obtain d where d: "process_entry db e (definitions, fs, errors) = Some (definitions, fs, errors @ [d])" using pe by auto
    have "\<forall>e \<in> set entries. \<forall>i \<in> set (entry_ids e). i < length definitions \<and> fs ! i = fs0 ! i" using Cons.prems(3) by simp
    then obtain ds gs errors' where
      "process_alternatives db entries (definitions, fs, errors @ [d]) = Some (ds, gs, (errors @ [d]) @ errors')"
      using Cons.IH [OF Cons.prems(1) dis(2), of "errors @ [d]"] by blast
    then have "process_alternatives db (e # entries) (definitions, fs, errors) = Some (ds, gs, errors @ (d # errors'))"
      using d by simp
    then show ?thesis using True by (intro exI [of _ ds] exI [of _ gs] exI [of _ "d # errors'"]) simp
  next
    case False
    obtain ds gs where d: "process_entry db e (definitions, fs, errors) = Some (ds, gs, errors)"
      "changed_at (entry_ids e) (\<lambda>_. selected db fs0 (entry_ids e)) definitions ds"
      "changed_at (entry_ids e) (\<lambda>i. with_visibility (merged_visibility db (entry_ids e)) (fs0 ! i)) fs gs"
      using pe False by auto
    have wf: "wf_db db ds gs" using wf_changed [OF Cons.prems(1) d(2,3)] .
    have rest: "\<forall>e \<in> set entries. \<forall>i \<in> set (entry_ids e). i < length ds \<and> gs ! i = fs0 ! i"
    proof (intro ballI)
      fix e' i assume i: "e' \<in> set entries" "i \<in> set (entry_ids e')"
      then have "i \<notin> set (entry_ids e)" using dis(3) by auto
      moreover have "i < length definitions" "fs ! i = fs0 ! i" using Cons.prems(3) i by auto
      moreover have "length ds = length definitions" "length fs = length definitions"
        using d(2) Cons.prems(1) by (auto simp: changed_at_def wf_db_def)
      ultimately show "i < length ds \<and> gs ! i = fs0 ! i" using d(3) by (simp add: changed_at_def)
    qed
    obtain ds' gs' errors' where r: "process_alternatives db entries (ds, gs, errors) = Some (ds', gs', errors @ errors')"
      "if \<exists>e \<in> set entries. conflicting db fs0 (entry_ids e) then errors' \<noteq> []
       else errors' = [] \<and> resolved_to db fs0 entries ds gs ds' gs'"
      using Cons.IH [OF wf dis(2) rest] by blast
    have p: "process_alternatives db (e # entries) (definitions, fs, errors) = Some (ds', gs', errors @ errors')"
      using d(1) r(1) by simp
    show ?thesis
    proof (cases "\<exists>e \<in> set entries. conflicting db fs0 (entry_ids e)")
      case True
      then have "errors' \<noteq> []" using r(2) by simp
      then show ?thesis using p True by (intro exI [of _ ds'] exI [of _ gs'] exI [of _ errors']) simp
    next
      case c: False
      then have "errors' = []" "resolved_to db fs0 entries ds gs ds' gs'" using r(2) by simp_all
      then show ?thesis using p c False resolved_to_cons [OF Cons.prems(2) d(2,3)]
        by (intro exI [of _ ds'] exI [of _ gs'] exI [of _ errors']) simp
    qed
  qed
qed

text \<open>The result for any order of disjoint entries.\<close>

lemma process_alternatives_total:
  assumes "wf_db db definitions fs"
    "\<And>e. e \<in> set entries \<Longrightarrow> distinct (entry_ids e) \<and> (\<forall>i \<in> set (entry_ids e). i < length definitions)"
  shows "\<exists>st. process_alternatives db entries (definitions, fs, errors) = Some st"
  using assms
proof (induction entries arbitrary: definitions fs errors)
  case (Cons e entries)
  have e: "distinct (entry_ids e)" "\<forall>i \<in> set (entry_ids e). i < length definitions" using Cons.prems(2) [of e] by simp_all
  obtain ds gs es where st: "process_entry db e (definitions, fs, errors) = Some (ds, gs, es)"
    "wf_db db ds gs" "length ds = length definitions"
  proof (cases "conflicting db fs (entry_ids e)")
    case True
    with process_entry_spec [OF Cons.prems(1) e, of fs errors] Cons.prems(1) that show ?thesis by auto
  next
    case False
    with process_entry_spec [OF Cons.prems(1) e, of fs errors] obtain ds gs where
      d: "process_entry db e (definitions, fs, errors) = Some (ds, gs, errors)"
      "changed_at (entry_ids e) (\<lambda>_. selected db fs (entry_ids e)) definitions ds"
      "changed_at (entry_ids e) (\<lambda>i. with_visibility (merged_visibility db (entry_ids e)) (fs ! i)) fs gs" by auto
    with that [OF d(1) wf_changed [OF Cons.prems(1) d(2,3)]] show ?thesis by (simp add: changed_at_def)
  qed
  have "\<exists>st. process_alternatives db entries (ds, gs, es) = Some st"
  proof (rule Cons.IH [OF st(2)])
    fix e' assume "e' \<in> set entries"
    then show "distinct (entry_ids e') \<and> (\<forall>i \<in> set (entry_ids e'). i < length ds)"
      using Cons.prems(2) [of e'] st(3) by simp
  qed
  with st(1) show ?case by simp
qed simp

definition entry_resolved ::
    "SymbolDb \<Rightarrow> PerSymbolFlags \<Rightarrow> nat list \<Rightarrow> nat list \<Rightarrow> PerSymbolFlags \<Rightarrow> bool" where
  "entry_resolved db fs ids definitions' fs' \<longleftrightarrow>
     (\<forall>i \<in> set ids. definitions' ! i = selected db fs ids \<and> fs' ! i = with_visibility (merged_visibility db ids) (fs ! i))"

lemma resolve_alternatives_spec:
  assumes wf: "wf_db db definitions fs" and dis: "disjoint_entries entries"
    and dom: "\<forall>e \<in> set entries. \<forall>i \<in> set (entry_ids e). i < length definitions" and order: "mset schedule = mset entries"
  shows "if \<exists>e \<in> set entries. conflicting db fs (entry_ids e)
     then \<exists>errors. resolve_alternative_symbol_definitions db schedule definitions fs = Error errors
     else \<exists>definitions' fs'. resolve_alternative_symbol_definitions db schedule definitions fs = Ok (definitions', fs') \<and>
       length definitions' = length definitions \<and> length fs' = length fs \<and>
       (\<forall>e \<in> set entries. entry_resolved db fs (entry_ids e) definitions' fs') \<and>
       (\<forall>i < length definitions. (\<forall>e \<in> set entries. i \<notin> set (entry_ids e)) \<longrightarrow>
          definitions' ! i = definitions ! i \<and> fs' ! i = fs ! i)"
proof -
  have set: "set schedule = set entries" using mset_eq_setD [OF order] .
  have "mset (map entry_ids schedule) = mset (map entry_ids entries)" using order by (simp only: mset_map)
  then have "mset (concat (map entry_ids schedule)) = mset (concat (map entry_ids entries))"
    by (metis mset_concat mset_map sum_mset_sum_list)
  then have dis': "disjoint_entries schedule"
    using dis mset_eq_imp_distinct_iff unfolding disjoint_entries_def by blast
  have dom': "\<forall>e \<in> set schedule. \<forall>i \<in> set (entry_ids e). i < length definitions \<and> fs ! i = fs ! i" using dom set by simp
  obtain ds gs errors' where r: "process_alternatives db schedule (definitions, fs, []) = Some (ds, gs, [] @ errors')"
    "if \<exists>e \<in> set schedule. conflicting db fs (entry_ids e) then errors' \<noteq> []
     else errors' = [] \<and> resolved_to db fs schedule definitions fs ds gs"
    using process_alternatives_conflict [OF wf dis' dom', of "[]"] by blast
  show ?thesis
  proof (cases "\<exists>e \<in> set entries. conflicting db fs (entry_ids e)")
    case True
    then show ?thesis using r by (simp add: resolve_alternative_symbol_definitions_def set)
  next
    case False
    then have e: "errors' = []" "resolved_to db fs schedule definitions fs ds gs" using r(2) by (simp_all add: set)
    note c = e(2) [unfolded resolved_to_def changed_at_def]
    have len: "length fs = length definitions" using wf by (simp add: wf_db_def)
    have "entry_resolved db fs (entry_ids e) ds gs" if en: "e \<in> set entries" for e
      unfolding entry_resolved_def
    proof
      fix i assume i: "i \<in> set (entry_ids e)"
      have "i < length definitions" using dom en i by blast
      moreover have "i \<in> set (concat (map entry_ids schedule))" using en i set by auto
      moreover have "entry_with schedule i = entry_ids e" using entry_with_eq [OF dis' _ i] en set by simp
      ultimately show "ds ! i = selected db fs (entry_ids e) \<and> gs ! i = with_visibility (merged_visibility db (entry_ids e)) (fs ! i)"
        using c len by simp
    qed
    moreover have "ds ! i = definitions ! i \<and> gs ! i = fs ! i"
      if i: "i < length definitions" "\<forall>e \<in> set entries. i \<notin> set (entry_ids e)" for i
    proof -
      have "i \<notin> set (concat (map entry_ids schedule))" using i(2) set by auto
      then show ?thesis using c len i(1) by simp
    qed
    moreover have "resolve_alternative_symbol_definitions db schedule definitions fs = Ok (ds, gs)"
      using r(1) e(1) by (simp add: resolve_alternative_symbol_definitions_def)
    moreover have "length ds = length definitions" "length gs = length fs" using c by simp_all
    ultimately show ?thesis using False by (simp only: if_False outcome.inject prod.inject) blast
  qed
qed

end
