(* ===== verification/Symbol_Buckets.thy ===== *)
theory Symbol_Buckets
  imports Symbol_Alternatives
begin

text \<open>
  From the symbols that the inputs define to the buckets: each name is found, and its definitions are
  recorded in the order in which they were loaded.
\<close>

section \<open>Loading\<close>

text \<open>A global symbol as a loader hands it over.\<close>

type_synonym pending = "symbol_key \<times> nat"

definition add_pending :: "(bytes \<Rightarrow> u64) \<Rightarrow> pending \<Rightarrow> SymbolLoadOutputs \<Rightarrow> SymbolLoadOutputs option" where
  "add_pending hash_bytes p outputs =
     (case fst p of
        Unversioned n \<Rightarrow> add_non_versioned hash_bytes (snd p, n) outputs
      | Versioned n \<Rightarrow> add_versioned hash_bytes (snd p, n) outputs)"

fun load_pending :: "(bytes \<Rightarrow> u64) \<Rightarrow> pending list \<Rightarrow> SymbolLoadOutputs \<Rightarrow> SymbolLoadOutputs option" where
  "load_pending hash_bytes [] outputs = Some outputs"
| "load_pending hash_bytes (p # ps) outputs =
     do { outputs \<leftarrow> add_pending hash_bytes p outputs; load_pending hash_bytes ps outputs }"

definition empty_pending :: PendingSymbolHashBucket where
  "empty_pending = \<lparr>pending_symbols = [], pending_versioned_symbols = []\<rparr>"

text \<open>\<open>read_symbols_for_group\<close>, given what its loaders hand over, and \<open>read_symbols\<close> for all groups.\<close>

definition read_symbols_for_group :: "(bytes \<Rightarrow> u64) \<Rightarrow> nat \<Rightarrow> pending list \<Rightarrow> SymbolLoadOutputs option" where
  "read_symbols_for_group hash_bytes num_buckets ps = load_pending hash_bytes ps (replicate num_buckets empty_pending)"

fun read_symbols :: "(bytes \<Rightarrow> u64) \<Rightarrow> nat \<Rightarrow> pending list list \<Rightarrow> SymbolLoadOutputs list option" where
  "read_symbols hash_bytes num_buckets [] = Some []"
| "read_symbols hash_bytes num_buckets (g # groups) =
     do { outputs \<leftarrow> read_symbols_for_group hash_bytes num_buckets g;
          rest \<leftarrow> read_symbols hash_bytes num_buckets groups;
          Some (outputs # rest) }"

definition key_hash :: "(bytes \<Rightarrow> u64) \<Rightarrow> symbol_key \<Rightarrow> u64" where
  "key_hash hash_bytes key = (case key of Unversioned n \<Rightarrow> hash_bytes n | Versioned n \<Rightarrow> versioned_hash hash_bytes n)"

text \<open>The symbols without and with a version, and those of them that a bucket gets.\<close>

fun unversioned :: "pending list \<Rightarrow> PendingSymbol list" where
  "unversioned [] = []"
| "unversioned ((Unversioned n, i) # ps) = (i, n) # unversioned ps"
| "unversioned ((Versioned n, i) # ps) = unversioned ps"

fun versioned :: "pending list \<Rightarrow> PendingVersionedSymbol list" where
  "versioned [] = []"
| "versioned ((Unversioned n, i) # ps) = versioned ps"
| "versioned ((Versioned n, i) # ps) = (i, n) # versioned ps"

lemma unversioned_append: "unversioned (ps @ qs) = unversioned ps @ unversioned qs"
  by (induction ps rule: unversioned.induct) simp_all

lemma versioned_append: "versioned (ps @ qs) = versioned ps @ versioned qs"
  by (induction ps rule: versioned.induct) simp_all

definition bucket_symbols :: "(bytes \<Rightarrow> u64) \<Rightarrow> nat \<Rightarrow> nat \<Rightarrow> pending list \<Rightarrow> PendingSymbol list" where
  "bucket_symbols hash_bytes n b ps = filter (\<lambda>(i, s). bucket_of (hash_bytes s) n = b) (unversioned ps)"

definition bucket_versioned :: "(bytes \<Rightarrow> u64) \<Rightarrow> nat \<Rightarrow> nat \<Rightarrow> pending list \<Rightarrow> PendingVersionedSymbol list" where
  "bucket_versioned hash_bytes n b ps = filter (\<lambda>(i, s). bucket_of (versioned_hash hash_bytes s) n = b) (versioned ps)"

lemma bucket_of_less: "0 < n \<Longrightarrow> bucket_of h n < n"
  by (simp add: bucket_of_def)

lemma load_pending_spec:
  assumes "0 < n" "length outputs = n"
  shows "\<exists>outputs'. load_pending hash_bytes ps outputs = Some outputs' \<and> length outputs' = n \<and>
     (\<forall>b < n. pending_symbols (outputs' ! b) = pending_symbols (outputs ! b) @ bucket_symbols hash_bytes n b ps \<and>
        pending_versioned_symbols (outputs' ! b) =
          pending_versioned_symbols (outputs ! b) @ bucket_versioned hash_bytes n b ps)"
  using assms(2)
proof (induction ps arbitrary: outputs)
  case Nil
  then show ?case by (simp add: bucket_symbols_def bucket_versioned_def)
next
  case (Cons p ps)
  obtain key i where p: "p = (key, i)" by fastforce
  show ?case
  proof (cases key)
    case (Unversioned s)
    let ?b = "bucket_of (hash_bytes s) n"
    let ?o = "outputs[?b := (outputs ! ?b)\<lparr>pending_symbols := pending_symbols (outputs ! ?b) @ [(i, s)]\<rparr>]"
    have "add_pending hash_bytes p outputs = Some ?o"
      using Cons.prems assms(1) by (simp add: add_pending_def p Unversioned add_non_versioned_def index_def store_def bucket_of_less Let_def)
    moreover obtain outputs' where "load_pending hash_bytes ps ?o = Some outputs'" "length outputs' = n"
      "\<forall>b < n. pending_symbols (outputs' ! b) = pending_symbols (?o ! b) @ bucket_symbols hash_bytes n b ps \<and>
         pending_versioned_symbols (outputs' ! b) = pending_versioned_symbols (?o ! b) @ bucket_versioned hash_bytes n b ps"
      using Cons.IH [of ?o] Cons.prems by auto
    ultimately show ?thesis using Cons.prems
      by (auto simp: p Unversioned bucket_symbols_def bucket_versioned_def nth_list_update)
  next
    case (Versioned s)
    let ?b = "bucket_of (versioned_hash hash_bytes s) n"
    let ?o = "outputs[?b := (outputs ! ?b)\<lparr>pending_versioned_symbols := pending_versioned_symbols (outputs ! ?b) @ [(i, s)]\<rparr>]"
    have "add_pending hash_bytes p outputs = Some ?o"
      using Cons.prems assms(1) by (simp add: add_pending_def p Versioned add_versioned_def index_def store_def bucket_of_less Let_def)
    moreover obtain outputs' where "load_pending hash_bytes ps ?o = Some outputs'" "length outputs' = n"
      "\<forall>b < n. pending_symbols (outputs' ! b) = pending_symbols (?o ! b) @ bucket_symbols hash_bytes n b ps \<and>
         pending_versioned_symbols (outputs' ! b) = pending_versioned_symbols (?o ! b) @ bucket_versioned hash_bytes n b ps"
      using Cons.IH [of ?o] Cons.prems by auto
    ultimately show ?thesis using Cons.prems
      by (auto simp: p Versioned bucket_symbols_def bucket_versioned_def nth_list_update)
  qed
qed

definition group_outputs :: "(bytes \<Rightarrow> u64) \<Rightarrow> nat \<Rightarrow> pending list \<Rightarrow> SymbolLoadOutputs \<Rightarrow> bool" where
  "group_outputs hash_bytes n g outputs \<longleftrightarrow>
     length outputs = n \<and>
     (\<forall>b < n. pending_symbols (outputs ! b) = bucket_symbols hash_bytes n b g \<and>
        pending_versioned_symbols (outputs ! b) = bucket_versioned hash_bytes n b g)"

lemma read_symbols_spec:
  assumes "0 < n"
  shows "\<exists>outs. read_symbols hash_bytes n groups = Some outs \<and> list_all2 (group_outputs hash_bytes n) groups outs"
proof (induction groups)
  case (Cons g groups)
  obtain outputs where "read_symbols_for_group hash_bytes n g = Some outputs" "group_outputs hash_bytes n g outputs"
    using load_pending_spec [OF assms, of "replicate n empty_pending" hash_bytes g]
    by (auto simp: read_symbols_for_group_def group_outputs_def empty_pending_def)
  then show ?case using Cons by auto
qed simp

section \<open>The table of a bucket\<close>

text \<open>The part of a bucket that is for one kind of name.\<close>

type_synonym 'n table = "('n \<rightharpoonup> nat) \<times> (nat \<times> nat list) list"

definition add_entry :: "nat \<times> 'n \<Rightarrow> 'n table \<Rightarrow> 'n table" where
  "add_entry p t =
     (case fst t (snd p) of
        Some first \<Rightarrow> (fst t, push_alternative first (fst p) (snd t))
      | None \<Rightarrow> ((fst t)(snd p \<mapsto> fst p), snd t))"

definition symbol_table :: "SymbolBucket \<Rightarrow> bytes table" where
  "symbol_table b = (name_to_id b, alternative_definitions b)"

definition versioned_table :: "SymbolBucket \<Rightarrow> VersionedSymbolName table" where
  "versioned_table b = (versioned_name_to_id b, alternative_versioned_definitions b)"

lemma add_symbol_table:
  "symbol_table (fold add_symbol ps b) = fold add_entry ps (symbol_table b)"
  "versioned_table (fold add_symbol ps b) = versioned_table b"
  by (induction ps arbitrary: b)
     (auto simp: symbol_table_def versioned_table_def add_symbol_def add_entry_def add_extra_symbol_definition_def split: option.splits)

lemma add_versioned_table:
  "versioned_table (fold add_versioned_symbol ps b) = fold add_entry ps (versioned_table b)"
  "symbol_table (fold add_versioned_symbol ps b) = symbol_table b"
  by (induction ps arbitrary: b)
     (auto simp: symbol_table_def versioned_table_def add_versioned_symbol_def add_entry_def split: option.splits)

definition table_of :: "(nat \<times> 'n) list \<Rightarrow> 'n table" where
  "table_of ps = fold add_entry ps (Map.empty, [])"

definition ids_with :: "'n \<Rightarrow> (nat \<times> 'n) list \<Rightarrow> nat list" where
  "ids_with n ps = map fst (filter (\<lambda>p. snd p = n) ps)"

lemma ids_with_set: "i \<in> set (ids_with n ps) \<longleftrightarrow> (i, n) \<in> set ps"
  by (force simp: ids_with_def)

lemma map_of_push:
  "map_of (push_alternative f i alts) =
     (map_of alts)(f \<mapsto> (case map_of alts f of None \<Rightarrow> [i] | Some ids \<Rightarrow> ids @ [i]))"
  by (induction f i alts rule: push_alternative.induct) (auto simp: fun_eq_iff)

lemma keys_push: "set (map fst (push_alternative f i alts)) = insert f (set (map fst alts))"
  by (induction f i alts rule: push_alternative.induct) auto

lemma distinct_push: "distinct (map fst alts) \<Longrightarrow> distinct (map fst (push_alternative f i alts))"
proof (induction f i alts rule: push_alternative.induct)
  case (2 f i k ids alts)
  then show ?case using keys_push [of f i alts] by auto
qed simp

text \<open>Every name leads to its first symbol, and the alternatives of that are the others.\<close>

definition table_ok :: "(nat \<times> 'n) list \<Rightarrow> 'n table \<Rightarrow> bool" where
  "table_ok ps t \<longleftrightarrow>
     distinct (map fst (snd t)) \<and>
     (\<forall>n. fst t n = (case ids_with n ps of [] \<Rightarrow> None | i # _ \<Rightarrow> Some i)) \<and>
     (\<forall>f l. map_of (snd t) f = Some l \<longleftrightarrow> (\<exists>n. ids_with n ps = f # l) \<and> l \<noteq> [])"

lemma table_okI:
  assumes "distinct (map fst alts)" "\<And>n. m n = (case ids_with n ps of [] \<Rightarrow> None | i # _ \<Rightarrow> Some i)"
    "\<And>f l. map_of alts f = Some l \<longleftrightarrow> (\<exists>n. ids_with n ps = f # l) \<and> l \<noteq> []"
  shows "table_ok ps (m, alts)"
  using assms by (simp add: table_ok_def)

lemma table_okD:
  assumes "table_ok ps t"
  shows "distinct (map fst (snd t))" "fst t n = (case ids_with n ps of [] \<Rightarrow> None | i # _ \<Rightarrow> Some i)"
    "map_of (snd t) f = Some l \<longleftrightarrow> (\<exists>n. ids_with n ps = f # l) \<and> l \<noteq> []"
  using assms by (simp_all add: table_ok_def)

lemma ids_with_snoc: "ids_with n (ps @ [(i, m)]) = (if m = n then ids_with n ps @ [i] else ids_with n ps)"
  by (simp add: ids_with_def)

lemma same_first:
  assumes "distinct (map fst ps)" "ids_with n ps = f # l" "ids_with m ps = f # k"
  shows "m = n"
proof -
  have "(f, n) \<in> set ps" "(f, m) \<in> set ps" using assms(2,3) ids_with_set [of f] by (metis list.set_intros(1))+
  then show ?thesis using assms(1) by (metis eq_key_imp_eq_value)
qed

lemma table_ok_snoc:
  assumes ok: "table_ok ps t" and d: "distinct (map fst (ps @ [(i, m)]))"
  shows "table_ok (ps @ [(i, m)]) (add_entry (i, m) t)"
proof -
  have dp: "distinct (map fst ps)" using d by simp
  have fresh: "i \<notin> set (ids_with n ps)" for n using d by (force simp: ids_with_set)
  note t = table_okD [OF ok]
  show ?thesis
  proof (cases "ids_with m ps")
    case Nil
    have a: "add_entry (i, m) t = ((fst t)(m \<mapsto> i), snd t)" using t(2) [of m] Nil by (simp add: add_entry_def)
    show ?thesis unfolding a
    proof (rule table_okI)
      show "distinct (map fst (snd t))" by (rule t(1))
      show "((fst t)(m \<mapsto> i)) n = (case ids_with n (ps @ [(i, m)]) of [] \<Rightarrow> None | i # _ \<Rightarrow> Some i)" for n
        using t(2) [of n] Nil by (simp add: ids_with_snoc)
      have "ids_with n (ps @ [(i, m)]) = f # l \<longleftrightarrow> ids_with n ps = f # l" if "l \<noteq> []" for n f l
        using Nil that by (auto simp: ids_with_snoc)
      then show "map_of (snd t) f = Some l \<longleftrightarrow> (\<exists>n. ids_with n (ps @ [(i, m)]) = f # l) \<and> l \<noteq> []" for f l
        unfolding t(3) by blast
    qed
  next
    case (Cons f0 l0)
    have a: "add_entry (i, m) t = (fst t, push_alternative f0 i (snd t))" using t(2) [of m] Cons by (simp add: add_entry_def)
    have l0: "(case map_of (snd t) f0 of None \<Rightarrow> [i] | Some ids \<Rightarrow> ids @ [i]) = l0 @ [i]"
    proof (cases "l0 = []")
      case True
      have "map_of (snd t) f0 \<noteq> Some l" for l
      proof
        assume "map_of (snd t) f0 = Some l"
        then obtain n where "ids_with n ps = f0 # l" "l \<noteq> []" unfolding t(3) by blast
        then show False using same_first [OF dp _ Cons, of n l] Cons True by simp
      qed
      then have "map_of (snd t) f0 = None" by blast
      then show ?thesis using True by simp
    next
      case False
      then have "map_of (snd t) f0 = Some l0" unfolding t(3) using Cons by blast
      then show ?thesis by simp
    qed
    show ?thesis unfolding a
    proof (rule table_okI)
      show "distinct (map fst (push_alternative f0 i (snd t)))" by (rule distinct_push [OF t(1)])
      show "fst t n = (case ids_with n (ps @ [(i, m)]) of [] \<Rightarrow> None | i # _ \<Rightarrow> Some i)" for n
        using t(2) [of n] Cons by (cases "m = n") (simp_all add: ids_with_snoc)
      show "map_of (push_alternative f0 i (snd t)) f = Some l \<longleftrightarrow> (\<exists>n. ids_with n (ps @ [(i, m)]) = f # l) \<and> l \<noteq> []" for f l
      proof (cases "f = f0")
        case True
        have "ids_with n (ps @ [(i, m)]) = f0 # l \<longleftrightarrow> n = m \<and> l = l0 @ [i]" for n
          using Cons same_first [OF dp Cons, of n] by (cases "m = n") (auto simp: ids_with_snoc)
        then show ?thesis using True by (auto simp: map_of_push l0)
      next
        case False
        have "ids_with n (ps @ [(i, m)]) = f # l \<longleftrightarrow> ids_with n ps = f # l" for n
          using Cons False by (cases "m = n") (auto simp: ids_with_snoc)
        then show ?thesis using False t(3) [of f l] by (simp add: map_of_push)
      qed
    qed
  qed
qed

lemma table_of_ok: "distinct (map fst ps) \<Longrightarrow> table_ok ps (table_of ps)"
proof (induction ps rule: rev_induct)
  case Nil
  show ?case by (simp add: table_ok_def table_of_def ids_with_def)
next
  case (snoc p ps)
  obtain i m where p: "p = (i, m)" by fastforce
  then show ?case using snoc table_ok_snoc [of ps "table_of ps" i m] by (simp add: table_of_def)
qed

section \<open>All buckets\<close>

lemma bucket_symbols_append: "bucket_symbols h n b (ps @ qs) = bucket_symbols h n b ps @ bucket_symbols h n b qs"
  by (simp add: bucket_symbols_def unversioned_append)

lemma bucket_versioned_append: "bucket_versioned h n b (ps @ qs) = bucket_versioned h n b ps @ bucket_versioned h n b qs"
  by (simp add: bucket_versioned_def versioned_append)

lemma populate_bucket_spec:
  assumes "list_all2 (group_outputs h n) groups outs" "b < n"
  shows "\<exists>bucket'. populate_bucket b outs bucket = Some bucket' \<and>
     symbol_table bucket' = fold add_entry (bucket_symbols h n b (concat groups)) (symbol_table bucket) \<and>
     versioned_table bucket' = fold add_entry (bucket_versioned h n b (concat groups)) (versioned_table bucket)"
  using assms(1)
proof (induction arbitrary: bucket)
  case Nil
  show ?case by (simp add: bucket_symbols_def bucket_versioned_def)
next
  case (Cons g groups outputs outs)
  have o: "index outputs b = Some (outputs ! b)" "pending_symbols (outputs ! b) = bucket_symbols h n b g"
    "pending_versioned_symbols (outputs ! b) = bucket_versioned h n b g"
    using Cons.hyps(1) assms(2) by (simp_all add: group_outputs_def index_def)
  show ?case
    using Cons.IH [of "fold add_versioned_symbol (bucket_versioned h n b g) (fold add_symbol (bucket_symbols h n b g) bucket)"]
    by (simp add: o bucket_symbols_append bucket_versioned_append add_symbol_table add_versioned_table)
qed

definition bucket_ok :: "(bytes \<Rightarrow> u64) \<Rightarrow> nat \<Rightarrow> pending list \<Rightarrow> nat \<Rightarrow> SymbolBucket \<Rightarrow> bool" where
  "bucket_ok h n ps b bucket \<longleftrightarrow>
     symbol_table bucket = table_of (bucket_symbols h n b ps) \<and> versioned_table bucket = table_of (bucket_versioned h n b ps)"

lemma populate_from_spec:
  assumes "list_all2 (group_outputs h n) groups outs" "b + k \<le> n"
  shows "\<exists>buckets. populate_from b outs (replicate k empty_bucket) = Some buckets \<and> length buckets = k \<and>
     (\<forall>j < k. bucket_ok h n (concat groups) (b + j) (buckets ! j))"
  using assms(2)
proof (induction k arbitrary: b)
  case (Suc k)
  obtain bucket where "populate_bucket b outs empty_bucket = Some bucket" "bucket_ok h n (concat groups) b bucket"
    using populate_bucket_spec [OF assms(1), of b empty_bucket] Suc.prems
    by (auto simp: bucket_ok_def table_of_def empty_bucket_def symbol_table_def versioned_table_def)
  moreover obtain buckets where "populate_from (b + 1) outs (replicate k empty_bucket) = Some buckets" "length buckets = k"
    "\<forall>j < k. bucket_ok h n (concat groups) (b + 1 + j) (buckets ! j)"
    using Suc.IH [of "b + 1"] Suc.prems by auto
  ultimately show ?case by (auto simp: less_Suc_eq_0_disj)
qed simp

lemma populate_symbol_db_spec:
  assumes "0 < n"
  shows "\<exists>outs buckets. read_symbols h n groups = Some outs \<and> populate_symbol_db (replicate n empty_bucket) outs = Some buckets \<and>
     length buckets = n \<and> (\<forall>b < n. bucket_ok h n (concat groups) b (buckets ! b))"
  using read_symbols_spec [OF assms, of h groups] populate_from_spec [of h n groups _ 0 n]
  by (auto simp: populate_symbol_db_def)

end
