(* ===== verification/Symbol_Resolve.thy ===== *)
theory Symbol_Resolve
  imports Symbol_Buckets
begin

text \<open>
  Symbol resolution as a whole: symbols are loaded by group, distributed to the buckets, and of the
  definitions of each name one is selected, in whatever order the buckets and their maps are processed.
\<close>

section \<open>The names of a link\<close>

definition definitions_named :: "pending list \<Rightarrow> symbol_key \<Rightarrow> nat list" where
  "definitions_named ps key = map snd (filter (\<lambda>p. fst p = key) ps)"

text \<open>Every symbol is known, and is handed over at most once without and once with a version.\<close>

definition wf_pending :: "nat list \<Rightarrow> pending list \<Rightarrow> bool" where
  "wf_pending definitions ps \<longleftrightarrow>
     (\<forall>p \<in> set ps. snd p < length definitions) \<and> distinct (map fst (unversioned ps)) \<and> distinct (map fst (versioned ps))"

text \<open>
  A symbol with a default version has two names. At most one of them has other definitions; if both
  had, the result would depend on which of the two names is resolved last.
\<close>

definition one_alternative :: "pending list \<Rightarrow> bool" where
  "one_alternative ps \<longleftrightarrow>
     (\<forall>p \<in> set ps. \<forall>q \<in> set ps. snd p = snd q \<and> 2 \<le> length (definitions_named ps (fst p)) \<and>
        2 \<le> length (definitions_named ps (fst q)) \<longrightarrow> fst p = fst q)"

lemma definitions_named_in: "i \<in> set (definitions_named ps key) \<longleftrightarrow> (key, i) \<in> set ps"
  by (force simp: definitions_named_def)

lemma one_alternativeD:
  assumes "one_alternative ps" "i \<in> set (definitions_named ps k)" "i \<in> set (definitions_named ps k')"
    "2 \<le> length (definitions_named ps k)" "2 \<le> length (definitions_named ps k')"
  shows "k = k'"
  using assms unfolding one_alternative_def definitions_named_in by fastforce

lemma ids_with_unversioned: "ids_with s (unversioned ps) = definitions_named ps (Unversioned s)"
  by (induction ps rule: unversioned.induct) (simp_all add: ids_with_def definitions_named_def)

lemma ids_with_versioned: "ids_with s (versioned ps) = definitions_named ps (Versioned s)"
  by (induction ps rule: versioned.induct) (simp_all add: ids_with_def definitions_named_def)

lemma ids_with_filter:
  "ids_with s (filter (\<lambda>(i, s). B s = b) ps) = (if B s = b then ids_with s ps else [])"
  by (induction ps) (auto simp: ids_with_def)

lemma ids_with_bucket:
  "ids_with s (bucket_symbols h n b ps) = (if bucket_of (h s) n = b then definitions_named ps (Unversioned s) else [])"
  by (simp only: bucket_symbols_def ids_with_filter [of s "\<lambda>s. bucket_of (h s) n"] ids_with_unversioned)

lemma ids_with_bucket_versioned:
  "ids_with s (bucket_versioned h n b ps) =
     (if bucket_of (versioned_hash h s) n = b then definitions_named ps (Versioned s) else [])"
  by (simp only: bucket_versioned_def ids_with_filter [of s "\<lambda>s. bucket_of (versioned_hash h s) n"] ids_with_versioned)

lemma distinct_definitions: "wf_pending definitions ps \<Longrightarrow> distinct (definitions_named ps key)"
  by (cases key)
     (auto simp: wf_pending_def ids_with_unversioned [symmetric] ids_with_versioned [symmetric] ids_with_def intro: distinct_map_filter)

section \<open>The entries of the buckets\<close>

lemma bucket_tables_ok:
  assumes "wf_pending definitions ps" "bucket_ok h n ps b bucket"
  shows "table_ok (bucket_symbols h n b ps) (symbol_table bucket)" "table_ok (bucket_versioned h n b ps) (versioned_table bucket)"
  using assms by (simp_all add: bucket_ok_def wf_pending_def table_of_ok bucket_symbols_def bucket_versioned_def distinct_map_filter)

definition key_bucket :: "(bytes \<Rightarrow> u64) \<Rightarrow> nat \<Rightarrow> symbol_key \<Rightarrow> nat" where
  "key_bucket h n key = bucket_of (key_hash h key) n"

lemma bucket_entries:
  assumes "wf_pending definitions ps" "bucket_ok h n ps b bucket"
  shows "(f, l) \<in> set (alternative_definitions bucket) \<longleftrightarrow>
       (\<exists>s. definitions_named ps (Unversioned s) = f # l \<and> key_bucket h n (Unversioned s) = b) \<and> l \<noteq> []"
    "(f, l) \<in> set (alternative_versioned_definitions bucket) \<longleftrightarrow>
       (\<exists>s. definitions_named ps (Versioned s) = f # l \<and> key_bucket h n (Versioned s) = b) \<and> l \<noteq> []"
    "distinct (alternative_definitions bucket)" "distinct (alternative_versioned_definitions bucket)"
proof -
  note t = bucket_tables_ok [OF assms]
  note t1 = table_okD [OF t(1)] and t2 = table_okD [OF t(2)]
  show "distinct (alternative_definitions bucket)" "distinct (alternative_versioned_definitions bucket)"
    using t1(1) t2(1) by (simp_all add: symbol_table_def versioned_table_def distinct_map)
  have "(f, l) \<in> set (alternative_definitions bucket) \<longleftrightarrow> map_of (snd (symbol_table bucket)) f = Some l"
    using t1(1) by (simp add: symbol_table_def)
  then show "(f, l) \<in> set (alternative_definitions bucket) \<longleftrightarrow>
       (\<exists>s. definitions_named ps (Unversioned s) = f # l \<and> key_bucket h n (Unversioned s) = b) \<and> l \<noteq> []"
    unfolding t1(3) by (auto simp: ids_with_bucket key_bucket_def key_hash_def split: if_splits)
  have "(f, l) \<in> set (alternative_versioned_definitions bucket) \<longleftrightarrow> map_of (snd (versioned_table bucket)) f = Some l"
    using t2(1) by (simp add: versioned_table_def)
  then show "(f, l) \<in> set (alternative_versioned_definitions bucket) \<longleftrightarrow>
       (\<exists>s. definitions_named ps (Versioned s) = f # l \<and> key_bucket h n (Versioned s) = b) \<and> l \<noteq> []"
    unfolding t2(3) by (auto simp: ids_with_bucket_versioned key_bucket_def key_hash_def split: if_splits)
qed

definition first_id :: "nat list \<Rightarrow> nat option" where
  "first_id ids = (case ids of [] \<Rightarrow> None | i # _ \<Rightarrow> Some i)"

lemma bucket_names:
  assumes "wf_pending definitions ps" "bucket_ok h n ps b bucket"
  shows "key_bucket h n (Unversioned s) = b \<Longrightarrow> name_to_id bucket s = first_id (definitions_named ps (Unversioned s))"
    "key_bucket h n (Versioned v) = b \<Longrightarrow> versioned_name_to_id bucket v = first_id (definitions_named ps (Versioned v))"
  using table_okD(2) [OF bucket_tables_ok(1) [OF assms], of s] table_okD(2) [OF bucket_tables_ok(2) [OF assms], of v]
  by (simp_all add: symbol_table_def versioned_table_def ids_with_bucket ids_with_bucket_versioned first_id_def
       key_bucket_def key_hash_def)

definition has_alternatives :: "pending list \<Rightarrow> symbol_key \<Rightarrow> bool" where
  "has_alternatives ps key \<longleftrightarrow> 2 \<le> length (definitions_named ps key)"

lemma distinct_concat_index:
  assumes "\<And>b. b < length xs \<Longrightarrow> distinct (f (xs ! b))"
    "\<And>b c. b < c \<Longrightarrow> c < length xs \<Longrightarrow> set (f (xs ! b)) \<inter> set (f (xs ! c)) = {}"
  shows "distinct (concat (map f xs))"
  using assms
proof (induction xs)
  case (Cons x xs)
  have "distinct (concat (map f xs))" by (rule Cons.IH) (use Cons.prems [of "Suc _"] Cons.prems(2) [of "Suc _" "Suc _"] in auto)
  moreover have "set (f x) \<inter> set (f y) = {}" if "y \<in> set xs" for y
    using that Cons.prems(2) [of 0 "Suc _"] by (auto simp: in_set_conv_nth)
  ultimately show ?case using Cons.prems(1) [of 0] by auto
qed simp

definition entries_of :: "SymbolBucket \<Rightarrow> (nat \<times> nat list) list" where
  "entries_of b = alternative_definitions b @ alternative_versioned_definitions b"

lemma alternative_entries_of: "alternative_entries buckets = concat (map entries_of buckets)"
proof -
  have "entries_of = (\<lambda>b. alternative_definitions b @ alternative_versioned_definitions b)" by (simp add: fun_eq_iff entries_of_def)
  then show ?thesis by (simp add: alternative_entries_def)
qed

lemma entries_of_bucket:
  assumes "wf_pending definitions ps" "bucket_ok h n ps b bucket"
  shows "(f, l) \<in> set (entries_of bucket) \<longleftrightarrow>
      (\<exists>key. definitions_named ps key = f # l \<and> key_bucket h n key = b) \<and> l \<noteq> []"
proof -
  note be = bucket_entries(1,2) [OF assms, of f l]
  have "(\<exists>key. definitions_named ps key = f # l \<and> key_bucket h n key = b) \<longleftrightarrow>
      (\<exists>s. definitions_named ps (Unversioned s) = f # l \<and> key_bucket h n (Unversioned s) = b) \<or>
      (\<exists>s. definitions_named ps (Versioned s) = f # l \<and> key_bucket h n (Versioned s) = b)"
    by (metis symbol_key.exhaust)
  then show ?thesis using be by (auto simp: entries_of_def)
qed

lemma alternatives_nonempty: "definitions_named ps key = f # l \<Longrightarrow> l \<noteq> [] \<longleftrightarrow> has_alternatives ps key"
  by (cases l) (auto simp: has_alternatives_def)

lemma entries_named:
  assumes wf: "wf_pending definitions ps"
    and ok: "0 < n" "length buckets = n" "\<forall>b < n. bucket_ok h n ps b (buckets ! b)"
  shows "e \<in> set (alternative_entries buckets) \<longleftrightarrow> (\<exists>key. definitions_named ps key = entry_ids e \<and> has_alternatives ps key)"
proof -
  have kb: "key_bucket h n key < n" for key using ok(1) by (simp add: key_bucket_def bucket_of_less)
  have "(f, l) \<in> set (alternative_entries buckets) \<longleftrightarrow> (\<exists>key. definitions_named ps key = f # l \<and> has_alternatives ps key)" for f l
  proof -
    have "(f, l) \<in> set (alternative_entries buckets) \<longleftrightarrow> (\<exists>b < n. (f, l) \<in> set (entries_of (buckets ! b)))"
      using ok(2) by (simp add: alternative_entries_of) (metis in_set_conv_nth)
    also have "\<dots> \<longleftrightarrow> (\<exists>key. definitions_named ps key = f # l) \<and> l \<noteq> []"
      using entries_of_bucket [OF wf, of h n] ok(3) kb by blast
    finally show ?thesis using alternatives_nonempty by blast
  qed
  from this [of "fst e" "snd e"] show ?thesis by (simp add: entry_ids_def)
qed

lemma entries_disjoint:
  assumes wf: "wf_pending definitions ps" "one_alternative ps"
    and ok: "0 < n" "length buckets = n" "\<forall>b < n. bucket_ok h n ps b (buckets ! b)"
  shows "disjoint_entries (alternative_entries buckets)"
proof -
  note ent = alternative_entries_of and alts = alternatives_nonempty and m = entries_named [OF wf(1) ok]
  have inB: "(f, l) \<in> set (entries_of (buckets ! b)) \<longleftrightarrow>
      (\<exists>key. definitions_named ps key = f # l \<and> key_bucket h n key = b) \<and> l \<noteq> []" if "b < n" for f l b
    using entries_of_bucket [OF wf(1)] ok(3) that by blast
  have same: "key = key'" if "definitions_named ps key = f # l" "definitions_named ps key' = f' # l'" "l \<noteq> []" "l' \<noteq> []"
    "i \<in> set (f # l)" "i \<in> set (f' # l')" for key key' f l f' l' i
    using one_alternativeD [OF wf(2), of i key key'] that alts unfolding has_alternatives_def by metis
  have "distinct (alternative_entries buckets)" unfolding ent
  proof (rule distinct_concat_index)
    fix b assume b: "b < length buckets"
    note be = bucket_entries [OF wf(1), of h n b "buckets ! b"]
    have "False" if h: "e \<in> set (alternative_definitions (buckets ! b))" "e \<in> set (alternative_versioned_definitions (buckets ! b))" for e
    proof -
      obtain f l where e: "e = (f, l)" by fastforce
      obtain s v where "definitions_named ps (Unversioned s) = f # l" "definitions_named ps (Versioned v) = f # l" "l \<noteq> []"
        using h be(1,2) [of f l] ok(2,3) b unfolding e by blast
      then show False using same [of "Unversioned s" f l "Versioned v" f l f] by simp
    qed
    then show "distinct (entries_of (buckets ! b))" using be(3,4) ok(2,3) b by (auto simp: entries_of_def)
  next
    fix b c assume bc: "b < c" "c < length buckets"
    have False if h: "(f, l) \<in> set (entries_of (buckets ! b))" "(f, l) \<in> set (entries_of (buckets ! c))" for f l
    proof -
      obtain k k' where "definitions_named ps k = f # l" "definitions_named ps k' = f # l" "l \<noteq> []"
        "key_bucket h n k = b" "key_bucket h n k' = c"
        using h inB [of b f l] inB [of c f l] bc ok(2) by auto
      then show False using same [of k f l k' f l f] bc by simp
    qed
    then show "set (entries_of (buckets ! b)) \<inter> set (entries_of (buckets ! c)) = {}" by auto
  qed
  then have "distinct (map entry_ids (alternative_entries buckets))"
    by (simp add: distinct_map inj_on_def entry_ids_def prod_eq_iff)
  moreover have "distinct ys" if "ys \<in> set (map entry_ids (alternative_entries buckets))" for ys
    using that m distinct_definitions [OF wf(1)] by (metis imageE list.set_map)
  moreover have "set xs \<inter> set ys = {}"
    if xy: "xs \<in> set (map entry_ids (alternative_entries buckets))" "ys \<in> set (map entry_ids (alternative_entries buckets))" "xs \<noteq> ys" for xs ys
  proof -
    obtain k k' where "definitions_named ps k = xs" "has_alternatives ps k" "definitions_named ps k' = ys" "has_alternatives ps k'"
      using xy(1,2) m by auto
    then show ?thesis using one_alternativeD [OF wf(2), of _ k k'] xy(3) unfolding has_alternatives_def by blast
  qed
  ultimately show "disjoint_entries (alternative_entries buckets)" unfolding disjoint_entries_def by (rule distinct_concat)
qed

section \<open>The result\<close>

lemma conflicting_two: "conflicting db fs ids \<Longrightarrow> 2 \<le> length ids"
proof (rule ccontr)
  assume c: "conflicting db fs ids" and "\<not> 2 \<le> length ids"
  then have "ids = [] \<or> (\<exists>i. ids = [i])" by (cases ids rule: remdups_adj.cases) auto
  then show False using c by (auto simp: conflicting_def own_definitions_def strongest_def split: option.splits if_splits)
qed

text \<open>
  What resolution has to give: an error if and only if the definitions of some name conflict, and
  otherwise for every name with several definitions the one that the rule selects, with the
  visibility of all of them. Other symbols are left alone.
\<close>

definition resolution_correct ::
    "SymbolDb \<Rightarrow> pending list \<Rightarrow> nat list \<Rightarrow> PerSymbolFlags \<Rightarrow> (duplicate list, nat list \<times> PerSymbolFlags) outcome \<Rightarrow> bool" where
  "resolution_correct db ps definitions fs r =
     (case r of
        Panicked \<Rightarrow> False
      | Error _ \<Rightarrow> \<exists>key. conflicting db fs (definitions_named ps key)
      | Ok (definitions', fs') \<Rightarrow>
          (\<forall>key. \<not> conflicting db fs (definitions_named ps key)) \<and>
          (\<forall>key. has_alternatives ps key \<longrightarrow>
             definition_of definitions' (hd (definitions_named ps key)) = Some (selected db fs (definitions_named ps key)) \<and>
             entry_resolved db fs (definitions_named ps key) definitions' fs') \<and>
          (\<forall>i < length definitions. (\<forall>key. has_alternatives ps key \<longrightarrow> i \<notin> set (definitions_named ps key)) \<longrightarrow>
             definitions' ! i = definitions ! i \<and> fs' ! i = fs ! i))"

lemma two_step:
  assumes "entry_resolved db fs ids definitions' fs'" "ids \<noteq> []" "\<forall>i \<in> set ids. i < length definitions'"
  shows "definition_of definitions' (hd ids) = Some (selected db fs ids)"
  using assms selected_in [OF assms(2), of db fs]
  by (simp add: definition_of_def index_def entry_resolved_def)

lemma resolution_correct_any_order:
  assumes wf: "wf_db db definitions fs" "wf_pending definitions ps" "one_alternative ps"
    and ok: "0 < n" "length buckets = n" "\<forall>b < n. bucket_ok h n ps b (buckets ! b)"
    and order: "mset schedule = mset (alternative_entries buckets)"
  shows "resolution_correct db ps definitions fs (resolve_alternative_symbol_definitions db schedule definitions fs)"
proof -
  note es = entries_named [OF wf(2) ok] entries_disjoint [OF wf(2,3) ok]
  have len: "i < length definitions" if "i \<in> set (definitions_named ps key)" for i key
    using wf(2) that by (force simp: wf_pending_def definitions_named_in)
  have dom: "\<forall>e \<in> set (alternative_entries buckets). \<forall>i \<in> set (entry_ids e). i < length definitions"
    using es(1) len by metis
  have entry: "\<exists>e \<in> set (alternative_entries buckets). entry_ids e = definitions_named ps key" if h: "has_alternatives ps key" for key
  proof -
    obtain f l where "definitions_named ps key = f # l"
      using h by (cases "definitions_named ps key") (auto simp: has_alternatives_def)
    then have "entry_ids (f, l) = definitions_named ps key" by (simp add: entry_ids_def)
    then show ?thesis using es(1) [of "(f, l)"] h by metis
  qed
  have conf: "(\<exists>e \<in> set (alternative_entries buckets). conflicting db fs (entry_ids e)) \<longleftrightarrow>
      (\<exists>key. conflicting db fs (definitions_named ps key))"
    using es(1) entry conflicting_two unfolding has_alternatives_def by metis
  note r = resolve_alternatives_spec [OF wf(1) es(2) dom order]
  show ?thesis
  proof (cases "\<exists>key. conflicting db fs (definitions_named ps key)")
    case True
    then obtain errors where "resolve_alternative_symbol_definitions db schedule definitions fs = Error errors"
      using r conf by auto
    then show ?thesis using True by (simp add: resolution_correct_def)
  next
    case False
    then obtain definitions' fs' where d: "resolve_alternative_symbol_definitions db schedule definitions fs = Ok (definitions', fs')"
      "length definitions' = length definitions"
      "\<forall>e \<in> set (alternative_entries buckets). entry_resolved db fs (entry_ids e) definitions' fs'"
      "\<forall>i < length definitions. (\<forall>e \<in> set (alternative_entries buckets). i \<notin> set (entry_ids e)) \<longrightarrow>
         definitions' ! i = definitions ! i \<and> fs' ! i = fs ! i"
      using r conf by auto
    have res: "entry_resolved db fs (definitions_named ps key) definitions' fs'" if "has_alternatives ps key" for key
      using entry [OF that] d(3) by metis
    have "definition_of definitions' (hd (definitions_named ps key)) = Some (selected db fs (definitions_named ps key))"
      if h: "has_alternatives ps key" for key
    proof (rule two_step [OF res [OF h]])
      show "definitions_named ps key \<noteq> []" using h by (auto simp: has_alternatives_def)
      show "\<forall>i \<in> set (definitions_named ps key). i < length definitions'" using len d(2) by simp
    qed
    moreover have "definitions' ! i = definitions ! i \<and> fs' ! i = fs ! i"
      if i: "i < length definitions" "\<forall>key. has_alternatives ps key \<longrightarrow> i \<notin> set (definitions_named ps key)" for i
      using d(4) i es(1) by metis
    ultimately show ?thesis unfolding d(1) resolution_correct_def using False res by simp
  qed
qed

lemma resolution_never_panics:
  assumes wf: "wf_db db definitions fs" "wf_pending definitions ps"
    and ok: "0 < n" "length buckets = n" "\<forall>b < n. bucket_ok h n ps b (buckets ! b)"
    and order: "mset schedule = mset (alternative_entries buckets)"
  shows "resolve_alternative_symbol_definitions db schedule definitions fs \<noteq> Panicked"
proof -
  have "distinct (entry_ids e) \<and> (\<forall>i \<in> set (entry_ids e). i < length definitions)" if e: "e \<in> set schedule" for e
  proof -
    obtain key where key: "definitions_named ps key = entry_ids e"
      using e mset_eq_setD [OF order] entries_named [OF wf(2) ok, of e] by auto
    then show ?thesis
      using distinct_definitions [OF wf(2), of key] wf(2) unfolding wf_pending_def
      by (auto simp flip: key dest!: definitions_named_in [THEN iffD1])
  qed
  then obtain st where "process_alternatives db schedule (definitions, fs, []) = Some st"
    using process_alternatives_total [OF wf(1)] by blast
  then show ?thesis by (simp add: resolve_alternative_symbol_definitions_def split: prod.splits)
qed

text \<open>
  C40. Symbol resolution follows the rule. The global symbols that the inputs define are distributed to
  any number of hash buckets; the flags and the lists of symbols agree with each other (\<open>wf_db\<close>), and every
  symbol has at most one plain and one versioned name (\<open>wf_pending\<close>). Then every name is found and leads
  to its first definition, and whatever the order in which the buckets and their maps are processed,
  resolution never panics. If moreover no symbol with a default version has other definitions of both
  its names (\<open>one_alternative\<close>), then in every order resolution reports duplicate symbols exactly when two
  strong definitions of a name conflict, and otherwise makes the two-step lookup of each name with
  several definitions end at the one that the rule selects (first strong, else largest common, else
  first weak, else the first of a shared object), with their merged visibility. Without that condition
  the result depends on the order, as \<open>versioned_race\<close> below shows.
\<close>

theorem symbol_resolution:
  assumes "0 < n" "wf_db db definitions fs" "wf_pending definitions (concat groups)"
  shows "\<exists>outs buckets. read_symbols hash_bytes n groups = Some outs \<and>
    populate_symbol_db (replicate n empty_bucket) outs = Some buckets \<and>
    (\<forall>key. get_symbol hash_bytes db buckets key True = Some (first_id (definitions_named (concat groups) key))) \<and>
    (\<forall>schedule. mset schedule = mset (alternative_entries buckets) \<longrightarrow>
       resolve_alternative_symbol_definitions db schedule definitions fs \<noteq> Panicked \<and>
       (one_alternative (concat groups) \<longrightarrow>
          resolution_correct db (concat groups) definitions fs
            (resolve_alternative_symbol_definitions db schedule definitions fs)))"
proof -
  obtain outs buckets where b: "read_symbols hash_bytes n groups = Some outs"
    "populate_symbol_db (replicate n empty_bucket) outs = Some buckets" "length buckets = n"
    "\<forall>b < n. bucket_ok hash_bytes n (concat groups) b (buckets ! b)"
    using populate_symbol_db_spec [OF assms(1), of hash_bytes groups] by blast
  have "get_symbol hash_bytes db buckets key True = Some (first_id (definitions_named (concat groups) key))" for key
    using bucket_names [OF assms(3), of hash_bytes n "key_bucket hash_bytes n key"] b(3,4) bucket_of_less [OF assms(1)]
    by (cases key) (auto simp: get_symbol_def index_def key_bucket_def key_hash_def split: option.splits)
  then show ?thesis
    using b resolution_correct_any_order [OF assms(2,3) _ assms(1) b(3,4)] resolution_never_panics [OF assms(2,3,1) b(3,4)] by blast
qed

text \<open>
  An object defines \<open>foo\<close> weakly and \<open>bar\<close>, another one \<open>foo\<close> with hidden visibility, and a shared library
  has \<open>foo@@V\<close>.
\<close>

definition foo :: bytes where "foo = [0x66, 0x6f, 0x6f]"

definition plain_symbol :: input_symbol where
  "plain_symbol =
     \<lparr>sym_is_weak = False, sym_is_common = False, sym_size = 0, sym_is_gnu_unique = False, sym_visibility = Default,
      sym_in_group = False\<rparr>"

definition example_db :: SymbolDb where
  "example_db =
     (let first = [plain_symbol\<lparr>sym_is_weak := True\<rparr>, plain_symbol]; second = [plain_symbol\<lparr>sym_visibility := Hidden\<rparr>] in
      \<lparr>symbol_file_ids = [0, 0, 1, 2],
       parsed = [ParsedObject False 0 first, ParsedObject False 2 second, ParsedObject True 3 [plain_symbol]],
       resolved = [Object 0 first, Object 2 second, Dynamic 3 [plain_symbol]],
       allow_multiple_definitions = False\<rparr>)"

definition example_groups :: "pending list list" where
  "example_groups =
     [[(Unversioned foo, 0), (Unversioned [0x62, 0x61, 0x72], 1)], [(Unversioned foo, 2)],
      [(Unversioned foo, 3), (Versioned (foo, [0x56]), 3)]]"

lemma example_names:
  "definitions_named (concat example_groups) (Unversioned foo) = [0, 2, 3]"
  "definitions_named (concat example_groups) (Unversioned [0x62, 0x61, 0x72]) = [1]"
  "definitions_named (concat example_groups) (Versioned (foo, [0x56])) = [3]"
  by (simp_all add: example_groups_def definitions_named_def foo_def)

lemma example_ok:
  "wf_db example_db [0, 1, 2, 3] [0, 0, 0, 2]" "wf_pending [0 :: nat, 1, 2, 3] (concat example_groups)"
  "one_alternative (concat example_groups)"
proof -
  show "wf_db example_db [0, 1, 2, 3] [0, 0, 0, 2]" by (simp add: wf_db_def example_db_def Let_def)
  show "wf_pending [0 :: nat, 1, 2, 3] (concat example_groups)" by (simp add: wf_pending_def example_groups_def)
  have "set (concat example_groups) =
      {(Unversioned foo, 0), (Unversioned [0x62, 0x61, 0x72], 1), (Unversioned foo, 2), (Unversioned foo, 3), (Versioned (foo, [0x56]), 3)}"
    by (auto simp: example_groups_def)
  then show "one_alternative (concat example_groups)" by (simp add: one_alternative_def example_names)
qed

lemma example_selected: "selected example_db [0, 0, 0, 2] [0, 2, 3] = 2"
  by (simp add: selected_def own_definitions_def strongest_def strength_def symbol_strength_def example_db_def Let_def
       file_id_for_symbol_def index_def object_symbol_strength_def symbol_at_def strength_of_def plain_symbol_def
       is_dynamic_def contains_def DYNAMIC_def)

theorem symbol_resolution_witness:
  "selected example_db [0, 0, 0, 2] (definitions_named (concat example_groups) (Unversioned foo)) = 2 \<and>
   (\<exists>outs buckets. read_symbols (\<lambda>s. of_nat (length s)) 2 example_groups = Some outs \<and>
      populate_symbol_db (replicate 2 empty_bucket) outs = Some buckets \<and>
      (\<forall>key. get_symbol (\<lambda>s. of_nat (length s)) example_db buckets key True =
         Some (first_id (definitions_named (concat example_groups) key))) \<and>
      (\<forall>schedule. mset schedule = mset (alternative_entries buckets) \<longrightarrow>
         resolution_correct example_db (concat example_groups) [0, 1, 2, 3] [0, 0, 0, 2]
           (resolve_alternative_symbol_definitions example_db schedule [0, 1, 2, 3] [0, 0, 0, 2])))"
proof -
  have "selected example_db [0, 0, 0, 2] (definitions_named (concat example_groups) (Unversioned foo)) = 2"
    by (simp add: example_names example_selected)
  moreover have "0 < (2 :: nat)" by simp
  ultimately show ?thesis
    using symbol_resolution [OF \<open>0 < 2\<close> example_ok(1,2), of "\<lambda>s. of_nat (length s)"] example_ok(3) by blast
qed

text \<open>
  Without \<open>one_alternative\<close> the order matters: two shared libraries have \<open>foo@@V\<close>, and an object linked
  between them defines \<open>foo\<close>. The lookup of \<open>foo\<close> ends at the object or at the first library, depending on
  which of the two names is resolved last.
\<close>

definition race_db :: SymbolDb where
  "race_db =
     \<lparr>symbol_file_ids = [0, 1, 2],
      parsed = [ParsedObject True 0 [plain_symbol], ParsedObject False 1 [plain_symbol], ParsedObject True 2 [plain_symbol]],
      resolved = [Dynamic 0 [plain_symbol], Object 1 [plain_symbol], Dynamic 2 [plain_symbol]],
      allow_multiple_definitions = False\<rparr>"

lemma versioned_race:
  "resolve_alternative_symbol_definitions race_db [(0, [1, 2]), (0, [2])] [0, 1, 2] [2, 0, 2] = Ok ([0, 1, 0], [2, 0, 2])"
  "resolve_alternative_symbol_definitions race_db [(0, [2]), (0, [1, 2])] [0, 1, 2] [2, 0, 2] = Ok ([1, 1, 1], [2, 0, 2])"
  by (simp_all add: resolve_alternative_symbol_definitions_def process_entry_def race_db_def input_symbol_visibility_def
       file_id_for_symbol_def index_def symbol_at_def plain_symbol_def select_symbol_def flags_for_symbol_def is_dynamic_def
       contains_def DYNAMIC_def symbol_strength_def object_symbol_strength_def strength_of_def check_duplicate_def
       selector_new_def selector_consider_def selector_best_def store_def)

end
