(* ===== verification/Spec2Isabelle.thy ===== *)
theory Spec2Isabelle
  imports Alignment RiscV64_Exec Relax_Deltas Dyn_Reloc Reloc_Write Value_Flags Got_Exact X86_64_Exec AArch64_Exec
    RiscV64_Pair Reloc_Exact Export_Exact Symbol_Resolve
begin

text \<open>
  A verification library for the jdxld linker (crates \<open>src/libjdxld\<close> and \<open>src/linker-utils\<close>).

  \<^bold>\<open>The program.\<close> jdxld reads object files, resolves their symbols, lays out the output, and writes it
  in parallel. Everything that decides the bytes of the output passes through a few components:
  the description of relocations and the encoders of instruction fields (\<open>linker-utils\<close>), the
  architectures (\<open>libjdxld/src/elf_<arch>.rs\<close>), the flags that say what a symbol needs
  (\<open>value_flags.rs\<close>), the reservation and writing of the linker-made tables (\<open>elf.rs\<close>,
  \<open>elf_writer.rs\<close>), and the deletion of bytes by relaxation (\<open>relaxation.rs\<close>). These are modelled.

  \<^bold>\<open>Conventions.\<close> Machine integers are words of their width (\<open>u8\<close>, \<open>u32\<close>, \<open>u64\<close>), signed values are
  read with \<^const>\<open>sint\<close>; sizes and indices into slices are naturals. Bytes of a file are lists. A
  function that can only panic returns an option (\<open>None\<close> is the panic); one that can also fail returns
  an \<open>outcome\<close> (\<open>Ok\<close>, \<open>Error\<close>, \<open>Panicked\<close>). Relocation types are the names of the ELF constants. The
  64-bit ELF class is the one modelled. Code outside the repository is a parameter: the ULEB128
  encoder of the \<open>leb128\<close> crate is an argument of \<open>write_to_buffer\<close>.

  \<^bold>\<open>Theories.\<close>
  \<^item> \<open>Prelude\<close>: results, bytes, slices, binary search. \<open>Bit_Misc\<close>: \<open>bit_misc.rs\<close>, \<open>utils.rs\<close>.
  \<^item> \<open>Alignment\<close>: \<open>alignment.rs\<close>; rounding is to the nearest multiple, and \<open>align_modulo\<close> is least.
  \<^item> \<open>Reloc_Types\<close>, \<open>Reloc_Write\<close>: \<open>linker-utils/src/elf.rs\<close>, kinds, ranges, checks and the write of a
    value. No value is truncated silently on x86-64; AArch64 branches and MOVW pairs get what they need.
  \<^item> \<open>Insn_Fields\<close> with \<open>Arch_AArch64\<close>, \<open>Arch_RiscV64\<close>, \<open>Arch_LoongArch64\<close>, \<open>Arch_Ppc64\<close>, \<open>Arch_X86_64\<close>
    and the tables \<open>*_Relocs\<close>: the encoders, decoders, relocation tables and relaxations of
    \<open>linker-utils/src/<arch>.rs\<close>. The locale \<open>field_codec\<close> is the contract of an encoder: it writes its
    field and no other bit, and reading gives what the codec states; where that is the value written,
    the properties say so, and where the code's reader is not the inverse of its writer, a lemma shows it. The locale \<open>relaxation\<close> (\<open>Relax_Frame\<close>) is
    the contract of a rewriting: the length is kept and only a window changes.
  \<^item> \<open>RiscV64_Exec\<close>, \<open>X86_64_Exec\<close>, \<open>AArch64_Exec\<close>: small instruction semantics, and the properties
    that rewritten or generated code does what the original did.
  \<^item> \<open>Relax_Deltas\<close>: \<open>relaxation.rs\<close>, translation of offsets through deleted ranges.
  \<^item> \<open>Dyn_Reloc\<close>: the tables of dynamic relocation types.
  \<^item> \<open>Value_Flags\<close>: \<open>value_flags.rs\<close> with a model of the threads that set flags concurrently.
  \<^item> \<open>Output_Kind\<close>, \<open>Platform\<close>, \<open>Relax_Choice\<close>, \<open>Elf_X86_64\<close>, \<open>Elf_AArch64\<close>: the choice of relaxations, PLT
    entries and thunks. The locale \<open>relaxation_choice\<close> says that what is chosen can be applied.
  \<^item> \<open>Relr\<close>: the encoder of packed relative relocations (\<open>.relr.dyn\<close>) against the decoder of a loader.
  \<^item> \<open>Table_Writer\<close>, \<open>Got_Alloc\<close>, \<open>Got_Exact\<close>: \<open>TableWriter\<close> of \<open>elf_writer.rs\<close>, and the reservations and
    addresses of \<open>elf.rs\<close>: what is reserved is what is written, at the addresses given out.
  \<^item> \<open>Reloc_Apply\<close>: \<open>apply_relocations\<close> and \<open>apply_debug_relocations\<close> of \<open>elf_writer.rs\<close>. The methods of
    \<open>trait Arch\<close> are the fields of a record \<open>arch_ops\<close>, the finished layout is a record \<open>link_env\<close>.
  \<^item> \<open>Elf_RiscV64\<close>, \<open>RiscV64_Pair\<close>: \<open>elf_riscv64.rs\<close>, with the scan that decides deletions; the first scan
    honours alignment requests, later ones may not, and the two halves of a PC-relative pair reach their
    target within the distance that they can add.
  \<^item> \<open>Reloc_Scan\<close>, \<open>Reloc_Exact\<close>: \<open>process_relocation\<close> of \<open>elf.rs\<close>, the scan during layout, against the
    writer: what is reserved for a section is what is used, and what is asked for is found.
  \<^item> \<open>Export_Trie\<close> with \<open>Export_Layout\<close>, \<open>Export_Topology\<close>, \<open>Export_Build\<close>, \<open>Export_Find\<close> and \<open>Export_Exact\<close>:
    \<open>trie.rs\<close>, the exports trie of Mach-O files. The functions of the \<open>leb128\<close> crate are arguments, of
    which lengths and reading back are assumed (locales \<open>leb_len\<close> and \<open>leb128\<close>, interpreted on an
    encoder that is defined here). The layout loop ends, a loader finds exactly the symbols, and the
    space reserved before addresses are known is enough.
  \<^item> \<open>Symbol_Db\<close> with \<open>Symbol_Select\<close>, \<open>Symbol_Alternatives\<close>, \<open>Symbol_Buckets\<close> and \<open>Symbol_Resolve\<close>:
    \<open>symbol_db.rs\<close>, names in hash buckets and the selection among the definitions of a name. The rule
    (\<open>selected\<close>) is the specification; the code follows it for every order of the buckets, as long as no
    symbol has competing definitions under both its plain and its versioned name.

  \<^bold>\<open>Bounds.\<close> Recursions are structural or have a measure; there is no fuel. The two loops of \<open>trie.rs\<close> that
  are not bounded by their text (the walk along siblings and the layout loop) are partial functions, and
  their end is a theorem. The agreement of reservation and writing is for less than \<open>2^32\<close> symbols, so
  that byte counts do not wrap; the exports trie has to fit in \<open>2^64\<close> bytes (\<open>fits\<close>).

  \<^bold>\<open>Not modelled.\<close> The assignment of addresses to sections and segments, garbage collection, the
  placement of thunks, string merging, linker scripts. Input and output, threads other than those of \<open>Value_Flags\<close>, object-file access (the
  \<open>object\<close> crate), the parsers (the \<open>winnow\<close> crate), Mach-O output but for its exports trie, WebAssembly output, debug information,
  plugins, diagnostics, and the tool \<open>linker-diff\<close>. Debug assertions and fault-injection points are
  left out of the modelled functions.
\<close>

end
